(* ===== verification/Prelude.thy ===== *)
theory Prelude imports Main "HOL-Library.Word" begin

text \<open>
  What the components of the Nachos model share: the types of the C integers, the ways an
  operation can fail (an \<open>ASSERT\<close> of lib/debug.h that aborts the simulator, an access the
  C++ program must not make), sequencing of fallible operations, the bounded search loop
  \<open>for (i = 0; i < n; i++) if (P(i)) return i;\<close> that the tables of the kernel repeat, and the
  little-endian byte layout of words in the simulated memory and on the simulated disk.
\<close>

unbundle bit_operations_syntax

section \<open>Machine integers\<close>

type_synonym u8 = "8 word"
type_synonym u16 = "16 word"
type_synonym u32 = "32 word"
type_synonym u64 = "64 word"

section \<open>Failures\<close>

text \<open>
  \<open>AssertFailure\<close> is the abort of the \<open>ASSERT\<close> macro; the other constructors are accesses
  that have no defined result in C++ (the process dies or reads garbage), and \<open>Diverges\<close> a loop
  that never ends. A state-changing operation of the code returns \<open>Inl\<close> of one of them, or \<open>Inr\<close> of its result.
\<close>

datatype fault = AssertFailure | NullPointer | OutOfBounds | DivideTrap | Uninitialised | Diverges

type_synonym 'a result = "fault + 'a"

definition bind_result :: "'e + 'a \<Rightarrow> ('a \<Rightarrow> 'e + 'b) \<Rightarrow> 'e + 'b" where
  "bind_result r f = (case r of Inl e \<Rightarrow> Inl e | Inr x \<Rightarrow> f x)"

definition check :: "bool \<Rightarrow> fault \<Rightarrow> 'a result \<Rightarrow> 'a result" where
  "check c e r = (if c then r else Inl e)"

abbreviation c_assert :: "bool \<Rightarrow> 'a result \<Rightarrow> 'a result" where
  "c_assert c r \<equiv> check c AssertFailure r"

named_theorems outcome_simps \<open>equations and inversions of fallible operations\<close>

lemma bind_result_simps [simp]:
  "bind_result (Inl e) f = Inl e" "bind_result (Inr x) f = f x"
  by (simp_all add: bind_result_def)

lemma bind_result_Inr [outcome_simps]:
  "bind_result r f = Inr y \<longleftrightarrow> (\<exists>x. r = Inr x \<and> f x = Inr y)"
  by (cases r) auto

lemma bind_result_Inl [outcome_simps]:
  "bind_result r f = Inl e \<longleftrightarrow> r = Inl e \<or> (\<exists>x. r = Inr x \<and> f x = Inl e)"
  by (cases r) auto

lemma check_Inr [outcome_simps]: "check c e r = Inr y \<longleftrightarrow> c \<and> r = Inr y"
  by (simp add: check_def)

lemma check_Inl [outcome_simps]: "check c e r = Inl e' \<longleftrightarrow> (\<not> c \<and> e' = e) \<or> (c \<and> r = Inl e')"
  by (auto simp: check_def)

lemma check_True [simp]: "check True e r = r" and check_False [simp]: "check False e r = Inl e"
  by (simp_all add: check_def)

lemma case_sum_eq:
  "(case r of Inl x \<Rightarrow> f x | Inr y \<Rightarrow> g y) = z \<longleftrightarrow>
     (\<exists>x. r = Inl x \<and> f x = z) \<or> (\<exists>y. r = Inr y \<and> g y = z)"
  by (cases r) auto

lemma case_prod_eq:
  "(case p of (a, b) \<Rightarrow> f a b) = z \<longleftrightarrow> (\<exists>a b. p = (a, b) \<and> f a b = z)"
  by (cases p) auto

lemmas case_eqs = case_sum_eq case_prod_eq

section \<open>C arrays\<close>

text \<open>Reading and writing an element of an array: outside its bounds C++ defines nothing.\<close>

definition arr_get :: "'a list \<Rightarrow> nat \<Rightarrow> 'a result" where
  "arr_get xs i = (if i < length xs then Inr (xs ! i) else Inl OutOfBounds)"

definition arr_set :: "'a list \<Rightarrow> nat \<Rightarrow> 'a \<Rightarrow> 'a list result" where
  "arr_set xs i v = (if i < length xs then Inr (xs[i := v]) else Inl OutOfBounds)"

lemma arr_get_in [simp]: "i < length xs \<Longrightarrow> arr_get xs i = Inr (xs ! i)"
  by (simp add: arr_get_def)

lemma arr_set_in [simp]: "i < length xs \<Longrightarrow> arr_set xs i v = Inr (xs[i := v])"
  by (simp add: arr_set_def)

lemma arr_get_Inr [outcome_simps]: "arr_get xs i = Inr v \<longleftrightarrow> i < length xs \<and> xs ! i = v"
  by (auto simp: arr_get_def)

lemma arr_set_Inr [outcome_simps]: "arr_set xs i v = Inr ys \<longleftrightarrow> i < length xs \<and> ys = xs[i := v]"
  by (auto simp: arr_set_def)

section \<open>The bounded search loop\<close>

text \<open>\<open>first_from P i k\<close> is the first index at or after \<open>i\<close>, among \<open>k\<close> of them, where \<open>P\<close> holds.\<close>

fun first_from :: "(nat \<Rightarrow> bool) \<Rightarrow> nat \<Rightarrow> nat \<Rightarrow> nat option" where
  "first_from P i 0 = None"
| "first_from P i (Suc k) = (if P i then Some i else first_from P (Suc i) k)"

abbreviation first_below :: "(nat \<Rightarrow> bool) \<Rightarrow> nat \<Rightarrow> nat option" where
  "first_below P n \<equiv> first_from P 0 n"

lemma first_from_Some:
  "first_from P i k = Some j \<longleftrightarrow> i \<le> j \<and> j < i + k \<and> P j \<and> (\<forall>l. i \<le> l \<and> l < j \<longrightarrow> \<not> P l)"
proof (induction P i k rule: first_from.induct)
  case (2 P i k)
  show ?case
  proof (cases "P i")
    case True
    then show ?thesis by (auto simp: not_less[symmetric])
  next
    case False
    have "P l \<Longrightarrow> i \<le> l \<longleftrightarrow> Suc i \<le> l" for l
      using False by (cases "i = l") auto
    with 2 False show ?thesis by auto
  qed
qed simp

lemma first_from_None: "first_from P i k = None \<longleftrightarrow> (\<forall>l. i \<le> l \<and> l < i + k \<longrightarrow> \<not> P l)"
proof (induction P i k rule: first_from.induct)
  case (1 P i)
  then show ?case by auto
next
  case (2 P i k)
  then show ?case
    by (auto simp: Suc_le_eq) (metis le_neq_implies_less)
qed

lemma first_below_Some:
  "first_below P n = Some j \<longleftrightarrow> j < n \<and> P j \<and> (\<forall>l < j. \<not> P l)"
  by (simp add: first_from_Some)

lemma first_below_None: "first_below P n = None \<longleftrightarrow> (\<forall>l < n. \<not> P l)"
  by (simp add: first_from_None)

lemma first_from_cong:
  "(\<And>l. i \<le> l \<Longrightarrow> l < i + k \<Longrightarrow> P l = Q l) \<Longrightarrow> first_from P i k = first_from Q i k"
proof (induction k arbitrary: i)
  case (Suc k)
  have "first_from P (Suc i) k = first_from Q (Suc i) k"
    by (rule Suc.IH) (simp add: Suc.prems)
  with Suc.prems show ?case by simp
qed simp

lemma first_below_unique:
  assumes "j < n" "P j" "\<And>l. l < n \<Longrightarrow> P l \<Longrightarrow> l = j"
  shows "first_below P n = Some j"
  unfolding first_below_Some using assms by (metis order.strict_trans nless_le)

text \<open>The index a C loop returns: the found one, or -1.\<close>

definition index_or_minus1 :: "nat option \<Rightarrow> int" where
  "index_or_minus1 r = (case r of Some i \<Rightarrow> int i | None \<Rightarrow> - 1)"

lemma index_or_minus1_simps [simp]:
  "index_or_minus1 (Some i) = int i" "index_or_minus1 None = - 1"
  by (simp_all add: index_or_minus1_def)

lemma index_or_minus1_eq_m1 [simp]:
  "index_or_minus1 r = - 1 \<longleftrightarrow> r = None" "- 1 = index_or_minus1 r \<longleftrightarrow> r = None"
  "index_or_minus1 r < 0 \<longleftrightarrow> r = None" "0 \<le> index_or_minus1 r \<longleftrightarrow> r \<noteq> None"
  by (cases r; simp)+

section \<open>Little-endian words\<close>

definition le_word16 :: "u8 \<Rightarrow> u8 \<Rightarrow> u16" where
  "le_word16 b0 b1 = ucast b0 OR push_bit 8 (ucast b1)"

definition le_word32 :: "u8 \<Rightarrow> u8 \<Rightarrow> u8 \<Rightarrow> u8 \<Rightarrow> u32" where
  "le_word32 b0 b1 b2 b3 =
     ucast b0 OR push_bit 8 (ucast b1) OR push_bit 16 (ucast b2) OR push_bit 24 (ucast b3)"

definition word_byte :: "nat \<Rightarrow> 'a::len word \<Rightarrow> u8" where
  "word_byte k w = ucast (drop_bit (8 * k) w)"

lemma bit_word_byte: "bit (word_byte k (w :: 'a::len word)) n \<longleftrightarrow> n < 8 \<and> bit w (8 * k + n)"
  by (auto simp: word_byte_def bit_unsigned_iff bit_drop_bit_eq dest: bit_imp_le_length)

lemma le_word16_bytes [simp]:
  "word_byte 0 (le_word16 b0 b1) = b0" "word_byte 1 (le_word16 b0 b1) = b1"
  "word_byte (Suc 0) (le_word16 b0 b1) = b1"
  by (rule bit_word_eqI;
      auto simp: bit_word_byte le_word16_def bit_or_iff bit_push_bit_iff bit_unsigned_iff
        dest: bit_imp_le_length)+

lemma le_word32_bytes [simp]:
  "word_byte 0 (le_word32 b0 b1 b2 b3) = b0" "word_byte 1 (le_word32 b0 b1 b2 b3) = b1"
  "word_byte 2 (le_word32 b0 b1 b2 b3) = b2" "word_byte 3 (le_word32 b0 b1 b2 b3) = b3"
  "word_byte (Suc 0) (le_word32 b0 b1 b2 b3) = b1"
  by (rule bit_word_eqI;
      auto simp: bit_word_byte le_word32_def bit_or_iff bit_push_bit_iff bit_unsigned_iff
        dest: bit_imp_le_length)+

lemma bit_le_word32:
  "bit (le_word32 b0 b1 b2 b3) n \<longleftrightarrow>
     (if n < 8 then bit b0 n else if n < 16 then bit b1 (n - 8)
      else if n < 24 then bit b2 (n - 16) else n < 32 \<and> bit b3 (n - 24))"
  by (auto simp: le_word32_def bit_or_iff bit_push_bit_iff bit_unsigned_iff dest: bit_imp_le_length)

lemma bit_le_word16:
  "bit (le_word16 b0 b1) n \<longleftrightarrow> (if n < 8 then bit b0 n else n < 16 \<and> bit b1 (n - 8))"
  by (auto simp: le_word16_def bit_or_iff bit_push_bit_iff bit_unsigned_iff dest: bit_imp_le_length)

lemma le_word32_of_bytes [simp]:
  "le_word32 (word_byte 0 w) (word_byte 1 w) (word_byte 2 w) (word_byte 3 w) = (w :: u32)"
  by (rule bit_word_eqI) (auto simp: bit_le_word32 bit_word_byte)

lemma le_word16_of_bytes [simp]:
  "le_word16 (word_byte 0 w) (word_byte 1 w) = (w :: u16)"
  by (rule bit_word_eqI) (auto simp: bit_le_word16 bit_word_byte)

section \<open>C strings\<close>

text \<open>The characters up to the terminating zero.\<close>

definition c_string :: "u8 list \<Rightarrow> u8 list" where
  "c_string bs = takeWhile (\<lambda>b. b \<noteq> 0) bs"

section \<open>Lists updated by index\<close>

lemma nth_update_if:
  "i < length xs \<Longrightarrow> xs[j := v] ! i = (if i = j then v else xs ! i)"
  by (cases "i = j") auto

lemma length_concat_const:
  "(\<And>x. x \<in> set xs \<Longrightarrow> length (f x) = w) \<Longrightarrow> length (concat (map f xs)) = w * length xs"
  by (induction xs) auto

end
