(* ===== verification/Bitmap.thy ===== *)
theory Bitmap imports Prelude begin

text \<open>
  lib/bitmap.h and lib/bitmap.cc: a bitmap is an array of 32-bit words, used for the disk's free
  map, the physical page frames, the process table and the semaphore table. The operations are
  modelled on the words, with their assertions; \<open>bits_of\<close> reads a bitmap as the set of its
  marked positions, and the lemmas say what each operation does to that set. The locale
  \<open>slot_allocator\<close> is the contract the tables of the kernel rely on.
\<close>

unbundle bit_operations_syntax

section \<open>State and operations\<close>

definition BitsInByte :: nat where "BitsInByte = 8"
definition BitsInWord :: nat where "BitsInWord = 4 * BitsInByte"

lemma BitsInWord_32 [simp]: "BitsInWord = 32"
  by (simp add: BitsInWord_def BitsInByte_def)

record bitmap =
  numBits :: nat
  numWords :: nat
  words :: "u32 list"

text \<open>\<open>divRoundUp\<close> of lib/utility.h; \<open>n\<close> is not negative where the code calls it.\<close>

definition divRoundUp :: "nat \<Rightarrow> nat \<Rightarrow> nat" where
  "divRoundUp n s = n div s + (if n mod s > 0 then 1 else 0)"

text \<open>The mask \<open>1 << (which % BitsInWord)\<close>.\<close>

definition bit_mask :: "nat \<Rightarrow> u32" where
  "bit_mask which = push_bit (which mod BitsInWord) 1"

definition Bitmap_Test :: "bitmap \<Rightarrow> int \<Rightarrow> bool result" where
  "Bitmap_Test b which =
     c_assert (which \<ge> 0 \<and> which < int (numBits b))
       (bind_result (arr_get (words b) (nat which div BitsInWord))
         (\<lambda>w. Inr (w AND bit_mask (nat which) \<noteq> 0)))"

definition Bitmap_Mark :: "bitmap \<Rightarrow> int \<Rightarrow> bitmap result" where
  "Bitmap_Mark b which =
     c_assert (which \<ge> 0 \<and> which < int (numBits b))
       (bind_result (arr_get (words b) (nat which div BitsInWord)) (\<lambda>w.
        bind_result (arr_set (words b) (nat which div BitsInWord) (w OR bit_mask (nat which))) (\<lambda>ws.
        let b' = b\<lparr>words := ws\<rparr>
        in bind_result (Bitmap_Test b' which) (\<lambda>t. c_assert t (Inr b')))))"

definition Bitmap_Clear :: "bitmap \<Rightarrow> int \<Rightarrow> bitmap result" where
  "Bitmap_Clear b which =
     c_assert (which \<ge> 0 \<and> which < int (numBits b))
       (bind_result (arr_get (words b) (nat which div BitsInWord)) (\<lambda>w.
        bind_result (arr_set (words b) (nat which div BitsInWord) (w AND NOT (bit_mask (nat which)))) (\<lambda>ws.
        let b' = b\<lparr>words := ws\<rparr>
        in bind_result (Bitmap_Test b' which) (\<lambda>t. c_assert (\<not> t) (Inr b')))))"

text \<open>The loop \<open>for (i = 0; i < numBits; i++) f(i);\<close> over a bitmap.\<close>

fun Bitmap_for :: "(bitmap \<Rightarrow> int \<Rightarrow> bitmap result) \<Rightarrow> bitmap \<Rightarrow> nat \<Rightarrow> nat \<Rightarrow> bitmap result" where
  "Bitmap_for f b i 0 = Inr b"
| "Bitmap_for f b i (Suc k) = bind_result (f b (int i)) (\<lambda>b'. Bitmap_for f b' (Suc i) k)"

definition Bitmap_new :: "int \<Rightarrow> bitmap result" where
  "Bitmap_new numItems =
     c_assert (numItems > 0)
       (let n = nat numItems; nw = divRoundUp n BitsInWord
        in Bitmap_for Bitmap_Clear \<lparr>numBits = n, numWords = nw, words = replicate nw 0\<rparr> 0 n)"

fun FindAndSet_loop :: "bitmap \<Rightarrow> nat \<Rightarrow> nat \<Rightarrow> (int \<times> bitmap) result" where
  "FindAndSet_loop b i 0 = Inr (- 1, b)"
| "FindAndSet_loop b i (Suc k) =
     bind_result (Bitmap_Test b (int i)) (\<lambda>t.
       if \<not> t then bind_result (Bitmap_Mark b (int i)) (\<lambda>b'. Inr (int i, b'))
       else FindAndSet_loop b (Suc i) k)"

definition Bitmap_FindAndSet :: "bitmap \<Rightarrow> (int \<times> bitmap) result" where
  "Bitmap_FindAndSet b = FindAndSet_loop b 0 (numBits b)"

fun NumClear_loop :: "bitmap \<Rightarrow> nat \<Rightarrow> nat \<Rightarrow> int \<Rightarrow> int result" where
  "NumClear_loop b i 0 count = Inr count"
| "NumClear_loop b i (Suc k) count =
     bind_result (Bitmap_Test b (int i)) (\<lambda>t.
       NumClear_loop b (Suc i) k (if \<not> t then count + 1 else count))"

definition Bitmap_NumClear :: "bitmap \<Rightarrow> int result" where
  "Bitmap_NumClear b = NumClear_loop b 0 (numBits b) 0"

text \<open>\<open>Print\<close> writes the numbers of the marked bits in increasing order.\<close>

fun Print_loop :: "bitmap \<Rightarrow> nat \<Rightarrow> nat \<Rightarrow> nat list result" where
  "Print_loop b i 0 = Inr []"
| "Print_loop b i (Suc k) =
     bind_result (Bitmap_Test b (int i)) (\<lambda>t.
     bind_result (Print_loop b (Suc i) k) (\<lambda>out. Inr (if t then i # out else out)))"

definition Bitmap_Print :: "bitmap \<Rightarrow> nat list result" where
  "Bitmap_Print b = Print_loop b 0 (numBits b)"

definition Bitmap_SelfTest :: "bitmap \<Rightarrow> bitmap result" where
  "Bitmap_SelfTest b0 =
     c_assert (numBits b0 \<ge> BitsInWord)
    (bind_result (Bitmap_NumClear b0) (\<lambda>n. c_assert (n = int (numBits b0))
    (bind_result (Bitmap_FindAndSet b0) (\<lambda>(r, b1). c_assert (r = 0)
    (bind_result (Bitmap_Mark b1 31) (\<lambda>b2.
     bind_result (Bitmap_Test b2 0) (\<lambda>t0. bind_result (Bitmap_Test b2 31) (\<lambda>t31. c_assert (t0 \<and> t31)
    (bind_result (Bitmap_FindAndSet b2) (\<lambda>(r', b3). c_assert (r' = 1)
    (bind_result (Bitmap_Clear b3 0) (\<lambda>b4.
     bind_result (Bitmap_Clear b4 1) (\<lambda>b5.
     bind_result (Bitmap_Clear b5 31) (\<lambda>b6.
     bind_result (Bitmap_for Bitmap_Mark b6 0 (numBits b6)) (\<lambda>b7.
     bind_result (Bitmap_FindAndSet b7) (\<lambda>(r'', b8). c_assert (r'' = - 1)
    (Bitmap_for Bitmap_Clear b8 0 (numBits b8))))))))))))))))))"

section \<open>The set a bitmap stands for\<close>

definition bitmap_ok :: "bitmap \<Rightarrow> bool" where
  "bitmap_ok b \<longleftrightarrow> 0 < numBits b \<and> numWords b = divRoundUp (numBits b) BitsInWord
     \<and> length (words b) = numWords b"

definition marked :: "bitmap \<Rightarrow> nat \<Rightarrow> bool" where
  "marked b i \<longleftrightarrow> bit (words b ! (i div BitsInWord)) (i mod BitsInWord)"

definition bits_of :: "bitmap \<Rightarrow> nat set" where
  "bits_of b = {i. i < numBits b \<and> marked b i}"

lemma finite_bits_of [simp]: "finite (bits_of b)"
  by (simp add: bits_of_def)

lemma bits_of_less: "i \<in> bits_of b \<Longrightarrow> i < numBits b"
  by (simp add: bits_of_def)

lemma bits_of_subset: "bits_of b \<subseteq> {..<numBits b}"
  by (auto simp: bits_of_def)

lemma divRoundUp_bound: "0 < s \<Longrightarrow> n \<le> divRoundUp n s * s"
proof -
  assume "0 < s"
  then have "n mod s \<le> s" by (simp add: less_imp_le)
  then have "n \<le> s + s * (n div s)" using mult_div_mod_eq[of s n] by linarith
  moreover have "n = s * (n div s)" if "n mod s = 0" using mult_div_mod_eq[of s n] that by linarith
  ultimately show ?thesis by (auto simp: divRoundUp_def mult.commute)
qed

lemma word_index_in:
  assumes "bitmap_ok b" "i < numBits b"
  shows "i div 32 < length (words b)"
proof -
  have "numBits b \<le> length (words b) * 32"
    using assms(1) divRoundUp_bound[of 32 "numBits b"] by (simp add: bitmap_ok_def)
  with assms(2) show ?thesis by (simp add: div_less_iff_less_mult)
qed

lemma bit_bit_mask [simp]: "bit (bit_mask i) n \<longleftrightarrow> n = i mod 32"
  by (auto simp: bit_mask_def bit_exp_iff possible_bit_def)

lemma and_mask_marked: "(w AND bit_mask i \<noteq> 0) = bit w (i mod 32)" for w :: u32
proof
  assume "w AND bit_mask i \<noteq> 0"
  then obtain n where "bit (w AND bit_mask i) n" using bit_word_eqI[of "w AND bit_mask i" 0] by auto
  then show "bit w (i mod 32)" by (auto simp: bit_and_iff)
next
  assume "bit w (i mod 32)"
  then have "bit (w AND bit_mask i) (i mod 32)" by (simp add: bit_and_iff)
  then show "w AND bit_mask i \<noteq> 0" by auto
qed

lemma Test_run [simp]:
  assumes "bitmap_ok b" "i < numBits b"
  shows "Bitmap_Test b (int i) = Inr (i \<in> bits_of b)"
  using assms word_index_in[OF assms]
  by (simp add: Bitmap_Test_def check_def and_mask_marked bits_of_def marked_def)

text \<open>An array update of one bit, seen on all positions.\<close>

lemma same_position: "i div 32 = j div 32 \<and> i mod 32 = j mod 32 \<longleftrightarrow> i = (j::nat)"
  by (metis div_mult_mod_eq)

lemma marked_word_or:
  assumes "bitmap_ok b" "i < numBits b" "j < numBits b"
  shows "marked (b\<lparr>words := (words b)[i div 32 := words b ! (i div 32) OR bit_mask i]\<rparr>) j
         \<longleftrightarrow> j = i \<or> marked b j"
  using word_index_in[OF assms(1,2)] word_index_in[OF assms(1,3)] same_position[of i j]
  by (auto simp: marked_def nth_update_if bit_or_iff)

lemma marked_word_and_not:
  assumes "bitmap_ok b" "i < numBits b" "j < numBits b"
  shows "marked (b\<lparr>words := (words b)[i div 32 := words b ! (i div 32) AND NOT (bit_mask i)]\<rparr>) j
         \<longleftrightarrow> j \<noteq> i \<and> marked b j"
  using word_index_in[OF assms(1,2)] word_index_in[OF assms(1,3)] same_position[of i j]
  by (auto simp: marked_def nth_update_if bit_and_iff bit_not_iff)

lemma bitmap_ok_words [simp]:
  "bitmap_ok b \<Longrightarrow> length ws = length (words b) \<Longrightarrow> bitmap_ok (b\<lparr>words := ws\<rparr>)"
  by (simp add: bitmap_ok_def)

text \<open>What \<open>Mark\<close> and \<open>Clear\<close> do: they succeed, and change the set at one position.\<close>

definition with_bits :: "bitmap \<Rightarrow> bitmap \<Rightarrow> nat set \<Rightarrow> bool" where
  "with_bits b b' S \<longleftrightarrow> bitmap_ok b' \<and> numBits b' = numBits b \<and> bits_of b' = S"

lemma with_bitsD [dest]:
  "with_bits b b' S \<Longrightarrow> bitmap_ok b' \<and> numBits b' = numBits b \<and> bits_of b' = S"
  by (simp add: with_bits_def)

lemma Mark_run:
  assumes "bitmap_ok b" "i < numBits b"
  obtains b' where "Bitmap_Mark b (int i) = Inr b'" "with_bits b b' (insert i (bits_of b))"
proof -
  let ?b = "b\<lparr>words := (words b)[i div 32 := words b ! (i div 32) OR bit_mask i]\<rparr>"
  have ok: "bitmap_ok ?b" using assms(1) by simp
  have bits: "bits_of ?b = insert i (bits_of b)"
    using assms marked_word_or[OF assms] by (auto simp: bits_of_def)
  have "Bitmap_Mark b (int i) = Inr ?b"
    using assms ok bits word_index_in[OF assms] Test_run[OF ok, of i]
    by (simp add: Bitmap_Mark_def Let_def)
  with ok bits show ?thesis by (intro that[of ?b]) (simp_all add: with_bits_def)
qed

lemma Clear_run:
  assumes "bitmap_ok b" "i < numBits b"
  obtains b' where "Bitmap_Clear b (int i) = Inr b'" "with_bits b b' (bits_of b - {i})"
proof -
  let ?b = "b\<lparr>words := (words b)[i div 32 := words b ! (i div 32) AND NOT (bit_mask i)]\<rparr>"
  have ok: "bitmap_ok ?b" using assms(1) by simp
  have bits: "bits_of ?b = bits_of b - {i}"
    using assms marked_word_and_not[OF assms] by (auto simp: bits_of_def)
  have "Bitmap_Clear b (int i) = Inr ?b"
    using assms ok bits word_index_in[OF assms] Test_run[OF ok, of i]
    by (simp add: Bitmap_Clear_def Let_def)
  with ok bits show ?thesis by (intro that[of ?b]) (simp_all add: with_bits_def)
qed

section \<open>The search, the count and the loops\<close>

lemma FindAndSet_loop_run:
  assumes "bitmap_ok b" "i + k \<le> numBits b"
  shows "FindAndSet_loop b i k =
    (case first_from (\<lambda>j. j \<notin> bits_of b) i k of
       None \<Rightarrow> Inr (- 1, b)
     | Some j \<Rightarrow> bind_result (Bitmap_Mark b (int j)) (\<lambda>b'. Inr (int j, b')))"
  using assms(2)
proof (induction k arbitrary: i)
  case (Suc k)
  with assms(1) show ?case by simp
qed simp

lemma FindAndSet_full:
  assumes "bitmap_ok b" "bits_of b = {..<numBits b}"
  shows "Bitmap_FindAndSet b = Inr (- 1, b)"
proof -
  have "first_below (\<lambda>j. j \<notin> bits_of b) (numBits b) = None"
    using assms(2) by (simp add: first_below_None)
  with assms(1) show ?thesis
    by (simp add: Bitmap_FindAndSet_def FindAndSet_loop_run)
qed

lemma FindAndSet_first:
  assumes "bitmap_ok b" "j < numBits b" "j \<notin> bits_of b" "\<And>l. l < j \<Longrightarrow> l \<in> bits_of b"
  obtains b' where "Bitmap_FindAndSet b = Inr (int j, b')" "with_bits b b' (insert j (bits_of b))"
proof -
  have "first_below (\<lambda>j. j \<notin> bits_of b) (numBits b) = Some j"
    using assms(2-) by (auto simp: first_below_Some)
  moreover obtain b' where "Bitmap_Mark b (int j) = Inr b'" "with_bits b b' (insert j (bits_of b))"
    using Mark_run[OF assms(1,2)] .
  ultimately show ?thesis
    using assms(1) by (intro that[of b']) (simp_all add: Bitmap_FindAndSet_def FindAndSet_loop_run)
qed

text \<open>The two outcomes of \<open>FindAndSet\<close>: the lowest clear position, or -1 on a full bitmap.\<close>

lemma FindAndSet_cases:
  assumes "bitmap_ok b"
  obtains (full) "Bitmap_FindAndSet b = Inr (- 1, b)" "bits_of b = {..<numBits b}"
  | (found) j b' where "Bitmap_FindAndSet b = Inr (int j, b')" "j < numBits b" "j \<notin> bits_of b"
      "\<And>l. l < j \<Longrightarrow> l \<in> bits_of b" "with_bits b b' (insert j (bits_of b))"
proof (cases "bits_of b = {..<numBits b}")
  case True
  then show ?thesis using full FindAndSet_full[OF assms] by blast
next
  case False
  then obtain i where i: "i < numBits b" "i \<notin> bits_of b"
    using bits_of_subset[of b] by blast
  then obtain j where j: "first_below (\<lambda>j. j \<notin> bits_of b) (numBits b) = Some j"
    using first_below_None[of "\<lambda>j. j \<notin> bits_of b"] by fastforce
  then have "j < numBits b" "j \<notin> bits_of b" "\<And>l. l < j \<Longrightarrow> l \<in> bits_of b"
    by (auto simp: first_below_Some)
  with FindAndSet_first[OF assms this] show ?thesis using found by blast
qed

lemma NumClear_loop_run:
  assumes "bitmap_ok b" "i + k \<le> numBits b"
  shows "NumClear_loop b i k c = Inr (c + int (card ({i..<i + k} - bits_of b)))"
  using assms(2)
proof (induction k arbitrary: i c)
  case (Suc k)
  have "{i..<i + Suc k} = insert i {Suc i..<Suc i + k}" by auto
  moreover have "i \<notin> {Suc i..<Suc i + k} - bits_of b" by simp
  ultimately have "card ({i..<i + Suc k} - bits_of b) =
      (if i \<in> bits_of b then 0 else 1) + card ({Suc i..<Suc i + k} - bits_of b)"
    by (simp add: insert_Diff_if)
  moreover have "Suc i + k \<le> numBits b" "i < numBits b" using Suc.prems by simp_all
  ultimately show ?case
    using Suc.IH[of "Suc i"] assms(1) by simp
qed simp

lemma NumClear_run [simp]:
  assumes "bitmap_ok b"
  shows "Bitmap_NumClear b = Inr (int (numBits b - card (bits_of b)))"
proof -
  have "card ({0..<numBits b} - bits_of b) = numBits b - card (bits_of b)"
    by (subst card_Diff_subset) (auto simp: bits_of_def)
  then show ?thesis
    using NumClear_loop_run[OF assms, of 0 "numBits b" 0] by (simp add: Bitmap_NumClear_def)
qed

lemma Print_loop_run:
  assumes "bitmap_ok b" "i + k \<le> numBits b"
  shows "Print_loop b i k = Inr (filter (\<lambda>j. j \<in> bits_of b) [i..<i + k])"
  using assms(2)
proof (induction k arbitrary: i)
  case (Suc k)
  have "[i..<i + Suc k] = i # [Suc i..<Suc i + k]" by (simp add: upt_conv_Cons)
  with Suc assms(1) show ?case by simp
qed simp

lemma for_Mark_run:
  assumes "bitmap_ok b" "i + k \<le> numBits b"
  shows "\<exists>b'. Bitmap_for Bitmap_Mark b i k = Inr b' \<and> with_bits b b' (bits_of b \<union> {i..<i + k})"
  using assms
proof (induction k arbitrary: b i)
  case 0
  then show ?case by (simp add: with_bits_def)
next
  case (Suc k)
  obtain b1 where b1: "Bitmap_Mark b (int i) = Inr b1" "with_bits b b1 (insert i (bits_of b))"
    using Mark_run[of b i] Suc.prems by auto
  have "\<exists>b'. Bitmap_for Bitmap_Mark b1 (Suc i) k = Inr b'
      \<and> with_bits b1 b' (bits_of b1 \<union> {Suc i..<Suc i + k})"
    using Suc.IH[of b1 "Suc i"] b1(2) Suc.prems by auto
  moreover have "{i..<i + Suc k} = insert i {Suc i..<Suc i + k}" by auto
  ultimately show ?case using b1 by (auto simp: with_bits_def)
qed

lemma for_Clear_run:
  assumes "bitmap_ok b" "i + k \<le> numBits b"
  shows "\<exists>b'. Bitmap_for Bitmap_Clear b i k = Inr b' \<and> with_bits b b' (bits_of b - {i..<i + k})"
  using assms
proof (induction k arbitrary: b i)
  case 0
  then show ?case by (simp add: with_bits_def)
next
  case (Suc k)
  obtain b1 where b1: "Bitmap_Clear b (int i) = Inr b1" "with_bits b b1 (bits_of b - {i})"
    using Clear_run[of b i] Suc.prems by auto
  have "\<exists>b'. Bitmap_for Bitmap_Clear b1 (Suc i) k = Inr b'
      \<and> with_bits b1 b' (bits_of b1 - {Suc i..<Suc i + k})"
    using Suc.IH[of b1 "Suc i"] b1(2) Suc.prems by auto
  moreover have "{i..<i + Suc k} = insert i {Suc i..<Suc i + k}" by auto
  ultimately show ?case using b1 by (auto simp: with_bits_def)
qed

lemma Bitmap_new_run:
  assumes "0 < n"
  obtains b where "Bitmap_new n = Inr b" "bitmap_ok b" "numBits b = nat n" "bits_of b = {}"
proof -
  let ?b = "\<lparr>numBits = nat n, numWords = divRoundUp (nat n) BitsInWord,
             words = replicate (divRoundUp (nat n) BitsInWord) 0\<rparr>"
  have ok: "bitmap_ok ?b" using assms by (simp add: bitmap_ok_def)
  obtain b where b: "Bitmap_for Bitmap_Clear ?b 0 (nat n) = Inr b"
      "with_bits ?b b (bits_of ?b - {0..<0 + nat n})"
    using for_Clear_run[OF ok, of 0 "nat n"] by auto
  then have "Bitmap_new n = Inr b"
    using assms by (simp add: Bitmap_new_def Let_def)
  moreover have "bits_of b = {}" using b(2) bits_of_less[of _ ?b] by (auto simp: with_bits_def)
  ultimately show ?thesis using that[of b] b(2) by (auto simp: with_bits_def)
qed

section \<open>The allocator contract\<close>

text \<open>
  What the disk's free map, the frame map and the kernel tables use a bitmap for: \<open>fas\<close> takes
  the lowest free slot, \<open>clr\<close> gives one back. The client loop below is the allocation loop of
  \<open>FileHeader::Allocate\<close> and \<open>AddrSpace::Load\<close>.
\<close>

fun alloc_loop :: "('b \<Rightarrow> (int \<times> 'b) result) \<Rightarrow> nat \<Rightarrow> 'b \<Rightarrow> (int list \<times> 'b) result" where
  "alloc_loop fas 0 b = Inr ([], b)"
| "alloc_loop fas (Suc k) b =
     bind_result (fas b) (\<lambda>(r, b').
     bind_result (alloc_loop fas k b') (\<lambda>(rs, b''). Inr (r # rs, b'')))"

locale slot_allocator =
  fixes inv :: "'b \<Rightarrow> bool"
    and size_of :: "'b \<Rightarrow> nat"
    and used :: "'b \<Rightarrow> nat set"
    and fas :: "'b \<Rightarrow> (int \<times> 'b) result"
    and clr :: "'b \<Rightarrow> int \<Rightarrow> 'b result"
  assumes used_bound: "inv b \<Longrightarrow> used b \<subseteq> {..<size_of b}"
    and fas_free: "inv b \<Longrightarrow> card (used b) < size_of b \<Longrightarrow>
      \<exists>j b'. fas b = Inr (int j, b') \<and> j \<notin> used b \<and> j < size_of b \<and>
        inv b' \<and> size_of b' = size_of b \<and> used b' = insert j (used b)"
    and fas_none: "inv b \<Longrightarrow> size_of b \<le> card (used b) \<Longrightarrow> fas b = Inr (- 1, b)"
    and clr_used: "inv b \<Longrightarrow> j < size_of b \<Longrightarrow>
      \<exists>b'. clr b (int j) = Inr b' \<and> inv b' \<and> size_of b' = size_of b \<and> used b' = used b - {j}"
begin

text \<open>With enough room, the loop takes \<open>k\<close> different free slots and no others.\<close>

lemma alloc_loop_fresh:
  assumes "inv b" "card (used b) + k \<le> size_of b"
  shows "\<exists>js b'. alloc_loop fas k b = Inr (map int js, b') \<and> length js = k \<and> distinct js
    \<and> set js \<inter> used b = {} \<and> set js \<subseteq> {..<size_of b}
    \<and> inv b' \<and> size_of b' = size_of b \<and> used b' = used b \<union> set js"
  using assms
proof (induction k arbitrary: b)
  case 0
  then show ?case by (intro exI[of _ "[]"]) simp
next
  case (Suc k)
  then have "card (used b) < size_of b" by simp
  then obtain j b1 where j: "fas b = Inr (int j, b1)" "j \<notin> used b" "j < size_of b" "inv b1"
      "size_of b1 = size_of b" "used b1 = insert j (used b)"
    using fas_free[OF Suc.prems(1)] by blast
  have "finite (used b)"
    using used_bound[OF Suc.prems(1)] by (rule finite_subset) simp
  then have "card (used b1) + k \<le> size_of b1" using Suc.prems(2) j by simp
  from Suc.IH[OF j(4) this] obtain js b2 where "alloc_loop fas k b1 = Inr (map int js, b2)"
      "length js = k" "distinct js" "set js \<inter> used b1 = {}" "set js \<subseteq> {..<size_of b1}"
      "inv b2" "size_of b2 = size_of b1" "used b2 = used b1 \<union> set js"
    by blast
  with j show ?case by (intro exI[of _ "j # js"] exI[of _ b2]) auto
qed

text \<open>Giving back what was just taken restores the set of used slots.\<close>

lemma fas_then_clr:
  assumes "inv b" "fas b = Inr (r, b1)" "r \<noteq> - 1"
  shows "\<exists>b2. clr b1 r = Inr b2 \<and> inv b2 \<and> used b2 = used b"
proof -
  have "card (used b) < size_of b"
    using fas_none[OF assms(1)] assms(2,3) by (cases "size_of b \<le> card (used b)") auto
  from fas_free[OF assms(1) this] obtain j where j: "r = int j" "j \<notin> used b" "inv b1" "j < size_of b1"
      "used b1 = insert j (used b)"
    using assms(2) by auto
  from clr_used[OF j(3,4)] j show ?thesis by auto
qed

end

interpretation bitmap_slots: slot_allocator bitmap_ok numBits bits_of Bitmap_FindAndSet Bitmap_Clear
proof
  fix b assume ok: "bitmap_ok b"
  show "bits_of b \<subseteq> {..<numBits b}" by (rule bits_of_subset)
  show "\<exists>j b'. Bitmap_FindAndSet b = Inr (int j, b') \<and> j \<notin> bits_of b \<and> j < numBits b \<and>
      bitmap_ok b' \<and> numBits b' = numBits b \<and> bits_of b' = insert j (bits_of b)"
    if "card (bits_of b) < numBits b"
    using ok that by (cases rule: FindAndSet_cases) (auto simp: with_bits_def)
  show "Bitmap_FindAndSet b = Inr (- 1, b)" if "numBits b \<le> card (bits_of b)"
    using ok card_seteq[OF _ bits_of_subset, of b] that FindAndSet_full by auto
  show "\<exists>b'. Bitmap_Clear b (int j) = Inr b' \<and> bitmap_ok b' \<and> numBits b' = numBits b
      \<and> bits_of b' = bits_of b - {j}" if "j < numBits b" for j
    using Clear_run[OF ok that] by (auto simp: with_bits_def)
qed

section \<open>Properties\<close>

lemma SelfTest_run:
  assumes ok: "bitmap_ok b0" and empty: "bits_of b0 = {}" and big: "32 \<le> numBits b0"
  shows "\<exists>b'. Bitmap_SelfTest b0 = Inr b' \<and> with_bits b0 b' {}"
proof -
  let ?n = "numBits b0"
  obtain b1 where b1: "Bitmap_FindAndSet b0 = Inr (int 0, b1)" "with_bits b0 b1 {0}"
    using FindAndSet_first[OF ok, of 0] empty big by auto
  obtain b2 where b2: "Bitmap_Mark b1 (int 31) = Inr b2" "with_bits b1 b2 {31, 0}"
    using Mark_run[of b1 31] b1(2) big by (auto simp: with_bits_def)
  obtain b3 where b3: "Bitmap_FindAndSet b2 = Inr (int 1, b3)" "with_bits b2 b3 {1, 31, 0}"
    using FindAndSet_first[of b2 1] b1(2) b2(2) big by (auto simp: with_bits_def)
  obtain b4 where b4: "Bitmap_Clear b3 (int 0) = Inr b4" "with_bits b3 b4 {1, 31}"
    using Clear_run[of b3 0] b1(2) b2(2) b3(2) big by (auto simp: with_bits_def insert_Diff_if)
  obtain b5 where b5: "Bitmap_Clear b4 (int 1) = Inr b5" "with_bits b4 b5 {31}"
    using Clear_run[of b4 1] b1(2) b2(2) b3(2) b4(2) big by (auto simp: with_bits_def insert_Diff_if)
  obtain b6 where b6: "Bitmap_Clear b5 (int 31) = Inr b6" "with_bits b5 b6 {}"
    using Clear_run[of b5 31] b1(2) b2(2) b3(2) b4(2) b5(2) big
    by (auto simp: with_bits_def insert_Diff_if)
  have sizes: "bitmap_ok b6" "numBits b6 = ?n" "bits_of b6 = {}"
    using b1(2) b2(2) b3(2) b4(2) b5(2) b6(2) by (simp_all add: with_bits_def)
  obtain b7 where b7: "Bitmap_for Bitmap_Mark b6 0 ?n = Inr b7" "with_bits b6 b7 {0..<?n}"
    using for_Mark_run[of b6 0 ?n] sizes by auto
  have full: "Bitmap_FindAndSet b7 = Inr (- 1, b7)"
    using FindAndSet_full[of b7] b7(2) sizes by (simp add: with_bits_def atLeast0LessThan)
  obtain b8 where b8: "Bitmap_for Bitmap_Clear b7 0 ?n = Inr b8" "with_bits b7 b8 {}"
    using for_Clear_run[of b7 0 ?n] b7(2) sizes by (auto simp: with_bits_def)
  have t0: "Bitmap_Test b2 0 = Inr True" and t31: "Bitmap_Test b2 31 = Inr True"
    using Test_run[of b2 0] Test_run[of b2 31] b1(2) b2(2) big by (auto simp: with_bits_def)
  have sz7: "numBits b7 = ?n" using b7(2) sizes by (simp add: with_bits_def)
  have "Bitmap_SelfTest b0 = Inr b8"
    using b1(1) b2(1) b3(1) b4(1) b5(1) b6(1) b7(1) b8(1) full t0 t31 big ok empty sizes(2) sz7
    by (simp add: Bitmap_SelfTest_def)
  with b8(2) sz7 show ?thesis by (auto simp: with_bits_def)
qed

text \<open>
  C40: \<open>Bitmap::FindAndSet\<close> hands out the lowest clear bit and marks it and nothing else; it
  returns -1, and changes nothing, exactly when every bit is marked.
\<close>

theorem FindAndSet_lowest_clear:
  assumes "bitmap_ok b"
  shows "\<exists>r b'. Bitmap_FindAndSet b = Inr (r, b') \<and> bitmap_ok b' \<and> numBits b' = numBits b
    \<and> (if bits_of b = {..<numBits b} then r = - 1 \<and> b' = b
       else r = int (LEAST j. j \<notin> bits_of b) \<and> nat r < numBits b
            \<and> bits_of b' = insert (nat r) (bits_of b))"
  using assms
proof (cases rule: FindAndSet_cases)
  case full
  then show ?thesis using assms by simp
next
  case (found j b')
  have "(LEAST j. j \<notin> bits_of b) = j"
    by (rule Least_equality) (use found not_le in blast)+
  moreover have "bits_of b \<noteq> {..<numBits b}" using found(2,3) by auto
  ultimately show ?thesis using found by (auto simp: with_bits_def)
qed

theorem FindAndSet_lowest_clear_witness:
  "\<exists>b'. Bitmap_FindAndSet \<lparr>numBits = 3, numWords = 1, words = [5]\<rparr> = Inr (1, b')
     \<and> bits_of b' = {0, 1, 2}"
proof -
  define b where "b = \<lparr>numBits = 3, numWords = 1, words = [5]\<rparr>"
  have ok: "bitmap_ok b" by (simp add: b_def bitmap_ok_def divRoundUp_def)
  have three: "i < 3 \<longleftrightarrow> i = 0 \<or> i = 1 \<or> i = 2" for i :: nat by arith
  have bits: "bits_of b = {0, 2}"
    by (auto simp: b_def bits_of_def marked_def three)
  have least: "(LEAST j. j \<notin> bits_of b) = 1"
    by (rule Least_equality) (auto simp: bits intro: Suc_leI gr0I)
  have size: "numBits b = 3" by (simp add: b_def)
  have room: "bits_of b \<noteq> {..<3}" unfolding bits by (auto simp: set_eq_iff intro!: exI[of _ 1])
  obtain r b' where r: "Bitmap_FindAndSet b = Inr (r, b')" "r = int 1"
      "bits_of b' = insert (nat r) (bits_of b)"
    using FindAndSet_lowest_clear[OF ok] unfolding size if_not_P[OF room] least by blast
  show ?thesis unfolding b_def[symmetric] using r bits by auto
qed

text \<open>
  The module's own \<open>SelfTest\<close> passes: on every bitmap of at least one word that the
  constructor returns, no assertion of the test or of the operations it calls fails, and the
  test leaves the bitmap empty.
\<close>

theorem SelfTest_passes:
  assumes "32 \<le> n"
  shows "\<exists>b b'. Bitmap_new n = Inr b \<and> Bitmap_SelfTest b = Inr b' \<and> numBits b' = nat n \<and> bits_of b' = {}"
proof -
  obtain b where "Bitmap_new n = Inr b" "bitmap_ok b" "numBits b = nat n" "bits_of b = {}"
    using Bitmap_new_run[of n] assms by auto
  moreover from this obtain b' where "Bitmap_SelfTest b = Inr b'" "with_bits b b' {}"
    using SelfTest_run[of b] assms nat_mono[OF assms] by auto
  ultimately show ?thesis by (auto simp: with_bits_def)
qed

theorem SelfTest_passes_witness:
  "\<exists>b b'. Bitmap_new 200 = Inr b \<and> Bitmap_SelfTest b = Inr b' \<and> numBits b' = 200 \<and> bits_of b' = {}"
  using SelfTest_passes[of 200] by simp

end
