(* ===== verification/Mips_Decode.thy ===== *)
theory Mips_Decode imports Prelude begin

text \<open>
  The instruction formats of machine/mipssim.h and the decoder of machine/mipssim.cc: the
  opcodes, the two translation tables, \<open>Instruction::Decode\<close>, and the table the debugger
  prints instructions from. A 32-bit instruction is a word; the decoded instruction is a record.
  The last section gives the MIPS field layout as an encoder, and shows that the decoder inverts it.
\<close>

unbundle bit_operations_syntax

section \<open>Opcodes and tables\<close>

datatype (plugins only: size) opcode =
    OP_ADD | OP_ADDI | OP_ADDIU | OP_ADDU | OP_AND | OP_ANDI | OP_BEQ | OP_BGEZ
  | OP_BGEZAL | OP_BGTZ | OP_BLEZ | OP_BLTZ | OP_BLTZAL | OP_BNE | OP_DIV | OP_DIVU
  | OP_J | OP_JAL | OP_JALR | OP_JR | OP_LB | OP_LBU | OP_LH | OP_LHU
  | OP_LUI | OP_LW | OP_LWL | OP_LWR | OP_MFHI | OP_MFLO | OP_MTHI | OP_MTLO
  | OP_MULT | OP_MULTU | OP_NOR | OP_OR | OP_ORI | OP_RFE | OP_SB | OP_SH
  | OP_SLL | OP_SLLV | OP_SLT | OP_SLTI | OP_SLTIU | OP_SLTU | OP_SRA | OP_SRAV
  | OP_SRL | OP_SRLV | OP_SUB | OP_SUBU | OP_SW | OP_SWL | OP_SWR | OP_XOR
  | OP_XORI | OP_SYSCALL | OP_UNIMP | OP_RES | SPECIAL | BCOND

text \<open>The numbers the header gives the opcodes.\<close>

fun opcode_num :: "opcode \<Rightarrow> nat" where
  "opcode_num OP_ADD = 1" | "opcode_num OP_ADDI = 2" | "opcode_num OP_ADDIU = 3"
| "opcode_num OP_ADDU = 4" | "opcode_num OP_AND = 5" | "opcode_num OP_ANDI = 6"
| "opcode_num OP_BEQ = 7" | "opcode_num OP_BGEZ = 8" | "opcode_num OP_BGEZAL = 9"
| "opcode_num OP_BGTZ = 10" | "opcode_num OP_BLEZ = 11" | "opcode_num OP_BLTZ = 12"
| "opcode_num OP_BLTZAL = 13" | "opcode_num OP_BNE = 14" | "opcode_num OP_DIV = 16"
| "opcode_num OP_DIVU = 17" | "opcode_num OP_J = 18" | "opcode_num OP_JAL = 19"
| "opcode_num OP_JALR = 20" | "opcode_num OP_JR = 21" | "opcode_num OP_LB = 22"
| "opcode_num OP_LBU = 23" | "opcode_num OP_LH = 24" | "opcode_num OP_LHU = 25"
| "opcode_num OP_LUI = 26" | "opcode_num OP_LW = 27" | "opcode_num OP_LWL = 28"
| "opcode_num OP_LWR = 29" | "opcode_num OP_MFHI = 31" | "opcode_num OP_MFLO = 32"
| "opcode_num OP_MTHI = 34" | "opcode_num OP_MTLO = 35" | "opcode_num OP_MULT = 36"
| "opcode_num OP_MULTU = 37" | "opcode_num OP_NOR = 38" | "opcode_num OP_OR = 39"
| "opcode_num OP_ORI = 40" | "opcode_num OP_RFE = 41" | "opcode_num OP_SB = 42"
| "opcode_num OP_SH = 43" | "opcode_num OP_SLL = 44" | "opcode_num OP_SLLV = 45"
| "opcode_num OP_SLT = 46" | "opcode_num OP_SLTI = 47" | "opcode_num OP_SLTIU = 48"
| "opcode_num OP_SLTU = 49" | "opcode_num OP_SRA = 50" | "opcode_num OP_SRAV = 51"
| "opcode_num OP_SRL = 52" | "opcode_num OP_SRLV = 53" | "opcode_num OP_SUB = 54"
| "opcode_num OP_SUBU = 55" | "opcode_num OP_SW = 56" | "opcode_num OP_SWL = 57"
| "opcode_num OP_SWR = 58" | "opcode_num OP_XOR = 59" | "opcode_num OP_XORI = 60"
| "opcode_num OP_SYSCALL = 61" | "opcode_num OP_UNIMP = 62" | "opcode_num OP_RES = 63"
| "opcode_num SPECIAL = 100" | "opcode_num BCOND = 101"

definition MaxOpcode :: nat where "MaxOpcode = 63"

definition numbered_opcodes :: "(nat \<times> opcode) list" where
  "numbered_opcodes = [
  (1, OP_ADD), (2, OP_ADDI), (3, OP_ADDIU), (4, OP_ADDU), (5, OP_AND), (6, OP_ANDI), (7, OP_BEQ),
    (8, OP_BGEZ), (9, OP_BGEZAL), (10, OP_BGTZ), (11, OP_BLEZ), (12, OP_BLTZ), (13, OP_BLTZAL),
    (14, OP_BNE), (16, OP_DIV), (17, OP_DIVU), (18, OP_J), (19, OP_JAL), (20, OP_JALR),
    (21, OP_JR), (22, OP_LB), (23, OP_LBU), (24, OP_LH), (25, OP_LHU), (26, OP_LUI), (27, OP_LW),
    (28, OP_LWL), (29, OP_LWR), (31, OP_MFHI), (32, OP_MFLO), (34, OP_MTHI), (35, OP_MTLO),
    (36, OP_MULT), (37, OP_MULTU), (38, OP_NOR), (39, OP_OR), (40, OP_ORI), (41, OP_RFE),
    (42, OP_SB), (43, OP_SH), (44, OP_SLL), (45, OP_SLLV), (46, OP_SLT), (47, OP_SLTI),
    (48, OP_SLTIU), (49, OP_SLTU), (50, OP_SRA), (51, OP_SRAV), (52, OP_SRL), (53, OP_SRLV),
    (54, OP_SUB), (55, OP_SUBU), (56, OP_SW), (57, OP_SWL), (58, OP_SWR), (59, OP_XOR),
    (60, OP_XORI), (61, OP_SYSCALL), (62, OP_UNIMP), (63, OP_RES), (100, SPECIAL), (101, BCOND)]"

lemma numbered_opcodes: "map_of numbered_opcodes (opcode_num a) = Some a"
  by (cases a) (simp_all add: numbered_opcodes_def)

lemma opcode_num_inject: "opcode_num a = opcode_num b \<Longrightarrow> a = b"
  by (metis numbered_opcodes option.inject)

instantiation opcode :: equal
begin

definition equal_opcode :: "opcode \<Rightarrow> opcode \<Rightarrow> bool" where
  "equal_opcode a b \<longleftrightarrow> opcode_num a = opcode_num b"

instance
  by standard (auto simp: equal_opcode_def intro: opcode_num_inject)

end

instantiation opcode :: linorder
begin

definition less_eq_opcode :: "opcode \<Rightarrow> opcode \<Rightarrow> bool" where
  "less_eq_opcode a b \<longleftrightarrow> opcode_num a \<le> opcode_num b"

definition less_opcode :: "opcode \<Rightarrow> opcode \<Rightarrow> bool" where
  "less_opcode a b \<longleftrightarrow> opcode_num a < opcode_num b"

instance
  by standard (auto simp: less_eq_opcode_def less_opcode_def intro: opcode_num_inject)

end

datatype op_format = IFMT | JFMT | RFMT

definition opTable :: "(opcode \<times> op_format) list" where
  "opTable = [
   (SPECIAL, RFMT), (BCOND, IFMT), (OP_J, JFMT), (OP_JAL, JFMT),
   (OP_BEQ, IFMT), (OP_BNE, IFMT), (OP_BLEZ, IFMT), (OP_BGTZ, IFMT),
   (OP_ADDI, IFMT), (OP_ADDIU, IFMT), (OP_SLTI, IFMT), (OP_SLTIU, IFMT),
   (OP_ANDI, IFMT), (OP_ORI, IFMT), (OP_XORI, IFMT), (OP_LUI, IFMT),
   (OP_UNIMP, IFMT), (OP_UNIMP, IFMT), (OP_UNIMP, IFMT), (OP_UNIMP, IFMT),
   (OP_RES, IFMT), (OP_RES, IFMT), (OP_RES, IFMT), (OP_RES, IFMT),
   (OP_RES, IFMT), (OP_RES, IFMT), (OP_RES, IFMT), (OP_RES, IFMT),
   (OP_RES, IFMT), (OP_RES, IFMT), (OP_RES, IFMT), (OP_RES, IFMT),
   (OP_LB, IFMT), (OP_LH, IFMT), (OP_LWL, IFMT), (OP_LW, IFMT),
   (OP_LBU, IFMT), (OP_LHU, IFMT), (OP_LWR, IFMT), (OP_RES, IFMT),
   (OP_SB, IFMT), (OP_SH, IFMT), (OP_SWL, IFMT), (OP_SW, IFMT),
   (OP_RES, IFMT), (OP_RES, IFMT), (OP_SWR, IFMT), (OP_RES, IFMT),
   (OP_UNIMP, IFMT), (OP_UNIMP, IFMT), (OP_UNIMP, IFMT), (OP_UNIMP, IFMT),
   (OP_RES, IFMT), (OP_RES, IFMT), (OP_RES, IFMT), (OP_RES, IFMT),
   (OP_UNIMP, IFMT), (OP_UNIMP, IFMT), (OP_UNIMP, IFMT), (OP_UNIMP, IFMT),
   (OP_RES, IFMT), (OP_RES, IFMT), (OP_RES, IFMT), (OP_RES, IFMT)]"

definition specialTable :: "opcode list" where
  "specialTable = [
   OP_SLL, OP_RES, OP_SRL, OP_SRA, OP_SLLV, OP_RES, OP_SRLV, OP_SRAV,
   OP_JR, OP_JALR, OP_RES, OP_RES, OP_SYSCALL, OP_UNIMP, OP_RES, OP_RES,
   OP_MFHI, OP_MTHI, OP_MFLO, OP_MTLO, OP_RES, OP_RES, OP_RES, OP_RES,
   OP_MULT, OP_MULTU, OP_DIV, OP_DIVU, OP_RES, OP_RES, OP_RES, OP_RES,
   OP_ADD, OP_ADDU, OP_SUB, OP_SUBU, OP_AND, OP_OR, OP_XOR, OP_NOR,
   OP_RES, OP_RES, OP_SLT, OP_SLTU, OP_RES, OP_RES, OP_RES, OP_RES,
   OP_RES, OP_RES, OP_RES, OP_RES, OP_RES, OP_RES, OP_RES, OP_RES,
   OP_RES, OP_RES, OP_RES, OP_RES, OP_RES, OP_RES, OP_RES, OP_RES]"

lemma length_opTable [simp]: "length opTable = 64"
  by (simp add: opTable_def)

lemma length_specialTable [simp]: "length specialTable = 64"
  by (simp add: specialTable_def)

section \<open>The decoder\<close>

record instruction =
  opCode :: opcode
  i_rs :: nat
  i_rt :: nat
  i_rd :: nat
  extra :: u32

definition field :: "nat \<Rightarrow> u32 \<Rightarrow> u32 \<Rightarrow> u32" where
  "field sh m v = drop_bit sh v AND m"

definition bcond_opcode :: "u32 \<Rightarrow> opcode" where
  "bcond_opcode v =
     (let i = v AND 0x1f0000 in
      if i = 0 then OP_BLTZ
      else if i = 0x10000 then OP_BGEZ
      else if i = 0x100000 then OP_BLTZAL
      else if i = 0x110000 then OP_BGEZAL
      else OP_UNIMP)"

definition decode_extra :: "op_format \<Rightarrow> u32 \<Rightarrow> u32" where
  "decode_extra f v =
     (case f of
        IFMT \<Rightarrow> let e = v AND 0xffff in if e AND 0x8000 \<noteq> 0 then e OR 0xffff0000 else e
      | RFMT \<Rightarrow> field 6 0x1f v
      | JFMT \<Rightarrow> v AND 0x3ffffff)"

definition Instruction_Decode :: "u32 \<Rightarrow> instruction" where
  "Instruction_Decode v =
     (let (opc, f) = opTable ! unat (field 26 0x3f v)
      in \<lparr>opCode = (if opc = SPECIAL then specialTable ! unat (v AND 0x3f)
                   else if opc = BCOND then bcond_opcode v
                   else opc),
          i_rs = unat (field 21 0x1f v),
          i_rt = unat (field 16 0x1f v),
          i_rd = unat (field 11 0x1f v),
          extra = decode_extra f v\<rparr>)"

section \<open>The debugger's table\<close>

datatype RegType = NONE | RS | RT | RD | EXTRA

fun TypeToReg :: "RegType \<Rightarrow> instruction \<Rightarrow> u32" where
  "TypeToReg RS i = of_nat (i_rs i)"
| "TypeToReg RT i = of_nat (i_rt i)"
| "TypeToReg RD i = of_nat (i_rd i)"
| "TypeToReg EXTRA i = extra i"
| "TypeToReg NONE i = - 1"

definition opStrings :: "(string \<times> RegType list) list" where
  "opStrings = [
   (''Shouldn't happen'', [NONE, NONE, NONE]), (''ADD r%d,r%d,r%d'', [RD, RS, RT]),
   (''ADDI r%d,r%d,%d'', [RT, RS, EXTRA]), (''ADDIU r%d,r%d,%d'', [RT, RS, EXTRA]),
   (''ADDU r%d,r%d,r%d'', [RD, RS, RT]), (''AND r%d,r%d,r%d'', [RD, RS, RT]),
   (''ANDI r%d,r%d,%d'', [RT, RS, EXTRA]), (''BEQ r%d,r%d,%d'', [RS, RT, EXTRA]),
   (''BGEZ r%d,%d'', [RS, EXTRA, NONE]), (''BGEZAL r%d,%d'', [RS, EXTRA, NONE]),
   (''BGTZ r%d,%d'', [RS, EXTRA, NONE]), (''BLEZ r%d,%d'', [RS, EXTRA, NONE]),
   (''BLTZ r%d,%d'', [RS, EXTRA, NONE]), (''BLTZAL r%d,%d'', [RS, EXTRA, NONE]),
   (''BNE r%d,r%d,%d'', [RS, RT, EXTRA]), (''Shouldn't happen'', [NONE, NONE, NONE]),
   (''DIV r%d,r%d'', [RS, RT, NONE]), (''DIVU r%d,r%d'', [RS, RT, NONE]),
   (''J %d'', [EXTRA, NONE, NONE]), (''JAL %d'', [EXTRA, NONE, NONE]),
   (''JALR r%d,r%d'', [RD, RS, NONE]), (''JR r%d,r%d'', [RD, RS, NONE]),
   (''LB r%d,%d(r%d)'', [RT, EXTRA, RS]), (''LBU r%d,%d(r%d)'', [RT, EXTRA, RS]),
   (''LH r%d,%d(r%d)'', [RT, EXTRA, RS]), (''LHU r%d,%d(r%d)'', [RT, EXTRA, RS]),
   (''LUI r%d,%d'', [RT, EXTRA, NONE]), (''LW r%d,%d(r%d)'', [RT, EXTRA, RS]),
   (''LWL r%d,%d(r%d)'', [RT, EXTRA, RS]), (''LWR r%d,%d(r%d)'', [RT, EXTRA, RS]),
   (''Shouldn't happen'', [NONE, NONE, NONE]), (''MFHI r%d'', [RD, NONE, NONE]),
   (''MFLO r%d'', [RD, NONE, NONE]), (''Shouldn't happen'', [NONE, NONE, NONE]),
   (''MTHI r%d'', [RS, NONE, NONE]), (''MTLO r%d'', [RS, NONE, NONE]),
   (''MULT r%d,r%d'', [RS, RT, NONE]), (''MULTU r%d,r%d'', [RS, RT, NONE]),
   (''NOR r%d,r%d,r%d'', [RD, RS, RT]), (''OR r%d,r%d,r%d'', [RD, RS, RT]),
   (''ORI r%d,r%d,%d'', [RT, RS, EXTRA]), (''RFE'', [NONE, NONE, NONE]),
   (''SB r%d,%d(r%d)'', [RT, EXTRA, RS]), (''SH r%d,%d(r%d)'', [RT, EXTRA, RS]),
   (''SLL r%d,r%d,%d'', [RD, RT, EXTRA]), (''SLLV r%d,r%d,r%d'', [RD, RT, RS]),
   (''SLT r%d,r%d,r%d'', [RD, RS, RT]), (''SLTI r%d,r%d,%d'', [RT, RS, EXTRA]),
   (''SLTIU r%d,r%d,%d'', [RT, RS, EXTRA]), (''SLTU r%d,r%d,r%d'', [RD, RS, RT]),
   (''SRA r%d,r%d,%d'', [RD, RT, EXTRA]), (''SRAV r%d,r%d,r%d'', [RD, RT, RS]),
   (''SRL r%d,r%d,%d'', [RD, RT, EXTRA]), (''SRLV r%d,r%d,r%d'', [RD, RT, RS]),
   (''SUB r%d,r%d,r%d'', [RD, RS, RT]), (''SUBU r%d,r%d,r%d'', [RD, RS, RT]),
   (''SW r%d,%d(r%d)'', [RT, EXTRA, RS]), (''SWL r%d,%d(r%d)'', [RT, EXTRA, RS]),
   (''SWR r%d,%d(r%d)'', [RT, EXTRA, RS]), (''XOR r%d,r%d,r%d'', [RD, RS, RT]),
   (''XORI r%d,r%d,%d'', [RT, RS, EXTRA]), (''SYSCALL'', [NONE, NONE, NONE]),
   (''Unimplemented'', [NONE, NONE, NONE]), (''Reserved'', [NONE, NONE, NONE])]"

text \<open>What the machine's debug mode prints for an instruction: a format and three numbers.\<close>

definition debug_line :: "instruction \<Rightarrow> (string \<times> u32 list) result" where
  "debug_line i =
     bind_result (arr_get opStrings (opcode_num (opCode i))) (\<lambda>(fmt, args).
     c_assert (opcode_num (opCode i) \<le> MaxOpcode)
       (Inr (fmt, map (\<lambda>r. TypeToReg r i) args)))"

section \<open>Well-formed instructions\<close>

definition executable_opcodes :: "opcode set" where
  "executable_opcodes = - {SPECIAL, BCOND, OP_RFE}"

lemma field_bound: "unat (field sh m v) \<le> unat m"
  unfolding field_def by (rule word_and_le1 [THEN word_le_nat_alt [THEN iffD1]])

lemma field_bounds [simp]:
  "unat (field sh 0x1f v) < 32" "unat (field sh 0x3f v) < 64" "unat (v AND 0x3f) < (64::nat)"
  using field_bound[of sh "0x1f" v] field_bound[of sh "0x3f" v] field_bound[of 0 "0x3f" v]
  by (simp_all add: field_def)

lemma opTable_opcodes: "(opc, f) \<in> set opTable \<Longrightarrow> opc \<noteq> OP_RFE"
  by (auto simp: opTable_def)

lemma specialTable_opcodes: "opc \<in> set specialTable \<Longrightarrow> opc \<in> executable_opcodes"
  by (auto simp: specialTable_def executable_opcodes_def)

lemma bcond_opcodes: "bcond_opcode v \<in> executable_opcodes"
  by (simp add: bcond_opcode_def Let_def executable_opcodes_def)

definition instruction_ok :: "instruction \<Rightarrow> bool" where
  "instruction_ok i \<longleftrightarrow> opCode i \<in> executable_opcodes \<and> i_rs i < 32 \<and> i_rt i < 32 \<and> i_rd i < 32"

lemma Decode_ok [simp]: "instruction_ok (Instruction_Decode v)"
proof -
  obtain opc f where e: "opTable ! unat (field 26 0x3f v) = (opc, f)" by force
  have "(opc, f) \<in> set opTable" by (metis e field_bounds(2) length_opTable nth_mem)
  then have "opc \<noteq> OP_RFE" by (rule opTable_opcodes)
  moreover have "specialTable ! unat (v AND 0x3f) \<in> executable_opcodes"
    by (rule specialTable_opcodes) (metis field_bounds(3) length_specialTable nth_mem)
  ultimately show ?thesis
    using bcond_opcodes[of v]
    by (auto simp: instruction_ok_def Instruction_Decode_def e executable_opcodes_def)
qed

lemma length_opStrings [simp]: "length opStrings = 64"
  by (simp add: opStrings_def)

lemma opcode_num_le: "opc \<in> executable_opcodes \<Longrightarrow> opcode_num opc \<le> MaxOpcode"
  by (cases opc) (simp_all add: executable_opcodes_def MaxOpcode_def)

lemma debug_line_total: "instruction_ok i \<Longrightarrow> \<exists>s vs. debug_line i = Inr (s, vs)"
  using opcode_num_le[of "opCode i"]
  by (cases "opStrings ! opcode_num (opCode i)")
    (auto simp: debug_line_def instruction_ok_def MaxOpcode_def)

section \<open>The MIPS encoding\<close>

text \<open>
  The field layout of MIPS I, and its operation and function numbers, stated independently of
  the simulator's tables.
\<close>

definition encode_R :: "6 word \<Rightarrow> 5 word \<Rightarrow> 5 word \<Rightarrow> 5 word \<Rightarrow> 5 word \<Rightarrow> u32" where
  "encode_R fn rs rt rd sh =
     push_bit 21 (ucast rs) OR push_bit 16 (ucast rt) OR push_bit 11 (ucast rd)
       OR push_bit 6 (ucast sh) OR ucast fn"

definition encode_I :: "6 word \<Rightarrow> 5 word \<Rightarrow> 5 word \<Rightarrow> u16 \<Rightarrow> u32" where
  "encode_I opn rs rt imm =
     push_bit 26 (ucast opn) OR push_bit 21 (ucast rs) OR push_bit 16 (ucast rt) OR ucast imm"

definition encode_J :: "6 word \<Rightarrow> 26 word \<Rightarrow> u32" where
  "encode_J opn tgt = push_bit 26 (ucast opn) OR ucast tgt"

definition R_functions :: "(opcode \<times> 6 word) list" where
  "R_functions = [(OP_SLL, 0), (OP_SRL, 2), (OP_SRA, 3), (OP_SLLV, 4), (OP_SRLV, 6), (OP_SRAV, 7),
     (OP_JR, 8), (OP_JALR, 9), (OP_SYSCALL, 12), (OP_MFHI, 16), (OP_MTHI, 17), (OP_MFLO, 18),
     (OP_MTLO, 19), (OP_MULT, 24), (OP_MULTU, 25), (OP_DIV, 26), (OP_DIVU, 27), (OP_ADD, 32),
     (OP_ADDU, 33), (OP_SUB, 34), (OP_SUBU, 35), (OP_AND, 36), (OP_OR, 37), (OP_XOR, 38),
     (OP_NOR, 39), (OP_SLT, 42), (OP_SLTU, 43)]"

definition I_operations :: "(opcode \<times> 6 word) list" where
  "I_operations = [(OP_BEQ, 4), (OP_BNE, 5), (OP_BLEZ, 6), (OP_BGTZ, 7), (OP_ADDI, 8),
     (OP_ADDIU, 9), (OP_SLTI, 10), (OP_SLTIU, 11), (OP_ANDI, 12), (OP_ORI, 13), (OP_XORI, 14),
     (OP_LUI, 15), (OP_LB, 32), (OP_LH, 33), (OP_LWL, 34), (OP_LW, 35), (OP_LBU, 36),
     (OP_LHU, 37), (OP_LWR, 38), (OP_SB, 40), (OP_SH, 41), (OP_SWL, 42), (OP_SW, 43), (OP_SWR, 46)]"

definition B_conditions :: "(opcode \<times> 5 word) list" where
  "B_conditions = [(OP_BLTZ, 0), (OP_BGEZ, 1), (OP_BLTZAL, 16), (OP_BGEZAL, 17)]"

definition J_operations :: "(opcode \<times> 6 word) list" where
  "J_operations = [(OP_J, 2), (OP_JAL, 3)]"

named_theorems field_simps_mips \<open>the fields of encoded instructions\<close>

lemma and_masks:
  "(w::u32) AND 0x1f = take_bit 5 w" "w AND 0x3f = take_bit 6 w"
  "w AND 0xffff = take_bit 16 w" "w AND 0x3ffffff = take_bit 26 w"
  by (simp_all add: take_bit_eq_mask mask_numeral)

lemma field_take_bit:
  "field sh 0x1f v = take_bit 5 (drop_bit sh v)" "field sh 0x3f v = take_bit 6 (drop_bit sh v)"
  by (simp_all add: field_def and_masks)

lemmas encode_bits = bit_or_iff bit_and_iff bit_push_bit_iff bit_unsigned_iff bit_take_bit_iff bit_drop_bit_eq

lemma word_bit_ge: "LENGTH('a::len) \<le> n \<Longrightarrow> \<not> bit (w :: 'a word) n"
  using bit_imp_le_length leD by blast

lemma word_bit_lt: "(n < LENGTH('a::len) \<and> bit (w :: 'a word) n) = bit w n"
  using bit_imp_le_length by blast

lemmas word_bit_lts = word_bit_lt[where 'a = 5, simplified] word_bit_lt[where 'a = 6, simplified]
  word_bit_lt[where 'a = 16, simplified] word_bit_lt[where 'a = 26, simplified]

lemma unat_ucast_up:
  assumes "LENGTH('a::len) \<le> LENGTH('b::len)"
  shows "unat (ucast (x :: 'a word) :: 'b word) = unat x"
proof -
  have "unat x < 2 ^ LENGTH('a)" by simp
  also have "\<dots> \<le> 2 ^ LENGTH('b)" using assms by simp
  finally have "unat x < 2 ^ LENGTH('b)" .
  then show ?thesis by (simp add: unsigned_ucast_eq take_bit_nat_eq_self)
qed

lemma bit_encode_R:
  "bit (encode_R fn rs rt rd sh) n \<longleftrightarrow>
     (if n < 6 then bit fn n else if n < 11 then bit sh (n - 6) else if n < 16 then bit rd (n - 11)
      else if n < 21 then bit rt (n - 16) else n < 26 \<and> bit rs (n - 21))"
  by (cases "n < 6"; cases "n < 11"; cases "n < 16"; cases "n < 21"; cases "n < 26";
      simp add: encode_R_def encode_bits word_bit_ge less_imp_diff_less)

lemma bit_encode_I:
  "bit (encode_I opn rs rt imm) n \<longleftrightarrow>
     (if n < 16 then bit imm n else if n < 21 then bit rt (n - 16)
      else if n < 26 then bit rs (n - 21) else n < 32 \<and> bit opn (n - 26))"
  by (cases "n < 16"; cases "n < 21"; cases "n < 26"; cases "n < 32"; simp add: encode_I_def encode_bits word_bit_ge less_imp_diff_less)

lemma bit_encode_J:
  "bit (encode_J opn tgt) n \<longleftrightarrow> (if n < 26 then bit tgt n else n < 32 \<and> bit opn (n - 26))"
  by (cases "n < 26"; cases "n < 32"; simp add: encode_J_def encode_bits word_bit_ge less_imp_diff_less)

lemma encode_R_fields [field_simps_mips]:
  "field 26 0x3f (encode_R fn rs rt rd sh) = 0" "field 21 0x1f (encode_R fn rs rt rd sh) = ucast rs"
  "field 16 0x1f (encode_R fn rs rt rd sh) = ucast rt" "field 11 0x1f (encode_R fn rs rt rd sh) = ucast rd"
  "field 6 0x1f (encode_R fn rs rt rd sh) = ucast sh" "encode_R fn rs rt rd sh AND 0x3f = ucast fn"
  unfolding field_take_bit and_masks
  by (rule bit_word_eqI, simp add: bit_encode_R encode_bits word_bit_ge word_bit_lts)+

lemma encode_I_fields [field_simps_mips]:
  "field 26 0x3f (encode_I opn rs rt imm) = ucast opn" "field 21 0x1f (encode_I opn rs rt imm) = ucast rs"
  "field 16 0x1f (encode_I opn rs rt imm) = ucast rt" "encode_I opn rs rt imm AND 0xffff = ucast imm"
  unfolding field_take_bit and_masks
  by (rule bit_word_eqI, simp add: bit_encode_I encode_bits word_bit_ge word_bit_lts)+

lemma encode_J_fields [field_simps_mips]:
  "field 26 0x3f (encode_J opn tgt) = ucast opn" "encode_J opn tgt AND 0x3ffffff = ucast tgt"
  unfolding field_take_bit and_masks
  by (rule bit_word_eqI, simp add: bit_encode_J encode_bits word_bit_ge word_bit_lts)+

text \<open>The 16-bit immediate is sign-extended.\<close>

lemma and_top_bit: "((w::u32) AND 0x8000 \<noteq> 0) = bit w 15"
proof -
  have "(0x8000::u32) = push_bit 15 1" by simp
  then show ?thesis
    by (metis (no_types) and_exp_eq_0_iff_not_bit push_bit_of_1)
qed

lemma high_half_mask: "(0xffff0000::u32) = NOT (mask 16)"
  by (simp add: mask_numeral)

lemma bit_high_half_mask: "bit (0xffff0000::u32) n \<longleftrightarrow> 16 \<le> n \<and> n < 32"
  unfolding high_half_mask by (auto simp: bit_not_iff bit_mask_iff)

lemma sign_extend_16: "decode_extra IFMT v = scast (ucast v :: u16)"
proof (rule bit_word_eqI)
  fix n assume "n < LENGTH(32)"
  then show "bit (decode_extra IFMT v) n = bit (scast (ucast v :: u16) :: u32) n"
    by (cases "n = 15")
      (auto simp: decode_extra_def Let_def and_top_bit and_masks bit_high_half_mask encode_bits
        bit_signed_iff min_def simp del: bit_numeral_word_iff)
qed

lemma Decode_R:
  assumes "(opc, fn) \<in> set R_functions"
  shows "Instruction_Decode (encode_R fn rs rt rd sh)
    = \<lparr>opCode = opc, i_rs = unat rs, i_rt = unat rt, i_rd = unat rd, extra = ucast sh\<rparr>"
proof -
  have "opTable ! 0 = (SPECIAL, RFMT)" by (simp add: opTable_def)
  moreover have "specialTable ! unat (ucast fn :: u32) = opc"
    using assms by (auto simp: R_functions_def specialTable_def)
  ultimately show ?thesis
    by (simp add: Instruction_Decode_def field_simps_mips decode_extra_def unat_ucast_up)
qed

lemma Decode_I:
  assumes "(opc, opn) \<in> set I_operations"
  shows "opCode (Instruction_Decode (encode_I opn rs rt imm)) = opc"
    "i_rs (Instruction_Decode (encode_I opn rs rt imm)) = unat rs"
    "i_rt (Instruction_Decode (encode_I opn rs rt imm)) = unat rt"
    "extra (Instruction_Decode (encode_I opn rs rt imm)) = scast imm"
proof -
  have t: "opTable ! unat (ucast opn :: u32) = (opc, IFMT)" and o: "opc \<noteq> SPECIAL" "opc \<noteq> BCOND"
    using assms by (auto simp: I_operations_def opTable_def)
  have imm: "(ucast (encode_I opn rs rt imm) :: u16) = imm"
    by (rule bit_word_eqI) (simp add: bit_encode_I encode_bits)
  show "opCode (Instruction_Decode (encode_I opn rs rt imm)) = opc"
    "i_rs (Instruction_Decode (encode_I opn rs rt imm)) = unat rs"
    "i_rt (Instruction_Decode (encode_I opn rs rt imm)) = unat rt"
    "extra (Instruction_Decode (encode_I opn rs rt imm)) = scast imm"
    using t o imm
    by (simp_all add: Instruction_Decode_def field_simps_mips unat_ucast_up sign_extend_16)
qed

text \<open>The branches on a comparison with zero share operation number 1 and are told apart by
  the \<open>rt\<close> field.\<close>

lemma bcond_mask: "(0x1f0000::u32) = push_bit 16 (mask 5)"
  by (simp add: mask_numeral)

lemma bcond_field: "encode_I opn rs c imm AND 0x1f0000 = push_bit 16 (ucast c)"
  unfolding bcond_mask
  by (rule bit_word_eqI)
    (auto simp: bit_encode_I bit_and_iff bit_push_bit_iff bit_mask_iff bit_unsigned_iff word_bit_ge)

lemma bcond_opcode_encode:
  "(opc, c) \<in> set B_conditions \<Longrightarrow> bcond_opcode (encode_I 1 rs c imm) = opc"
  unfolding bcond_opcode_def Let_def bcond_field by (auto simp: B_conditions_def)

lemma Decode_B:
  assumes "(opc, c) \<in> set B_conditions"
  shows "opCode (Instruction_Decode (encode_I 1 rs c imm)) = opc"
    "i_rs (Instruction_Decode (encode_I 1 rs c imm)) = unat rs"
    "extra (Instruction_Decode (encode_I 1 rs c imm)) = scast imm"
proof -
  have t: "opTable ! 1 = (BCOND, IFMT)" by (simp add: opTable_def)
  have imm: "(ucast (encode_I 1 rs c imm) :: u16) = imm"
    by (rule bit_word_eqI) (simp add: bit_encode_I encode_bits)
  show "opCode (Instruction_Decode (encode_I 1 rs c imm)) = opc"
    "i_rs (Instruction_Decode (encode_I 1 rs c imm)) = unat rs"
    "extra (Instruction_Decode (encode_I 1 rs c imm)) = scast imm"
    using t imm bcond_opcode_encode[OF assms, of rs imm]
    by (simp_all add: Instruction_Decode_def field_simps_mips unat_ucast_up sign_extend_16)
qed

lemma Decode_J:
  assumes "(opc, opn) \<in> set J_operations"
  shows "opCode (Instruction_Decode (encode_J opn tgt)) = opc"
    "extra (Instruction_Decode (encode_J opn tgt)) = ucast tgt"
proof -
  have t: "opTable ! unat (ucast opn :: u32) = (opc, JFMT)" and o: "opc \<noteq> SPECIAL" "opc \<noteq> BCOND"
    using assms by (auto simp: J_operations_def opTable_def)
  show "opCode (Instruction_Decode (encode_J opn tgt)) = opc"
    "extra (Instruction_Decode (encode_J opn tgt)) = ucast tgt"
    using t o by (simp_all add: Instruction_Decode_def field_simps_mips decode_extra_def)
qed

section \<open>Properties\<close>

text \<open>
  C33: the decoder inverts the MIPS encoding. An instruction built from an opcode and its fields in
  any of the four layouts decodes to that opcode, with the register numbers in their fields and,
  in \<open>extra\<close>, the shift amount, the sign-extended 16-bit immediate or the 26-bit jump target.
\<close>

theorem Decode_inverts_encoding:
  "(opc, fn) \<in> set R_functions \<Longrightarrow> (opi, opn) \<in> set I_operations \<Longrightarrow>
   (opb, c) \<in> set B_conditions \<Longrightarrow> (opj, jn) \<in> set J_operations \<Longrightarrow>
   Instruction_Decode (encode_R fn rs rt rd sh)
     = \<lparr>opCode = opc, i_rs = unat rs, i_rt = unat rt, i_rd = unat rd, extra = ucast sh\<rparr> \<and>
   (let i = Instruction_Decode (encode_I opn rs rt imm)
    in opCode i = opi \<and> i_rs i = unat rs \<and> i_rt i = unat rt \<and> extra i = scast imm) \<and>
   (let i = Instruction_Decode (encode_I 1 rs c imm)
    in opCode i = opb \<and> i_rs i = unat rs \<and> extra i = scast imm) \<and>
   (let i = Instruction_Decode (encode_J jn tgt) in opCode i = opj \<and> extra i = ucast tgt)"
  by (simp add: Decode_R Decode_I Decode_B Decode_J Let_def)

theorem Decode_inverts_encoding_witness:
  "opCode (Instruction_Decode (encode_R 34 4 5 6 0)) = OP_SUB \<and>
   extra (Instruction_Decode (encode_I 8 4 5 0xfff0)) = 0xfffffff0 \<and>
   opCode (Instruction_Decode (encode_I 1 4 17 8)) = OP_BGEZAL \<and>
   extra (Instruction_Decode (encode_J 3 0x12345)) = 0x12345"
  using Decode_inverts_encoding[of OP_SUB 34 OP_ADDI 8 OP_BGEZAL 17 OP_JAL 3 4 5 6 0 "0xfff0" "0x12345"]
    Decode_inverts_encoding[of OP_SUB 34 OP_ADDI 8 OP_BGEZAL 17 OP_JAL 3 4 5 6 0 8 "0x12345"]
  by (simp add: R_functions_def I_operations_def B_conditions_def J_operations_def Let_def)

end
