(* ===== verification/Mips_Mult.thy ===== *)
theory Mips_Mult imports Prelude begin

text \<open>
  The multiplier of machine/mipssim.cc: \<open>Mult\<close> computes the 64-bit product of two 32-bit registers
  with 32-bit operations, by shifting and adding, for \<open>OP_MULT\<close> (signed) and \<open>OP_MULTU\<close>. The
  specification is the product of the integers the two words stand for.
\<close>

unbundle bit_operations_syntax

section \<open>The code\<close>

text \<open>
  The loop of at most 32 rounds. \<open>a\<close> is a signed \<open>int\<close>, so its shift to the right copies the
  sign bit; \<open>bHi\<close> and \<open>bLo\<close> hold the shifted second factor, \<open>hi\<close> and \<open>lo\<close> the sum.
\<close>

fun Mult_loop :: "nat \<Rightarrow> u32 \<Rightarrow> u32 \<Rightarrow> u32 \<Rightarrow> u32 \<Rightarrow> u32 \<Rightarrow> u32 \<times> u32" where
  "Mult_loop 0 a bHi bLo hi lo = (hi, lo)"
| "Mult_loop (Suc k) a bHi bLo hi lo =
     (let odd = a AND 1 \<noteq> 0;
          lo' = (if odd then lo + bLo else lo);
          hi' = (if odd then (if lo' < bLo then hi + 1 else hi) + bHi else hi)
      in if odd \<and> a AND 0xfffffffe = 0 then (hi', lo')
         else Mult_loop k (signed_drop_bit 1 a)
                (push_bit 1 bHi OR (if bLo AND 0x80000000 \<noteq> 0 then 1 else 0)) (push_bit 1 bLo) hi' lo')"

definition Mult :: "u32 \<Rightarrow> u32 \<Rightarrow> bool \<Rightarrow> u32 \<times> u32" where
  "Mult a b signedArith =
     (if a = 0 \<or> b = 0 then (0, 0)
      else
        let negative = (signedArith \<and> (sint a < 0) \<noteq> (sint b < 0));
            a' = (if signedArith \<and> sint a < 0 then - a else a);
            b' = (if signedArith \<and> sint b < 0 then - b else b);
            (hi, lo) = Mult_loop 32 a' 0 b' 0 0
        in if negative then
             let lo1 = NOT lo + 1 in (if lo1 = 0 then NOT hi + 1 else NOT hi, lo1)
           else (hi, lo))"

section \<open>Double words\<close>

definition dword :: "u32 \<times> u32 \<Rightarrow> u64" where
  "dword p = push_bit 32 (ucast (fst p)) OR ucast (snd p)"

lemma bit_dword: "bit (dword (hi, lo)) n \<longleftrightarrow> (if n < 32 then bit lo n else n < 64 \<and> bit hi (n - 32))"
  by (auto simp: dword_def bit_or_iff bit_push_bit_iff bit_unsigned_iff dest: bit_imp_le_length)

lemma dword_sum: "dword (hi, lo) = ucast hi * 2 ^ 32 + ucast lo"
proof -
  have "push_bit 32 (ucast hi) AND (ucast lo :: u64) = 0"
    by (rule bit_word_eqI) (auto simp: bit_and_iff bit_push_bit_iff bit_unsigned_iff dest: bit_imp_le_length)
  then have "dword (hi, lo) = push_bit 32 (ucast hi) + ucast lo"
    unfolding dword_def by (simp add: disjunctive_add_eq_or)
  then show ?thesis by (simp add: push_bit_eq_mult)
qed

section \<open>The rounds\<close>

lemma ucast_add_carry:
  "(ucast (x + y :: u32) :: u64) = ucast x + ucast y - (if x + y < y then 2 ^ 32 else 0)"
proof -
  have c: "uint (x + y) = uint x + uint y - (if x + y < y then 2 ^ 32 else 0)"
    using uint_lt2p[of x] uint_lt2p[of y] by (auto simp: word_less_def uint_plus_if')
  show ?thesis unfolding ucast_eq c by (auto simp: wi_hom_add wi_hom_sub)
qed

lemma ucast_add_high: "(ucast (x + y :: u32) :: u64) * 2 ^ 32 = ucast x * 2 ^ 32 + ucast y * 2 ^ 32"
proof -
  have "(2 ^ 64 :: u64) = 0" unfolding exp_eq_zero_iff by simp
  then have z: "(2 ^ 32 :: u64) * 2 ^ 32 = 0" unfolding power_add[symmetric] by simp
  have gen: "(p + q - (if c then r else 0)) * r = p * r + q * r" if "r * r = 0" for p q r :: u64 and c
    using that by (auto simp: algebra_simps)
  show ?thesis unfolding ucast_add_carry by (rule gen[OF z])
qed

lemma dword_add:
  "dword ((if lo + bLo < bLo then hi + 1 else hi) + bHi, lo + bLo) = dword (hi, lo) + dword (bHi, bLo)"
proof -
  have one: "(ucast (hi + 1) :: u64) * 2 ^ 32 = ucast hi * 2 ^ 32 + 2 ^ 32"
    by (simp only: ucast_add_high) simp
  have "(ucast ((if lo + bLo < bLo then hi + 1 else hi) + bHi) :: u64) * 2 ^ 32
      = ucast hi * 2 ^ 32 + ucast bHi * 2 ^ 32 + (if lo + bLo < bLo then 2 ^ 32 else 0)"
    using one by (simp add: ucast_add_high[simplified])
  then show ?thesis
    unfolding dword_sum by (simp add: ucast_add_carry[of lo bLo])
qed

lemma and_top_bit_31: "((w::u32) AND 0x80000000 \<noteq> 0) = bit w 31"
proof -
  have "(0x80000000::u32) = push_bit 31 1" by simp
  then show ?thesis
    by (metis (no_types) and_exp_eq_0_iff_not_bit push_bit_of_1)
qed

lemma dword_double:
  "dword (push_bit 1 bHi OR (if bLo AND 0x80000000 \<noteq> 0 then 1 else 0), push_bit 1 bLo)
    = 2 * dword (bHi, bLo)"
proof -
  have top: "(bLo AND 0x80000000 \<noteq> 0) = bit bLo 31"
    by (simp add: and_top_bit_31)
  have "dword (push_bit 1 bHi OR (if bit bLo 31 then 1 else 0), push_bit 1 bLo)
      = push_bit 1 (dword (bHi, bLo))"
  proof (rule bit_word_eqI)
    fix n assume "n < LENGTH(64)"
    then show "bit (dword (push_bit 1 bHi OR (if bit bLo 31 then 1 else 0), push_bit 1 bLo)) n
        = bit (push_bit 1 (dword (bHi, bLo))) n"
      by (cases "n = 32")
        (auto simp: bit_dword bit_or_iff bit_push_bit_iff bit_1_iff simp del: push_bit_Suc)
  qed
  then show ?thesis unfolding top by (simp add: push_bit_eq_mult)
qed

lemma dword_neg:
  "dword (if NOT lo + 1 = 0 then NOT hi + 1 else NOT hi, NOT lo + 1) = - dword (hi, lo)"
proof -
  have "dword (NOT hi, NOT lo) = NOT (dword (hi, lo))"
    by (rule bit_word_eqI) (auto simp: bit_dword bit_not_iff)
  moreover have "(NOT lo + 1 < 1) = (NOT lo + 1 = 0)" by (metis word_less_1)
  ultimately show ?thesis
    using dword_add[of "NOT lo" 1 "NOT hi" 0]
    by (simp add: dword_def[of "(0, 1)"] minus_eq_not_plus_1 split: if_splits)
qed


text \<open>
  With \<open>k\<close> rounds left the loop adds to the sum the shifted factor times the low \<open>k\<close> bits of
  what is left of \<open>a\<close>; the copied sign bits stay above them.
\<close>

lemma and_1_bit: "((a :: u32) AND 1 \<noteq> 0) = bit a 0"
  by (simp add: and_one_eq bit_0 odd_iff_mod_2_eq_one)

lemma ucast_take_bit_Suc:
  assumes "k < 32"
  shows "(ucast (take_bit (Suc k) a) :: u64)
    = of_bool (bit a 0) + 2 * ucast (take_bit k (signed_drop_bit 1 (a :: u32)))"
proof -
  let ?x = "ucast (take_bit k (signed_drop_bit 1 a)) :: u64"
  have "of_bool (bit a 0) AND push_bit 1 ?x = 0"
    by (rule bit_word_eqI)
      (auto simp: bit_and_iff bit_push_bit_iff bit_1_iff simp del: push_bit_Suc)
  then have "of_bool (bit a 0) OR push_bit 1 ?x = of_bool (bit a 0) + push_bit 1 ?x"
    by (simp only: disjunctive_add_eq_or)
  then have "of_bool (bit a 0) + 2 * ?x = of_bool (bit a 0) OR push_bit 1 ?x"
    by (simp add: push_bit_eq_mult)
  also have "\<dots> = ucast (take_bit (Suc k) a)"
  proof (rule bit_word_eqI)
    fix n assume "n < LENGTH(64)"
    then show "bit (of_bool (bit a 0) OR push_bit 1 ?x) n = bit (ucast (take_bit (Suc k) a) :: u64) n"
      using assms by (cases n)
        (auto simp: bit_or_iff bit_push_bit_iff bit_unsigned_iff bit_take_bit_iff
          bit_signed_drop_bit_iff bit_1_iff simp del: push_bit_Suc)
  qed
  finally show ?thesis ..
qed

lemma low_or_rest: "bit (0xfffffffe :: u32) n \<longleftrightarrow> 0 < n \<and> n < 32"
proof -
  have "(0xfffffffe :: u32) = NOT 1" by simp
  then show ?thesis by (simp only: bit_not_iff) (auto simp: bit_1_iff)
qed

lemma break_test: "a AND 1 \<noteq> 0 \<and> a AND 0xfffffffe = 0 \<longleftrightarrow> (a :: u32) = 1"
proof
  assume l: "a AND 1 \<noteq> 0 \<and> a AND 0xfffffffe = 0"
  have "a = (a AND 0xfffffffe) OR (a AND 1)"
    by (rule bit_word_eqI)
      (auto simp: low_or_rest bit_and_iff bit_or_iff bit_1_iff simp del: bit_numeral_word_iff)
  then show "a = 1" using l by (cases "odd a") (auto simp: and_one_eq mod_2_eq_odd)
qed simp

lemma Mult_loop_sum:
  "k \<le> 32 \<Longrightarrow> dword (Mult_loop k a bHi bLo hi lo)
     = dword (hi, lo) + dword (bHi, bLo) * ucast (take_bit k a)"
proof (induction k arbitrary: a bHi bLo hi lo)
  case (Suc k)
  let ?odd = "a AND 1 \<noteq> 0"
  let ?lo = "if ?odd then lo + bLo else lo"
  let ?hi = "if ?odd then (if ?lo < bLo then hi + 1 else hi) + bHi else hi"
  let ?a = "signed_drop_bit 1 a" and ?bLo = "push_bit 1 bLo"
  let ?bHi = "push_bit 1 bHi OR (if bLo AND 0x80000000 \<noteq> 0 then 1 else 0)"
  have s: "dword (?hi, ?lo) = dword (hi, lo) + of_bool (bit a 0) * dword (bHi, bLo)"
    using dword_add[of lo bLo hi bHi] by (simp add: and_1_bit)
  have step: "Mult_loop (Suc k) a bHi bLo hi lo
      = (if a = 1 then (?hi, ?lo) else Mult_loop k ?a ?bHi ?bLo ?hi ?lo)"
    unfolding Mult_loop.simps Let_def break_test ..
  show ?case
  proof (cases "a = 1")
    case True
    have "dword (Mult_loop (Suc k) a bHi bLo hi lo) = dword (hi, lo) + dword (bHi, bLo)"
      unfolding step if_P[OF True] s by (simp add: True)
    then show ?thesis by (simp add: True take_bit_Suc)
  next
    case False
    have "dword (Mult_loop (Suc k) a bHi bLo hi lo)
        = dword (?hi, ?lo) + dword (?bHi, ?bLo) * ucast (take_bit k ?a)"
      unfolding step if_not_P[OF False] using Suc by simp
    also have "\<dots> = dword (hi, lo) + dword (bHi, bLo)
        * (of_bool (bit a 0) + 2 * ucast (take_bit k ?a))"
      unfolding s dword_double by (simp add: algebra_simps)
    also have "of_bool (bit a 0) + 2 * ucast (take_bit k ?a) = (ucast (take_bit (Suc k) a) :: u64)"
      using ucast_take_bit_Suc[of k a] Suc.prems by simp
    finally show ?thesis .
  qed
qed simp


section \<open>The product\<close>

lemma dword_low: "dword (0, b) = ucast b" "dword (0, 0) = 0"
  by (simp_all add: dword_def)

lemma Mult_loop_product: "dword (Mult_loop 32 a 0 b 0 0) = ucast b * ucast a"
proof -
  have "take_bit 32 a = a" by (simp add: take_bit_word_eq_self)
  then show ?thesis using Mult_loop_sum[of 32 a 0 b 0 0] by (simp add: dword_low)
qed

lemma Mult_unsigned: "dword (Mult a b False) = ucast a * ucast b"
  using Mult_loop_product[of a b] by (auto simp: Mult_def dword_low mult.commute split: prod.splits
      simp del: Mult_loop.simps)

definition magnitude :: "u32 \<Rightarrow> u32" where
  "magnitude a = (if sint a < 0 then - a else a)"

lemma ucast_magnitude: "(ucast (magnitude a) :: u64) = word_of_int \<bar>sint a\<bar>"
proof -
  have "magnitude a = word_of_int \<bar>sint a\<bar>"
    by (simp add: magnitude_def abs_if wi_hom_neg[symmetric])
  moreover have "take_bit 32 \<bar>sint a\<bar> = \<bar>sint a\<bar>"
    using sint_greater_eq[of a] sint_less[of a] by (intro take_bit_int_eq_self) auto
  ultimately have "uint (magnitude a) = \<bar>sint a\<bar>" by (simp add: uint_word_of_int_eq)
  then show ?thesis by (simp add: ucast_eq)
qed

lemma sign_product:
  "(if (x < 0) \<noteq> (y < 0) then - word_of_int (\<bar>x\<bar> * \<bar>y\<bar>) else word_of_int (\<bar>x\<bar> * \<bar>y\<bar>))
    = (word_of_int (x * y) :: u64)" for x y :: int
  unfolding wi_hom_neg by (auto simp: abs_if)

lemma Mult_signed: "dword (Mult a b True) = word_of_int (sint a * sint b)"
proof (cases "a = 0 \<or> b = 0")
  case False
  obtain hi lo where l: "Mult_loop 32 (magnitude a) 0 (magnitude b) 0 0 = (hi, lo)" by force
  have p: "dword (hi, lo) = word_of_int (\<bar>sint a\<bar> * \<bar>sint b\<bar>)"
    using Mult_loop_product[of "magnitude a" "magnitude b"]
    unfolding l ucast_magnitude wi_hom_mult by (simp only: mult.commute)
  have "Mult a b True = (if (sint a < 0) \<noteq> (sint b < 0)
      then (if NOT lo + 1 = 0 then NOT hi + 1 else NOT hi, NOT lo + 1) else (hi, lo))"
    using False l unfolding Mult_def magnitude_def Let_def by (simp del: Mult_loop.simps)
  then have "dword (Mult a b True) = (if (sint a < 0) \<noteq> (sint b < 0)
      then - word_of_int (\<bar>sint a\<bar> * \<bar>sint b\<bar>) else word_of_int (\<bar>sint a\<bar> * \<bar>sint b\<bar>))"
    by (simp only: if_distrib[of dword] dword_neg p)
  then show ?thesis unfolding sign_product .
qed (auto simp: Mult_def dword_low)

lemma sint_product: "sint (word_of_int (sint (a :: u32) * sint (b :: u32)) :: u64) = sint a * sint b"
proof -
  have "\<bar>sint a * sint b\<bar> \<le> 2 ^ 31 * 2 ^ 31"
    unfolding abs_mult
    using sint_greater_eq[of a] sint_less[of a] sint_greater_eq[of b] sint_less[of b]
    by (intro mult_mono) auto
  then show ?thesis
    unfolding sint_sbintrunc' by (intro signed_take_bit_int_eq_self) auto
qed

lemma uint_product: "uint ((ucast (a :: u32) :: u64) * ucast (b :: u32)) = uint a * uint b"
proof -
  have "uint a * uint b \<le> (2 ^ 32 - 1) * (2 ^ 32 - 1)"
    using uint_lt2p[of a] uint_lt2p[of b] by (intro mult_mono) auto
  moreover have "uint (ucast w :: u64) = uint w" for w :: u32
    using uint_lt2p[of w] by (simp add: unsigned_ucast_eq take_bit_int_eq_self)
  ultimately show ?thesis by (simp add: uint_word_ariths)
qed

section \<open>Properties\<close>

text \<open>
  C34: the multiplier is exact. Read as one 64-bit word, the two result registers hold the product
  of the unsigned factors after \<open>OP_MULTU\<close>, and of the signed ones after \<open>OP_MULT\<close>, also for the
  most negative factor, whose negation overflows.
\<close>

theorem Mult_exact:
  "uint (dword (Mult a b False)) = uint a * uint b \<and> sint (dword (Mult a b True)) = sint a * sint b"
  unfolding Mult_unsigned Mult_signed sint_product uint_product by simp

end
