(* ===== verification/Machine.thy ===== *)
theory Machine imports Prelude begin

text \<open>
  The simulated machine of machine/machine.h, machine/machine.cc and machine/translate.cc: its
  registers and memory, exceptions, address translation through a page table or a TLB, and the
  memory accesses of user programs. The registers and the memory are functions from indices; the
  bounds the C arrays have are checked where the code can leave them. An operation that traps to
  the kernel ends with \<open>Trap\<close>: the exception and the machine as \<open>ExceptionHandler\<close> finds it.
\<close>

unbundle bit_operations_syntax

section \<open>The machine\<close>

definition PageSize :: nat where "PageSize = 128"
definition NumPhysPages :: nat where "NumPhysPages = 128"
definition MemorySize :: nat where "MemorySize = NumPhysPages * PageSize"
definition TLBSize :: nat where "TLBSize = 4"

lemmas machine_sizes = PageSize_def NumPhysPages_def MemorySize_def TLBSize_def

datatype ExceptionType =
    NoException | SyscallException | PageFaultException | ReadOnlyException | BusErrorException
  | AddressErrorException | OverflowException | IllegalInstrException

abbreviation StackReg :: nat where "StackReg \<equiv> 29"
abbreviation RetAddrReg :: nat where "RetAddrReg \<equiv> 31"
abbreviation NumGPRegs :: nat where "NumGPRegs \<equiv> 32"
abbreviation HiReg :: nat where "HiReg \<equiv> 32"
abbreviation LoReg :: nat where "LoReg \<equiv> 33"
abbreviation PCReg :: nat where "PCReg \<equiv> 34"
abbreviation NextPCReg :: nat where "NextPCReg \<equiv> 35"
abbreviation PrevPCReg :: nat where "PrevPCReg \<equiv> 36"
abbreviation LoadReg :: nat where "LoadReg \<equiv> 37"
abbreviation LoadValueReg :: nat where "LoadValueReg \<equiv> 38"
abbreviation BadVAddrReg :: nat where "BadVAddrReg \<equiv> 39"
abbreviation NumTotalRegs :: nat where "NumTotalRegs \<equiv> 40"

record TranslationEntry =
  virtualPage :: u32
  physicalPage :: u32
  valid :: bool
  readOnly :: bool
  use_bit :: bool
  dirty :: bool

record machine =
  registers :: "nat \<Rightarrow> u32"
  mainMemory :: "nat \<Rightarrow> u8"
  tlb :: "TranslationEntry list option"
  pageTable :: "TranslationEntry list option"
  pageTableSize :: u32
  singleStep :: bool

definition Machine_new :: "bool \<Rightarrow> machine" where
  "Machine_new debug =
     \<lparr>registers = (\<lambda>_. 0), mainMemory = (\<lambda>_. 0), tlb = None, pageTable = None,
      pageTableSize = 0, singleStep = debug\<rparr>"

text \<open>The check of the constructor that the host is little-endian, as the build declares.\<close>

definition CheckEndian :: bool where
  "CheckEndian \<longleftrightarrow> le_word32 1 2 3 4 = 0x04030201"

definition ReadRegister :: "int \<Rightarrow> machine \<Rightarrow> u32 result" where
  "ReadRegister num m = c_assert (0 \<le> num \<and> num < int NumTotalRegs) (Inr (registers m (nat num)))"

definition WriteRegister :: "int \<Rightarrow> u32 \<Rightarrow> machine \<Rightarrow> machine result" where
  "WriteRegister num v m =
     c_assert (0 \<le> num \<and> num < int NumTotalRegs) (Inr (m\<lparr>registers := (registers m)(nat num := v)\<rparr>))"

section \<open>Traps\<close>

datatype 'a outcome = Fault fault | Trap ExceptionType machine | Done 'a

definition bind_outcome :: "'a outcome \<Rightarrow> ('a \<Rightarrow> 'b outcome) \<Rightarrow> 'b outcome" where
  "bind_outcome r f = (case r of Fault e \<Rightarrow> Fault e | Trap x m \<Rightarrow> Trap x m | Done a \<Rightarrow> f a)"

lemma bind_outcome_simps [simp]:
  "bind_outcome (Fault e) f = Fault e" "bind_outcome (Trap x m) f = Trap x m"
  "bind_outcome (Done a) f = f a"
  by (simp_all add: bind_outcome_def)

lemma bind_outcome_Done [outcome_simps]:
  "bind_outcome r f = Done y \<longleftrightarrow> (\<exists>x. r = Done x \<and> f x = Done y)"
  by (cases r) auto

lemma bind_outcome_Trap [outcome_simps]:
  "bind_outcome r f = Trap x m \<longleftrightarrow> r = Trap x m \<or> (\<exists>y. r = Done y \<and> f y = Trap x m)"
  by (cases r) auto

lemma bind_outcome_Fault [outcome_simps]:
  "bind_outcome r f = Fault e \<longleftrightarrow> r = Fault e \<or> (\<exists>x. r = Done x \<and> f x = Fault e)"
  by (cases r) auto

definition lift_result :: "'a result \<Rightarrow> 'a outcome" where
  "lift_result r = (case r of Inl e \<Rightarrow> Fault e | Inr x \<Rightarrow> Done x)"

lemma lift_result_simps [simp]:
  "lift_result (Inl e) = Fault e" "lift_result (Inr x) = Done x"
  by (simp_all add: lift_result_def)

lemma lift_result_eq [outcome_simps]:
  "lift_result r = Done x \<longleftrightarrow> r = Inr x" "lift_result r = Fault e \<longleftrightarrow> r = Inl e"
  "lift_result r \<noteq> Trap exc m"
  by (cases r; simp)+

definition DelayedLoad :: "u32 \<Rightarrow> u32 \<Rightarrow> machine \<Rightarrow> machine result" where
  "DelayedLoad nextReg nextValue m =
     (let r = registers m; target = unat (r LoadReg)
      in check (target < NumTotalRegs) OutOfBounds
           (Inr (m\<lparr>registers := r(target := r LoadValueReg, LoadReg := nextReg,
                                  LoadValueReg := nextValue, 0 := 0)\<rparr>)))"

definition RaiseException :: "ExceptionType \<Rightarrow> u32 \<Rightarrow> machine \<Rightarrow> 'a outcome" where
  "RaiseException which badVAddr m =
     bind_outcome (lift_result (DelayedLoad 0 0
       (m\<lparr>registers := (registers m)(BadVAddrReg := badVAddr)\<rparr>))) (Trap which)"

lemma RaiseException_not_Done [simp]: "RaiseException which a m \<noteq> Done y" "Done y \<noteq> RaiseException which a m"
  by (auto simp: RaiseException_def outcome_simps dest: sym)

section \<open>Address translation\<close>

text \<open>Where the entry of a translation was found: an index of the page table, or of the TLB.\<close>

datatype entry_loc = InPageTable nat | InTLB nat

definition find_entry :: "nat \<Rightarrow> machine \<Rightarrow> (ExceptionType + (entry_loc \<times> TranslationEntry)) result" where
  "find_entry vpn m =
     (case tlb m of
        None \<Rightarrow>
          (if vpn \<ge> unat (pageTableSize m) then Inr (Inl AddressErrorException)
           else bind_result (arr_get (the (pageTable m)) vpn) (\<lambda>e.
             if \<not> valid e then Inr (Inl PageFaultException) else Inr (Inr (InPageTable vpn, e))))
      | Some entries \<Rightarrow>
          (case first_below (\<lambda>i. valid (entries ! i) \<and> unat (virtualPage (entries ! i)) = vpn) TLBSize of
             Some i \<Rightarrow> Inr (Inr (InTLB i, entries ! i))
           | None \<Rightarrow> Inr (Inl PageFaultException)))"

fun store_entry :: "entry_loc \<Rightarrow> TranslationEntry \<Rightarrow> machine \<Rightarrow> machine" where
  "store_entry (InPageTable i) e m = m\<lparr>pageTable := map_option (\<lambda>pt. pt[i := e]) (pageTable m)\<rparr>"
| "store_entry (InTLB i) e m = m\<lparr>tlb := map_option (\<lambda>es. es[i := e]) (tlb m)\<rparr>"

definition touch :: "bool \<Rightarrow> TranslationEntry \<Rightarrow> TranslationEntry" where
  "touch writing e = e\<lparr>use_bit := True, dirty := dirty e \<or> writing\<rparr>"

definition Translate ::
  "u32 \<Rightarrow> nat \<Rightarrow> bool \<Rightarrow> machine \<Rightarrow> (ExceptionType + (nat \<times> machine)) result" where
  "Translate virtAddr sz writing m =
     (if (sz = 4 \<and> virtAddr AND 0x3 \<noteq> 0) \<or> (sz = 2 \<and> virtAddr AND 0x1 \<noteq> 0)
      then Inr (Inl AddressErrorException)
      else c_assert (tlb m = None \<or> pageTable m = None) (c_assert (tlb m \<noteq> None \<or> pageTable m \<noteq> None)
        (let vpn = unat virtAddr div PageSize; offset = unat virtAddr mod PageSize
         in bind_result (find_entry vpn m) (\<lambda>r. case r of
              Inl exc \<Rightarrow> Inr (Inl exc)
            | Inr (loc, e) \<Rightarrow>
                if readOnly e \<and> writing then Inr (Inl ReadOnlyException)
                else let pageFrame = unat (physicalPage e) in
                  if pageFrame \<ge> NumPhysPages then Inr (Inl BusErrorException)
                  else let e' = touch writing e;
                           physAddr = pageFrame * PageSize + offset
                       in c_assert (physAddr + sz \<le> MemorySize)
                            (Inr (Inr (physAddr, store_entry loc e' m)))))))"

section \<open>Memory accesses of user programs\<close>

definition memory_load :: "nat \<Rightarrow> nat \<Rightarrow> (nat \<Rightarrow> u8) \<Rightarrow> u32 result" where
  "memory_load sz p mem =
     (if sz = 1 then Inr (scast (mem p))
      else if sz = 2 then Inr (ucast (le_word16 (mem p) (mem (p + 1))))
      else if sz = 4 then Inr (le_word32 (mem p) (mem (p + 1)) (mem (p + 2)) (mem (p + 3)))
      else Inl AssertFailure)"

definition memory_store :: "nat \<Rightarrow> nat \<Rightarrow> u32 \<Rightarrow> (nat \<Rightarrow> u8) \<Rightarrow> (nat \<Rightarrow> u8) result" where
  "memory_store sz p v mem =
     (if sz = 1 then Inr (mem(p := word_byte 0 v))
      else if sz = 2 then Inr (mem(p := word_byte 0 v, p + 1 := word_byte 1 v))
      else if sz = 4 then
        Inr (mem(p := word_byte 0 v, p + 1 := word_byte 1 v, p + 2 := word_byte 2 v,
                 p + 3 := word_byte 3 v))
      else Inl AssertFailure)"

definition ReadMem :: "u32 \<Rightarrow> nat \<Rightarrow> machine \<Rightarrow> (u32 \<times> machine) outcome" where
  "ReadMem addr sz m =
     bind_outcome (lift_result (Translate addr sz False m)) (\<lambda>r. case r of
       Inl exception \<Rightarrow> RaiseException exception addr m
     | Inr (physicalAddress, m') \<Rightarrow>
         bind_outcome (lift_result (memory_load sz physicalAddress (mainMemory m'))) (\<lambda>v.
         Done (v, m')))"

definition WriteMem :: "u32 \<Rightarrow> nat \<Rightarrow> u32 \<Rightarrow> machine \<Rightarrow> machine outcome" where
  "WriteMem addr sz v m =
     bind_outcome (lift_result (Translate addr sz True m)) (\<lambda>r. case r of
       Inl exception \<Rightarrow> RaiseException exception addr m
     | Inr (physicalAddress, m') \<Rightarrow>
         bind_outcome (lift_result (memory_store sz physicalAddress v (mainMemory m'))) (\<lambda>mem.
         Done (m'\<lparr>mainMemory := mem\<rparr>)))"


section \<open>Registers\<close>

definition registers_ok :: "machine \<Rightarrow> bool" where
  "registers_ok m \<longleftrightarrow> registers m 0 = 0 \<and> unat (registers m LoadReg) < NumGPRegs"

lemma DelayedLoad_ok:
  assumes "unat (registers m LoadReg) < NumGPRegs" "unat nextReg < NumGPRegs"
  shows "\<exists>m'. DelayedLoad nextReg v m = Inr m' \<and> registers_ok m'"
  using assms by (auto simp: DelayedLoad_def Let_def registers_ok_def)

lemma DelayedLoad_frame:
  "DelayedLoad nextReg v m = Inr m' \<Longrightarrow> \<exists>r. m' = m\<lparr>registers := r\<rparr>"
  by (auto simp: DelayedLoad_def Let_def outcome_simps)

lemma RaiseException_run:
  assumes "unat (registers m LoadReg) < NumGPRegs"
  obtains m' where "RaiseException which bad m = Trap which m'" "registers_ok m'"
    "registers m' BadVAddrReg = bad" "\<exists>r. m' = m\<lparr>registers := r\<rparr>"
proof -
  have ok: "unat (registers (m\<lparr>registers := (registers m)(BadVAddrReg := bad)\<rparr>) LoadReg) < NumGPRegs"
    using assms by simp
  obtain m' where m': "DelayedLoad 0 0 (m\<lparr>registers := (registers m)(BadVAddrReg := bad)\<rparr>) = Inr m'"
    and "registers_ok m'"
    using DelayedLoad_ok[OF ok, of 0 0] by auto
  moreover have "registers m' BadVAddrReg = bad"
    using m' assms by (auto simp: DelayedLoad_def Let_def outcome_simps registers_ok_def)
  moreover have "\<exists>r. m' = m\<lparr>registers := r\<rparr>" using DelayedLoad_frame[OF m'] by auto
  ultimately show ?thesis by (intro that) (simp_all add: RaiseException_def)
qed

section \<open>Loads and stores of bytes\<close>

definition stored_value :: "nat \<Rightarrow> u32 \<Rightarrow> u32" where
  "stored_value sz v = (if sz = 1 then scast (word_byte 0 v) else if sz = 2 then v AND 0xffff else v)"

lemma low_half: "ucast (le_word16 (word_byte 0 v) (word_byte 1 v)) = (v :: u32) AND 0xffff"
proof -
  have m: "(0xffff :: u32) = mask 16" by (simp add: mask_numeral)
  show ?thesis
    unfolding m
    by (rule bit_word_eqI)
      (auto simp: bit_unsigned_iff bit_le_word16 bit_word_byte bit_and_iff bit_mask_iff)
qed

lemma memory_load_store:
  "memory_store sz p v mem = Inr mem' \<Longrightarrow> memory_load sz p mem' = Inr (stored_value sz v)"
  using low_half[of v] le_word32_of_bytes[of v, unfolded One_nat_def]
  by (auto simp: memory_store_def memory_load_def stored_value_def split: if_splits)

lemma memory_store_frame:
  "memory_store sz p v mem = Inr mem' \<Longrightarrow> q < p \<or> p + sz \<le> q \<Longrightarrow> mem' q = mem q"
  by (auto simp: memory_store_def split: if_splits)

lemma memory_load_cong:
  "(\<And>q. p \<le> q \<Longrightarrow> q < p + sz \<Longrightarrow> mem q = mem' q) \<Longrightarrow> memory_load sz p mem = memory_load sz p mem'"
  by (simp add: memory_load_def)

lemma memory_sizes:
  "sz \<in> {1, 2, 4} \<Longrightarrow> \<exists>v. memory_load sz p mem = Inr v"
  "sz \<in> {1, 2, 4} \<Longrightarrow> \<exists>mem'. memory_store sz p v mem = Inr mem'"
  by (auto simp: memory_load_def memory_store_def)

section \<open>Translation\<close>

definition tables_ok :: "machine \<Rightarrow> bool" where
  "tables_ok m \<longleftrightarrow>
     (case (tlb m, pageTable m) of
        (None, Some pt) \<Rightarrow> unat (pageTableSize m) \<le> length pt
      | (Some es, None) \<Rightarrow> length es = TLBSize
      | _ \<Rightarrow> False)"

definition aligned :: "u32 \<Rightarrow> nat \<Rightarrow> bool" where
  "aligned a sz \<longleftrightarrow> \<not> ((sz = 4 \<and> a AND 0x3 \<noteq> 0) \<or> (sz = 2 \<and> a AND 0x1 \<noteq> 0))"

lemma aligned_dvd: "sz \<in> {1, 2, 4} \<Longrightarrow> aligned a sz \<longleftrightarrow> sz dvd unat a"
proof -
  have "a AND 0x3 = take_bit 2 a" "a AND 0x1 = take_bit 1 a"
    by (simp_all add: take_bit_eq_mask mask_numeral)
  then have "unat (a AND 0x3) = unat a mod 4" "unat (a AND 0x1) = unat a mod 2"
    by (simp_all only: unsigned_take_bit_eq) (simp_all add: take_bit_eq_mod)
  then have "(a AND 0x3 = 0) = (unat a mod 4 = 0)" "(a AND 0x1 = 0) = (unat a mod 2 = 0)"
    by (metis unsigned_0 unsigned_eq_0_iff)+
  then show "sz \<in> {1, 2, 4} \<Longrightarrow> aligned a sz \<longleftrightarrow> sz dvd unat a"
    unfolding aligned_def dvd_eq_mod_eq_0 by (elim insertE emptyE) (simp_all only:, simp_all)
qed

text \<open>An aligned access stays inside the frame, so the last assertion of \<open>Translate\<close> holds.\<close>

lemma access_in_frame:
  assumes "sz \<in> {1, 2, 4}" "aligned a sz" "pf < NumPhysPages"
  shows "unat a mod PageSize + sz \<le> PageSize" "pf * PageSize + unat a mod PageSize + sz \<le> MemorySize"
proof -
  have d: "sz dvd unat a" using assms aligned_dvd by blast
  have "sz dvd PageSize" using assms(1) by (auto simp: PageSize_def)
  with d have "sz dvd unat a mod PageSize" by (simp add: dvd_mod_iff)
  then obtain k j where "unat a mod PageSize = sz * k" "PageSize = sz * j"
    using \<open>sz dvd PageSize\<close> by (auto elim!: dvdE)
  moreover have "unat a mod PageSize < PageSize" by (simp add: PageSize_def)
  ultimately have "k < j" by (metis mult_less_cancel1)
  then have "sz * Suc k \<le> sz * j" by (intro mult_le_mono2) simp
  then show *: "unat a mod PageSize + sz \<le> PageSize"
    using \<open>unat a mod PageSize = sz * k\<close> \<open>PageSize = sz * j\<close> by simp
  have "Suc pf * PageSize \<le> NumPhysPages * PageSize"
    using assms(3) by (intro mult_le_mono1) simp
  then show "pf * PageSize + unat a mod PageSize + sz \<le> MemorySize"
    using * by (simp add: MemorySize_def)
qed


lemma touch_simps [simp]:
  "virtualPage (touch w e) = virtualPage e" "physicalPage (touch w e) = physicalPage e"
  "valid (touch w e) = valid e" "readOnly (touch w e) = readOnly e"
  "touch False (touch w e) = touch w e" "touch True (touch w e) = touch True e"
  by (simp_all add: touch_def)

lemma Translate_unfold:
  assumes "aligned a sz" "(tlb m = None) \<noteq> (pageTable m = None)"
  shows "Translate a sz w m = bind_result (find_entry (unat a div PageSize) m) (\<lambda>r. case r of
              Inl exc \<Rightarrow> Inr (Inl exc)
            | Inr (loc, e) \<Rightarrow>
                if readOnly e \<and> w then Inr (Inl ReadOnlyException)
                else let pageFrame = unat (physicalPage e) in
                  if pageFrame \<ge> NumPhysPages then Inr (Inl BusErrorException)
                  else let e' = touch w e;
                           physAddr = pageFrame * PageSize + unat a mod PageSize
                       in c_assert (physAddr + sz \<le> MemorySize)
                            (Inr (Inr (physAddr, store_entry loc e' m))))"
  using assms by (auto simp: Translate_def aligned_def Let_def)

lemma Translate_stuck:
  "\<not> (aligned a sz \<and> (tlb m = None) \<noteq> (pageTable m = None)) \<Longrightarrow>
   Translate a sz w m \<in> {Inr (Inl AddressErrorException), Inl AssertFailure}"
  by (auto simp: Translate_def aligned_def check_def simp del: not_None_eq not_Some_eq)

lemma Translate_found:
  "Translate a sz w m = Inr (Inr (pa, m')) \<longleftrightarrow>
     aligned a sz \<and> (tlb m = None) \<noteq> (pageTable m = None) \<and>
     (\<exists>loc e. find_entry (unat a div PageSize) m = Inr (Inr (loc, e)) \<and> \<not> (readOnly e \<and> w)
        \<and> unat (physicalPage e) < NumPhysPages
        \<and> pa = unat (physicalPage e) * PageSize + unat a mod PageSize
        \<and> pa + sz \<le> MemorySize \<and> m' = store_entry loc (touch w e) m)"
proof (cases "aligned a sz \<and> (tlb m = None) \<noteq> (pageTable m = None)")
  case False
  then show ?thesis using Translate_stuck[OF False, of w] by auto
next
  case True
  with Translate_unfold[of a sz m w] show ?thesis
    by (cases "find_entry (unat a div PageSize) m")
      (auto simp: Let_def outcome_simps not_le split: sum.split if_splits)
qed

lemma find_entry_refused:
  "find_entry vpn m = Inr (Inl exc) \<Longrightarrow> exc \<in> {AddressErrorException, PageFaultException}"
  by (auto simp: find_entry_def outcome_simps split: option.splits if_splits)

lemma Translate_refused:
  assumes "Translate a sz w m = Inr (Inl exc)"
  shows "exc \<in> {AddressErrorException, PageFaultException, ReadOnlyException, BusErrorException}"
proof (cases "aligned a sz \<and> (tlb m = None) \<noteq> (pageTable m = None)")
  case False
  then show ?thesis using Translate_stuck[OF False, of w] assms by auto
next
  case True
  with Translate_unfold[of a sz m w] assms
  obtain r where r: "find_entry (unat a div PageSize) m = Inr r"
    by (cases "find_entry (unat a div PageSize) m") auto
  show ?thesis
  proof (cases r)
    case (Inl x)
    then show ?thesis using r assms Translate_unfold[of a sz m w] True
      by (auto dest: find_entry_refused)
  next
    case (Inr p)
    then show ?thesis using r assms Translate_unfold[of a sz m w] True
      by (cases p) (auto simp: Let_def check_def split: if_splits)
  qed
qed

lemma find_entry_total:
  assumes "tables_ok m"
  shows "\<exists>r. find_entry vpn m = Inr r"
  using assms
  by (auto simp: find_entry_def tables_ok_def split: option.splits if_splits)

lemma Translate_total:
  assumes "tables_ok m" "sz \<in> {1, 2, 4}"
  shows "\<exists>r. Translate a sz w m = Inr r"
proof (cases "aligned a sz")
  case True
  obtain r where r: "find_entry (unat a div PageSize) m = Inr r" using find_entry_total assms(1) by blast
  have t: "tlb m = None \<or> pageTable m = None" "tlb m \<noteq> None \<or> pageTable m \<noteq> None"
    using assms(1) by (auto simp: tables_ok_def split: option.splits)
  show ?thesis
    using True assms(2) t access_in_frame(2)[OF assms(2) True]
    by (auto simp: Translate_def Let_def r aligned_def split: sum.split prod.split)
qed (auto simp: Translate_def aligned_def)

lemma find_entry_store:
  assumes "tables_ok m" "find_entry vpn m = Inr (Inr (loc, e))"
  shows "find_entry vpn (store_entry loc (touch w e) m) = Inr (Inr (loc, touch w e))"
proof (cases "tlb m")
  case None
  then show ?thesis using assms
    by (auto simp: find_entry_def tables_ok_def outcome_simps split: if_splits option.splits)
next
  case (Some es)
  then obtain i where i: "loc = InTLB i" "e = es ! i" "i < TLBSize" "length es = TLBSize"
    "first_below (\<lambda>i. valid (es ! i) \<and> unat (virtualPage (es ! i)) = vpn) TLBSize = Some i"
    using assms by (auto simp: find_entry_def tables_ok_def first_below_Some split: option.splits)
  have "first_below (\<lambda>j. valid (es[i := touch w e] ! j) \<and> unat (virtualPage (es[i := touch w e] ! j)) = vpn) TLBSize
      = first_below (\<lambda>j. valid (es ! j) \<and> unat (virtualPage (es ! j)) = vpn) TLBSize"
    using i by (intro first_from_cong) (auto simp: nth_list_update)
  then show ?thesis using i Some by (simp add: find_entry_def)
qed

lemma store_entry_simps [simp]:
  "registers (store_entry loc e m) = registers m" "mainMemory (store_entry loc e m) = mainMemory m"
  "pageTableSize (store_entry loc e m) = pageTableSize m"
  "(tlb (store_entry loc e m) = None) = (tlb m = None)"
  "(pageTable (store_entry loc e m) = None) = (pageTable m = None)"
  by (cases loc; simp)+

lemma store_entry_twice [simp]: "store_entry loc e (store_entry loc e' m) = store_entry loc e m"
  by (cases loc; cases "tlb m"; cases "pageTable m"; simp)

lemma tables_ok_store [simp]: "tables_ok (store_entry loc e m) = tables_ok m"
  by (cases loc; cases "tlb m"; cases "pageTable m"; simp add: tables_ok_def)

lemma tables_ok_memory [simp]:
  "tables_ok (m\<lparr>mainMemory := mem\<rparr>) = tables_ok m" "tables_ok (m\<lparr>registers := r\<rparr>) = tables_ok m"
  by (simp_all add: tables_ok_def split: option.split)

lemma find_entry_memory [simp]: "find_entry vpn (m\<lparr>mainMemory := mem\<rparr>) = find_entry vpn m"
  by (simp add: find_entry_def split: option.split)

lemma store_entry_memory: "store_entry loc e (m\<lparr>mainMemory := mem\<rparr>) = (store_entry loc e m)\<lparr>mainMemory := mem\<rparr>"
  by (cases loc) simp_all

text \<open>Translating again finds the same address and changes nothing more.\<close>

lemma Translate_again:
  assumes "tables_ok m" "Translate a sz w m = Inr (Inr (pa, m'))"
  shows "Translate a sz False (m'\<lparr>mainMemory := mem\<rparr>) = Inr (Inr (pa, m'\<lparr>mainMemory := mem\<rparr>))"
proof -
  from assms(2) obtain loc e where e: "aligned a sz" "(tlb m = None) \<noteq> (pageTable m = None)"
    "find_entry (unat a div PageSize) m = Inr (Inr (loc, e))" "\<not> (readOnly e \<and> w)"
    "unat (physicalPage e) < NumPhysPages" "pa + sz \<le> MemorySize"
    "pa = unat (physicalPage e) * PageSize + unat a mod PageSize" "m' = store_entry loc (touch w e) m"
    unfolding Translate_found by blast
  show ?thesis
    unfolding Translate_found
    by (intro conjI exI[of _ loc] exI[of _ "touch w e"])
      (use e assms(1) in \<open>simp_all add: find_entry_store store_entry_memory del: not_None_eq\<close>)
qed

lemma WriteMem_Done:
  "WriteMem a sz v m = Done m' \<longleftrightarrow>
     (\<exists>pa m1 mem. Translate a sz True m = Inr (Inr (pa, m1))
       \<and> memory_store sz pa v (mainMemory m1) = Inr mem \<and> m' = m1\<lparr>mainMemory := mem\<rparr>)"
  by (auto simp: WriteMem_def outcome_simps case_eqs RaiseException_def)

lemma ReadMem_Done:
  "ReadMem a sz m = Done (v, m') \<longleftrightarrow>
     (\<exists>pa. Translate a sz False m = Inr (Inr (pa, m')) \<and> memory_load sz pa (mainMemory m') = Inr v)"
  by (auto simp: ReadMem_def outcome_simps case_eqs RaiseException_def)


section \<open>The contract of an access through a page table\<close>

text \<open>Which exception an access to a linear page table raises, without the machine's steps.\<close>

definition access_check :: "TranslationEntry list \<Rightarrow> nat \<Rightarrow> u32 \<Rightarrow> nat \<Rightarrow> bool \<Rightarrow> ExceptionType" where
  "access_check pt n a sz writing =
     (let vpn = unat a div PageSize in
      if \<not> sz dvd unat a \<or> n \<le> vpn then AddressErrorException
      else if \<not> valid (pt ! vpn) then PageFaultException
      else if readOnly (pt ! vpn) \<and> writing then ReadOnlyException
      else if NumPhysPages \<le> unat (physicalPage (pt ! vpn)) then BusErrorException
      else NoException)"

definition physical_address :: "TranslationEntry list \<Rightarrow> u32 \<Rightarrow> nat" where
  "physical_address pt a = unat (physicalPage (pt ! (unat a div PageSize))) * PageSize + unat a mod PageSize"

definition linear :: "machine \<Rightarrow> TranslationEntry list \<Rightarrow> bool" where
  "linear m pt \<longleftrightarrow> tlb m = None \<and> pageTable m = Some pt \<and> unat (pageTableSize m) \<le> length pt"

definition touch_page :: "bool \<Rightarrow> u32 \<Rightarrow> machine \<Rightarrow> machine" where
  "touch_page w a m = (let vpn = unat a div PageSize in
     m\<lparr>pageTable := map_option (\<lambda>pt. pt[vpn := touch w (pt ! vpn)]) (pageTable m)\<rparr>)"

lemma linear_tables_ok: "linear m pt \<Longrightarrow> tables_ok m"
  by (simp add: linear_def tables_ok_def)

lemma Translate_linear:
  assumes "linear m pt" "sz \<in> {1, 2, 4}"
  shows "Translate a sz w m =
    (let exc = access_check pt (unat (pageTableSize m)) a sz w
     in if exc = NoException then Inr (Inr (physical_address pt a, touch_page w a m)) else Inr (Inl exc))"
proof (cases "aligned a sz")
  case True
  then have d: "sz dvd unat a" using aligned_dvd assms(2) by blast
  show ?thesis
    using assms True d access_in_frame(2)[OF assms(2) True]
    by (auto simp: Translate_def aligned_def access_check_def Let_def linear_def find_entry_def
        touch_page_def physical_address_def not_le)
next
  case False
  then have "\<not> sz dvd unat a" using aligned_dvd assms(2) by blast
  with False show ?thesis by (auto simp: Translate_def aligned_def access_check_def Let_def)
qed

lemma touch_page_simps [simp]:
  "mainMemory (touch_page w a m) = mainMemory m" "registers (touch_page w a m) = registers m"
  "tlb (touch_page w a m) = tlb m" "pageTableSize (touch_page w a m) = pageTableSize m"
  by (simp_all add: touch_page_def Let_def)

lemma access_linear:
  assumes "linear m pt" "sz \<in> {1, 2, 4}" "access_check pt (unat (pageTableSize m)) a sz w = NoException"
  shows "w \<Longrightarrow> \<exists>mem. memory_store sz (physical_address pt a) v (mainMemory m) = Inr mem
      \<and> WriteMem a sz v m = Done ((touch_page w a m)\<lparr>mainMemory := mem\<rparr>)"
    "\<not> w \<Longrightarrow> \<exists>v. memory_load sz (physical_address pt a) (mainMemory m) = Inr v
      \<and> ReadMem a sz m = Done (v, touch_page w a m)"
proof -
  assume w: "w"
  obtain mem where "memory_store sz (physical_address pt a) v (mainMemory m) = Inr mem"
    using memory_sizes(2)[OF assms(2)] by blast
  then show "\<exists>mem. memory_store sz (physical_address pt a) v (mainMemory m) = Inr mem
      \<and> WriteMem a sz v m = Done ((touch_page w a m)\<lparr>mainMemory := mem\<rparr>)"
    using w Translate_linear[OF assms(1,2), of a w] assms(3) by (simp add: WriteMem_def)
next
  assume w: "\<not> w"
  obtain x where "memory_load sz (physical_address pt a) (mainMemory m) = Inr x"
    using memory_sizes(1)[OF assms(2)] by blast
  then show "\<exists>v. memory_load sz (physical_address pt a) (mainMemory m) = Inr v
      \<and> ReadMem a sz m = Done (v, touch_page w a m)"
    using w Translate_linear[OF assms(1,2), of a w] assms(3) by (simp add: ReadMem_def)
qed

lemma refused_linear:
  assumes "linear m pt" "sz \<in> {1, 2, 4}" "access_check pt (unat (pageTableSize m)) a sz w \<noteq> NoException"
  shows "w \<Longrightarrow> WriteMem a sz v m = RaiseException (access_check pt (unat (pageTableSize m)) a sz w) a m"
    "\<not> w \<Longrightarrow> ReadMem a sz m = RaiseException (access_check pt (unat (pageTableSize m)) a sz w) a m"
  using Translate_linear[OF assms(1,2), of a w] assms(3)
  by (simp_all add: WriteMem_def ReadMem_def)

section \<open>Separate address spaces\<close>

definition frames :: "TranslationEntry list \<Rightarrow> nat \<Rightarrow> nat set" where
  "frames pt n = (\<lambda>i. unat (physicalPage (pt ! i))) ` {i. i < n \<and> valid (pt ! i)}"

definition with_table :: "TranslationEntry list \<Rightarrow> u32 \<Rightarrow> machine \<Rightarrow> machine" where
  "with_table pt n m = m\<lparr>pageTable := Some pt, pageTableSize := n\<rparr>"

lemma access_check_frames:
  "access_check pt n a sz w = NoException \<Longrightarrow> unat (physicalPage (pt ! (unat a div PageSize))) \<in> frames pt n"
  by (auto simp: access_check_def Let_def frames_def split: if_splits)

lemma load_in_other_frame:
  assumes "f \<noteq> g" "x + sz \<le> PageSize" "y + sz' \<le> PageSize"
    and "memory_store sz (f * PageSize + x) v mem = Inr mem'"
  shows "memory_load sz' (g * PageSize + y) mem' = memory_load sz' (g * PageSize + y) mem"
proof (rule memory_load_cong)
  fix q assume q: "g * PageSize + y \<le> q" "q < g * PageSize + y + sz'"
  have "q < f * PageSize + x \<or> f * PageSize + x + sz \<le> q"
  proof (cases "f < g")
    case True
    then have "Suc f * PageSize \<le> g * PageSize" by (intro mult_le_mono1) simp
    then show ?thesis using q(1) assms(2) by simp
  next
    case False
    then have "Suc g * PageSize \<le> f * PageSize" using assms(1) by (intro mult_le_mono1) simp
    then show ?thesis using q(2) assms(3) by simp
  qed
  then show "mem' q = mem q" by (rule memory_store_frame[OF assms(4)])
qed

section \<open>Properties\<close>

text \<open>A machine that runs a program of one page, for the examples.\<close>

definition one_page :: "u32 \<Rightarrow> bool \<Rightarrow> TranslationEntry list" where
  "one_page frame ro = [\<lparr>virtualPage = 0, physicalPage = frame, valid = True, readOnly = ro,
     use_bit = False, dirty = False\<rparr>]"

lemma one_page_machine:
  "linear (with_table (one_page f ro) 1 (Machine_new False)) (one_page f ro)"
  "registers_ok (with_table (one_page f ro) 1 (Machine_new False))"
  "pageTableSize (with_table (one_page f ro) 1 (Machine_new False)) = 1"
  by (simp_all add: linear_def with_table_def one_page_def Machine_new_def registers_ok_def)

lemma one_page_checks:
  "access_check (one_page 3 False) (Suc 0) 8 4 w = NoException"
  "access_check (one_page 3 True) (Suc 0) 8 4 True = ReadOnlyException"
  by (simp_all add: access_check_def one_page_def Let_def machine_sizes)

text \<open>
  C10: what a user program stores it loads back. After a \<open>WriteMem\<close> that did not trap, a
  \<open>ReadMem\<close> of the same address and size returns the stored value (its low half for two bytes,
  its low byte with the sign extended for one byte) and leaves the machine as it is, whether the
  translation goes through a page table or the TLB.
\<close>

theorem ReadMem_after_WriteMem:
  assumes "tables_ok m" "WriteMem a sz v m = Done m'"
  shows "ReadMem a sz m' = Done (stored_value sz v, m')"
  using assms Translate_again memory_load_store
  unfolding WriteMem_Done ReadMem_Done by fastforce

theorem ReadMem_after_WriteMem_witness:
  "\<exists>m'. WriteMem 8 4 0xdeadbeef (with_table (one_page 3 False) 1 (Machine_new False)) = Done m'
     \<and> ReadMem 8 4 m' = Done (0xdeadbeef, m')"
proof -
  let ?m = "with_table (one_page 3 False) 1 (Machine_new False)"
  obtain m' where "WriteMem 8 4 0xdeadbeef ?m = Done m'"
    using access_linear(1)[OF one_page_machine(1)[of 3 False], of 4 8 True "0xdeadbeef"]
    by (auto simp: one_page_machine one_page_checks)
  then show ?thesis
    using ReadMem_after_WriteMem[OF linear_tables_ok[OF one_page_machine(1)], of 8 4 "0xdeadbeef" 3 False m']
    by (auto simp: stored_value_def)
qed

text \<open>
  C8: what a page table grants and refuses. A write through a linear page table succeeds exactly
  when the address is aligned, its page is inside the table, valid, not read-only and in an
  existing frame; then it changes no byte outside the addressed ones, which are in memory.
  Otherwise it traps with the exception for the first condition that fails, with the address in
  \<open>BadVAddrReg\<close> and memory and page tables unchanged.
\<close>

theorem WriteMem_page_protection:
  assumes "linear m pt" "registers_ok m" "sz \<in> {1, 2, 4}"
  shows "let exc = access_check pt (unat (pageTableSize m)) a sz True; pa = physical_address pt a
    in if exc = NoException
       then pa + sz \<le> MemorySize \<and> (\<exists>m'. WriteMem a sz v m = Done m' \<and> registers m' = registers m
              \<and> (\<forall>q. q \<notin> {pa ..< pa + sz} \<longrightarrow> mainMemory m' q = mainMemory m q))
       else \<exists>m'. WriteMem a sz v m = Trap exc m' \<and> registers_ok m' \<and> registers m' BadVAddrReg = a
              \<and> mainMemory m' = mainMemory m \<and> pageTable m' = pageTable m"
proof (cases "access_check pt (unat (pageTableSize m)) a sz True = NoException")
  case True
  have "aligned a sz" "unat (physicalPage (pt ! (unat a div PageSize))) < NumPhysPages"
    using True assms(3) by (auto simp: access_check_def Let_def aligned_dvd split: if_splits)
  then have "physical_address pt a + sz \<le> MemorySize"
    unfolding physical_address_def using access_in_frame(2) assms(3) by blast
  with True access_linear(1)[OF assms(1,3) True, of v] show ?thesis
    by (auto simp: Let_def memory_store_frame)
next
  case False
  obtain m' where "WriteMem a sz v m = Trap (access_check pt (unat (pageTableSize m)) a sz True) m'"
    "registers_ok m'" "registers m' BadVAddrReg = a" "\<exists>r. m' = m\<lparr>registers := r\<rparr>"
    using RaiseException_run[of m] assms(2)[unfolded registers_ok_def] refused_linear(1)[OF assms(1,3) False] by metis
  with False show ?thesis by (auto simp: Let_def)
qed

theorem WriteMem_page_protection_witness:
  "\<exists>m'. WriteMem 8 4 1 (with_table (one_page 3 True) 1 (Machine_new False)) = Trap ReadOnlyException m'
     \<and> registers m' BadVAddrReg = 8"
  using WriteMem_page_protection[OF one_page_machine(1) one_page_machine(2), of 4 3 True 8 1]
  by (auto simp: Let_def one_page_machine one_page_checks)

text \<open>
  C9: address spaces are separate. If two page tables map their valid pages to different frames,
  a write of a program that runs with the first one changes nothing that a program running with
  the second one can read.
\<close>

theorem address_spaces_separate:
  assumes "linear (with_table pt1 n1 m) pt1" "linear (with_table pt2 n2 m) pt2"
    and "frames pt1 (unat n1) \<inter> frames pt2 (unat n2) = {}" "sz \<in> {1, 2, 4}" "sz' \<in> {1, 2, 4}"
    and "WriteMem a sz v (with_table pt1 n1 m) = Done m'"
    and "ReadMem b sz' (with_table pt2 n2 m) = Done (x, m2)"
  shows "\<exists>m3. ReadMem b sz' (with_table pt2 n2 m') = Done (x, m3)"
proof -
  let ?m1 = "with_table pt1 n1 m" and ?m2 = "with_table pt2 n2 m"
  have sizes: "pageTableSize ?m1 = n1" "pageTableSize ?m2 = n2" by (simp_all add: with_table_def)
  have c1: "access_check pt1 (unat n1) a sz True = NoException"
    using refused_linear(1)[OF assms(1,4), of a True v] assms(6)
    by (auto simp: sizes)
  have c2: "access_check pt2 (unat n2) b sz' False = NoException"
    using refused_linear(2)[OF assms(2,5), of b False] assms(7)
    by (auto simp: sizes)
  obtain mem where mem: "memory_store sz (physical_address pt1 a) v (mainMemory m) = Inr mem"
    "m' = (touch_page True a ?m1)\<lparr>mainMemory := mem\<rparr>"
    using access_linear(1)[OF assms(1,4), of a True v] c1 assms(6)
    by (auto simp: sizes) (auto simp: with_table_def)
  have m': "linear (with_table pt2 n2 m') pt2" "pageTableSize (with_table pt2 n2 m') = n2"
    "mainMemory (with_table pt2 n2 m') = mem"
    using assms(2) mem(2) by (auto simp: with_table_def linear_def touch_page_def Let_def)
  have "aligned a sz" "aligned b sz'"
    using c1 c2 assms(4,5) by (auto simp: access_check_def Let_def aligned_dvd split: if_splits)
  then have in_page: "unat a mod PageSize + sz \<le> PageSize" "unat b mod PageSize + sz' \<le> PageSize"
    using access_in_frame(1)[of _ _ 0] assms(4,5) by (auto simp: NumPhysPages_def)
  let ?fa = "unat (physicalPage (pt1 ! (unat a div PageSize)))"
  let ?fb = "unat (physicalPage (pt2 ! (unat b div PageSize)))"
  have f: "?fa \<noteq> ?fb" using access_check_frames[OF c1] access_check_frames[OF c2] assms(3) by auto
  have "memory_load sz' (physical_address pt2 b) mem = memory_load sz' (physical_address pt2 b) (mainMemory m)"
    using load_in_other_frame[OF f in_page] mem(1) by (simp add: physical_address_def)
  moreover have "memory_load sz' (physical_address pt2 b) (mainMemory m) = Inr x"
    using access_linear(2)[OF assms(2,5), of b False] c2 assms(7)
    by (auto simp: sizes) (auto simp: with_table_def)
  ultimately show ?thesis
    using access_linear(2)[OF m'(1) assms(5), of b False] c2 m'(2,3) by auto
qed

theorem address_spaces_separate_witness:
  "\<exists>m' m3. WriteMem 8 4 1 (with_table (one_page 3 False) 1 (Machine_new False)) = Done m'
     \<and> ReadMem 8 4 (with_table (one_page 5 False) 1 m') = Done (0, m3)"
proof -
  let ?m = "Machine_new False"
  let ?m1 = "with_table (one_page 3 False) 1 ?m" and ?m2 = "with_table (one_page 5 False) 1 ?m"
  have c: "access_check (one_page 5 False) (Suc 0) 8 4 False = NoException"
    by (simp add: access_check_def one_page_def Let_def machine_sizes)
  obtain m' where w: "WriteMem 8 4 1 ?m1 = Done m'"
    using access_linear(1)[OF one_page_machine(1)[of 3 False], of 4 8 True 1]
    by (auto simp: one_page_machine one_page_checks)
  have r: "ReadMem 8 4 ?m2 = Done (0, touch_page False 8 ?m2)"
    using access_linear(2)[OF one_page_machine(1)[of 5 False], of 4 8 False]
    by (auto simp: one_page_machine c memory_load_def) (simp add: with_table_def Machine_new_def le_word32_def)
  have "frames (one_page 3 False) (unat 1) \<inter> frames (one_page 5 False) (unat 1) = {}"
    by (auto simp: frames_def one_page_def)
  then show ?thesis
    using address_spaces_separate[OF one_page_machine(1) one_page_machine(1) _ _ _ w r] w by auto
qed

end
