(* ===== verification/Mips_Exec.thy ===== *)
theory Mips_Exec imports Mips_Decode Mips_Mult Machine "HOL-Library.Signed_Division" begin

text \<open>
  The instruction interpreter of machine/mipssim.cc: \<open>Machine::OneInstruction\<close>, the switch over
  the opcodes in the order of the source (one definition per stretch of cases, the last arm of
  each continuing with the next stretch), and the loop of \<open>Machine::Run\<close>. The build defines
  \<open>SIM_FIX\<close> and a little-endian host. A trap ends the instruction, as every \<open>return\<close> after
  \<open>RaiseException\<close> does; a division whose quotient does not fit kills the process (\<open>DivideTrap\<close>).
\<close>

unbundle bit_operations_syntax

section \<open>The state of one instruction\<close>

abbreviation SIGN_BIT :: u32 where "SIGN_BIT \<equiv> 0x80000000"
abbreviation R31 :: nat where "R31 \<equiv> 31"

definition IndexToAddr :: "u32 \<Rightarrow> u32" where "IndexToAddr x = push_bit 2 x"

text \<open>The locals of \<open>OneInstruction\<close> that outlive its switch, and the machine.\<close>

record step =
  mach :: machine
  pcAfter :: u32
  nextLoadReg :: u32
  nextLoadValue :: u32

definition reg :: "step \<Rightarrow> nat \<Rightarrow> u32" where
  "reg s n = registers (mach s) n"

definition put :: "nat \<Rightarrow> u32 \<Rightarrow> step \<Rightarrow> step" where
  "put n v s = s\<lparr>mach := (mach s)\<lparr>registers := (registers (mach s))(n := v)\<rparr>\<rparr>"

definition trap :: "ExceptionType \<Rightarrow> u32 \<Rightarrow> step \<Rightarrow> step outcome" where
  "trap exc bad s = RaiseException exc bad (mach s)"

definition branch_if :: "bool \<Rightarrow> instruction \<Rightarrow> step \<Rightarrow> step" where
  "branch_if c i s = (if c then s\<lparr>pcAfter := reg s NextPCReg + IndexToAddr (extra i)\<rparr> else s)"

definition load :: "nat \<Rightarrow> u32 \<Rightarrow> step \<Rightarrow> step" where
  "load rt v s = s\<lparr>nextLoadReg := of_nat rt, nextLoadValue := v\<rparr>"

definition read_mem :: "u32 \<Rightarrow> nat \<Rightarrow> step \<Rightarrow> (u32 \<Rightarrow> step \<Rightarrow> step outcome) \<Rightarrow> step outcome" where
  "read_mem a sz s k = bind_outcome (ReadMem a sz (mach s)) (\<lambda>(v, m). k v (s\<lparr>mach := m\<rparr>))"

definition write_mem :: "u32 \<Rightarrow> nat \<Rightarrow> u32 \<Rightarrow> step \<Rightarrow> step outcome" where
  "write_mem a sz v s = bind_outcome (WriteMem a sz v (mach s)) (\<lambda>m. Done (s\<lparr>mach := m\<rparr>))"

text \<open>The C operators \<open>/\<close> and \<open>%\<close> on \<open>int\<close>: the host traps when the quotient overflows.\<close>

definition c_divide :: "u32 \<Rightarrow> u32 \<Rightarrow> (u32 \<times> u32) result" where
  "c_divide a b = check (\<not> (sint a = - (2 ^ 31) \<and> sint b = - 1)) DivideTrap
     (Inr (word_of_int (sint a sdiv sint b), word_of_int (sint a smod sint b)))"

section \<open>The switch\<close>

definition exec_syscall_xor :: "instruction \<Rightarrow> step \<Rightarrow> step outcome" where
  "exec_syscall_xor i s =
     (case opCode i of
        OP_SYSCALL \<Rightarrow> trap SyscallException 0 s
      | OP_XOR \<Rightarrow> Done (put (i_rd i) (reg s (i_rs i) XOR reg s (i_rt i)) s)
      | OP_XORI \<Rightarrow> Done (put (i_rt i) (reg s (i_rs i) XOR (extra i AND 0xffff)) s)
      | OP_RES \<Rightarrow> trap IllegalInstrException 0 s
      | OP_UNIMP \<Rightarrow> trap IllegalInstrException 0 s
      | _ \<Rightarrow> Fault AssertFailure)"

definition swl_value :: "u32 \<Rightarrow> u32 \<Rightarrow> u32 \<Rightarrow> u32" where
  "swl_value byte r v =
     (if 3 - byte = 0 then r
      else if 3 - byte = 1 then (v AND 0xff000000) OR (signed_drop_bit 8 r AND 0xffffff)
      else if 3 - byte = 2 then (v AND 0xffff0000) OR (signed_drop_bit 16 r AND 0xffff)
      else if 3 - byte = 3 then (v AND 0xffffff00) OR (signed_drop_bit 24 r AND 0xff)
      else v)"

definition swr_value :: "u32 \<Rightarrow> u32 \<Rightarrow> u32 \<Rightarrow> u32" where
  "swr_value byte r v =
     (if 3 - byte = 0 then (v AND 0xffffff) OR push_bit 24 r
      else if 3 - byte = 1 then (v AND 0xffff) OR push_bit 16 r
      else if 3 - byte = 2 then (v AND 0xff) OR push_bit 8 r
      else if 3 - byte = 3 then r
      else v)"

definition exec_store_unaligned :: "instruction \<Rightarrow> step \<Rightarrow> step outcome" where
  "exec_store_unaligned i s =
     (let tmp = reg s (i_rs i) + extra i; byte = tmp AND 0x3 in
      case opCode i of
        OP_SWL \<Rightarrow> read_mem (tmp - byte) 4 s (\<lambda>v s.
          write_mem (tmp - byte) 4 (swl_value byte (reg s (i_rt i)) v) s)
      | OP_SWR \<Rightarrow> read_mem (tmp - byte) 4 s (\<lambda>v s.
          write_mem (tmp - byte) 4 (swr_value byte (reg s (i_rt i)) v) s)
      | _ \<Rightarrow> exec_syscall_xor i s)"

definition exec_store_shift_sub :: "instruction \<Rightarrow> step \<Rightarrow> step outcome" where
  "exec_store_shift_sub i s =
     (let rs = reg s (i_rs i); rt = reg s (i_rt i); rd = i_rd i in
      case opCode i of
        OP_SB \<Rightarrow> write_mem (rs + extra i) 1 rt s
      | OP_SH \<Rightarrow> write_mem (rs + extra i) 2 rt s
      | OP_SLL \<Rightarrow> Done (put rd (push_bit (unat (extra i)) rt) s)
      | OP_SLLV \<Rightarrow> Done (put rd (push_bit (unat (rs AND 0x1f)) rt) s)
      | OP_SLT \<Rightarrow> Done (put rd (if sint rs < sint rt then 1 else 0) s)
      | OP_SLTI \<Rightarrow> Done (put (i_rt i) (if sint rs < sint (extra i) then 1 else 0) s)
      | OP_SLTIU \<Rightarrow> Done (put (i_rt i) (if rs < extra i then 1 else 0) s)
      | OP_SLTU \<Rightarrow> Done (put rd (if rs < rt then 1 else 0) s)
      | OP_SRA \<Rightarrow> Done (put rd (signed_drop_bit (unat (extra i)) rt) s)
      | OP_SRAV \<Rightarrow> Done (put rd (signed_drop_bit (unat (rs AND 0x1f)) rt) s)
      | OP_SRL \<Rightarrow> (let tmp = rt; tmp = signed_drop_bit (unat (extra i)) tmp in Done (put rd tmp s))
      | OP_SRLV \<Rightarrow> (let tmp = rt; tmp = signed_drop_bit (unat (rs AND 0x1f)) tmp in Done (put rd tmp s))
      | OP_SUB \<Rightarrow>
          (let diff = rs - rt in
           if (rs XOR rt) AND SIGN_BIT \<noteq> 0 \<and> (rs XOR diff) AND SIGN_BIT \<noteq> 0
           then trap OverflowException 0 s else Done (put rd diff s))
      | OP_SUBU \<Rightarrow> Done (put rd (rs - rt) s)
      | OP_SW \<Rightarrow> write_mem (rs + extra i) 4 rt s
      | _ \<Rightarrow> exec_store_unaligned i s)"

definition exec_move_mult_or :: "instruction \<Rightarrow> step \<Rightarrow> step outcome" where
  "exec_move_mult_or i s =
     (let rs = reg s (i_rs i); rt = reg s (i_rt i) in
      case opCode i of
        OP_MFHI \<Rightarrow> Done (put (i_rd i) (reg s HiReg) s)
      | OP_MFLO \<Rightarrow> Done (put (i_rd i) (reg s LoReg) s)
      | OP_MTHI \<Rightarrow> Done (put HiReg rs s)
      | OP_MTLO \<Rightarrow> Done (put LoReg rs s)
      | OP_MULT \<Rightarrow> (let (hi, lo) = Mult rs rt True in Done (put LoReg lo (put HiReg hi s)))
      | OP_MULTU \<Rightarrow> (let (hi, lo) = Mult rs rt False in Done (put LoReg lo (put HiReg hi s)))
      | OP_NOR \<Rightarrow> Done (put (i_rd i) (NOT (rs OR rt)) s)
      | OP_OR \<Rightarrow> Done (put (i_rd i) (rs OR rt) s)
      | OP_ORI \<Rightarrow> Done (put (i_rt i) (rs OR (extra i AND 0xffff)) s)
      | _ \<Rightarrow> exec_store_shift_sub i s)"

definition lwl_value :: "u32 \<Rightarrow> u32 \<Rightarrow> u32 \<Rightarrow> u32" where
  "lwl_value byte old v =
     (if 3 - byte = 0 then v
      else if 3 - byte = 1 then (old AND 0xff) OR push_bit 8 v
      else if 3 - byte = 2 then (old AND 0xffff) OR push_bit 16 v
      else if 3 - byte = 3 then (old AND 0xffffff) OR push_bit 24 v
      else old)"

definition lwr_value :: "u32 \<Rightarrow> u32 \<Rightarrow> u32 \<Rightarrow> u32" where
  "lwr_value byte old v =
     (if 3 - byte = 0 then (old AND 0xffffff00) OR (signed_drop_bit 24 v AND 0xff)
      else if 3 - byte = 1 then (old AND 0xffff0000) OR (signed_drop_bit 16 v AND 0xffff)
      else if 3 - byte = 2 then (old AND 0xff000000) OR (signed_drop_bit 8 v AND 0xffffff)
      else if 3 - byte = 3 then v
      else old)"

text \<open>The register the unaligned loads merge into: a load still in its delay slot is forwarded.\<close>

definition pending_or_reg :: "nat \<Rightarrow> step \<Rightarrow> u32" where
  "pending_or_reg rt s = (if reg s LoadReg = of_nat rt then reg s LoadValueReg else reg s rt)"

definition exec_load_unaligned :: "instruction \<Rightarrow> step \<Rightarrow> step outcome" where
  "exec_load_unaligned i s =
     (let tmp = reg s (i_rs i) + extra i; byte = tmp AND 0x3 in
      case opCode i of
        OP_LWL \<Rightarrow> read_mem (tmp - byte) 4 s (\<lambda>v s.
          Done (load (i_rt i) (lwl_value byte (pending_or_reg (i_rt i) s) v) s))
      | OP_LWR \<Rightarrow> read_mem (tmp - byte) 4 s (\<lambda>v s.
          Done (load (i_rt i) (lwr_value byte (pending_or_reg (i_rt i) s) v) s))
      | _ \<Rightarrow> exec_move_mult_or i s)"

definition exec_load_byte :: "instruction \<Rightarrow> u32 \<Rightarrow> step \<Rightarrow> step outcome" where
  "exec_load_byte i tmp s = read_mem tmp 1 s (\<lambda>v s.
     Done (load (i_rt i) (if v AND 0x80 \<noteq> 0 \<and> opCode i = OP_LB then v OR 0xffffff00 else v AND 0xff) s))"

definition exec_load_half :: "instruction \<Rightarrow> u32 \<Rightarrow> step \<Rightarrow> step outcome" where
  "exec_load_half i tmp s =
     (if tmp AND 0x1 \<noteq> 0 then trap AddressErrorException tmp s
      else read_mem tmp 2 s (\<lambda>v s.
        Done (load (i_rt i) (if v AND 0x8000 \<noteq> 0 \<and> opCode i = OP_LH then v OR 0xffff0000 else v AND 0xffff) s)))"

definition exec_load :: "instruction \<Rightarrow> step \<Rightarrow> step outcome" where
  "exec_load i s =
     (let tmp = reg s (i_rs i) + extra i in
      case opCode i of
        OP_LB \<Rightarrow> exec_load_byte i tmp s
      | OP_LBU \<Rightarrow> exec_load_byte i tmp s
      | OP_LH \<Rightarrow> exec_load_half i tmp s
      | OP_LHU \<Rightarrow> exec_load_half i tmp s
      | OP_LUI \<Rightarrow> Done (put (i_rt i) (push_bit 16 (extra i)) s)
      | OP_LW \<Rightarrow>
          if tmp AND 0x3 \<noteq> 0 then trap AddressErrorException tmp s
          else read_mem tmp 4 s (\<lambda>v s. Done (load (i_rt i) v s))
      | _ \<Rightarrow> exec_load_unaligned i s)"

definition exec_divide_jump :: "instruction \<Rightarrow> step \<Rightarrow> step outcome" where
  "exec_divide_jump i s =
     (let rs = reg s (i_rs i); rt = reg s (i_rt i);
          jump = (\<lambda>s. s\<lparr>pcAfter := (pcAfter s AND 0xf0000000) OR IndexToAddr (extra i)\<rparr>);
          jump_reg = (\<lambda>s. s\<lparr>pcAfter := reg s (i_rs i)\<rparr>)
      in case opCode i of
        OP_DIV \<Rightarrow>
          (if rt = 0 then Done (put HiReg 0 (put LoReg 0 s))
           else bind_outcome (lift_result (c_divide rs rt)) (\<lambda>(q, r). Done (put HiReg r (put LoReg q s))))
      | OP_DIVU \<Rightarrow>
          (if rt = 0 then Done (put HiReg 0 (put LoReg 0 s))
           else Done (put HiReg (rs mod rt) (put LoReg (rs div rt) s)))
      | OP_JAL \<Rightarrow> Done (jump (put R31 (reg s NextPCReg + 4) s))
      | OP_J \<Rightarrow> Done (jump s)
      | OP_JALR \<Rightarrow> Done (jump_reg (put (i_rd i) (reg s NextPCReg + 4) s))
      | OP_JR \<Rightarrow> Done (jump_reg s)
      | _ \<Rightarrow> exec_load i s)"

definition exec_add_branch :: "instruction \<Rightarrow> step \<Rightarrow> step outcome" where
  "exec_add_branch i s =
     (let rs = reg s (i_rs i); rt = reg s (i_rt i) in
      case opCode i of
        OP_ADD \<Rightarrow>
          (let sum = rs + rt in
           if \<not> ((rs XOR rt) AND SIGN_BIT \<noteq> 0) \<and> (rs XOR sum) AND SIGN_BIT \<noteq> 0
           then trap OverflowException 0 s else Done (put (i_rd i) sum s))
      | OP_ADDI \<Rightarrow>
          (let sum = rs + extra i in
           if \<not> ((rs XOR extra i) AND SIGN_BIT \<noteq> 0) \<and> (extra i XOR sum) AND SIGN_BIT \<noteq> 0
           then trap OverflowException 0 s else Done (put (i_rt i) sum s))
      | OP_ADDIU \<Rightarrow> Done (put (i_rt i) (rs + extra i) s)
      | OP_ADDU \<Rightarrow> Done (put (i_rd i) (rs + rt) s)
      | OP_AND \<Rightarrow> Done (put (i_rd i) (rs AND rt) s)
      | OP_ANDI \<Rightarrow> Done (put (i_rt i) (rs AND (extra i AND 0xffff)) s)
      | OP_BEQ \<Rightarrow> Done (branch_if (rs = rt) i s)
      | OP_BGEZAL \<Rightarrow>
          (let s = put R31 (reg s NextPCReg + 4) s
           in Done (branch_if (\<not> (reg s (i_rs i) AND SIGN_BIT \<noteq> 0)) i s))
      | OP_BGEZ \<Rightarrow> Done (branch_if (\<not> (rs AND SIGN_BIT \<noteq> 0)) i s)
      | OP_BGTZ \<Rightarrow> Done (branch_if (0 < sint rs) i s)
      | OP_BLEZ \<Rightarrow> Done (branch_if (sint rs \<le> 0) i s)
      | OP_BLTZAL \<Rightarrow>
          (let s = put R31 (reg s NextPCReg + 4) s
           in Done (branch_if (reg s (i_rs i) AND SIGN_BIT \<noteq> 0) i s))
      | OP_BLTZ \<Rightarrow> Done (branch_if (rs AND SIGN_BIT \<noteq> 0) i s)
      | OP_BNE \<Rightarrow> Done (branch_if (rs \<noteq> rt) i s)
      | _ \<Rightarrow> exec_divide_jump i s)"

section \<open>One instruction, and the loop\<close>

definition finish_instruction :: "step \<Rightarrow> machine outcome" where
  "finish_instruction s =
     bind_outcome (lift_result (DelayedLoad (nextLoadReg s) (nextLoadValue s) (mach s))) (\<lambda>m.
     let r = registers m in
     Done (m\<lparr>registers := r(PrevPCReg := r PCReg, PCReg := r NextPCReg, NextPCReg := pcAfter s)\<rparr>))"

definition OneInstruction :: "bool \<Rightarrow> machine \<Rightarrow> machine outcome" where
  "OneInstruction dbg m =
     bind_outcome (ReadMem (registers m PCReg) 4 m) (\<lambda>(raw, m).
     let i = Instruction_Decode raw in
     bind_outcome (lift_result (if dbg then bind_result (debug_line i) (\<lambda>_. Inr ()) else Inr ())) (\<lambda>_.
     bind_outcome (exec_add_branch i
        \<lparr>mach = m, pcAfter = registers m NextPCReg + 4, nextLoadReg = 0, nextLoadValue = 0\<rparr>)
     finish_instruction))"


section \<open>Every instruction ends well\<close>

definition machine_ok :: "machine \<Rightarrow> bool" where
  "machine_ok m \<longleftrightarrow> tables_ok m \<and> registers_ok m"

text \<open>Inside an instruction register 0 may hold anything; \<open>DelayedLoad\<close> resets it at the end.\<close>

definition step_ok :: "step \<Rightarrow> bool" where
  "step_ok s \<longleftrightarrow> tables_ok (mach s) \<and> unat (reg s LoadReg) < NumGPRegs
     \<and> unat (nextLoadReg s) < NumGPRegs"

definition ends_well :: "('a \<Rightarrow> bool) \<Rightarrow> 'a outcome \<Rightarrow> bool" where
  "ends_well P r =
     (case r of Fault e \<Rightarrow> e = DivideTrap | Trap exc m \<Rightarrow> exc \<noteq> NoException \<and> machine_ok m | Done x \<Rightarrow> P x)"

lemma ends_well_simps [simp]:
  "ends_well P (Done x) = P x" "ends_well P (Fault e) = (e = DivideTrap)"
  "ends_well P (Trap exc m) = (exc \<noteq> NoException \<and> machine_ok m)"
  by (simp_all add: ends_well_def)

lemma ends_well_bind:
  "ends_well P r \<Longrightarrow> (\<And>x. P x \<Longrightarrow> ends_well Q (f x)) \<Longrightarrow> ends_well Q (bind_outcome r f)"
  by (cases r) auto

lemma RaiseException_ends_well:
  assumes "tables_ok m" "unat (registers m LoadReg) < NumGPRegs" "exc \<noteq> NoException"
  shows "ends_well P (RaiseException exc bad m)"
proof -
  obtain m' where "RaiseException exc bad m = (Trap exc m' :: 'a outcome)" "registers_ok m'"
    "\<exists>r. m' = m\<lparr>registers := r\<rparr>"
    using RaiseException_run[OF assms(2), of exc bad] by metis
  then show ?thesis using assms by (auto simp: machine_ok_def)
qed

lemma trap_ends_well:
  "step_ok s \<Longrightarrow> exc \<noteq> NoException \<Longrightarrow> ends_well P (trap exc bad s)"
  by (simp add: trap_def step_ok_def reg_def RaiseException_ends_well)

lemma Translate_ends_well:
  assumes "tables_ok m" "sz \<in> {1, 2, 4}"
  obtains exc where "Translate a sz w m = Inr (Inl exc)" "exc \<noteq> NoException"
  | pa m' where "Translate a sz w m = Inr (Inr (pa, m'))" "tables_ok m'" "registers m' = registers m"
proof -
  obtain r where r: "Translate a sz w m = Inr r" using Translate_total[OF assms] by blast
  show ?thesis
  proof (cases r)
    case (Inl exc)
    then show ?thesis using r Translate_refused[of a sz w m exc] that(1) by blast
  next
    case (Inr p)
    then have "tables_ok (snd p) \<and> registers (snd p) = registers m"
      using assms r by (cases p) (auto simp: Translate_found)
    then show ?thesis using that(2)[of "fst p" "snd p"] r Inr by simp
  qed
qed

lemma ReadMem_ends_well:
  assumes "tables_ok m" "unat (registers m LoadReg) < NumGPRegs" "sz \<in> {1, 2, 4}"
  shows "ends_well (\<lambda>(v, m'). tables_ok m' \<and> registers m' = registers m) (ReadMem a sz m)"
  using assms(1,3)
proof (cases rule: Translate_ends_well[where a = a and w = False])
  case (1 exc)
  then show ?thesis using RaiseException_ends_well[OF assms(1,2)] by (simp add: ReadMem_def)
next
  case (2 pa m')
  then show ?thesis
    using memory_sizes(1)[OF assms(3), of pa "mainMemory m'"] by (auto simp: ReadMem_def)
qed

lemma WriteMem_ends_well:
  assumes "tables_ok m" "unat (registers m LoadReg) < NumGPRegs" "sz \<in> {1, 2, 4}"
  shows "ends_well (\<lambda>m'. tables_ok m' \<and> registers m' = registers m) (WriteMem a sz v m)"
  using assms(1,3)
proof (cases rule: Translate_ends_well[where a = a and w = True])
  case (1 exc)
  then show ?thesis using RaiseException_ends_well[OF assms(1,2)] by (simp add: WriteMem_def)
next
  case (2 pa m')
  then show ?thesis
    using memory_sizes(2)[OF assms(3), of pa v "mainMemory m'"] by (auto simp: WriteMem_def)
qed

lemma read_mem_ends_well:
  assumes "step_ok s" "sz \<in> {1, 2, 4}"
    and "\<And>v s'. step_ok s' \<Longrightarrow> ends_well step_ok (k v s')"
  shows "ends_well step_ok (read_mem a sz s k)"
  unfolding read_mem_def
  by (rule ends_well_bind[OF ReadMem_ends_well])
    (use assms in \<open>auto simp: step_ok_def reg_def\<close>)

lemma write_mem_ends_well:
  assumes "step_ok s" "sz \<in> {1, 2, 4}"
  shows "ends_well step_ok (write_mem a sz v s)"
  unfolding write_mem_def
  by (rule ends_well_bind[OF WriteMem_ends_well])
    (use assms in \<open>auto simp: step_ok_def reg_def\<close>)

lemma step_ok_put: "step_ok s \<Longrightarrow> n \<noteq> LoadReg \<Longrightarrow> step_ok (put n v s)"
  by (simp add: step_ok_def put_def reg_def)

lemma step_ok_load: "step_ok s \<Longrightarrow> rt < NumGPRegs \<Longrightarrow> step_ok (load rt v s)"
  by (simp add: step_ok_def load_def reg_def unat_of_nat)

lemma step_ok_pc: "step_ok s \<Longrightarrow> step_ok (s\<lparr>pcAfter := pc\<rparr>)" "step_ok s \<Longrightarrow> step_ok (branch_if c i s)"
  by (simp_all add: step_ok_def reg_def branch_if_def)

lemmas step_rules = step_ok_put step_ok_load step_ok_pc read_mem_ends_well write_mem_ends_well trap_ends_well

lemma exec_syscall_xor_ok:
  "step_ok s \<Longrightarrow> instruction_ok i \<Longrightarrow> opCode i \<in> {OP_SYSCALL, OP_XOR, OP_XORI, OP_RES, OP_UNIMP} \<Longrightarrow>
   ends_well step_ok (exec_syscall_xor i s)"
  unfolding exec_syscall_xor_def instruction_ok_def by (auto intro!: step_rules)

lemma exec_store_unaligned_ok:
  assumes "step_ok s" "instruction_ok i"
    and "opCode i \<notin> {OP_SWL, OP_SWR} \<Longrightarrow> ends_well step_ok (exec_syscall_xor i s)"
  shows "ends_well step_ok (exec_store_unaligned i s)"
  using assms unfolding exec_store_unaligned_def Let_def
  by (cases "opCode i") (simp_all add: step_rules)

lemma exec_store_shift_sub_ok:
  assumes "step_ok s" "instruction_ok i"
    and "opCode i \<notin> {OP_SB, OP_SH, OP_SLL, OP_SLLV, OP_SLT, OP_SLTI, OP_SLTIU, OP_SLTU, OP_SRA, OP_SRAV,
      OP_SRL, OP_SRLV, OP_SUB, OP_SUBU, OP_SW} \<Longrightarrow> ends_well step_ok (exec_store_unaligned i s)"
  shows "ends_well step_ok (exec_store_shift_sub i s)"
  using assms unfolding exec_store_shift_sub_def Let_def instruction_ok_def
  by (cases "opCode i") (simp_all add: step_rules)

lemma exec_move_mult_or_ok:
  assumes "step_ok s" "instruction_ok i"
    and "opCode i \<notin> {OP_MFHI, OP_MFLO, OP_MTHI, OP_MTLO, OP_MULT, OP_MULTU, OP_NOR, OP_OR, OP_ORI}
      \<Longrightarrow> ends_well step_ok (exec_store_shift_sub i s)"
  shows "ends_well step_ok (exec_move_mult_or i s)"
  using assms unfolding exec_move_mult_or_def Let_def instruction_ok_def
  by (cases "opCode i") (simp_all add: step_rules split: prod.split)

lemma exec_load_unaligned_ok:
  assumes "step_ok s" "instruction_ok i"
    and "opCode i \<notin> {OP_LWL, OP_LWR} \<Longrightarrow> ends_well step_ok (exec_move_mult_or i s)"
  shows "ends_well step_ok (exec_load_unaligned i s)"
  using assms unfolding exec_load_unaligned_def Let_def instruction_ok_def
  by (cases "opCode i") (simp_all add: step_rules)

lemma exec_load_ok:
  assumes "step_ok s" "instruction_ok i"
    and "opCode i \<notin> {OP_LB, OP_LBU, OP_LH, OP_LHU, OP_LUI, OP_LW}
      \<Longrightarrow> ends_well step_ok (exec_load_unaligned i s)"
  shows "ends_well step_ok (exec_load i s)"
  using assms unfolding exec_load_def exec_load_byte_def exec_load_half_def Let_def instruction_ok_def
  by (cases "opCode i") (simp_all add: step_rules)

lemma exec_divide_jump_ok:
  assumes "step_ok s" "instruction_ok i"
    and "opCode i \<notin> {OP_DIV, OP_DIVU, OP_JAL, OP_J, OP_JALR, OP_JR} \<Longrightarrow> ends_well step_ok (exec_load i s)"
  shows "ends_well step_ok (exec_divide_jump i s)"
  using assms unfolding exec_divide_jump_def Let_def instruction_ok_def c_divide_def check_def
  by (cases "opCode i") (simp_all add: step_rules split: if_split)

lemma exec_add_branch_ok:
  assumes "step_ok s" "instruction_ok i"
    and "opCode i \<notin> {OP_ADD, OP_ADDI, OP_ADDIU, OP_ADDU, OP_AND, OP_ANDI, OP_BEQ, OP_BGEZAL, OP_BGEZ,
      OP_BGTZ, OP_BLEZ, OP_BLTZAL, OP_BLTZ, OP_BNE} \<Longrightarrow> ends_well step_ok (exec_divide_jump i s)"
  shows "ends_well step_ok (exec_add_branch i s)"
  using assms unfolding exec_add_branch_def Let_def instruction_ok_def
  by (cases "opCode i") (simp_all add: step_rules)

lemma switch_ok:
  assumes "step_ok s" "instruction_ok i"
  shows "ends_well step_ok (exec_add_branch i s)"
proof (intro exec_add_branch_ok exec_divide_jump_ok exec_load_ok exec_load_unaligned_ok
    exec_move_mult_or_ok exec_store_shift_sub_ok exec_store_unaligned_ok exec_syscall_xor_ok assms)
qed (use assms in \<open>cases "opCode i"; simp add: instruction_ok_def executable_opcodes_def\<close>)


section \<open>Overflow\<close>

lemma signed_wrap:
  assumes "- (2 ^ 32) \<le> k" "k < (2 ^ 32 :: int)"
  shows "signed_take_bit 31 k
    = (if k < - (2 ^ 31) then k + 2 ^ 32 else if k < 2 ^ 31 then k else k - 2 ^ 32)"
proof -
  have s: "signed_take_bit 31 k = (k + 2 ^ 31) mod 2 ^ 32 - 2 ^ 31"
    using signed_take_bit_eq_take_bit_shift[of 31 k] by (simp add: take_bit_eq_mod)
  have up: "(k + 2 ^ 31) mod 2 ^ 32 = (k + 2 ^ 31 + 2 ^ 32) mod 2 ^ 32"
    and down: "(k + 2 ^ 31) mod 2 ^ 32 = (k + 2 ^ 31 - 2 ^ 32) mod 2 ^ 32"
    by (simp_all only: mod_add_self2 minus_mod_self2)
  consider "k < - (2 ^ 31)" | "- (2 ^ 31) \<le> k" "k < 2 ^ 31" | "2 ^ 31 \<le> k" by linarith
  then show ?thesis
  proof cases
    case 1
    then show ?thesis unfolding s up using assms by (subst mod_pos_pos_trivial) auto
  next
    case 2
    then show ?thesis unfolding s by (subst mod_pos_pos_trivial) auto
  next
    case 3
    then show ?thesis unfolding s down using assms by (subst mod_pos_pos_trivial) auto
  qed
qed

lemma sint_bounds32: "- (2 ^ 31) \<le> sint (a :: u32)" "sint (a :: u32) < 2 ^ 31"
  using sint_greater_eq[of a] sint_less[of a] by simp_all

lemma sign_bit: "(a AND SIGN_BIT \<noteq> 0) = (sint a < 0)"
  using and_top_bit_31[of a] bit_last_iff[of a] by simp

lemma sign_xor: "((a XOR b) AND SIGN_BIT \<noteq> 0) = ((sint a < 0) \<noteq> (sint b < 0))"
  using and_top_bit_31[of "a XOR b"] bit_last_iff[of a] bit_last_iff[of b] by (simp add: bit_xor_iff)

definition fits32 :: "int \<Rightarrow> bool" where
  "fits32 k \<longleftrightarrow> - (2 ^ 31) \<le> k \<and> k < 2 ^ 31"

lemma sint_add_wrap: "sint (a + b :: u32) = signed_take_bit 31 (sint a + sint b)"
  and sint_diff_wrap: "sint (a - b :: u32) = signed_take_bit 31 (sint a - sint b)"
  by (simp_all add: sint_word_add sint_word_diff)

lemma add_overflow:
  "(\<not> (((a :: u32) XOR b) AND SIGN_BIT \<noteq> 0) \<and> (a XOR (a + b)) AND SIGN_BIT \<noteq> 0)
    \<longleftrightarrow> \<not> fits32 (sint a + sint b)"
  unfolding sign_xor sint_add_wrap fits32_def
  using sint_bounds32[of a] sint_bounds32[of b] by (subst signed_wrap) auto

lemma addi_overflow:
  "(\<not> (((a :: u32) XOR b) AND SIGN_BIT \<noteq> 0) \<and> (b XOR (a + b)) AND SIGN_BIT \<noteq> 0)
    \<longleftrightarrow> \<not> fits32 (sint a + sint b)"
  using add_overflow[of a b] unfolding sign_xor by auto

lemma sub_overflow:
  "(((a :: u32) XOR b) AND SIGN_BIT \<noteq> 0 \<and> (a XOR (a - b)) AND SIGN_BIT \<noteq> 0)
    \<longleftrightarrow> \<not> fits32 (sint a - sint b)"
  unfolding sign_xor sint_diff_wrap fits32_def
  using sint_bounds32[of a] sint_bounds32[of b] by (subst signed_wrap) auto

lemma fits32_exact:
  "fits32 (sint a + sint b) \<Longrightarrow> sint (a + b :: u32) = sint a + sint b"
  "fits32 (sint a - sint b) \<Longrightarrow> sint (a - b :: u32) = sint a - sint b"
  unfolding sint_add_wrap sint_diff_wrap fits32_def
  by (simp_all add: signed_take_bit_int_eq_self)

section \<open>Unaligned words\<close>

text \<open>The word at byte offset \<open>k\<close> of two neighbouring words.\<close>

definition word_at :: "nat \<Rightarrow> u32 \<Rightarrow> u32 \<Rightarrow> u32" where
  "word_at k w0 w1 =
     (let bs = map (\<lambda>j. word_byte j w0) [0..<4] @ map (\<lambda>j. word_byte j w1) [0..<4]
      in le_word32 (bs ! k) (bs ! (k + 1)) (bs ! (k + 2)) (bs ! (k + 3)))"

lemma masks32:
  "(0xff :: u32) = mask 8" "(0xffff :: u32) = mask 16" "(0xffffff :: u32) = mask 24"
  "(0xffffff00 :: u32) = NOT (mask 8)" "(0xffff0000 :: u32) = NOT (mask 16)"
  "(0xff000000 :: u32) = NOT (mask 24)"
  by (simp_all add: mask_numeral)

lemmas merge_bits = bit_or_iff bit_and_iff bit_not_iff bit_mask_iff bit_push_bit_iff
  bit_signed_drop_bit_iff bit_le_word32 bit_word_byte


lemma upt_4: "[0..<4] = [0, 1, 2, 3 :: nat]"
  by (simp add: upt_conv_Cons)

lemma unaligned_load_bits:
  "lwr_value 1 (lwl_value 0 r w1) w0 = word_at 1 w0 w1"
  "lwr_value 2 (lwl_value 1 r w1) w0 = word_at 2 w0 w1"
  "lwr_value 3 (lwl_value 2 r w1) w0 = word_at 3 w0 w1"
  "lwr_value 0 (lwl_value 3 r w0) w0 = w0"
  unfolding lwr_value_def lwl_value_def word_at_def masks32 upt_4
  by (rule bit_word_eqI; auto simp: merge_bits)+

text \<open>The two words after the bytes of \<open>r\<close> are put at byte offset \<open>k\<close>.\<close>

definition store_word_at :: "nat \<Rightarrow> u32 \<Rightarrow> u32 \<Rightarrow> u32 \<Rightarrow> u32 \<times> u32" where
  "store_word_at k r w0 w1 =
     (let bytes = (\<lambda>w. map (\<lambda>j. word_byte j w) [0..<4]);
          old = bytes w0 @ bytes w1;
          new = take k old @ bytes r @ drop (k + 4) old
      in (le_word32 (new ! 0) (new ! 1) (new ! 2) (new ! 3), le_word32 (new ! 4) (new ! 5) (new ! 6) (new ! 7)))"

lemma unaligned_store_bits:
  "(swr_value 1 r w0, swl_value 0 r w1) = store_word_at 1 r w0 w1"
  "(swr_value 2 r w0, swl_value 1 r w1) = store_word_at 2 r w0 w1"
  "(swr_value 3 r w0, swl_value 2 r w1) = store_word_at 3 r w0 w1"
  "swr_value 0 r (swl_value 3 r w0) = r"
  unfolding swr_value_def swl_value_def store_word_at_def masks32 upt_4 Let_def
  by (auto intro!: bit_word_eqI simp: merge_bits split: if_splits)


text \<open>The offset of the last byte of an unaligned word in its own word.\<close>

lemma last_byte_offset:
  assumes "(a :: u32) AND 0x3 = c"
  shows "(a + 3) AND 0x3 = (c + 3) AND 0x3"
proof -
  have m: "(0x3 :: u32) = mask 2" by (simp add: mask_numeral)
  have "take_bit 2 (a + 3) = take_bit 2 (take_bit 2 a + 3)"
  proof (rule word_uint_eqI)
    show "uint (take_bit 2 (a + 3)) = uint (take_bit 2 (take_bit 2 a + 3))"
      unfolding unsigned_take_bit_eq uint_word_arith_bintrs
      by (simp add: unsigned_take_bit_eq min_def) (metis take_bit_add take_bit_take_bit min.idem)
  qed
  then show ?thesis using assms unfolding m take_bit_eq_mask[symmetric] by auto
qed

text \<open>A load does not look at the registers.\<close>

lemma ReadMem_registers:
  assumes "ReadMem a sz m = Done (v, m)"
  shows "ReadMem a sz (m\<lparr>registers := r\<rparr>) = Done (v, m\<lparr>registers := r\<rparr>)"
proof -
  obtain pa where t: "Translate a sz False m = Inr (Inr (pa, m))" "memory_load sz pa (mainMemory m) = Inr v"
    using assms by (auto simp: ReadMem_Done)
  from t(1) obtain loc e where e: "aligned a sz" "(tlb m = None) \<noteq> (pageTable m = None)"
    "find_entry (unat a div PageSize) m = Inr (Inr (loc, e))"
    "unat (physicalPage e) < NumPhysPages" "pa + sz \<le> MemorySize"
    "pa = unat (physicalPage e) * PageSize + unat a mod PageSize" and m: "m = store_entry loc (touch False e) m"
    unfolding Translate_found by blast
  have "find_entry n (m\<lparr>registers := r\<rparr>) = find_entry n m" for n
    by (simp add: find_entry_def split: option.split)
  moreover have "m\<lparr>registers := r\<rparr> = store_entry loc (touch False e) (m\<lparr>registers := r\<rparr>)"
    by (subst m) (cases loc; simp)
  ultimately have "Translate a sz False (m\<lparr>registers := r\<rparr>) = Inr (Inr (pa, m\<lparr>registers := r\<rparr>))"
    unfolding Translate_found
    by (intro conjI exI[of _ loc] exI[of _ e]) (use e in simp_all)
  then show ?thesis using t(2) by (simp add: ReadMem_Done)
qed

lemma unaligned_offsets:
  assumes "(a :: u32) AND 0x3 = of_nat k" "k \<in> {1, 2, 3}"
  shows "(a + 3) AND 0x3 = of_nat (k - 1)" "a + 3 - of_nat (k - 1) = a - of_nat k + 4"
  using last_byte_offset[OF assms(1)] assms(2) by auto

lemma unaligned_load_value:
  "k \<in> {1, 2, 3} \<Longrightarrow> lwr_value (of_nat k) (lwl_value (of_nat (k - 1)) r w1) w0 = word_at k w0 w1"
  by (auto simp: unaligned_load_bits)

text \<open>The outcome of a trapping addition or subtraction whose exact result is \<open>exact\<close>.\<close>

definition checked :: "int \<Rightarrow> u32 \<Rightarrow> nat \<Rightarrow> step \<Rightarrow> step outcome" where
  "checked exact result target s =
     (if fits32 exact then Done (put target result s) else RaiseException OverflowException 0 (mach s))"

text \<open>Reaching a late case of the switch.\<close>

lemma reach_SUB: "opCode i = OP_SUB \<Longrightarrow> exec_add_branch i s = exec_store_shift_sub i s"
  by (simp add: exec_add_branch_def exec_divide_jump_def exec_load_def exec_load_unaligned_def
      exec_move_mult_or_def Let_def)

lemma reach_shift:
  "opCode i \<in> {OP_SRL, OP_SRA, OP_SRLV, OP_SRAV} \<Longrightarrow> exec_add_branch i s = exec_store_shift_sub i s"
  by (auto simp: exec_add_branch_def exec_divide_jump_def exec_load_def exec_load_unaligned_def
      exec_move_mult_or_def Let_def)

lemma reach_unaligned_load:
  "opCode i \<in> {OP_LWL, OP_LWR} \<Longrightarrow> exec_add_branch i s = exec_load_unaligned i s"
  by (auto simp: exec_add_branch_def exec_divide_jump_def exec_load_def Let_def)

lemma finish_load:
  assumes "registers_ok m" "registers m LoadReg = 0" "rt < 32"
  shows "\<exists>r. finish_instruction \<lparr>mach = m, pcAfter = p, nextLoadReg = of_nat rt, nextLoadValue = v\<rparr>
      = Done (m\<lparr>registers := r\<rparr>) \<and> (\<forall>n < 32. r n = registers m n)
      \<and> r LoadReg = of_nat rt \<and> r LoadValueReg = v"
proof -
  let ?r = "(registers m)(LoadReg := of_nat rt, LoadValueReg := v, 0 := 0,
    PrevPCReg := registers m PCReg, PCReg := registers m NextPCReg, NextPCReg := p)"
  have "finish_instruction \<lparr>mach = m, pcAfter = p, nextLoadReg = of_nat rt, nextLoadValue = v\<rparr>
      = Done (m\<lparr>registers := ?r\<rparr>)"
    using assms by (simp add: finish_instruction_def DelayedLoad_def Let_def registers_ok_def)
  moreover have "\<forall>n < 32. ?r n = registers m n" using assms by (auto simp: registers_ok_def)
  ultimately show ?thesis by (intro exI[of _ ?r]) simp
qed

lemma exec_LWL:
  assumes "opCode i = OP_LWL" "(reg s (i_rs i) + extra i) AND 0x3 = b"
    "ReadMem (reg s (i_rs i) + extra i - b) 4 (mach s) = Done (w, mach s)"
  shows "exec_add_branch i s = Done (load (i_rt i) (lwl_value b (pending_or_reg (i_rt i) s) w) s)"
  using assms by (simp add: reach_unaligned_load exec_load_unaligned_def read_mem_def)

lemma exec_LWR:
  assumes "opCode i = OP_LWR" "(reg s (i_rs i) + extra i) AND 0x3 = b"
    "ReadMem (reg s (i_rs i) + extra i - b) 4 (mach s) = Done (w, mach s)"
  shows "exec_add_branch i s = Done (load (i_rt i) (lwr_value b (pending_or_reg (i_rt i) s) w) s)"
  using assms by (simp add: reach_unaligned_load exec_load_unaligned_def read_mem_def)

section \<open>Properties\<close>

text \<open>
  C7: no instruction gets the machine into trouble. From a machine with well-formed translation
  tables, register 0 zero and a delayed load that targets a general register, any fetched word
  executes to such a machine again or traps with a real exception and leaves one. In particular
  the default case of the switch, which asserts, is never reached, and no register index is out of
  range; the only way to stop the simulator is the division of the least integer by -1.
\<close>

theorem OneInstruction_safe:
  assumes "machine_ok m"
  shows "ends_well machine_ok (OneInstruction dbg m)"
proof -
  have m: "tables_ok m" "unat (registers m LoadReg) < NumGPRegs"
    using assms by (auto simp: machine_ok_def registers_ok_def)
  have finish: "ends_well machine_ok (finish_instruction s)" if "step_ok s" for s
  proof -
    have "\<exists>m'. DelayedLoad (nextLoadReg s) (nextLoadValue s) (mach s) = Inr m' \<and> registers_ok m'"
      by (rule DelayedLoad_ok) (use that in \<open>simp_all add: step_ok_def reg_def\<close>)
    then obtain m' where "DelayedLoad (nextLoadReg s) (nextLoadValue s) (mach s) = Inr m'" "registers_ok m'"
      by blast
    moreover have "tables_ok m'" using calculation(1) that
      by (auto simp: step_ok_def dest!: DelayedLoad_frame)
    ultimately show ?thesis
      by (simp add: finish_instruction_def Let_def machine_ok_def registers_ok_def)
  qed
  have body: "ends_well machine_ok (bind_outcome (exec_add_branch i
      \<lparr>mach = m', pcAfter = pc, nextLoadReg = 0, nextLoadValue = 0\<rparr>) finish_instruction)"
    if "tables_ok m'" "registers m' = registers m" "instruction_ok i" for m' i pc
    by (rule ends_well_bind[OF switch_ok finish]) (use that m in \<open>simp_all add: step_ok_def reg_def\<close>)
  have dbg: "(if dbg then bind_result (debug_line i) (\<lambda>_. Inr ()) else Inr ()) = Inr ()"
    if "instruction_ok i" for i
    using debug_line_total[OF that] by auto
  show ?thesis
    unfolding OneInstruction_def
    by (rule ends_well_bind[OF ReadMem_ends_well])
      (auto simp: m Let_def dbg intro!: body)
qed

theorem OneInstruction_safe_witness:
  "ends_well machine_ok (OneInstruction True (with_table (one_page 3 False) 1 (Machine_new False)))"
  by (rule OneInstruction_safe)
    (simp add: machine_ok_def linear_tables_ok[OF one_page_machine(1)] one_page_machine(2))

text \<open>
  C35: the signed additions and the signed subtraction trap exactly on overflow. \<open>OP_ADD\<close>,
  \<open>OP_ADDI\<close> and \<open>OP_SUB\<close> raise \<open>OverflowException\<close> exactly when the sum or difference of the
  integers does not fit 32 bits, although the code only compares signs, and otherwise write a word
  that stands for it.
\<close>

theorem overflow_traps_exactly:
  assumes "opCode i = OP_ADD" "opCode j = OP_ADDI" "opCode k = OP_SUB"
  shows "exec_add_branch i s = checked (sint (reg s (i_rs i)) + sint (reg s (i_rt i)))
      (reg s (i_rs i) + reg s (i_rt i)) (i_rd i) s \<and>
    exec_add_branch j s = checked (sint (reg s (i_rs j)) + sint (extra j))
      (reg s (i_rs j) + extra j) (i_rt j) s \<and>
    exec_add_branch k s = checked (sint (reg s (i_rs k)) - sint (reg s (i_rt k)))
      (reg s (i_rs k) - reg s (i_rt k)) (i_rd k) s \<and>
    (fits32 (sint a + sint b) \<longrightarrow> sint (a + b :: u32) = sint a + sint b) \<and>
    (fits32 (sint a - sint b) \<longrightarrow> sint (a - b) = sint a - sint b)"
proof (intro conjI)
  show "exec_add_branch i s = checked (sint (reg s (i_rs i)) + sint (reg s (i_rt i)))
      (reg s (i_rs i) + reg s (i_rt i)) (i_rd i) s"
    using assms(1) unfolding exec_add_branch_def Let_def checked_def
    by (simp only: opcode.case add_overflow trap_def if_not_P if_P split: if_split) simp
  show "exec_add_branch j s = checked (sint (reg s (i_rs j)) + sint (extra j))
      (reg s (i_rs j) + extra j) (i_rt j) s"
    using assms(2) unfolding exec_add_branch_def Let_def checked_def
    by (simp only: opcode.case addi_overflow trap_def split: if_split) simp
  show "exec_add_branch k s = checked (sint (reg s (i_rs k)) - sint (reg s (i_rt k)))
      (reg s (i_rs k) - reg s (i_rt k)) (i_rd k) s"
    using assms(3) unfolding reach_SUB[OF assms(3)] exec_store_shift_sub_def Let_def checked_def
    by (simp only: opcode.case sub_overflow trap_def split: if_split) simp
qed (simp_all add: fits32_exact)

theorem overflow_traps_exactly_witness:
  "let m = (Machine_new False)\<lparr>registers := (\<lambda>_. 0)(4 := 0x7fffffff, 5 := 1)\<rparr>;
       s = \<lparr>mach = m, pcAfter = 0, nextLoadReg = 0, nextLoadValue = 0\<rparr>
   in exec_add_branch \<lparr>opCode = OP_ADD, i_rs = 4, i_rt = 5, i_rd = 6, extra = 0\<rparr> s
      = RaiseException OverflowException 0 m"
  using overflow_traps_exactly[of "\<lparr>opCode = OP_ADD, i_rs = 4, i_rt = 5, i_rd = 6, extra = 0\<rparr>"
      "\<lparr>opCode = OP_ADDI, i_rs = 4, i_rt = 5, i_rd = 6, extra = 0\<rparr>"
      "\<lparr>opCode = OP_SUB, i_rs = 4, i_rt = 5, i_rd = 6, extra = 0\<rparr>"
      "\<lparr>mach = (Machine_new False)\<lparr>registers := (\<lambda>_. 0)(4 := 0x7fffffff, 5 := 1)\<rparr>,
        pcAfter = 0, nextLoadReg = 0, nextLoadValue = 0\<rparr>"]
  by (simp add: Let_def reg_def checked_def fits32_def)

text \<open>
  C36: the unaligned loads work as a pair. At an address \<open>a\<close> that is \<open>k\<close> bytes past a word boundary,
  \<open>OP_LWL\<close> of \<open>a + 3\<close> followed at once by \<open>OP_LWR\<close> of \<open>a\<close> into the same register leaves in the
  delayed load exactly the four bytes that start at \<open>a\<close>, whatever the register held: the second
  load picks up the first one's value from its delay slot.
\<close>

theorem LWL_LWR_pair:
  assumes "opCode i = OP_LWL" "opCode j = OP_LWR" "extra i = extra j + 3"
    and "i_rs i = i_rs j" "i_rt i = i_rt j" "i_rs j < 32" "i_rt j < 32"
    and "registers_ok m" "registers m LoadReg = 0" "k \<in> {1, 2, 3}"
    and "(registers m (i_rs j) + extra j) AND 0x3 = of_nat k"
    and "ReadMem (registers m (i_rs j) + extra j - of_nat k) 4 m = Done (w0, m)"
    and "ReadMem (registers m (i_rs j) + extra j - of_nat k + 4) 4 m = Done (w1, m)"
  shows "\<exists>m1. bind_outcome (exec_add_branch i \<lparr>mach = m, pcAfter = p, nextLoadReg = 0, nextLoadValue = 0\<rparr>)
        finish_instruction = Done m1 \<and>
      exec_add_branch j \<lparr>mach = m1, pcAfter = p', nextLoadReg = 0, nextLoadValue = 0\<rparr>
        = Done \<lparr>mach = m1, pcAfter = p', nextLoadReg = of_nat (i_rt j), nextLoadValue = word_at k w0 w1\<rparr>"
proof -
  let ?s = "\<lparr>mach = m, pcAfter = p, nextLoadReg = 0, nextLoadValue = 0\<rparr>"
  let ?a = "registers m (i_rs j) + extra j"
  define v1 where "v1 = lwl_value (of_nat (k - 1)) (pending_or_reg (i_rt j) ?s) w1"
  have off: "(?a + 3) AND 0x3 = of_nat (k - 1)" "?a + 3 - of_nat (k - 1) = ?a - of_nat k + 4"
    by (rule unaligned_offsets[OF assms(11,10)])+
  have e: "reg ?s (i_rs i) + extra i = ?a + 3"
    using assms(3,4) by (simp add: reg_def)
  have first: "exec_add_branch i ?s = Done (load (i_rt j) v1 ?s)"
    using exec_LWL[OF assms(1), of ?s "of_nat (k - 1)" w1, unfolded e off] off(1) assms(5,13)
    by (simp add: v1_def)
  obtain r where r: "finish_instruction (load (i_rt j) v1 ?s) = Done (m\<lparr>registers := r\<rparr>)"
    "r (i_rs j) = registers m (i_rs j)" "r LoadReg = of_nat (i_rt j)" "r LoadValueReg = v1"
    using finish_load[OF assms(8,9,7), of p v1] assms(6) by (auto simp: load_def)
  let ?s' = "\<lparr>mach = m\<lparr>registers := r\<rparr>, pcAfter = p', nextLoadReg = 0, nextLoadValue = 0\<rparr>"
  have "exec_add_branch j ?s' = Done (load (i_rt j) (lwr_value (of_nat k) v1 w0) ?s')"
    using exec_LWR[OF assms(2), of ?s' "of_nat k" w0] assms(11) r(2-4) ReadMem_registers[OF assms(12)]
    by (simp add: reg_def pending_or_reg_def)
  then show ?thesis
    using first r(1) unaligned_load_value[OF assms(10)] by (simp add: load_def v1_def)
qed

definition numbered_machine :: machine where
  "numbered_machine = \<lparr>registers = (\<lambda>_. 0)(4 := 2), mainMemory = of_nat, tlb = None,
     pageTable = Some [\<lparr>virtualPage = 0, physicalPage = 3, valid = True, readOnly = False,
       use_bit = True, dirty = False\<rparr>], pageTableSize = 1, singleStep = False\<rparr>"

lemma numbered_machine_read:
  "ReadMem 4 4 numbered_machine = Done (0x87868584, numbered_machine)"
  "ReadMem 8 4 numbered_machine = Done (0x8b8a8988, numbered_machine)"
  by (simp_all add: ReadMem_def Translate_def numbered_machine_def Let_def find_entry_def machine_sizes
      arr_get_def touch_def memory_load_def le_word32_def)

theorem LWL_LWR_pair_witness:
  "\<exists>m1. exec_add_branch \<lparr>opCode = OP_LWR, i_rs = 4, i_rt = 7, i_rd = 0, extra = 3\<rparr>
       \<lparr>mach = m1, pcAfter = 0, nextLoadReg = 0, nextLoadValue = 0\<rparr>
     = Done \<lparr>mach = m1, pcAfter = 0, nextLoadReg = 7, nextLoadValue = 0x88878685\<rparr>"
proof -
  have "word_at 1 0x87868584 0x8b8a8988 = 0x88878685"
    by (simp add: word_at_def upt_4 Let_def word_byte_def le_word32_def)
  then show ?thesis
    using LWL_LWR_pair[of "\<lparr>opCode = OP_LWL, i_rs = 4, i_rt = 7, i_rd = 0, extra = 6\<rparr>"
        "\<lparr>opCode = OP_LWR, i_rs = 4, i_rt = 7, i_rd = 0, extra = 3\<rparr>" numbered_machine 1
        "0x87868584" "0x8b8a8988" 0 0] numbered_machine_read
    by (auto simp: numbered_machine_def registers_ok_def)
qed

text \<open>
  The logical right shifts are arithmetic. \<open>OP_SRL\<close> and \<open>OP_SRLV\<close> do what \<open>OP_SRA\<close> and
  \<open>OP_SRAV\<close> do, since the temporary they shift is a signed \<open>int\<close>: a logical shift of a word with
  the top bit set by a nonzero amount is never performed.
\<close>

theorem logical_shift_is_arithmetic:
  "(opCode i = OP_SRL \<longrightarrow> exec_add_branch i s = exec_add_branch (i\<lparr>opCode := OP_SRA\<rparr>) s) \<and>
   (opCode i = OP_SRLV \<longrightarrow> exec_add_branch i s = exec_add_branch (i\<lparr>opCode := OP_SRAV\<rparr>) s) \<and>
   (opCode i = OP_SRL \<and> extra i = 1 \<and> bit (reg s (i_rt i)) 31 \<longrightarrow>
     exec_add_branch i s \<noteq> Done (put (i_rd i) (drop_bit 1 (reg s (i_rt i))) s))"
proof (intro conjI impI)
  assume i: "opCode i = OP_SRL \<and> extra i = 1 \<and> bit (reg s (i_rt i)) 31"
  let ?w = "reg s (i_rt i)"
  have "bit (signed_drop_bit 1 ?w) 31" "\<not> bit (drop_bit 1 ?w) 31"
    using i by (simp_all add: bit_signed_drop_bit_iff bit_drop_bit_eq word_bit_ge)
  then have "signed_drop_bit 1 ?w \<noteq> drop_bit 1 ?w" by metis
  moreover have "put n v s = put n v' s \<Longrightarrow> v = v'" for n v v'
    by (auto simp: put_def dest!: arg_cong[where f = "\<lambda>s. registers (mach s) n"])
  ultimately have "put (i_rd i) (signed_drop_bit 1 ?w) s \<noteq> put (i_rd i) (drop_bit 1 ?w) s" by blast
  then show "exec_add_branch i s \<noteq> Done (put (i_rd i) (drop_bit 1 ?w) s)"
    using i by (simp add: reach_shift exec_store_shift_sub_def)
qed (simp_all add: reach_shift exec_store_shift_sub_def)


theorem logical_shift_is_arithmetic_witness:
  "let i = \<lparr>opCode = OP_SRL, i_rs = 0, i_rt = 4, i_rd = 5, extra = 1\<rparr>;
       s = \<lparr>mach = (Machine_new False)\<lparr>registers := (\<lambda>_. 0)(4 := 0x80000000)\<rparr>,
         pcAfter = 0, nextLoadReg = 0, nextLoadValue = 0\<rparr>
   in exec_add_branch i s = exec_add_branch (i\<lparr>opCode := OP_SRA\<rparr>) s \<and>
      exec_add_branch i s \<noteq> Done (put 5 0x40000000 s)"
  using logical_shift_is_arithmetic[of "\<lparr>opCode = OP_SRL, i_rs = 0, i_rt = 4, i_rd = 5, extra = 1\<rparr>"
    "\<lparr>mach = (Machine_new False)\<lparr>registers := (\<lambda>_. 0)(4 := 0x80000000)\<rparr>,
         pcAfter = 0, nextLoadReg = 0, nextLoadValue = 0\<rparr>"]
  by (auto simp: Let_def reg_def)

end
