(* ===== verification/Linked_List.thy ===== *)
theory Linked_List imports Prelude "HOL-Library.Multiset" begin

text \<open>
  The singly linked lists of lib/list.h and lib/list.cc: \<open>List\<close>, \<open>SortedList\<close> and
  \<open>ListIterator\<close>, on a heap of list elements with \<open>first\<close> and \<open>last\<close> pointers. The
  abstraction relation \<open>holds s xs\<close> says that the heap of \<open>s\<close> stores the HOL list \<open>xs\<close>;
  every operation is shown to do on the heap what a HOL function does on \<open>xs\<close>. The kernel's
  queues are instances of these lists.
\<close>

section \<open>The heap of a list\<close>

record 'a cell =
  item :: 'a
  next_ptr :: "nat option"

text \<open>\<open>fresh\<close> is the address the next \<open>new ListElement\<close> gets: no address is used twice.\<close>

record 'a linked_list =
  cells :: "nat \<rightharpoonup> 'a cell"
  first_ptr :: "nat option"
  last_ptr :: "nat option"
  numInList :: int
  fresh :: nat

definition deref :: "nat option \<Rightarrow> 'a linked_list \<Rightarrow> 'a cell result" where
  "deref p s = (case p of None \<Rightarrow> Inl NullPointer
     | Some a \<Rightarrow> (case cells s a of None \<Rightarrow> Inl OutOfBounds | Some c \<Rightarrow> Inr c))"

definition set_next :: "nat option \<Rightarrow> nat option \<Rightarrow> 'a linked_list \<Rightarrow> 'a linked_list result" where
  "set_next p q s =
     bind_result (deref p s) (\<lambda>c. Inr (s\<lparr>cells := (cells s)(the p \<mapsto> c\<lparr>next_ptr := q\<rparr>)\<rparr>))"

definition new_element :: "'a \<Rightarrow> 'a linked_list \<Rightarrow> nat \<times> 'a linked_list" where
  "new_element itm s =
     (fresh s, s\<lparr>cells := (cells s)(fresh s \<mapsto> \<lparr>item = itm, next_ptr = None\<rparr>), fresh := Suc (fresh s)\<rparr>)"

definition delete_element :: "nat option \<Rightarrow> 'a linked_list \<Rightarrow> 'a linked_list" where
  "delete_element p s = (case p of None \<Rightarrow> s | Some a \<Rightarrow> s\<lparr>cells := (cells s)(a := None)\<rparr>)"

section \<open>The operations\<close>

definition List_new :: "'a linked_list" where
  "List_new = \<lparr>cells = Map.empty, first_ptr = None, last_ptr = None, numInList = 0, fresh = 0\<rparr>"

definition IsEmpty :: "'a linked_list \<Rightarrow> bool" where
  "IsEmpty s \<longleftrightarrow> numInList s = 0"

text \<open>
  The loops that follow the \<open>next\<close> pointers get as fuel the number of elements ever allocated: a
  walk that takes more steps has met an element twice and never ends.
\<close>

fun IsInList_loop :: "nat \<Rightarrow> 'a \<Rightarrow> nat option \<Rightarrow> 'a linked_list \<Rightarrow> bool result" where
  "IsInList_loop fuel x None s = Inr False"
| "IsInList_loop 0 x (Some a) s = Inl Diverges"
| "IsInList_loop (Suc fuel) x (Some a) s =
     bind_result (deref (Some a) s) (\<lambda>c.
       if x = item c then Inr True else IsInList_loop fuel x (next_ptr c) s)"

definition IsInList :: "'a \<Rightarrow> 'a linked_list \<Rightarrow> bool result" where
  "IsInList x s = IsInList_loop (fresh s) x (first_ptr s) s"

definition Front :: "'a linked_list \<Rightarrow> 'a result" where
  "Front s = bind_result (deref (first_ptr s) s) (\<lambda>c. Inr (item c))"

definition NumInList :: "'a linked_list \<Rightarrow> int" where
  "NumInList s = numInList s"

text \<open>The assertions around an operation: \<open>ASSERT(IsInList(x))\<close> or its negation.\<close>

definition assert_in :: "bool \<Rightarrow> 'a \<Rightarrow> 'a linked_list \<Rightarrow> 'b result \<Rightarrow> 'b result" where
  "assert_in b x s k = bind_result (IsInList x s) (\<lambda>r. c_assert (r = b) k)"

definition Append :: "'a \<Rightarrow> 'a linked_list \<Rightarrow> 'a linked_list result" where
  "Append x s =
     (let (e, s) = new_element x s in
      assert_in False x s (
      bind_result
        (if IsEmpty s then Inr (s\<lparr>first_ptr := Some e, last_ptr := Some e\<rparr>)
         else bind_result (set_next (last_ptr s) (Some e) s) (\<lambda>s. Inr (s\<lparr>last_ptr := Some e\<rparr>)))
        (\<lambda>s. let s = s\<lparr>numInList := numInList s + 1\<rparr> in assert_in True x s (Inr s))))"

definition Prepend :: "'a \<Rightarrow> 'a linked_list \<Rightarrow> 'a linked_list result" where
  "Prepend x s =
     (let (e, s) = new_element x s in
      assert_in False x s (
      bind_result
        (if IsEmpty s then Inr (s\<lparr>first_ptr := Some e, last_ptr := Some e\<rparr>)
         else bind_result (set_next (Some e) (first_ptr s) s) (\<lambda>s. Inr (s\<lparr>first_ptr := Some e\<rparr>)))
        (\<lambda>s. let s = s\<lparr>numInList := numInList s + 1\<rparr> in assert_in True x s (Inr s))))"

definition RemoveFront :: "'a linked_list \<Rightarrow> ('a \<times> 'a linked_list) result" where
  "RemoveFront s =
     (let element = first_ptr s in
      c_assert (\<not> IsEmpty s) (
      bind_result (deref (first_ptr s) s) (\<lambda>c.
      let thing = item c;
          s = (if first_ptr s = last_ptr s then s\<lparr>first_ptr := None, last_ptr := None\<rparr>
               else s\<lparr>first_ptr := next_ptr c\<rparr>);
          s = s\<lparr>numInList := numInList s - 1\<rparr>
      in Inr (thing, delete_element element s))))"

text \<open>The search of \<open>Remove\<close>; the result says whether an element was found.\<close>

fun Remove_loop :: "nat \<Rightarrow> 'a \<Rightarrow> nat option \<Rightarrow> nat option \<Rightarrow> 'a linked_list
    \<Rightarrow> (bool \<times> 'a linked_list) result" where
  "Remove_loop fuel x prev None s = Inr (False, s)"
| "Remove_loop 0 x prev (Some a) s = Inl Diverges"
| "Remove_loop (Suc fuel) x prev (Some a) s =
     bind_result (deref (Some a) s) (\<lambda>c.
       if x = item c then
         bind_result (set_next prev (next_ptr c) s) (\<lambda>s.
         let s = (if next_ptr c = None then s\<lparr>last_ptr := prev\<rparr> else s);
             s = delete_element (Some a) s
         in Inr (True, s\<lparr>numInList := numInList s - 1\<rparr>))
       else Remove_loop fuel x (Some a) (next_ptr c) s)"

definition Remove :: "'a \<Rightarrow> 'a linked_list \<Rightarrow> 'a linked_list result" where
  "Remove x s =
     assert_in True x s (
     bind_result (deref (first_ptr s) s) (\<lambda>c.
     bind_result
       (if x = item c then
          bind_result (RemoveFront s) (\<lambda>(removed, s). c_assert (x = removed) (Inr s))
        else
          bind_result (Remove_loop (fresh s) x (first_ptr s) (next_ptr c) s) (\<lambda>(found, s).
          c_assert found (Inr s)))
       (\<lambda>s. assert_in False x s (Inr s))))"

text \<open>\<open>Apply\<close> calls \<open>func\<close> on every item; here the call transforms a state of the caller.\<close>

fun Apply_loop :: "nat \<Rightarrow> ('a \<Rightarrow> 'b \<Rightarrow> 'b) \<Rightarrow> nat option \<Rightarrow> 'a linked_list \<Rightarrow> 'b \<Rightarrow> 'b result" where
  "Apply_loop fuel func None s st = Inr st"
| "Apply_loop 0 func (Some a) s st = Inl Diverges"
| "Apply_loop (Suc fuel) func (Some a) s st =
     bind_result (deref (Some a) s) (\<lambda>c. Apply_loop fuel func (next_ptr c) s (func (item c) st))"

definition Apply :: "('a \<Rightarrow> 'b \<Rightarrow> 'b) \<Rightarrow> 'a linked_list \<Rightarrow> 'b \<Rightarrow> 'b result" where
  "Apply func s st = Apply_loop (fresh s) func (first_ptr s) s st"

section \<open>Sorted lists\<close>

text \<open>The walk of \<open>Insert\<close> past elements that are not bigger, from \<open>ptr\<close> on.\<close>

fun Insert_loop :: "nat \<Rightarrow> ('a \<Rightarrow> 'a \<Rightarrow> int) \<Rightarrow> 'a \<Rightarrow> nat \<Rightarrow> nat option \<Rightarrow> 'a linked_list
    \<Rightarrow> (bool \<times> 'a linked_list) result" where
  "Insert_loop 0 compare x e ptr s = Inl Diverges"
| "Insert_loop (Suc fuel) compare x e ptr s =
     bind_result (deref ptr s) (\<lambda>c.
       if next_ptr c = None then Inr (False, s)
       else bind_result (deref (next_ptr c) s) (\<lambda>d.
         if compare x (item d) < 0 then
           bind_result (set_next (Some e) (next_ptr c) s) (\<lambda>s.
           bind_result (set_next ptr (Some e) s) (\<lambda>s.
           Inr (True, s\<lparr>numInList := numInList s + 1\<rparr>)))
         else Insert_loop fuel compare x e (next_ptr c) s))"

definition Insert :: "('a \<Rightarrow> 'a \<Rightarrow> int) \<Rightarrow> 'a \<Rightarrow> 'a linked_list \<Rightarrow> 'a linked_list result" where
  "Insert compare x s =
     (let (e, s) = new_element x s;
          count = (\<lambda>s. let s = s\<lparr>numInList := numInList s + 1\<rparr> in assert_in True x s (Inr s))
      in assert_in False x s (
      if IsEmpty s then count (s\<lparr>first_ptr := Some e, last_ptr := Some e\<rparr>)
      else bind_result (deref (first_ptr s) s) (\<lambda>c.
        if compare x (item c) < 0 then
          bind_result (set_next (Some e) (first_ptr s) s) (\<lambda>s. count (s\<lparr>first_ptr := Some e\<rparr>))
        else bind_result (Insert_loop (fresh s) compare x e (first_ptr s) s) (\<lambda>(placed, s).
          if placed then Inr s
          else bind_result (set_next (last_ptr s) (Some e) s) (\<lambda>s. count (s\<lparr>last_ptr := Some e\<rparr>))))))"

section \<open>Iterators and the checks of the module\<close>

type_synonym iterator = "nat option"

definition Iterator_new :: "'a linked_list \<Rightarrow> iterator" where
  "Iterator_new s = first_ptr s"

definition Iterator_IsDone :: "iterator \<Rightarrow> bool" where
  "Iterator_IsDone i \<longleftrightarrow> i = None"

definition Iterator_Item :: "iterator \<Rightarrow> 'a linked_list \<Rightarrow> 'a result" where
  "Iterator_Item i s = c_assert (\<not> Iterator_IsDone i) (bind_result (deref i s) (\<lambda>c. Inr (item c)))"

definition Iterator_Next :: "iterator \<Rightarrow> 'a linked_list \<Rightarrow> iterator result" where
  "Iterator_Next i s = bind_result (deref i s) (\<lambda>c. Inr (next_ptr c))"

fun SanityCheck_loop :: "nat \<Rightarrow> int \<Rightarrow> nat option \<Rightarrow> 'a linked_list \<Rightarrow> int result" where
  "SanityCheck_loop fuel numFound ptr s =
     (if ptr = last_ptr s then Inr numFound
      else case fuel of 0 \<Rightarrow> Inl Diverges
        | Suc fuel \<Rightarrow>
            c_assert (numFound + 1 \<le> numInList s) (bind_result (deref ptr s) (\<lambda>c.
            SanityCheck_loop fuel (numFound + 1) (next_ptr c) s)))"

definition SanityCheck :: "'a linked_list \<Rightarrow> unit result" where
  "SanityCheck s =
     (if first_ptr s = None then c_assert (numInList s = 0 \<and> last_ptr s = None) (Inr ())
      else if first_ptr s = last_ptr s then
        bind_result (deref (last_ptr s) s) (\<lambda>c.
        c_assert (numInList s = 1 \<and> next_ptr c = None) (Inr ()))
      else bind_result (SanityCheck_loop (nat (numInList s)) 1 (first_ptr s) s) (\<lambda>numFound.
        c_assert (numFound = numInList s) (
        bind_result (deref (last_ptr s) s) (\<lambda>c. c_assert (next_ptr c = None) (Inr ())))))"

fun fill :: "('a \<Rightarrow> 'a linked_list \<Rightarrow> 'a linked_list result) \<Rightarrow> 'a list \<Rightarrow> 'a linked_list
    \<Rightarrow> 'a linked_list result" where
  "fill put [] s = Inr s"
| "fill put (x # p) s = bind_result (put x s) (\<lambda>s. assert_in True x s (fill put p s))"

fun fill_Append :: "'a list \<Rightarrow> 'a linked_list \<Rightarrow> 'a linked_list result" where
  "fill_Append [] s = Inr s"
| "fill_Append (x # p) s =
     bind_result (Append x s) (\<lambda>s. assert_in True x s (c_assert (\<not> IsEmpty s) (fill_Append p s)))"

fun empty_by_Remove :: "'a list \<Rightarrow> 'a linked_list \<Rightarrow> 'a linked_list result" where
  "empty_by_Remove [] s = Inr s"
| "empty_by_Remove (x # p) s = bind_result (Remove x s) (\<lambda>s. assert_in False x s (empty_by_Remove p s))"

definition List_SelfTest :: "'a list \<Rightarrow> 'a linked_list \<Rightarrow> 'a linked_list result" where
  "List_SelfTest p s =
     bind_result (SanityCheck s) (\<lambda>_.
     c_assert (IsEmpty s \<and> first_ptr s = None) (
     c_assert (Iterator_IsDone (Iterator_new s)) (
     bind_result (fill_Append p s) (\<lambda>s.
     bind_result (SanityCheck s) (\<lambda>_.
     bind_result (empty_by_Remove p s) (\<lambda>s.
     c_assert (IsEmpty s) (
     bind_result (SanityCheck s) (\<lambda>_. Inr s))))))))"

fun sorted_walk :: "nat \<Rightarrow> ('a \<Rightarrow> 'a \<Rightarrow> int) \<Rightarrow> 'a \<Rightarrow> nat option \<Rightarrow> 'a linked_list \<Rightarrow> unit result" where
  "sorted_walk fuel compare prev None s = Inr ()"
| "sorted_walk 0 compare prev (Some a) s = Inl Diverges"
| "sorted_walk (Suc fuel) compare prev (Some a) s =
     bind_result (deref (Some a) s) (\<lambda>c.
     c_assert (compare prev (item c) \<le> 0) (sorted_walk fuel compare (item c) (next_ptr c) s))"

definition Sorted_SanityCheck :: "('a \<Rightarrow> 'a \<Rightarrow> int) \<Rightarrow> 'a linked_list \<Rightarrow> unit result" where
  "Sorted_SanityCheck compare s =
     bind_result (SanityCheck s) (\<lambda>_.
     if first_ptr s \<noteq> last_ptr s then
       bind_result (deref (first_ptr s) s) (\<lambda>c. sorted_walk (fresh s) compare (item c) (next_ptr c) s)
     else Inr ())"

fun drain_front :: "nat \<Rightarrow> 'a linked_list \<Rightarrow> ('a list \<times> 'a linked_list) result" where
  "drain_front 0 s = Inr ([], s)"
| "drain_front (Suc k) s =
     bind_result (RemoveFront s) (\<lambda>(x, s). assert_in False x s (
     bind_result (drain_front k s) (\<lambda>(q, s). Inr (x # q, s))))"

fun in_order :: "('a \<Rightarrow> 'a \<Rightarrow> int) \<Rightarrow> 'a list \<Rightarrow> bool" where
  "in_order compare (x # y # q) \<longleftrightarrow> compare x y \<le> 0 \<and> in_order compare (y # q)"
| "in_order compare q \<longleftrightarrow> True"

definition Sorted_SelfTest :: "('a \<Rightarrow> 'a \<Rightarrow> int) \<Rightarrow> 'a list \<Rightarrow> 'a linked_list \<Rightarrow> 'a linked_list result" where
  "Sorted_SelfTest compare p s =
     bind_result (List_SelfTest p s) (\<lambda>s.
     bind_result (fill (Insert compare) p s) (\<lambda>s.
     bind_result (Sorted_SanityCheck compare s) (\<lambda>_.
     bind_result (drain_front (length p) s) (\<lambda>(q, s).
     c_assert (IsEmpty s) (c_assert (in_order compare q) (
     bind_result (Sorted_SanityCheck compare s) (\<lambda>_. Inr s)))))))"

section \<open>What a heap holds\<close>

fun chain :: "(nat \<rightharpoonup> 'a cell) \<Rightarrow> nat option \<Rightarrow> nat list \<Rightarrow> nat option \<Rightarrow> bool" where
  "chain c p [] q \<longleftrightarrow> p = q"
| "chain c p (a # as) q \<longleftrightarrow> p = Some a \<and> c a \<noteq> None \<and> chain c (next_ptr (the (c a))) as q"

definition item_at :: "(nat \<rightharpoonup> 'a cell) \<Rightarrow> nat \<Rightarrow> 'a" where
  "item_at c a = item (the (c a))"

definition holds_at :: "'a linked_list \<Rightarrow> nat list \<Rightarrow> 'a list \<Rightarrow> bool" where
  "holds_at s as xs \<longleftrightarrow>
     chain (cells s) (first_ptr s) as None \<and> distinct as \<and> (\<forall>a \<in> set as. a < fresh s)
     \<and> xs = map (item_at (cells s)) as
     \<and> last_ptr s = (if as = [] then None else Some (last as))
     \<and> numInList s = int (length as)"

definition holds :: "'a linked_list \<Rightarrow> 'a list \<Rightarrow> bool" where
  "holds s xs \<longleftrightarrow> (\<exists>as. holds_at s as xs)"

lemma chain_append: "chain c p (as @ bs) q \<longleftrightarrow> (\<exists>r. chain c p as r \<and> chain c r bs q)"
  by (induction as arbitrary: p) auto

lemma chain_upd [simp]: "a \<notin> set as \<Longrightarrow> chain (c(a := v)) p as q = chain c p as q"
  by (induction as arbitrary: p) auto

lemma item_at_upd [simp]: "a \<noteq> b \<Longrightarrow> item_at (c(a := v)) b = item_at c b" "item_at (c(a \<mapsto> d)) a = item d"
  by (simp_all add: item_at_def)

lemma map_item_at_upd [simp]:
  "a \<notin> set as \<Longrightarrow> map (item_at (c(a := v))) as = map (item_at c) as"
  by (induction as) auto

lemma chain_cell: "chain c p as q \<Longrightarrow> a \<in> set as \<Longrightarrow> c a \<noteq> None"
  by (induction as arbitrary: p) auto

lemma fuel_enough:
  assumes "holds_at s as xs"
  shows "length as \<le> fresh s"
proof -
  have "set as \<subseteq> {..<fresh s}" "card (set as) = length as"
    using assms by (auto simp: holds_at_def distinct_card)
  then show ?thesis using card_mono[of "{..<fresh s}" "set as"] by simp
qed

lemma IsInList_loop_run:
  "chain (cells s) p as None \<Longrightarrow> length as \<le> fuel \<Longrightarrow>
   IsInList_loop fuel x p s = Inr (x \<in> item_at (cells s) ` set as)"
proof (induction as arbitrary: p fuel)
  case (Cons a as)
  then obtain fuel' where "fuel = Suc fuel'" by (cases fuel) auto
  with Cons show ?case by (auto simp: deref_def item_at_def)
qed simp

lemma IsInList_run: "holds_at s as xs \<Longrightarrow> IsInList x s = Inr (x \<in> set xs)"
  using IsInList_loop_run[of s "first_ptr s" as "fresh s" x] fuel_enough[of s as xs]
  by (simp add: IsInList_def holds_at_def)

lemma assert_in_run:
  "holds_at s as xs \<Longrightarrow> assert_in b x s k = (if (x \<in> set xs) = b then k else Inl AssertFailure)"
  by (simp add: assert_in_def IsInList_run)

lemma List_new_holds: "holds List_new []"
  by (auto simp: holds_def holds_at_def List_new_def)

lemma holds_empty: "holds s xs \<Longrightarrow> IsEmpty s \<longleftrightarrow> xs = []"
  by (auto simp: holds_def holds_at_def IsEmpty_def)

lemma new_element_holds:
  assumes "holds_at s as xs" "new_element x s = (e, s')"
  shows "holds_at s' as xs" "e \<notin> set as" "cells s' e = Some \<lparr>item = x, next_ptr = None\<rparr>" "e < fresh s'"
  using assms by (auto simp: new_element_def holds_at_def)

section \<open>Appending and prepending\<close>

lemma deref_chain: "chain (cells s) p as q \<Longrightarrow> a \<in> set as \<Longrightarrow> deref (Some a) s = Inr (the (cells s a))"
  by (auto simp: deref_def dest: chain_cell)

lemma link_last:
  assumes "chain c p (bs @ [l]) None" "distinct (bs @ [l])" "e \<notin> set (bs @ [l])"
    and "c e = Some \<lparr>item = x, next_ptr = None\<rparr>"
  shows "chain (c(l \<mapsto> (the (c l))\<lparr>next_ptr := Some e\<rparr>)) p (bs @ [l, e]) None"
  using assms by (auto simp: chain_append)

lemma map_item_at_next:
  "l \<in> set as \<Longrightarrow> chain c p as q \<Longrightarrow>
   map (item_at (c(l \<mapsto> (the (c l))\<lparr>next_ptr := v\<rparr>))) bs = map (item_at c) bs"
  by (auto simp: item_at_def)

lemma append_at_end:
  assumes "holds_at s as xs" "e \<notin> set as" "e < fresh s" "cells s e = Some \<lparr>item = x, next_ptr = None\<rparr>"
    and "as \<noteq> []"
  shows "\<exists>s'. set_next (last_ptr s) (Some e) s = Inr s'
    \<and> holds_at (s'\<lparr>last_ptr := Some e, numInList := numInList s' + 1\<rparr>) (as @ [e]) (xs @ [x])
    \<and> first_ptr s' = first_ptr s \<and> numInList s' = numInList s"
proof -
  obtain bs l where as: "as = bs @ [l]" using assms(5) by (metis rev_exhaust)
  let ?c = "(cells s)(l \<mapsto> (the (cells s l))\<lparr>next_ptr := Some e\<rparr>)"
  have h: "chain (cells s) (first_ptr s) (bs @ [l]) None" "last_ptr s = Some l" "distinct (bs @ [l])"
    using assms(1) as by (auto simp: holds_at_def)
  have l: "deref (Some l) s = Inr (the (cells s l))"
    using deref_chain[OF h(1)] by simp
  have "chain ?c (first_ptr s) (as @ [e]) None"
    using link_last[OF h(1,3) _ assms(4)] assms(2) as by simp
  moreover have "map (item_at ?c) (as @ [e]) = xs @ [x]"
    using assms(1,2,4) map_item_at_next[OF _ h(1), of l "Some e" "as @ [e]"] as
    by (auto simp: holds_at_def item_at_def)
  ultimately show ?thesis
    using assms h l by (auto simp: set_next_def holds_at_def)
qed

lemma holds_at_single:
  "cells s e = Some \<lparr>item = x, next_ptr = None\<rparr> \<Longrightarrow> e < fresh s \<Longrightarrow>
   holds_at (s\<lparr>first_ptr := Some e, last_ptr := Some e, numInList := 1\<rparr>) [e] [x]"
  by (simp add: holds_at_def item_at_def)

lemma Append_run:
  assumes "holds s xs" "x \<notin> set xs"
  shows "\<exists>s'. Append x s = Inr s' \<and> holds s' (xs @ [x])"
proof -
  obtain as where h: "holds_at s as xs" using assms(1) by (auto simp: holds_def)
  obtain e s1 where e: "new_element x s = (e, s1)" by force
  note n = new_element_holds[OF h e]
  show ?thesis
  proof (cases "as = []")
    case True
    then have "xs = []" "IsEmpty s1" using h n(1) by (auto simp: holds_at_def IsEmpty_def)
    let ?s = "s1\<lparr>first_ptr := Some e, last_ptr := Some e, numInList := 1\<rparr>"
    have "holds_at ?s [e] [x]" by (rule holds_at_single[OF n(3,4)])
    then show ?thesis
      using \<open>xs = []\<close> \<open>IsEmpty s1\<close> assms(2)
      by (auto simp: Append_def e Let_def IsEmpty_def assert_in_run[OF n(1)]
          assert_in_run[of _ "[e]" "[x]"] holds_def)
  next
    case False
    then have ne: "\<not> IsEmpty s1" using n(1) by (auto simp: holds_at_def IsEmpty_def)
    obtain s2 where s2: "set_next (last_ptr s1) (Some e) s1 = Inr s2"
      "holds_at (s2\<lparr>last_ptr := Some e, numInList := numInList s2 + 1\<rparr>) (as @ [e]) (xs @ [x])"
      using append_at_end[OF n(1,2,4,3) False] by blast
    then show ?thesis
      using ne assms(2)
      by (auto simp: Append_def e Let_def holds_def assert_in_run[OF n(1)] assert_in_run[OF s2(2)])
  qed
qed

lemma push_front:
  assumes "holds_at s as xs" "e \<notin> set as" "e < fresh s" "cells s e = Some \<lparr>item = x, next_ptr = None\<rparr>"
    and "as \<noteq> []"
  shows "\<exists>s'. set_next (Some e) (first_ptr s) s = Inr s'
    \<and> holds_at (s'\<lparr>first_ptr := Some e, numInList := numInList s' + 1\<rparr>) (e # as) (x # xs)"
  using assms by (auto simp: set_next_def deref_def holds_at_def item_at_def)

lemma Prepend_run:
  assumes "holds s xs" "x \<notin> set xs"
  shows "\<exists>s'. Prepend x s = Inr s' \<and> holds s' (x # xs)"
proof -
  obtain as where h: "holds_at s as xs" using assms(1) by (auto simp: holds_def)
  obtain e s1 where e: "new_element x s = (e, s1)" by force
  note n = new_element_holds[OF h e]
  show ?thesis
  proof (cases "as = []")
    case True
    then have "xs = []" "IsEmpty s1" using h n(1) by (auto simp: holds_at_def IsEmpty_def)
    let ?s = "s1\<lparr>first_ptr := Some e, last_ptr := Some e, numInList := 1\<rparr>"
    have "holds_at ?s [e] [x]" by (rule holds_at_single[OF n(3,4)])
    then show ?thesis
      using \<open>xs = []\<close> \<open>IsEmpty s1\<close> assms(2)
      by (auto simp: Prepend_def e Let_def IsEmpty_def assert_in_run[OF n(1)]
          assert_in_run[of _ "[e]" "[x]"] holds_def)
  next
    case False
    then have ne: "\<not> IsEmpty s1" using n(1) by (auto simp: holds_at_def IsEmpty_def)
    obtain s2 where s2: "set_next (Some e) (first_ptr s1) s1 = Inr s2"
      "holds_at (s2\<lparr>first_ptr := Some e, numInList := numInList s2 + 1\<rparr>) (e # as) (x # xs)"
      using push_front[OF n(1,2,4,3) False] by blast
    then show ?thesis
      using ne assms(2)
      by (auto simp: Prepend_def e Let_def holds_def assert_in_run[OF n(1)] assert_in_run[OF s2(2)])
  qed
qed

lemma Append_again:
  assumes "holds s xs" "x \<in> set xs"
  shows "Append x s = Inl AssertFailure" "Prepend x s = Inl AssertFailure"
proof -
  obtain as where h: "holds_at s as xs" using assms(1) by (auto simp: holds_def)
  obtain e s1 where e: "new_element x s = (e, s1)" by force
  show "Append x s = Inl AssertFailure" "Prepend x s = Inl AssertFailure"
    using assms(2) by (simp_all add: Append_def Prepend_def e assert_in_run[OF new_element_holds(1)[OF h e]])
qed


section \<open>Removing\<close>

lemma holds_at_Cons:
  "holds_at s (a # as) xs \<Longrightarrow>
   first_ptr s = Some a \<and> deref (Some a) s = Inr (the (cells s a)) \<and> a \<notin> set as
   \<and> hd xs = item (the (cells s a)) \<and> xs = hd xs # tl xs
   \<and> tl xs = map (item_at (cells s)) as \<and> \<not> IsEmpty s
   \<and> (first_ptr s = last_ptr s \<longleftrightarrow> as = [])"
  by (auto simp: holds_at_def deref_def item_at_def IsEmpty_def split: if_splits)

lemma RemoveFront_run:
  assumes "holds s (x # xs)"
  shows "\<exists>s'. RemoveFront s = Inr (x, s') \<and> holds s' xs"
proof -
  obtain a as where h: "holds_at s (a # as) (x # xs)"
    using assms by (auto simp: holds_def holds_at_def Cons_eq_map_conv)
  note c = holds_at_Cons[OF h]
  let ?s = "delete_element (first_ptr s) ((if first_ptr s = last_ptr s then s\<lparr>first_ptr := None, last_ptr := None\<rparr>
      else s\<lparr>first_ptr := next_ptr (the (cells s a))\<rparr>)\<lparr>numInList := numInList s - 1\<rparr>)"
  have "RemoveFront s = Inr (x, ?s)"
    using c by (auto simp: RemoveFront_def Let_def)
  moreover have "holds_at ?s as xs"
    using h c by (auto simp: holds_at_def delete_element_def)
  ultimately show ?thesis by (auto simp: holds_def)
qed

lemma RemoveFront_empty: "holds s [] \<Longrightarrow> RemoveFront s = Inl AssertFailure"
  by (auto simp: holds_def holds_at_def RemoveFront_def IsEmpty_def)

text \<open>Taking the element \<open>a\<close> after \<open>prev\<close> out of the chain.\<close>

lemma unlink:
  assumes "chain c p (bs @ prev # a # as) None" "distinct (bs @ prev # a # as)"
  shows "chain ((c(prev \<mapsto> (the (c prev))\<lparr>next_ptr := next_ptr (the (c a))\<rparr>))(a := None)) p (bs @ prev # as) None"
  using assms by (auto simp: chain_append)

lemma Remove_loop_run:
  assumes "holds_at s (bs @ prev # as) xs" "x \<in> item_at (cells s) ` set as" "length as \<le> fuel"
  shows "\<exists>s'. Remove_loop fuel x (Some prev) (next_ptr (the (cells s prev))) s = Inr (True, s')
    \<and> holds s' (map (item_at (cells s)) (bs @ [prev]) @ remove1 x (map (item_at (cells s)) as))"
  using assms
proof (induction as arbitrary: bs prev fuel)
  case (Cons a as)
  let ?c = "cells s"
  obtain fuel' where f: "fuel = Suc fuel'" using Cons.prems(3) by (cases fuel) auto
  have h: "chain ?c (first_ptr s) (bs @ prev # a # as) None" "distinct (bs @ prev # a # as)"
    "last_ptr s = Some (last (a # as))" "\<forall>b \<in> set (bs @ prev # a # as). b < fresh s"
    "numInList s = int (length bs) + int (length as) + 2"
    using Cons.prems(1) by (auto simp: holds_at_def)
  have n: "next_ptr (the (?c prev)) = Some a"
    using h(1) by (auto simp: chain_append)
  have d: "deref (Some a) s = Inr (the (?c a))" "deref (Some prev) s = Inr (the (?c prev))"
    using deref_chain[OF h(1)] by simp_all
  show ?case
  proof (cases "x = item (the (?c a))")
    case True
    let ?c' = "(?c(prev \<mapsto> (the (?c prev))\<lparr>next_ptr := next_ptr (the (?c a))\<rparr>))(a := None)"
    have last: "next_ptr (the (?c a)) = None \<longleftrightarrow> as = []"
      using h(1) by (cases as) (auto simp: chain_append)
    let ?s = "s\<lparr>cells := ?c', last_ptr := if as = [] then Some prev else last_ptr s, numInList := numInList s - 1\<rparr>"
    have "Remove_loop fuel x (Some prev) (Some a) s = Inr (True, ?s)"
      using True d last by (simp add: f set_next_def delete_element_def Let_def)
    moreover have "holds_at ?s (bs @ prev # as) (map (item_at ?c) (bs @ [prev]) @ map (item_at ?c) as)"
      using unlink[OF h(1,2)] h(2-5)
      by (auto simp: holds_at_def item_at_def)
    moreover have "remove1 x (map (item_at ?c) (a # as)) = map (item_at ?c) as"
      using True by (simp add: item_at_def)
    ultimately show ?thesis unfolding n by (auto simp: holds_def)
  next
    case False
    have x: "x \<in> item_at ?c ` set as" using Cons.prems(2) False by (auto simp: item_at_def)
    have "holds_at s ((bs @ [prev]) @ a # as) xs" using Cons.prems(1) by simp
    from Cons.IH[OF this x, of fuel'] Cons.prems(3) f
    obtain s' where "Remove_loop fuel' x (Some a) (next_ptr (the (?c a))) s = Inr (True, s')"
      "holds s' (map (item_at ?c) ((bs @ [prev]) @ [a]) @ remove1 x (map (item_at ?c) as))"
      by auto
    moreover have "x \<noteq> item_at ?c a" using False by (simp add: item_at_def)
    ultimately show ?thesis using False d unfolding n by (auto simp: f)
  qed
qed simp

lemma Remove_run:
  assumes "holds s xs" "x \<in> set xs" "distinct xs"
  shows "\<exists>s'. Remove x s = Inr s' \<and> holds s' (remove1 x xs)"
proof -
  obtain as where "holds_at s as xs" using assms(1) by (auto simp: holds_def)
  then obtain a bs where h: "holds_at s (a # bs) xs" using assms(2) by (cases as) (auto simp: holds_at_def)
  note c = holds_at_Cons[OF h]
  obtain s' where s': "(if x = item (the (cells s a)) then
          bind_result (RemoveFront s) (\<lambda>(removed, s). c_assert (x = removed) (Inr s))
        else
          bind_result (Remove_loop (fresh s) x (first_ptr s) (next_ptr (the (cells s a))) s) (\<lambda>(found, s).
          c_assert found (Inr s))) = Inr s'" "holds s' (remove1 x xs)"
  proof (cases "x = item (the (cells s a))")
    case True
    then have xs: "xs = x # tl xs" using c by metis
    then obtain s' where "RemoveFront s = Inr (x, s')" "holds s' (tl xs)"
      using RemoveFront_run[of s x "tl xs"] assms(1) by auto
    moreover have "remove1 x xs = tl xs" using xs by (metis remove1.simps(2))
    ultimately show ?thesis using that[of s'] True by simp
  next
    case False
    have xs: "xs = item_at (cells s) a # map (item_at (cells s)) bs"
      using h by (simp add: holds_at_def)
    then have "x \<in> item_at (cells s) ` set bs" using False assms(2) by (auto simp: item_at_def)
    then obtain s' where "Remove_loop (fresh s) x (Some a) (next_ptr (the (cells s a))) s = Inr (True, s')"
      "holds s' (item_at (cells s) a # remove1 x (map (item_at (cells s)) bs))"
      using Remove_loop_run[of s "[]" a bs xs x "fresh s"] h fuel_enough[OF h] by auto
    then show ?thesis using that[of s'] False c xs by (auto simp: item_at_def)
  qed
  obtain as' where "holds_at s' as' (remove1 x xs)" using s'(2) by (auto simp: holds_def)
  then have "Remove x s = Inr s'"
    using s'(1) c assms(2,3) by (simp add: Remove_def assert_in_run[OF h] assert_in_run)
  then show ?thesis using s'(2) by blast
qed

lemma Remove_missing: "holds s xs \<Longrightarrow> x \<notin> set xs \<Longrightarrow> Remove x s = Inl AssertFailure"
  by (auto simp: holds_def Remove_def assert_in_run)

section \<open>Inserting in order\<close>

definition insert_by :: "('a \<Rightarrow> 'a \<Rightarrow> int) \<Rightarrow> 'a \<Rightarrow> 'a list \<Rightarrow> 'a list" where
  "insert_by compare x xs = takeWhile (\<lambda>y. 0 \<le> compare x y) xs @ x # dropWhile (\<lambda>y. 0 \<le> compare x y) xs"

lemma insert_by_simps [simp]:
  "insert_by compare x [] = [x]"
  "insert_by compare x (y # ys) = (if compare x y < 0 then x # y # ys else y # insert_by compare x ys)"
  by (auto simp: insert_by_def)

lemma set_insert_by [simp]: "set (insert_by compare x xs) = insert x (set xs)"
  by (induction xs) auto

lemma mset_insert_by [simp]: "mset (insert_by compare x xs) = add_mset x (mset xs)"
  by (induction xs) auto

lemma insert_by_end: "(\<forall>y \<in> set xs. 0 \<le> compare x y) \<Longrightarrow> insert_by compare x xs = xs @ [x]"
  by (simp add: insert_by_def takeWhile_eq_all_conv dropWhile_eq_Nil_conv)

lemma distinct_insert_by: "distinct (insert_by compare x xs) \<longleftrightarrow> x \<notin> set xs \<and> distinct xs"
  by (induction xs) auto

lemma Apply_loop_run:
  "chain (cells s) p as None \<Longrightarrow> length as \<le> fuel \<Longrightarrow>
   Apply_loop fuel func p s st = Inr (fold func (map (item_at (cells s)) as) st)"
proof (induction as arbitrary: p fuel st)
  case (Cons a as)
  then obtain fuel' where "fuel = Suc fuel'" by (cases fuel) auto
  with Cons show ?case by (auto simp: deref_def item_at_def)
qed simp

lemma Apply_run: "holds s xs \<Longrightarrow> Apply func s st = Inr (fold func xs st)"
proof -
  assume "holds s xs"
  then obtain as where h: "holds_at s as xs" by (auto simp: holds_def)
  then show "Apply func s st = Inr (fold func xs st)"
    using Apply_loop_run[of s "first_ptr s" as "fresh s" func st] fuel_enough[OF h]
    by (simp add: Apply_def holds_at_def)
qed

lemma Front_run: "holds s (x # xs) \<Longrightarrow> Front s = Inr x"
  by (auto simp: holds_def holds_at_def Front_def Cons_eq_map_conv deref_def item_at_def)

lemma Insert_again:
  assumes "holds s xs" "x \<in> set xs"
  shows "Insert compare x s = Inl AssertFailure"
proof -
  obtain as where h: "holds_at s as xs" using assms(1) by (auto simp: holds_def)
  obtain e s1 where e: "new_element x s = (e, s1)" by force
  show ?thesis
    using assms(2) by (simp add: Insert_def e Let_def assert_in_run[OF new_element_holds(1)[OF h e]])
qed

lemma splice:
  assumes "chain c p (bs @ ptr # a # as) None" "distinct (bs @ ptr # a # as)" "e \<notin> set (bs @ ptr # a # as)"
    and "c e = Some \<lparr>item = x, next_ptr = None\<rparr>"
  shows "chain (c(e \<mapsto> \<lparr>item = x, next_ptr = Some a\<rparr>, ptr \<mapsto> (the (c ptr))\<lparr>next_ptr := Some e\<rparr>)) p (bs @ ptr # e # a # as) None"
  using assms by (auto simp: chain_append)

lemma Insert_loop_run:
  assumes "holds_at s (bs @ ptr # as) xs" "e \<notin> set (bs @ ptr # as)" "e < fresh s"
    and "cells s e = Some \<lparr>item = x, next_ptr = None\<rparr>" "length as < fuel"
  shows "if \<forall>y \<in> item_at (cells s) ` set as. 0 \<le> compare x y
    then Insert_loop fuel compare x e (Some ptr) s = Inr (False, s)
    else \<exists>s'. Insert_loop fuel compare x e (Some ptr) s = Inr (True, s')
      \<and> holds s' (map (item_at (cells s)) (bs @ [ptr]) @ insert_by compare x (map (item_at (cells s)) as))"
  using assms
proof (induction as arbitrary: bs ptr fuel)
  case Nil
  have h: "chain (cells s) (first_ptr s) (bs @ [ptr]) None" using Nil.prems(1) by (simp add: holds_at_def)
  then have "next_ptr (the (cells s ptr)) = None" "deref (Some ptr) s = Inr (the (cells s ptr))"
    using deref_chain[OF h, of ptr] by (auto simp: chain_append)
  then show ?case using Nil.prems(5) by (cases fuel) auto
next
  case (Cons a as)
  let ?c = "cells s"
  obtain fuel' where f: "fuel = Suc fuel'" using Cons.prems(5) by (cases fuel) auto
  have h: "chain ?c (first_ptr s) (bs @ ptr # a # as) None" "distinct (bs @ ptr # a # as)"
    "last_ptr s = Some (last (a # as))" "\<forall>b \<in> set (bs @ ptr # a # as). b < fresh s"
    "numInList s = int (length bs) + int (length as) + 2"
    using Cons.prems(1) by (auto simp: holds_at_def)
  have d: "deref (Some a) s = Inr (the (?c a))" "deref (Some ptr) s = Inr (the (?c ptr))"
    "next_ptr (the (?c ptr)) = Some a" "?c ptr \<noteq> None"
    using deref_chain[OF h(1)] h(1) by (auto simp: chain_append)
  show ?case
  proof (cases "compare x (item (the (?c a))) < 0")
    case True
    let ?c' = "?c(e \<mapsto> \<lparr>item = x, next_ptr = Some a\<rparr>, ptr \<mapsto> (the (?c ptr))\<lparr>next_ptr := Some e\<rparr>)"
    let ?s = "s\<lparr>cells := ?c', numInList := numInList s + 1\<rparr>"
    have "e \<noteq> ptr" using Cons.prems(2) by auto
    then have "Insert_loop fuel compare x e (Some ptr) s = Inr (True, ?s)"
      using True d Cons.prems(4) by (auto simp: f set_next_def deref_def)
    moreover have "holds_at ?s (bs @ ptr # e # a # as) (map (item_at ?c) (bs @ [ptr]) @ x # map (item_at ?c) (a # as))"
      using splice[OF h(1,2) Cons.prems(2,4)] h(2-5) Cons.prems(2,3)
      by (auto simp: holds_at_def item_at_def)
    ultimately show ?thesis using True by (auto simp: holds_def item_at_def)
  next
    case False
    have step: "Insert_loop fuel compare x e (Some ptr) s = Insert_loop fuel' compare x e (Some a) s"
      using False d by (simp add: f)
    have "holds_at s ((bs @ [ptr]) @ a # as) xs" "e \<notin> set ((bs @ [ptr]) @ a # as)" "length as < fuel'"
      using Cons.prems f by auto
    note ih = Cons.IH[OF this(1,2) Cons.prems(3,4) this(3)]
    show ?thesis using ih False unfolding step by (auto simp: item_at_def[symmetric] split: if_splits)
  qed
qed

text \<open>The part of \<open>Insert\<close> after the test of the first element.\<close>

lemma Insert_behind:
  assumes "holds_at s (a # bs) xs" "e \<notin> set (a # bs)" "e < fresh s"
    and "cells s e = Some \<lparr>item = x, next_ptr = None\<rparr>" "\<not> compare x (item (the (cells s a))) < 0"
  shows "\<exists>s'. bind_result (Insert_loop (fresh s) compare x e (first_ptr s) s) (\<lambda>(placed, s).
      if placed then Inr s
      else bind_result (set_next (last_ptr s) (Some e) s) (\<lambda>s.
        let s = s\<lparr>last_ptr := Some e\<rparr>; s = s\<lparr>numInList := numInList s + 1\<rparr>
        in assert_in True x s (Inr s))) = Inr s'
    \<and> holds s' (insert_by compare x xs)"
proof -
  note c = holds_at_Cons[OF assms(1)]
  have xs: "xs = item_at (cells s) a # map (item_at (cells s)) bs"
    using assms(1) by (simp add: holds_at_def)
  have len: "length bs < fresh s" using fuel_enough[OF assms(1)] by simp
  have h: "holds_at s ([] @ a # bs) xs" "e \<notin> set ([] @ a # bs)" using assms(1,2) by auto
  note loop = Insert_loop_run[OF h assms(3,4) len, of compare]
  have a: "0 \<le> compare x (item_at (cells s) a)" using assms(5) by (simp add: item_at_def)
  show ?thesis
  proof (cases "\<forall>y \<in> item_at (cells s) ` set bs. 0 \<le> compare x y")
    case True
    then have "insert_by compare x xs = xs @ [x]" using a xs by (intro insert_by_end) auto
    moreover obtain s2 where s2: "set_next (last_ptr s) (Some e) s = Inr s2"
      "holds_at (s2\<lparr>last_ptr := Some e, numInList := numInList s2 + 1\<rparr>) ((a # bs) @ [e]) (xs @ [x])"
      using append_at_end[OF assms(1-4)] by blast
    ultimately show ?thesis
      using True c loop by (auto simp: Let_def holds_def assert_in_run[OF s2(2)])
  next
    case False
    obtain s2 where "Insert_loop (fresh s) compare x e (Some a) s = Inr (True, s2)"
      "holds s2 (map (item_at (cells s)) [a] @ insert_by compare x (map (item_at (cells s)) bs))"
      using loop unfolding if_not_P[OF False] by auto
    then show ?thesis using c a xs by auto
  qed
qed

lemma Insert_run:
  assumes "holds s xs" "x \<notin> set xs"
  shows "\<exists>s'. Insert compare x s = Inr s' \<and> holds s' (insert_by compare x xs)"
proof -
  obtain as where h: "holds_at s as xs" using assms(1) by (auto simp: holds_def)
  obtain e s1 where e: "new_element x s = (e, s1)" by force
  note n = new_element_holds[OF h e]
  note ins = Insert_def e Let_def assert_in_run[OF n(1)] holds_def
  show ?thesis
  proof (cases as)
    case Nil
    then have "xs = []" "IsEmpty s1" using h n(1) by (auto simp: holds_at_def IsEmpty_def)
    let ?s = "s1\<lparr>first_ptr := Some e, last_ptr := Some e, numInList := 1\<rparr>"
    have "holds_at ?s [e] [x]" by (rule holds_at_single[OF n(3,4)])
    then show ?thesis
      using \<open>xs = []\<close> \<open>IsEmpty s1\<close>
      by (auto simp: ins IsEmpty_def assert_in_run[of _ "[e]" "[x]"])
  next
    case (Cons a bs)
    note c = holds_at_Cons[OF n(1)[unfolded Cons]]
    show ?thesis
    proof (cases "compare x (item (the (cells s1 a))) < 0")
      case True
      then have "insert_by compare x xs = x # xs" using c by (metis insert_by_simps(2))
      moreover obtain s2 where s2: "set_next (Some e) (first_ptr s1) s1 = Inr s2"
        "holds_at (s2\<lparr>first_ptr := Some e, numInList := numInList s2 + 1\<rparr>) (e # as) (x # xs)"
        using push_front[OF n(1,2,4,3)] Cons by blast
      ultimately show ?thesis using True c assms(2) by (auto simp: ins assert_in_run[OF s2(2)])
    next
      case False
      then show ?thesis
        using Insert_behind[OF n(1)[unfolded Cons] n(2)[unfolded Cons] n(4,3), of compare, unfolded Let_def]
          c assms(2)
        by (auto simp: ins)
    qed
  qed
qed

section \<open>The checks pass on what a heap holds\<close>

lemma SanityCheck_loop_step:
  "SanityCheck_loop fuel n (last_ptr s) s = Inr n"
  "ptr \<noteq> last_ptr s \<Longrightarrow> SanityCheck_loop (Suc fuel) n ptr s =
     c_assert (n + 1 \<le> numInList s) (bind_result (deref ptr s) (\<lambda>c. SanityCheck_loop fuel (n + 1) (next_ptr c) s))"
  by simp_all

declare SanityCheck_loop.simps [simp del]

lemma SanityCheck_loop_run:
  "chain (cells s) (Some a) (a # as) None \<Longrightarrow> distinct (a # as) \<Longrightarrow> last_ptr s = Some (last (a # as)) \<Longrightarrow>
   n + int (length as) \<le> numInList s \<Longrightarrow> length as \<le> fuel \<Longrightarrow>
   SanityCheck_loop fuel n (Some a) s = Inr (n + int (length as))"
proof (induction as arbitrary: a n fuel)
  case (Cons b as)
  obtain fuel' where f: "fuel = Suc fuel'" using Cons.prems(5) by (cases fuel) auto
  have "last (b # as) \<in> set (b # as)" by (rule last_in_set) simp
  then have "a \<noteq> last (b # as)" using Cons.prems(2) by auto
  moreover have "deref (Some a) s = Inr (the (cells s a))" "next_ptr (the (cells s a)) = Some b"
    using Cons.prems(1) by (auto simp: deref_def)
  moreover have "SanityCheck_loop fuel' (n + 1) (Some b) s = Inr (n + 1 + int (length as))"
    by (rule Cons.IH) (use Cons.prems f in auto)
  ultimately show ?case
    using Cons.prems by (simp add: f SanityCheck_loop_step(2))
next
  case Nil
  then show ?case using SanityCheck_loop_step(1)[of fuel n s] by simp
qed

lemma chain_last: "chain c p (bs @ [l]) None \<Longrightarrow> next_ptr (the (c l)) = None"
  by (auto simp: chain_append)

lemma SanityCheck_run: "holds s xs \<Longrightarrow> SanityCheck s = Inr ()"
proof -
  assume "holds s xs"
  then obtain as where h: "holds_at s as xs" by (auto simp: holds_def)
  show "SanityCheck s = Inr ()"
  proof (cases as)
    case Nil
    then show ?thesis using h by (simp add: SanityCheck_def holds_at_def)
  next
    case (Cons a bs)
    note c = holds_at_Cons[OF h[unfolded Cons]]
    have l: "last_ptr s = Some (last as)" "chain (cells s) (first_ptr s) as None" "numInList s = int (length as)"
      "distinct as"
      using h Cons by (auto simp: holds_at_def)
    have "deref (Some (last as)) s = Inr (the (cells s (last as)))"
      by (rule deref_chain[OF l(2)]) (simp add: Cons)
    moreover have "next_ptr (the (cells s (last as))) = None"
      using chain_last[of "cells s" "first_ptr s" "butlast as" "last as"] l(2)
        append_butlast_last_id[of as] Cons by auto
    moreover have "bs \<noteq> [] \<Longrightarrow> SanityCheck_loop (nat (numInList s)) 1 (first_ptr s) s = Inr (numInList s)"
      using SanityCheck_loop_run[of s a bs 1 "nat (numInList s)"] l c Cons by auto
    ultimately show ?thesis
      using c l Cons by (auto simp: SanityCheck_def)
  qed
qed

lemma sorted_walk_run:
  "chain (cells s) p as None \<Longrightarrow> length as \<le> fuel \<Longrightarrow>
   in_order compare (prev # map (item_at (cells s)) as) \<Longrightarrow> sorted_walk fuel compare prev p s = Inr ()"
proof (induction as arbitrary: p fuel prev)
  case (Cons a as)
  then obtain fuel' where "fuel = Suc fuel'" by (cases fuel) auto
  with Cons show ?case by (auto simp: deref_def item_at_def)
qed simp

lemma Sorted_SanityCheck_run:
  assumes "holds s xs" "in_order compare xs"
  shows "Sorted_SanityCheck compare s = Inr ()"
proof -
  obtain as where h: "holds_at s as xs" using assms(1) by (auto simp: holds_def)
  show ?thesis
  proof (cases as)
    case Nil
    then show ?thesis using h SanityCheck_run[OF assms(1)] by (simp add: Sorted_SanityCheck_def holds_at_def)
  next
    case (Cons a bs)
    note c = holds_at_Cons[OF h[unfolded Cons]]
    have "chain (cells s) (next_ptr (the (cells s a))) bs None" "xs = item_at (cells s) a # map (item_at (cells s)) bs"
      using h Cons by (auto simp: holds_at_def)
    then show ?thesis
      using c SanityCheck_run[OF assms(1)] fuel_enough[OF h] assms(2) Cons
        sorted_walk_run[of s "next_ptr (the (cells s a))" bs "fresh s" compare "item_at (cells s) a"]
      by (auto simp: Sorted_SanityCheck_def item_at_def)
  qed
qed

lemma in_order_insert_by:
  assumes "\<And>x y. 0 \<le> compare x y \<Longrightarrow> compare y x \<le> 0"
  shows "in_order compare xs \<Longrightarrow> in_order compare (insert_by compare x xs)"
proof (induction xs)
  case (Cons y ys)
  then have "in_order compare ys" by (cases ys) auto
  with Cons show ?case using assms[of x y] by (cases ys) auto
qed simp

section \<open>The list interface\<close>

text \<open>What the kernel relies on where it keeps things on a list: a collection it puts items into and
  takes them out of, in the order \<open>place\<close> gives them.\<close>

fun feed :: "('a \<Rightarrow> 's \<Rightarrow> 's result) \<Rightarrow> 'a list \<Rightarrow> 's \<Rightarrow> 's result" where
  "feed put [] s = Inr s"
| "feed put (x # p) s = bind_result (put x s) (feed put p)"

fun drain :: "('s \<Rightarrow> ('a \<times> 's) result) \<Rightarrow> nat \<Rightarrow> 's \<Rightarrow> ('a list \<times> 's) result" where
  "drain take_out 0 s = Inr ([], s)"
| "drain take_out (Suc k) s =
     bind_result (take_out s) (\<lambda>(x, s). bind_result (drain take_out k s) (\<lambda>(q, s). Inr (x # q, s)))"

locale waiting_line =
  fixes contents :: "'s \<Rightarrow> 'a list \<Rightarrow> bool"
    and put_in :: "'a \<Rightarrow> 's \<Rightarrow> 's result"
    and take_out :: "'s \<Rightarrow> ('a \<times> 's) result"
    and place :: "'a \<Rightarrow> 'a list \<Rightarrow> 'a list"
  assumes put_in: "contents s xs \<Longrightarrow> x \<notin> set xs \<Longrightarrow> \<exists>s'. put_in x s = Inr s' \<and> contents s' (place x xs)"
    and take_out: "contents s (x # xs) \<Longrightarrow> \<exists>s'. take_out s = Inr (x, s') \<and> contents s' xs"
    and place_set: "set (place x xs) = insert x (set xs)"
begin

lemma feed_run:
  "contents s xs \<Longrightarrow> distinct p \<Longrightarrow> set p \<inter> set xs = {} \<Longrightarrow>
   \<exists>s'. feed put_in p s = Inr s' \<and> contents s' (fold place p xs)"
proof (induction p arbitrary: s xs)
  case (Cons x p)
  from Cons.prems obtain s1 where s1: "put_in x s = Inr s1" "contents s1 (place x xs)"
    using put_in[of s xs x] by auto
  then show ?case using Cons.IH[OF s1(2)] Cons.prems by (auto simp: place_set)
qed simp

lemma drain_run:
  "contents s xs \<Longrightarrow> \<exists>s'. drain take_out (length xs) s = Inr (xs, s') \<and> contents s' []"
proof (induction xs arbitrary: s)
  case (Cons x xs)
  then obtain s1 where "take_out s = Inr (x, s1)" "contents s1 xs" using take_out by blast
  then show ?case using Cons.IH[of s1] by auto
qed simp

lemma feed_then_drain:
  assumes "contents s []" "distinct p" "length (fold place p []) = length p"
  shows "\<exists>s1 s2. feed put_in p s = Inr s1 \<and> drain take_out (length p) s1 = Inr (fold place p [], s2)
    \<and> contents s2 []"
  using feed_run[OF assms(1,2)] drain_run assms(3) by fastforce

end

interpretation fifo: waiting_line holds Append RemoveFront "\<lambda>x xs. xs @ [x]"
  by unfold_locales (auto intro: Append_run RemoveFront_run)

interpretation lifo: waiting_line holds Prepend RemoveFront "\<lambda>x xs. x # xs"
  by unfold_locales (auto intro: Prepend_run RemoveFront_run)

interpretation sorted_line: waiting_line holds "Insert compare" RemoveFront "insert_by compare" for compare
  by unfold_locales (auto intro: Insert_run RemoveFront_run)

section \<open>The self tests\<close>

lemma fill_Append_run:
  "holds s xs \<Longrightarrow> distinct (xs @ p) \<Longrightarrow> \<exists>s'. fill_Append p s = Inr s' \<and> holds s' (xs @ p)"
proof (induction p arbitrary: s xs)
  case (Cons x p)
  then obtain s1 where s1: "Append x s = Inr s1" "holds s1 (xs @ [x])" using Append_run[of s xs x] by auto
  then obtain as where "holds_at s1 as (xs @ [x])" by (auto simp: holds_def)
  then show ?case
    using s1 holds_empty[OF s1(2)] Cons.IH[OF s1(2)] Cons.prems(2) by (simp add: assert_in_run)
qed auto

lemma empty_by_Remove_run:
  "holds s p \<Longrightarrow> distinct p \<Longrightarrow> \<exists>s'. empty_by_Remove p s = Inr s' \<and> holds s' []"
proof (induction p arbitrary: s)
  case (Cons x p)
  then obtain s1 where s1: "Remove x s = Inr s1" "holds s1 p" using Remove_run[of s "x # p" x] by auto
  then obtain as where "holds_at s1 as p" by (auto simp: holds_def)
  then show ?case using s1 Cons.IH[OF s1(2)] Cons.prems(2) by (simp add: assert_in_run)
qed auto

lemma holds_nil: "holds s [] \<Longrightarrow> IsEmpty s \<and> first_ptr s = None"
  by (auto simp: holds_def holds_at_def IsEmpty_def)

lemma List_SelfTest_run:
  assumes "holds s []" "distinct p"
  shows "\<exists>s'. List_SelfTest p s = Inr s' \<and> holds s' []"
proof -
  obtain s1 where s1: "fill_Append p s = Inr s1" "holds s1 p"
    using fill_Append_run[OF assms(1), of p] assms(2) by auto
  obtain s2 where s2: "empty_by_Remove p s1 = Inr s2" "holds s2 []"
    using empty_by_Remove_run[OF s1(2) assms(2)] by blast
  show ?thesis
    using s1 s2 holds_nil[OF assms(1)] holds_nil[OF s2(2)]
    by (auto simp: List_SelfTest_def SanityCheck_run[OF assms(1)] SanityCheck_run[OF s1(2)]
        SanityCheck_run[OF s2(2)] Iterator_IsDone_def Iterator_new_def)
qed

lemma fill_Insert_run:
  "holds s xs \<Longrightarrow> distinct (xs @ p) \<Longrightarrow>
   \<exists>s'. fill (Insert compare) p s = Inr s' \<and> holds s' (fold (insert_by compare) p xs)"
proof (induction p arbitrary: s xs)
  case (Cons x p)
  then obtain s1 where s1: "Insert compare x s = Inr s1" "holds s1 (insert_by compare x xs)"
    using Insert_run[of s xs x compare] by auto
  then obtain as where "holds_at s1 as (insert_by compare x xs)" by (auto simp: holds_def)
  moreover have "distinct (insert_by compare x xs @ p)"
    using Cons.prems(2) by (auto simp: distinct_insert_by)
  ultimately show ?case
    using s1 Cons.IH[OF s1(2)] by (simp add: assert_in_run)
qed auto

lemma drain_front_run:
  "holds s xs \<Longrightarrow> distinct xs \<Longrightarrow> \<exists>s'. drain_front (length xs) s = Inr (xs, s') \<and> holds s' []"
proof (induction xs arbitrary: s)
  case (Cons x xs)
  then obtain s1 where s1: "RemoveFront s = Inr (x, s1)" "holds s1 xs"
    using RemoveFront_run[OF Cons.prems(1)] by blast
  then obtain as where "holds_at s1 as xs" by (auto simp: holds_def)
  then show ?case using s1 Cons.IH[OF s1(2)] Cons.prems(2) by (auto simp: assert_in_run)
qed auto

lemma mset_fold_insert_by: "mset (fold (insert_by compare) p xs) = mset p + mset xs"
  by (induction p arbitrary: xs) auto

lemma length_fold_insert_by: "length (fold (insert_by compare) p xs) = length p + length xs"
  by (metis mset_fold_insert_by size_mset size_union)

lemma in_order_fold:
  assumes "\<And>x y. 0 \<le> compare x y \<Longrightarrow> compare y x \<le> 0"
  shows "in_order compare xs \<Longrightarrow> in_order compare (fold (insert_by compare) p xs)"
  by (induction p arbitrary: xs) (simp_all add: in_order_insert_by[OF assms])

lemma Sorted_SelfTest_run:
  assumes "holds s []" "distinct p" "\<And>x y. 0 \<le> compare x y \<Longrightarrow> compare y x \<le> 0"
  shows "\<exists>s'. Sorted_SelfTest compare p s = Inr s' \<and> holds s' []"
proof -
  obtain s1 where s1: "List_SelfTest p s = Inr s1" "holds s1 []"
    using List_SelfTest_run[OF assms(1,2)] by blast
  let ?q = "fold (insert_by compare) p []"
  obtain s2 where s2: "fill (Insert compare) p s1 = Inr s2" "holds s2 ?q"
    using fill_Insert_run[OF s1(2), of p compare] assms(2) by auto
  have q: "in_order compare ?q" "distinct ?q" "length ?q = length p"
    using in_order_fold[of compare "[]" p, OF assms(3)] mset_fold_insert_by[of compare p "[]"] assms(2)
    by (auto simp: length_fold_insert_by) (metis mset_eq_imp_distinct_iff)
  obtain s3 where s3: "drain_front (length p) s2 = Inr (?q, s3)" "holds s3 []"
    using drain_front_run[OF s2(2) q(2)] q(3) by auto
  show ?thesis
    using s1 s2 s3 q holds_nil[OF s3(2)] Sorted_SanityCheck_run[OF s2(2) q(1)]
      Sorted_SanityCheck_run[OF s3(2), of compare]
    by (simp add: Sorted_SelfTest_def)
qed

section \<open>Sorting by a key\<close>

text \<open>When \<open>compare\<close> compares keys, inserting one after the other sorts, and is stable.\<close>

lemma sorted_insert_by:
  assumes "\<And>x y. compare x y < 0 \<longleftrightarrow> key x < (key y :: 'k :: linorder)"
  shows "sorted (map key xs) \<Longrightarrow> sorted (map key (insert_by compare x xs))"
proof (induction xs)
  case (Cons y ys)
  then show ?case using assms[of x y] by (cases ys) (auto simp: not_less)
qed simp

lemma filter_insert_by:
  assumes "\<And>x y. compare x y < 0 \<longleftrightarrow> key x < (key y :: 'k :: linorder)"
  shows "sorted (map key xs) \<Longrightarrow>
    filter (\<lambda>y. k = key y) (insert_by compare x xs) = filter (\<lambda>y. k = key y) (xs @ [x])"
proof (induction xs)
  case (Cons y ys)
  have "key x < key y \<Longrightarrow> key x = k \<Longrightarrow> filter (\<lambda>y. k = key y) (y # ys) = []"
    using Cons.prems by (auto simp: filter_empty_conv)
  then show ?case using Cons assms[of x y] by auto
qed simp

lemma fold_insert_by_sort_key:
  assumes "\<And>x y. compare x y < 0 \<longleftrightarrow> key x < (key y :: 'k :: linorder)"
  shows "fold (insert_by compare) p [] = sort_key key p"
proof -
  have "sorted (map key xs) \<Longrightarrow> sorted (map key (fold (insert_by compare) p xs))
    \<and> (\<forall>k. filter (\<lambda>y. k = key y) (fold (insert_by compare) p xs) = filter (\<lambda>y. k = key y) (xs @ p))" for xs
    by (induction p arbitrary: xs) (auto simp: sorted_insert_by[OF assms] filter_insert_by[OF assms])
  from this[of "[]"] have "sorted (map key (fold (insert_by compare) p []))"
    "\<And>k. filter (\<lambda>y. k = key y) (fold (insert_by compare) p []) = filter (\<lambda>y. k = key y) p"
    by auto
  then show ?thesis
    by (intro properties_for_sort_key[symmetric]) (auto simp: mset_fold_insert_by)
qed

section \<open>Properties\<close>

text \<open>
  C39: the pointer lists implement lists. On a heap that holds \<open>xs\<close>, membership, length, front and
  traversal read \<open>xs\<close>; appending, prepending, inserting in order, removing the front and removing
  an item leave a heap that holds the list changed the same way, with \<open>last\<close> and the count right;
  the sanity check passes; and adding an item twice or removing a missing one hits an assertion.
\<close>

theorem List_implements_lists:
  assumes "holds s xs" "distinct xs"
  shows "IsInList x s = Inr (x \<in> set xs) \<and> NumInList s = int (length xs) \<and> SanityCheck s = Inr ()
    \<and> Apply func s st = Inr (fold func xs st)
    \<and> (if xs = [] then RemoveFront s = Inl AssertFailure
       else Front s = Inr (hd xs) \<and> (\<exists>s'. RemoveFront s = Inr (hd xs, s') \<and> holds s' (tl xs)))
    \<and> (if x \<in> set xs
       then Append x s = Inl AssertFailure \<and> Prepend x s = Inl AssertFailure
         \<and> Insert compare x s = Inl AssertFailure
         \<and> (\<exists>s'. Remove x s = Inr s' \<and> holds s' (remove1 x xs))
       else Remove x s = Inl AssertFailure
         \<and> (\<exists>s'. Append x s = Inr s' \<and> holds s' (xs @ [x]))
         \<and> (\<exists>s'. Prepend x s = Inr s' \<and> holds s' (x # xs))
         \<and> (\<exists>s'. Insert compare x s = Inr s' \<and> holds s' (insert_by compare x xs)))"
proof -
  obtain as where h: "holds_at s as xs" using assms(1) by (auto simp: holds_def)
  have "NumInList s = int (length xs)" using h by (simp add: NumInList_def holds_at_def)
  moreover have "if xs = [] then RemoveFront s = Inl AssertFailure
       else Front s = Inr (hd xs) \<and> (\<exists>s'. RemoveFront s = Inr (hd xs, s') \<and> holds s' (tl xs))"
    using assms(1) RemoveFront_empty RemoveFront_run[of s "hd xs" "tl xs"] Front_run[of s "hd xs" "tl xs"]
    by (cases xs) auto
  ultimately show ?thesis
    using assms IsInList_run[OF h, of x] SanityCheck_run[OF assms(1)] Apply_run[OF assms(1), of func st] Append_again[OF assms(1)]
      Insert_again[OF assms(1)] Remove_run[OF assms(1)] Remove_missing[OF assms(1)]
      Append_run[OF assms(1)] Prepend_run[OF assms(1)] Insert_run[OF assms(1)]
    by simp
qed

theorem List_implements_lists_witness:
  "\<exists>s1 s2. Append (7::int) List_new = Inr s1 \<and> holds s1 [7] \<and> IsInList 7 s1 = Inr True
     \<and> Append 7 s1 = Inl AssertFailure \<and> Insert (-) 3 s1 = Inr s2 \<and> holds s2 [3, 7]"
proof -
  obtain s1 where "Append (7::int) List_new = Inr s1" "holds s1 [7]"
    using List_implements_lists[OF List_new_holds, of "7::int" "\<lambda>_ _. ()"] by auto
  then show ?thesis
    using List_implements_lists[of s1 "[7]" 7 "\<lambda>_ _. ()"]
      List_implements_lists[of s1 "[7]" 3 "\<lambda>_ _. ()" _ "(-)"] by auto
qed

text \<open>
  A list used with \<open>Append\<close> and \<open>RemoveFront\<close> is a FIFO queue. Distinct items put on an empty
  list all come out, in the order they went in, and leave it empty. The ready list and the
  waiting queues of the kernel rely on this.
\<close>

theorem List_is_fifo:
  assumes "holds s []" "distinct p"
  shows "\<exists>s1 s2. feed Append p s = Inr s1 \<and> drain RemoveFront (length p) s1 = Inr (p, s2) \<and> holds s2 []"
proof -
  have f: "fold (\<lambda>x xs. xs @ [x]) p ys = ys @ p" for ys by (induction p arbitrary: ys) auto
  show ?thesis using fifo.feed_then_drain[OF assms] by (simp add: f)
qed

theorem List_is_fifo_witness:
  "\<exists>s1 s2. feed Append [3, 1, 2 :: int] List_new = Inr s1 \<and> drain RemoveFront 3 s1 = Inr ([3, 1, 2], s2)"
  using List_is_fifo[OF List_new_holds, of "[3, 1, 2 :: int]"]
  by (auto simp del: feed.simps drain.simps simp: eval_nat_numeral)

text \<open>
  C38: a sorted list sorts, stably. If \<open>compare\<close> compares keys, distinct items inserted into an
  empty \<open>SortedList\<close> come out of it as the stable sort of the insertion order by key: smallest
  first, and first in, first out among equal ones. The pending interrupts rely on this.
\<close>

theorem SortedList_is_stable_sort:
  assumes "holds s []" "distinct p" "\<And>x y. compare x y < 0 \<longleftrightarrow> key x < (key y :: int)"
  shows "\<exists>s1 s2. feed (Insert compare) p s = Inr s1
    \<and> drain RemoveFront (length p) s1 = Inr (sort_key key p, s2) \<and> holds s2 []"
  using sorted_line.feed_then_drain[OF assms(1,2), of compare]
  by (simp add: fold_insert_by_sort_key[of compare key, OF assms(3)])

theorem SortedList_is_stable_sort_witness:
  "\<exists>s1 s2. feed (Insert (\<lambda>x y. fst x - fst y)) [(3, 0), (1, 1), (3, 2), (0, 3 :: int)] List_new = Inr s1
     \<and> drain RemoveFront 4 s1 = Inr ([(0, 3), (1, 1), (3 :: int, 0), (3, 2)], s2)"
  using SortedList_is_stable_sort[OF List_new_holds, of "[(3, 0), (1, 1), (3, 2), (0, 3 :: int)]"
      "\<lambda>x y. fst x - fst y" fst]
  by (auto simp del: feed.simps drain.simps simp: eval_nat_numeral)

text \<open>
  The self tests of the module pass. On an empty list and any distinct test entries,
  \<open>List::SelfTest\<close> and \<open>SortedList::SelfTest\<close> (for a comparison that orders every pair one way or
  the other) run through all their assertions and leave the list empty.
\<close>

theorem List_SelfTests_pass:
  assumes "holds s []" "distinct p" "\<And>x y. 0 \<le> compare x y \<Longrightarrow> compare y x \<le> 0"
  shows "(\<exists>s'. List_SelfTest p s = Inr s' \<and> holds s' []) \<and>
    (\<exists>s'. Sorted_SelfTest compare p s = Inr s' \<and> holds s' [])"
  using List_SelfTest_run[OF assms(1,2)] Sorted_SelfTest_run[OF assms(1,2), of compare, OF assms(3)]
  by blast

theorem List_SelfTests_pass_witness:
  "(\<exists>s'. List_SelfTest [2, 9, 1 :: int] List_new = Inr s') \<and>
   (\<exists>s'. Sorted_SelfTest (-) [2, 9, 1 :: int] List_new = Inr s')"
  using List_SelfTests_pass[OF List_new_holds, of "[2, 9, 1 :: int]" "(-)"] by auto

end
