(* ===== verification/Hash_Table.thy ===== *)
theory Hash_Table imports Linked_List begin

text \<open>
  The self-expanding hash table of lib/hash.h and lib/hash.cc: an array of lists (the pointer lists
  of \<open>Linked_List\<close>), the operations, the rehash that multiplies the number of buckets, the
  iterator, and the checks of the module. The function that reads an item's key and the hash
  function are arguments, as in the constructor. A table implements a set of items with distinct
  keys.
\<close>

section \<open>The operations\<close>

definition InitialBuckets :: nat where "InitialBuckets = 4"
definition ResizeRatio :: nat where "ResizeRatio = 3"
definition IncreaseSizeBy :: nat where "IncreaseSizeBy = 4"

record 'a hash_table =
  buckets :: "'a linked_list list"
  numBuckets :: nat
  numItems :: nat

definition InitBuckets :: "nat \<Rightarrow> 'a hash_table \<Rightarrow> 'a hash_table" where
  "InitBuckets sz t = t\<lparr>numBuckets := sz, buckets := replicate sz List_new\<rparr>"

definition HashTable_new :: "'a hash_table" where
  "HashTable_new = InitBuckets InitialBuckets \<lparr>buckets = [], numBuckets = 0, numItems = 0\<rparr>"

definition HashTable_delete :: "'a hash_table \<Rightarrow> unit result" where
  "HashTable_delete t = c_assert (numItems t = 0) (Inr ())"

definition HashValue :: "('k \<Rightarrow> u32) \<Rightarrow> 'k \<Rightarrow> 'a hash_table \<Rightarrow> nat result" where
  "HashValue hash key t =
     check (numBuckets t \<noteq> 0) DivideTrap
       (let r = unat (hash key) mod numBuckets t in c_assert (r < numBuckets t) (Inr r))"

definition bucket_at :: "nat \<Rightarrow> 'a hash_table \<Rightarrow> 'a linked_list result" where
  "bucket_at i t = arr_get (buckets t) i"

text \<open>Following an iterator over a bucket; the fuel is that of the list.\<close>

fun FindInBucket_loop :: "nat \<Rightarrow> ('a \<Rightarrow> 'k) \<Rightarrow> 'k \<Rightarrow> iterator \<Rightarrow> 'a linked_list \<Rightarrow> 'a option result" where
  "FindInBucket_loop fuel getKey key it b =
     (if Iterator_IsDone it then Inr None
      else case fuel of 0 \<Rightarrow> Inl Diverges
      | Suc fuel \<Rightarrow>
          bind_result (Iterator_Item it b) (\<lambda>x.
          if key = getKey x then Inr (Some x)
          else bind_result (Iterator_Next it b) (\<lambda>it. FindInBucket_loop fuel getKey key it b)))"

declare FindInBucket_loop.simps [simp del]

definition FindInBucket :: "('a \<Rightarrow> 'k) \<Rightarrow> nat \<Rightarrow> 'k \<Rightarrow> 'a hash_table \<Rightarrow> 'a option result" where
  "FindInBucket getKey bucket key t =
     bind_result (bucket_at bucket t) (\<lambda>b. FindInBucket_loop (fresh b) getKey key (Iterator_new b) b)"

definition Find :: "('a \<Rightarrow> 'k) \<Rightarrow> ('k \<Rightarrow> u32) \<Rightarrow> 'k \<Rightarrow> 'a hash_table \<Rightarrow> 'a option result" where
  "Find getKey hash key t = bind_result (HashValue hash key t) (\<lambda>bucket. FindInBucket getKey bucket key t)"

definition assert_in_table :: "('a \<Rightarrow> 'k) \<Rightarrow> ('k \<Rightarrow> u32) \<Rightarrow> bool \<Rightarrow> 'k \<Rightarrow> 'a hash_table \<Rightarrow> 'b result \<Rightarrow> 'b result" where
  "assert_in_table getKey hash b key t k = bind_result (Find getKey hash key t) (\<lambda>r. c_assert ((r \<noteq> None) = b) k)"

definition add_to_bucket :: "('a \<Rightarrow> 'k) \<Rightarrow> ('k \<Rightarrow> u32) \<Rightarrow> 'a \<Rightarrow> 'a hash_table \<Rightarrow> 'a hash_table result" where
  "add_to_bucket getKey hash x t =
     bind_result (HashValue hash (getKey x) t) (\<lambda>h.
     bind_result (bucket_at h t) (\<lambda>b.
     bind_result (Append x b) (\<lambda>b. Inr (t\<lparr>buckets := (buckets t)[h := b]\<rparr>))))"

fun hashes_to :: "nat \<Rightarrow> ('a \<Rightarrow> 'k) \<Rightarrow> ('k \<Rightarrow> u32) \<Rightarrow> nat \<Rightarrow> iterator \<Rightarrow> 'a linked_list \<Rightarrow> 'a hash_table \<Rightarrow> unit result" where
  "hashes_to fuel getKey hash i it b t =
     (if Iterator_IsDone it then Inr ()
      else case fuel of 0 \<Rightarrow> Inl Diverges
      | Suc fuel \<Rightarrow>
          bind_result (Iterator_Item it b) (\<lambda>x.
          bind_result (HashValue hash (getKey x) t) (\<lambda>h.
          c_assert (i = h) (
          bind_result (Iterator_Next it b) (\<lambda>it. hashes_to fuel getKey hash i it b t)))))"

declare hashes_to.simps [simp del]

fun Table_SanityCheck_loop :: "('a \<Rightarrow> 'k) \<Rightarrow> ('k \<Rightarrow> u32) \<Rightarrow> nat \<Rightarrow> 'a linked_list list \<Rightarrow> int \<Rightarrow> 'a hash_table \<Rightarrow> int result" where
  "Table_SanityCheck_loop getKey hash i [] numFound t = Inr numFound"
| "Table_SanityCheck_loop getKey hash i (b # bs) numFound t =
     bind_result (SanityCheck b) (\<lambda>_.
     bind_result (hashes_to (fresh b) getKey hash i (Iterator_new b) b t) (\<lambda>_.
     Table_SanityCheck_loop getKey hash (Suc i) bs (numFound + NumInList b) t))"

definition Table_SanityCheck :: "('a \<Rightarrow> 'k) \<Rightarrow> ('k \<Rightarrow> u32) \<Rightarrow> 'a hash_table \<Rightarrow> unit result" where
  "Table_SanityCheck getKey hash t =
     bind_result (Table_SanityCheck_loop getKey hash 0 (take (numBuckets t) (buckets t)) 0 t) (\<lambda>numFound.
     c_assert (int (numItems t) = numFound) (Inr ()))"

text \<open>\<open>ReHash\<close> empties the old buckets one by one into the new ones.\<close>

fun move_bucket :: "nat \<Rightarrow> ('a \<Rightarrow> 'k) \<Rightarrow> ('k \<Rightarrow> u32) \<Rightarrow> 'a linked_list \<Rightarrow> 'a hash_table \<Rightarrow> 'a hash_table result" where
  "move_bucket fuel getKey hash old t =
     (if IsEmpty old then Inr t
      else case fuel of 0 \<Rightarrow> Inl Diverges
      | Suc fuel \<Rightarrow>
          bind_result (RemoveFront old) (\<lambda>(x, old).
          bind_result (add_to_bucket getKey hash x t) (move_bucket fuel getKey hash old)))"

declare move_bucket.simps [simp del]

fun move_all :: "('a \<Rightarrow> 'k) \<Rightarrow> ('k \<Rightarrow> u32) \<Rightarrow> 'a linked_list list \<Rightarrow> 'a hash_table \<Rightarrow> 'a hash_table result" where
  "move_all getKey hash [] t = Inr t"
| "move_all getKey hash (old # table) t =
     bind_result (move_bucket (nat (numInList old)) getKey hash old t) (move_all getKey hash table)"

definition ReHash :: "('a \<Rightarrow> 'k) \<Rightarrow> ('k \<Rightarrow> u32) \<Rightarrow> 'a hash_table \<Rightarrow> 'a hash_table result" where
  "ReHash getKey hash t =
     (let oldTable = buckets t; oldSize = numBuckets t in
      bind_result (Table_SanityCheck getKey hash t) (\<lambda>_.
      bind_result (move_all getKey hash (take oldSize oldTable) (InitBuckets (numBuckets t * IncreaseSizeBy) t)) (\<lambda>t.
      bind_result (Table_SanityCheck getKey hash t) (\<lambda>_. Inr t))))"

definition Table_Insert :: "('a \<Rightarrow> 'k) \<Rightarrow> ('k \<Rightarrow> u32) \<Rightarrow> 'a \<Rightarrow> 'a hash_table \<Rightarrow> 'a hash_table result" where
  "Table_Insert getKey hash x t =
     (let key = getKey x in
      assert_in_table getKey hash False key t (
      check (numBuckets t \<noteq> 0) DivideTrap (
      bind_result (if numItems t div numBuckets t \<ge> ResizeRatio then ReHash getKey hash t else Inr t) (\<lambda>t.
      bind_result (add_to_bucket getKey hash x t) (\<lambda>t.
      let t = t\<lparr>numItems := numItems t + 1\<rparr> in assert_in_table getKey hash True key t (Inr t))))))"

definition Table_Remove :: "('a \<Rightarrow> 'k) \<Rightarrow> ('k \<Rightarrow> u32) \<Rightarrow> 'k \<Rightarrow> 'a hash_table \<Rightarrow> ('a \<times> 'a hash_table) result" where
  "Table_Remove getKey hash key t =
     bind_result (HashValue hash key t) (\<lambda>bucket.
     bind_result (FindInBucket getKey bucket key t) (\<lambda>found.
     c_assert (found \<noteq> None) (
     bind_result (bucket_at bucket t) (\<lambda>b.
     bind_result (Remove (the found) b) (\<lambda>b.
     let t = t\<lparr>buckets := (buckets t)[bucket := b], numItems := numItems t - 1\<rparr>
     in assert_in_table getKey hash False key t (Inr (the found, t)))))))"

fun Table_Apply_loop :: "('a \<Rightarrow> 'b \<Rightarrow> 'b) \<Rightarrow> 'a linked_list list \<Rightarrow> 'b \<Rightarrow> 'b result" where
  "Table_Apply_loop func [] st = Inr st"
| "Table_Apply_loop func (b # bs) st = bind_result (Apply func b st) (Table_Apply_loop func bs)"

definition Table_Apply :: "('a \<Rightarrow> 'b \<Rightarrow> 'b) \<Rightarrow> 'a hash_table \<Rightarrow> 'b \<Rightarrow> 'b result" where
  "Table_Apply func t st = Table_Apply_loop func (take (numBuckets t) (buckets t)) st"

section \<open>The iterator\<close>

definition FindNextFullBucket :: "nat \<Rightarrow> 'a hash_table \<Rightarrow> nat" where
  "FindNextFullBucket bucket t =
     (case first_from (\<lambda>i. \<not> IsEmpty (buckets t ! i)) bucket (numBuckets t - bucket) of
        Some i \<Rightarrow> i | None \<Rightarrow> max bucket (numBuckets t))"

record hash_iterator =
  it_bucket :: nat
  bucketIter :: "iterator option"

definition HashIterator_at :: "nat \<Rightarrow> 'a hash_table \<Rightarrow> hash_iterator result" where
  "HashIterator_at b t =
     (if b < numBuckets t then
        bind_result (bucket_at b t) (\<lambda>l. Inr \<lparr>it_bucket = b, bucketIter = Some (Iterator_new l)\<rparr>)
      else Inr \<lparr>it_bucket = b, bucketIter = None\<rparr>)"

definition HashIterator_new :: "'a hash_table \<Rightarrow> hash_iterator result" where
  "HashIterator_new t = HashIterator_at (FindNextFullBucket 0 t) t"

definition HashIterator_IsDone :: "hash_iterator \<Rightarrow> 'a hash_table \<Rightarrow> bool" where
  "HashIterator_IsDone it t \<longleftrightarrow> it_bucket it = numBuckets t"

definition HashIterator_Item :: "hash_iterator \<Rightarrow> 'a hash_table \<Rightarrow> 'a result" where
  "HashIterator_Item it t =
     c_assert (\<not> HashIterator_IsDone it t) (
     case bucketIter it of None \<Rightarrow> Inl NullPointer
     | Some i \<Rightarrow> bind_result (bucket_at (it_bucket it) t) (Iterator_Item i))"

definition HashIterator_Next :: "hash_iterator \<Rightarrow> 'a hash_table \<Rightarrow> hash_iterator result" where
  "HashIterator_Next it t =
     (case bucketIter it of None \<Rightarrow> Inl NullPointer
      | Some i \<Rightarrow>
          bind_result (bucket_at (it_bucket it) t) (\<lambda>l.
          bind_result (Iterator_Next i l) (\<lambda>i.
          if Iterator_IsDone i then HashIterator_at (FindNextFullBucket (it_bucket it + 1) t) t
          else Inr (it\<lparr>bucketIter := Some i\<rparr>))))"

section \<open>The self test\<close>

fun fill_table :: "('a \<Rightarrow> 'k) \<Rightarrow> ('k \<Rightarrow> u32) \<Rightarrow> 'a list \<Rightarrow> 'a hash_table \<Rightarrow> 'a hash_table result" where
  "fill_table getKey hash [] t = Inr t"
| "fill_table getKey hash (x # p) t =
     bind_result (Table_Insert getKey hash x t) (\<lambda>t.
     assert_in_table getKey hash True (getKey x) t (
     c_assert (numItems t \<noteq> 0) (fill_table getKey hash p t)))"

fun empty_table :: "('a \<Rightarrow> 'k) \<Rightarrow> ('k \<Rightarrow> u32) \<Rightarrow> 'a list \<Rightarrow> 'a hash_table \<Rightarrow> 'a hash_table result" where
  "empty_table getKey hash [] t = Inr t"
| "empty_table getKey hash (x # p) t =
     bind_result (Table_Remove getKey hash (getKey x) t) (\<lambda>(y, t).
     c_assert (y = x) (empty_table getKey hash p t))"

definition Table_SelfTest :: "('a \<Rightarrow> 'k) \<Rightarrow> ('k \<Rightarrow> u32) \<Rightarrow> 'a list \<Rightarrow> 'a hash_table \<Rightarrow> 'a hash_table result" where
  "Table_SelfTest getKey hash p t =
     bind_result (HashIterator_new t) (\<lambda>it.
     bind_result (Table_SanityCheck getKey hash t) (\<lambda>_.
     c_assert (numItems t = 0) (
     c_assert (HashIterator_IsDone it t) (
     bind_result (fill_table getKey hash p t) (\<lambda>t.
     bind_result (empty_table getKey hash p t) (\<lambda>t.
     c_assert (numItems t = 0) (
     bind_result (Table_SanityCheck getKey hash t) (\<lambda>_. Inr t))))))))"

section \<open>What a table holds\<close>

definition placed :: "('a \<Rightarrow> 'k) \<Rightarrow> ('k \<Rightarrow> u32) \<Rightarrow> 'a hash_table \<Rightarrow> 'a list list \<Rightarrow> bool" where
  "placed getKey hash t bs \<longleftrightarrow>
     list_all2 holds (buckets t) bs \<and> numBuckets t = length bs \<and> bs \<noteq> []
     \<and> distinct (map getKey (concat bs))
     \<and> (\<forall>i < length bs. \<forall>x \<in> set (bs ! i). unat (hash (getKey x)) mod length bs = i)"

definition table_ok :: "('a \<Rightarrow> 'k) \<Rightarrow> ('k \<Rightarrow> u32) \<Rightarrow> 'a hash_table \<Rightarrow> 'a list list \<Rightarrow> bool" where
  "table_ok getKey hash t bs \<longleftrightarrow> placed getKey hash t bs \<and> numItems t = length (concat bs)"

definition implements :: "('a \<Rightarrow> 'k) \<Rightarrow> ('k \<Rightarrow> u32) \<Rightarrow> 'a hash_table \<Rightarrow> 'a set \<Rightarrow> bool" where
  "implements getKey hash t M \<longleftrightarrow> (\<exists>bs. table_ok getKey hash t bs \<and> M = set (concat bs))"

lemma placed_numItems [simp]:
  "placed getKey hash (t\<lparr>numItems := n\<rparr>) bs = placed getKey hash t bs"
  by (simp add: placed_def)

lemma placed_bucket:
  assumes "placed getKey hash t bs" "i < length bs"
  shows "bucket_at i t = Inr (buckets t ! i)" "holds (buckets t ! i) (bs ! i)" "i < length (buckets t)"
  using assms by (auto simp: placed_def bucket_at_def list_all2_conv_all_nth)

definition slot :: "('k \<Rightarrow> u32) \<Rightarrow> 'k \<Rightarrow> 'a list list \<Rightarrow> nat" where
  "slot hash key bs = unat (hash key) mod length bs"

lemma HashValue_run:
  assumes "placed getKey hash t bs"
  shows "HashValue hash key t = Inr (slot hash key bs)" "slot hash key bs < length bs"
proof -
  have l: "numBuckets t = length bs" "length bs > 0" using assms by (auto simp: placed_def)
  then show "slot hash key bs < length bs" by (simp add: slot_def)
  with l show "HashValue hash key t = Inr (slot hash key bs)"
    by (simp add: HashValue_def Let_def slot_def)
qed

lemma FindInBucket_loop_run:
  "chain (cells b) it as None \<Longrightarrow> length as \<le> fuel \<Longrightarrow>
   FindInBucket_loop fuel getKey key it b = Inr (find (\<lambda>x. key = getKey x) (map (item_at (cells b)) as))"
proof (induction as arbitrary: it fuel)
  case Nil
  then show ?case by (subst FindInBucket_loop.simps) (simp add: Iterator_IsDone_def)
next
  case (Cons a as)
  then obtain fuel' where "fuel = Suc fuel'" by (cases fuel) auto
  with Cons show ?case
    by (subst FindInBucket_loop.simps)
      (auto simp: Iterator_IsDone_def Iterator_Item_def Iterator_Next_def deref_def item_at_def[abs_def])
qed

lemma FindInBucket_run:
  assumes "placed getKey hash t bs" "i < length bs"
  shows "FindInBucket getKey i key t = Inr (find (\<lambda>x. key = getKey x) (bs ! i))"
proof -
  obtain as where h: "holds_at (buckets t ! i) as (bs ! i)"
    using placed_bucket(2)[OF assms] by (auto simp: holds_def)
  then show ?thesis
    using FindInBucket_loop_run[of "buckets t ! i" _ as "fresh (buckets t ! i)" getKey key] fuel_enough[OF h]
    by (simp add: FindInBucket_def placed_bucket(1)[OF assms] Iterator_new_def holds_at_def)
qed

lemma find_by_key:
  "distinct (map getKey xs) \<Longrightarrow> x \<in> set xs \<Longrightarrow> find (\<lambda>y. getKey x = getKey y) xs = Some x"
  by (induction xs) (auto simp: image_iff)

lemma in_slot:
  assumes "placed getKey hash t bs" "x \<in> set (concat bs)"
  shows "x \<in> set (bs ! slot hash (getKey x) bs)"
proof -
  obtain ys where "ys \<in> set bs" "x \<in> set ys" using assms(2) by auto
  then obtain i where "i < length bs" "x \<in> set (bs ! i)" by (metis in_set_conv_nth)
  then show ?thesis using assms(1) by (auto simp: placed_def slot_def)
qed

lemma distinct_bucket:
  "placed getKey hash t bs \<Longrightarrow> i < length bs \<Longrightarrow> distinct (map getKey (bs ! i))"
  unfolding placed_def map_concat by (metis distinct_concat_iff length_map map_map nth_map nth_mem)

lemma Find_hit:
  assumes "placed getKey hash t bs" "x \<in> set (concat bs)"
  shows "FindInBucket getKey (slot hash (getKey x) bs) (getKey x) t = Inr (Some x)"
    "Find getKey hash (getKey x) t = Inr (Some x)"
  using FindInBucket_run[OF assms(1) HashValue_run(2)[OF assms(1)], of "getKey x"]
    find_by_key[OF distinct_bucket[OF assms(1) HashValue_run(2)[OF assms(1)]] in_slot[OF assms]]
  by (simp_all add: Find_def HashValue_run(1)[OF assms(1)])

lemma Find_miss:
  assumes "placed getKey hash t bs" "key \<notin> getKey ` set (concat bs)"
  shows "FindInBucket getKey (slot hash key bs) key t = Inr None" "Find getKey hash key t = Inr None"
proof -
  have "find (\<lambda>x. key = getKey x) (bs ! slot hash key bs) = None"
    using assms(2) HashValue_run(2)[OF assms(1), of key]
    by (auto simp: find_None_iff image_iff dest!: nth_mem)
  then show "FindInBucket getKey (slot hash key bs) key t = Inr None" "Find getKey hash key t = Inr None"
    using FindInBucket_run[OF assms(1) HashValue_run(2)[OF assms(1)], of key]
    by (simp_all add: Find_def HashValue_run(1)[OF assms(1)])
qed

lemma assert_in_table_run:
  assumes "placed getKey hash t bs"
  shows "assert_in_table getKey hash b key t k
    = (if (key \<in> getKey ` set (concat bs)) = b then k else Inl AssertFailure)"
proof (cases "key \<in> getKey ` set (concat bs)")
  case True
  then obtain x where x: "x \<in> set (concat bs)" "key = getKey x" by blast
  show ?thesis using True by (simp add: assert_in_table_def x(2) Find_hit(2)[OF assms x(1)] del: set_concat)
next
  case False
  then show ?thesis using Find_miss(2)[OF assms False] by (simp add: assert_in_table_def del: set_concat)
qed

lemma mset_concat_update:
  "i < length bs \<Longrightarrow> mset (concat (bs[i := ys])) + mset (bs ! i) = mset (concat bs) + mset ys"
proof (induction bs arbitrary: i)
  case (Cons b bs)
  then show ?case by (cases i) (auto simp: add_ac)
qed simp

lemma distinct_keys_mset:
  "mset xs = mset ys \<Longrightarrow> distinct (map getKey xs) = distinct (map getKey ys)"
  by (metis mset_eq_imp_distinct_iff mset_map)

lemma add_to_bucket_run:
  assumes "placed getKey hash t bs" "getKey x \<notin> getKey ` set (concat bs)"
  shows "\<exists>t' bs'. add_to_bucket getKey hash x t = Inr t' \<and> placed getKey hash t' bs'
    \<and> mset (concat bs') = add_mset x (mset (concat bs)) \<and> length bs' = length bs
    \<and> numItems t' = numItems t"
proof -
  let ?h = "slot hash (getKey x) bs"
  note h = HashValue_run[OF assms(1), of "getKey x"]
  note b = placed_bucket[OF assms(1) h(2)]
  have "x \<notin> set (bs ! ?h)" using assms(2) nth_mem[OF h(2)] by (auto simp: image_iff)
  then obtain l where l: "Append x (buckets t ! ?h) = Inr l" "holds l (bs ! ?h @ [x])"
    using Append_run[OF b(2)] by blast
  let ?bs = "bs[?h := bs ! ?h @ [x]]"
  have m: "mset (concat ?bs) = add_mset x (mset (concat bs))"
    using mset_concat_update[OF h(2), of "bs ! ?h @ [x]"] by simp
  have "distinct (map getKey (concat ?bs))"
    using distinct_keys_mset[of "concat ?bs" "x # concat bs" getKey] m assms
    by (simp add: placed_def del: set_concat)
  then have "placed getKey hash (t\<lparr>buckets := (buckets t)[?h := l]\<rparr>) ?bs"
    using assms(1) l(2) h(2)
    by (auto simp: placed_def slot_def nth_list_update intro!: list_all2_update_cong)
  then show ?thesis using l(1) h(1) b(1) m by (auto simp: add_to_bucket_def)
qed

section \<open>Rehashing\<close>

lemma HashValue_placed:
  "placed getKey hash t bs \<Longrightarrow> i < length bs \<Longrightarrow> x \<in> set (bs ! i) \<Longrightarrow>
   HashValue hash (getKey x) t = Inr i"
  using HashValue_run(1)[of getKey hash t bs "getKey x"] by (simp add: placed_def slot_def)

lemma hashes_to_run:
  "chain (cells b) it as None \<Longrightarrow> length as \<le> fuel \<Longrightarrow>
   (\<And>x. x \<in> item_at (cells b) ` set as \<Longrightarrow> HashValue hash (getKey x) t = Inr i) \<Longrightarrow>
   hashes_to fuel getKey hash i it b t = Inr ()"
proof (induction as arbitrary: it fuel)
  case Nil
  then show ?case by (subst hashes_to.simps) (simp add: Iterator_IsDone_def)
next
  case (Cons a as)
  then obtain fuel' where "fuel = Suc fuel'" by (cases fuel) auto
  with Cons show ?case
    by (subst hashes_to.simps) (auto simp: Iterator_IsDone_def Iterator_Item_def Iterator_Next_def deref_def item_at_def)
qed

lemma hashes_to_bucket:
  assumes "placed getKey hash t bs" "i < length bs"
  shows "hashes_to (fresh (buckets t ! i)) getKey hash i (Iterator_new (buckets t ! i)) (buckets t ! i) t = Inr ()"
proof -
  obtain as where h: "holds_at (buckets t ! i) as (bs ! i)"
    using placed_bucket(2)[OF assms] by (auto simp: holds_def)
  then show ?thesis
    using hashes_to_run[of "buckets t ! i" _ as "fresh (buckets t ! i)" hash getKey t i] fuel_enough[OF h]
      HashValue_placed[OF assms]
    by (simp add: Iterator_new_def holds_at_def)
qed

lemma Table_SanityCheck_loop_run:
  assumes "placed getKey hash t bs"
  shows "i + length ls = length bs \<Longrightarrow> ls = drop i (buckets t) \<Longrightarrow>
    Table_SanityCheck_loop getKey hash i ls n t = Inr (n + int (length (concat (drop i bs))))"
proof (induction ls arbitrary: i n)
  case (Cons l ls)
  have i: "i < length bs" using Cons.prems(1) by simp
  note b = placed_bucket[OF assms i]
  have l: "l = buckets t ! i" "ls = drop (Suc i) (buckets t)"
    using Cons.prems(2) b(3) by (metis Cons_nth_drop_Suc list.inject)+
  have "NumInList l = int (length (bs ! i))"
    using b(2) unfolding l(1) holds_def holds_at_def NumInList_def by auto
  moreover have "drop i bs = bs ! i # drop (Suc i) bs" using i by (simp add: Cons_nth_drop_Suc)
  ultimately show ?case
    using Cons.IH[OF _ l(2), of "n + NumInList l"] Cons.prems(1) SanityCheck_run[OF b(2)]
      hashes_to_bucket[OF assms i]
    by (simp add: l(1))
qed simp

lemma Table_SanityCheck_run:
  assumes "table_ok getKey hash t bs"
  shows "Table_SanityCheck getKey hash t = Inr ()"
proof -
  have p: "placed getKey hash t bs" "numItems t = length (concat bs)" using assms by (auto simp: table_ok_def)
  then have "length (buckets t) = length bs" "numBuckets t = length bs"
    by (auto simp: placed_def list_all2_lengthD)
  then show ?thesis
    using Table_SanityCheck_loop_run[OF p(1), of 0 "buckets t" 0] p(2) by (simp add: Table_SanityCheck_def)
qed

lemma move_bucket_run:
  "holds old xs \<Longrightarrow> length xs \<le> fuel \<Longrightarrow> placed getKey hash t bs \<Longrightarrow>
   distinct (map getKey (xs @ concat bs)) \<Longrightarrow>
   \<exists>t' bs'. move_bucket fuel getKey hash old t = Inr t' \<and> placed getKey hash t' bs'
     \<and> mset (concat bs') = mset xs + mset (concat bs) \<and> numItems t' = numItems t \<and> length bs' = length bs"
proof (induction xs arbitrary: old fuel t bs)
  case Nil
  then show ?case using holds_empty[OF Nil(1)] by (subst move_bucket.simps) auto
next
  case (Cons x xs)
  obtain fuel' where f: "fuel = Suc fuel'" using Cons.prems(2) by (cases fuel) auto
  obtain old' where old': "RemoveFront old = Inr (x, old')" "holds old' xs"
    using RemoveFront_run[OF Cons.prems(1)] by blast
  have "getKey x \<notin> getKey ` set (concat bs)" using Cons.prems(4) by auto
  then obtain t1 bs1 where t1: "add_to_bucket getKey hash x t = Inr t1" "placed getKey hash t1 bs1"
    "mset (concat bs1) = add_mset x (mset (concat bs))" "numItems t1 = numItems t" "length bs1 = length bs"
    using add_to_bucket_run[OF Cons.prems(3)] by blast
  have "distinct (map getKey (xs @ concat bs1))"
    using distinct_keys_mset[of "xs @ concat bs1" "x # xs @ concat bs" getKey] t1(3) Cons.prems(4)
    by simp
  then obtain t' bs' where "move_bucket fuel' getKey hash old' t1 = Inr t'" "placed getKey hash t' bs'"
    "mset (concat bs') = mset xs + mset (concat bs1)" "numItems t' = numItems t1" "length bs' = length bs1"
    using Cons.IH[OF old'(2) _ t1(2), of fuel'] Cons.prems(2) f by auto
  then show ?case
    using holds_empty[OF Cons.prems(1)] old'(1) t1 f by (subst move_bucket.simps) auto
qed

lemma move_all_run:
  "list_all2 holds table xss \<Longrightarrow> placed getKey hash t bs \<Longrightarrow>
   distinct (map getKey (concat xss @ concat bs)) \<Longrightarrow>
   \<exists>t' bs'. move_all getKey hash table t = Inr t' \<and> placed getKey hash t' bs'
     \<and> mset (concat bs') = mset (concat xss) + mset (concat bs) \<and> numItems t' = numItems t"
proof (induction table arbitrary: xss t bs)
  case (Cons old table)
  then obtain xs yss where xss: "xss = xs # yss" "holds old xs" "list_all2 holds table yss"
    by (auto simp: list_all2_Cons1)
  have "nat (numInList old) = length xs" using xss(2) by (auto simp: holds_def holds_at_def)
  moreover have "distinct (map getKey (xs @ concat bs))"
    using Cons.prems(3) xss(1) by (auto simp: Int_Un_distrib)
  ultimately obtain t1 bs1 where t1: "move_bucket (nat (numInList old)) getKey hash old t = Inr t1"
    "placed getKey hash t1 bs1" "mset (concat bs1) = mset xs + mset (concat bs)" "numItems t1 = numItems t"
    using move_bucket_run[OF xss(2) _ Cons.prems(2), of "length xs"] by auto
  have "distinct (map getKey (concat yss @ concat bs1))"
    using distinct_keys_mset[of "concat yss @ concat bs1" "concat xss @ concat bs" getKey] t1(3) xss(1)
      Cons.prems(3)
    by (simp add: ac_simps)
  then show ?case using Cons.IH[OF xss(3) t1(2)] t1 xss(1) by (auto simp: ac_simps)
qed auto

lemma ReHash_run:
  assumes "table_ok getKey hash t bs"
  shows "\<exists>t' bs'. ReHash getKey hash t = Inr t' \<and> table_ok getKey hash t' bs'
    \<and> mset (concat bs') = mset (concat bs)"
proof -
  have p: "placed getKey hash t bs" "numItems t = length (concat bs)" using assms by (auto simp: table_ok_def)
  let ?t = "InitBuckets (numBuckets t * IncreaseSizeBy) t"
  let ?e = "replicate (numBuckets t * IncreaseSizeBy) ([] :: 'a list)"
  have b: "list_all2 holds (take (numBuckets t) (buckets t)) bs" "numBuckets t > 0"
    using p(1) by (auto simp: placed_def list_all2_lengthD)
  have "placed getKey hash ?t ?e"
    using b(2) by (auto simp: placed_def InitBuckets_def IncreaseSizeBy_def list_all2_conv_all_nth List_new_holds)
  moreover have "distinct (map getKey (concat bs @ concat ?e))" using p(1) by (simp add: placed_def)
  ultimately obtain t' bs' where t': "move_all getKey hash (take (numBuckets t) (buckets t)) ?t = Inr t'"
    "placed getKey hash t' bs'" "mset (concat bs') = mset (concat bs)" "numItems t' = numItems t"
    using move_all_run[OF b(1), of getKey hash ?t ?e] by (auto simp: InitBuckets_def)
  then have ok: "table_ok getKey hash t' bs'" using p(2) by (auto simp: table_ok_def dest: mset_eq_length)
  then show ?thesis
    using t' Table_SanityCheck_run[OF assms] Table_SanityCheck_run[OF ok] by (auto simp: ReHash_def)
qed

section \<open>The table as a set of items\<close>

lemma implements_new: "implements getKey hash HashTable_new {}"
  unfolding implements_def
  by (rule exI[of _ "replicate InitialBuckets []"])
    (auto simp: table_ok_def placed_def HashTable_new_def InitBuckets_def InitialBuckets_def
      list_all2_conv_all_nth List_new_holds)

lemma implements_cong:
  assumes "table_ok getKey hash t bs" "mset (concat bs) = mset xs"
  shows "implements getKey hash t (set xs)"
  using assms mset_eq_setD[OF assms(2)] by (auto simp: implements_def)

lemma Table_Insert_run:
  assumes "implements getKey hash t M" "getKey x \<notin> getKey ` M"
  shows "\<exists>t'. Table_Insert getKey hash x t = Inr t' \<and> implements getKey hash t' (insert x M)"
proof -
  obtain bs where bs: "table_ok getKey hash t bs" "M = set (concat bs)" using assms(1) by (auto simp: implements_def)
  have p: "placed getKey hash t bs" "numBuckets t \<noteq> 0" using bs(1) by (auto simp: table_ok_def placed_def)
  obtain t1 bs1 where t1: "(if numItems t div numBuckets t \<ge> ResizeRatio then ReHash getKey hash t else Inr t) = Inr t1"
    "table_ok getKey hash t1 bs1" "mset (concat bs1) = mset (concat bs)"
    using ReHash_run[OF bs(1)] bs(1) by (metis (full_types))
  then have p1: "placed getKey hash t1 bs1" "set (concat bs1) = M" "numItems t1 = length (concat bs1)"
    using bs(2) mset_eq_setD[OF t1(3)] by (auto simp: table_ok_def)
  obtain t2 bs2 where t2: "add_to_bucket getKey hash x t1 = Inr t2" "placed getKey hash t2 bs2"
    "mset (concat bs2) = add_mset x (mset (concat bs1))" "numItems t2 = numItems t1"
    using add_to_bucket_run[OF p1(1), of x] assms(2) p1(2) by blast
  let ?t = "t2\<lparr>numItems := numItems t2 + 1\<rparr>"
  have ok: "table_ok getKey hash ?t bs2"
    using t2(2,4) p1(3) arg_cong[OF t2(3), of size] by (simp add: table_ok_def)
  have s: "set (concat bs2) = insert x M"
    using mset_eq_setD[of "concat bs2" "x # concat bs1"] t2(3) p1(2) by simp
  have "placed getKey hash ?t bs2" using t2(2) by simp
  then have "Table_Insert getKey hash x t = Inr ?t"
    using p assms(2) bs(2) t1(1) t2(1) s
    by (simp add: Table_Insert_def Let_def assert_in_table_run[OF p(1)] assert_in_table_run del: set_concat)
  moreover have "implements getKey hash ?t (insert x M)" using ok s by (auto simp: implements_def)
  ultimately show ?thesis by blast
qed

lemma Table_Insert_again:
  assumes "implements getKey hash t M" "getKey x \<in> getKey ` M"
  shows "Table_Insert getKey hash x t = Inl AssertFailure"
proof -
  obtain bs where bs: "placed getKey hash t bs" "M = set (concat bs)"
    using assms(1) by (auto simp: implements_def table_ok_def)
  then show ?thesis
    using assms(2) by (simp add: Table_Insert_def Let_def assert_in_table_run[OF bs(1)] del: set_concat)
qed

lemma add_mset_cancel: "c' + b = c + r \<Longrightarrow> b = add_mset x r \<Longrightarrow> add_mset x c' = c"
  by simp

lemma Table_Remove_run:
  assumes "implements getKey hash t M" "x \<in> M"
  shows "\<exists>t'. Table_Remove getKey hash (getKey x) t = Inr (x, t') \<and> implements getKey hash t' (M - {x})"
proof -
  obtain bs where bs: "table_ok getKey hash t bs" "M = set (concat bs)" using assms(1) by (auto simp: implements_def)
  have p: "placed getKey hash t bs" "numItems t = length (concat bs)" using bs(1) by (auto simp: table_ok_def)
  have x: "x \<in> set (concat bs)" using assms(2) bs(2) by simp
  let ?h = "slot hash (getKey x) bs"
  note h = HashValue_run[OF p(1), of "getKey x"]
  note b = placed_bucket[OF p(1) h(2)]
  have d: "distinct (bs ! ?h)" "x \<in> set (bs ! ?h)"
    using distinct_bucket[OF p(1) h(2)] in_slot[OF p(1) x] by (auto simp: distinct_map)
  then obtain l where l: "Remove x (buckets t ! ?h) = Inr l" "holds l (remove1 x (bs ! ?h))"
    using Remove_run[OF b(2)] by blast
  let ?bs = "bs[?h := remove1 x (bs ! ?h)]"
  let ?t = "t\<lparr>buckets := (buckets t)[?h := l], numItems := numItems t - 1\<rparr>"
  have m: "add_mset x (mset (concat ?bs)) = mset (concat bs)"
    by (rule add_mset_cancel[OF mset_concat_update[OF h(2), of "remove1 x (bs ! ?h)"]]) (use d(2) in simp)
  then have keys: "distinct (map getKey (x # concat ?bs))"
    using distinct_keys_mset[of "x # concat ?bs" "concat bs" getKey] p(1) by (simp add: placed_def)
  have pl: "placed getKey hash ?t ?bs"
    using p(1) l(2) h(2) keys
    by (auto simp: placed_def slot_def nth_list_update intro!: list_all2_update_cong dest: subsetD[OF set_remove1_subset])
  then have still: "assert_in_table getKey hash False (getKey x) ?t (Inr (x, ?t)) = Inr (x, ?t)"
    using keys by (simp only: assert_in_table_run) simp
  have "set (concat bs) = insert x (set (concat ?bs))" "x \<notin> set (concat ?bs)"
    using mset_eq_setD[of "x # concat ?bs" "concat bs"] m keys by (auto simp del: set_concat)
  then have s: "M - {x} = set (concat ?bs)" using bs(2) by blast
  have "table_ok getKey hash ?t ?bs"
    using pl p(2) arg_cong[OF m, of size] by (simp add: table_ok_def)
  moreover have "Table_Remove getKey hash (getKey x) t = Inr (x, ?t)"
    using h(1) b(1) l(1) Find_hit(1)[OF p(1) x] still
    by (simp add: Table_Remove_def Let_def del: set_concat)
  ultimately show ?thesis using s unfolding implements_def by blast
qed

lemma Table_Remove_missing:
  assumes "implements getKey hash t M" "key \<notin> getKey ` M"
  shows "Table_Remove getKey hash key t = Inl AssertFailure"
proof -
  obtain bs where bs: "placed getKey hash t bs" "M = set (concat bs)"
    using assms(1) by (auto simp: implements_def table_ok_def)
  then show ?thesis
    using assms(2) Find_miss(1)[OF bs(1), of key] HashValue_run(1)[OF bs(1), of key]
    by (simp add: Table_Remove_def del: set_concat)
qed

lemma fill_table_run:
  "implements getKey hash t M \<Longrightarrow> distinct (map getKey p) \<Longrightarrow> getKey ` M \<inter> getKey ` set p = {} \<Longrightarrow>
   \<exists>t'. fill_table getKey hash p t = Inr t' \<and> implements getKey hash t' (M \<union> set p)"
proof (induction p arbitrary: t M)
  case (Cons x p)
  then obtain t1 where t1: "Table_Insert getKey hash x t = Inr t1" "implements getKey hash t1 (insert x M)"
    using Table_Insert_run[of getKey hash t M x] by auto
  then obtain bs where bs: "placed getKey hash t1 bs" "insert x M = set (concat bs)" "numItems t1 = length (concat bs)"
    by (auto simp: implements_def table_ok_def)
  have "numItems t1 \<noteq> 0" using bs(2,3) by (cases "concat bs") auto
  moreover have "getKey x \<in> getKey ` set (concat bs)" using bs(2) by (metis image_eqI insertI1)
  ultimately show ?case
    using t1 Cons.IH[OF t1(2)] Cons.prems(2,3) by (auto simp: assert_in_table_run[OF bs(1)])
qed auto

lemma empty_table_run:
  "implements getKey hash t (set p) \<Longrightarrow> distinct (map getKey p) \<Longrightarrow>
   \<exists>t'. empty_table getKey hash p t = Inr t' \<and> implements getKey hash t' {}"
proof (induction p arbitrary: t)
  case (Cons x p)
  have "set (x # p) - {x} = set p" using Cons.prems(2) by auto
  then obtain t1 where "Table_Remove getKey hash (getKey x) t = Inr (x, t1)" "implements getKey hash t1 (set p)"
    using Table_Remove_run[OF Cons.prems(1), of x] by auto
  then show ?case using Cons.IH[of t1] Cons.prems(2) by auto
qed auto

lemma implements_empty:
  assumes "implements getKey hash t {}"
  shows "numItems t = 0" "\<exists>it. HashIterator_new t = Inr it \<and> HashIterator_IsDone it t"
    "Table_SanityCheck getKey hash t = Inr ()"
proof -
  obtain bs where bs: "table_ok getKey hash t bs" "set (concat bs) = {}" using assms by (auto simp: implements_def)
  then have e: "\<And>b. b \<in> set bs \<Longrightarrow> b = []" "placed getKey hash t bs" by (auto simp: table_ok_def)
  then have "concat bs = []" by simp
  then show "numItems t = 0" using bs(1) by (simp add: table_ok_def)
  show "Table_SanityCheck getKey hash t = Inr ()" by (rule Table_SanityCheck_run[OF bs(1)])
  have n: "numBuckets t = length bs" using e(2) by (simp add: placed_def)
  have "IsEmpty (buckets t ! i)" if "i < length bs" for i
    using placed_bucket(2)[OF e(2) that] e(1)[OF nth_mem[OF that]] holds_empty by metis
  then have "FindNextFullBucket 0 t = numBuckets t"
    unfolding FindNextFullBucket_def n by (auto simp: first_from_None split: option.split dest: first_below_Some[THEN iffD1])
  then show "\<exists>it. HashIterator_new t = Inr it \<and> HashIterator_IsDone it t"
    by (simp add: HashIterator_new_def HashIterator_at_def HashIterator_IsDone_def)
qed

lemma Table_SelfTest_run:
  assumes "implements getKey hash t {}" "distinct (map getKey p)"
  shows "\<exists>t'. Table_SelfTest getKey hash p t = Inr t' \<and> implements getKey hash t' {}"
proof -
  obtain t1 where t1: "fill_table getKey hash p t = Inr t1" "implements getKey hash t1 (set p)"
    using fill_table_run[OF assms] by auto
  obtain t2 where t2: "empty_table getKey hash p t1 = Inr t2" "implements getKey hash t2 {}"
    using empty_table_run[OF t1(2) assms(2)] by blast
  obtain it where "HashIterator_new t = Inr it" "HashIterator_IsDone it t"
    using implements_empty(2)[OF assms(1)] by blast
  then show ?thesis
    using t1 t2 implements_empty(1,3)[OF assms(1)] implements_empty(1,3)[OF t2(2)]
    by (simp add: Table_SelfTest_def)
qed

section \<open>Properties\<close>

text \<open>
  C37: the hash table implements a set of items with distinct keys, whatever the hash function.
  Looking up a key finds the item with that key or nothing; inserting an item with a new key adds
  exactly it, also when the table grows and moves every item to a new bucket; removing a key returns
  and drops its item; inserting a present key or removing a missing one hits an assertion.
\<close>

theorem HashTable_implements_set:
  assumes "implements getKey hash t M"
  shows "(\<forall>x \<in> M. Find getKey hash (getKey x) t = Inr (Some x)
      \<and> (\<exists>t'. Table_Remove getKey hash (getKey x) t = Inr (x, t') \<and> implements getKey hash t' (M - {x})))
    \<and> (key \<notin> getKey ` M \<longrightarrow> Find getKey hash key t = Inr None
      \<and> Table_Remove getKey hash key t = Inl AssertFailure)
    \<and> (if getKey y \<in> getKey ` M then Table_Insert getKey hash y t = Inl AssertFailure
       else \<exists>t'. Table_Insert getKey hash y t = Inr t' \<and> implements getKey hash t' (insert y M))"
proof -
  obtain bs where bs: "placed getKey hash t bs" "M = set (concat bs)"
    using assms by (auto simp: implements_def table_ok_def)
  show ?thesis
    using Find_hit(2)[OF bs(1)] Find_miss(2)[OF bs(1)] Table_Remove_run[OF assms] Table_Remove_missing[OF assms]
      Table_Insert_run[OF assms] Table_Insert_again[OF assms]
    unfolding bs(2) by simp
qed

theorem HashTable_implements_set_witness:
  "\<exists>t. Table_Insert fst of_int (5 :: int, ''five'') HashTable_new = Inr t
     \<and> Find fst of_int 5 t = Inr (Some (5, ''five'')) \<and> Find fst of_int 9 t = Inr None"
proof -
  obtain t where t: "Table_Insert fst of_int (5 :: int, ''five'') HashTable_new = Inr t"
    "implements fst of_int t {(5, ''five'')}"
    using HashTable_implements_set[OF implements_new, where y = "(5 :: int, ''five'')" and key = 0] by auto
  then show ?thesis
    using HashTable_implements_set[OF t(2), where key = 9 and y = "(9, ''nine'')"] by auto
qed

text \<open>
  The self test of the hash table passes. For every key and hash function and every list of
  entries with distinct keys, \<open>SelfTest\<close> on an empty table inserts all of them (growing the table on
  the way), finds and removes each, and ends with an empty table; none of its assertions fails.
\<close>

theorem HashTable_SelfTest_passes:
  assumes "implements getKey hash t {}" "distinct (map getKey p)"
  shows "\<exists>t'. Table_SelfTest getKey hash p t = Inr t' \<and> implements getKey hash t' {}"
  using assms by (rule Table_SelfTest_run)

theorem HashTable_SelfTest_passes_witness:
  "\<exists>t. Table_SelfTest id of_int (map int [0..<15]) HashTable_new = Inr t"
  using HashTable_SelfTest_passes[OF implements_new, of id "map int [0..<15]" of_int]
  by (auto simp: distinct_map inj_on_def)

end
