(* ===== verification/Lib_SelfTest.thy ===== *)
theory Lib_SelfTest imports Bitmap Hash_Table begin

text \<open>
  lib/libtest.cc: the self test of the library, which the kernel runs at start-up. The functions it
  hands to the containers, its test vectors, and \<open>LibSelfTest\<close> itself, which runs the self tests
  of \<open>Bitmap\<close>, \<open>Linked_List\<close> and \<open>Hash_Table\<close> one after the other.
\<close>

definition IntCompare :: "int \<Rightarrow> int \<Rightarrow> int" where
  "IntCompare x y = (if x < y then - 1 else if x = y then 0 else 1)"

definition HashInt :: "int \<Rightarrow> u32" where
  "HashInt key = of_int key"

text \<open>The C library's \<open>atoi\<close>: white space, a sign, and the digits up to the first other character.\<close>

definition digit_of :: "char \<Rightarrow> int option" where
  "digit_of c = (let n = of_char c :: int in if 48 \<le> n \<and> n \<le> 57 then Some (n - 48) else None)"

fun atoi_digits :: "int \<Rightarrow> string \<Rightarrow> int" where
  "atoi_digits acc [] = acc"
| "atoi_digits acc (c # s) = (case digit_of c of None \<Rightarrow> acc | Some d \<Rightarrow> atoi_digits (10 * acc + d) s)"

definition atoi :: "string \<Rightarrow> int" where
  "atoi s =
     (let s = dropWhile (\<lambda>c. c = CHR '' '' \<or> (9 \<le> (of_char c :: int) \<and> (of_char c :: int) \<le> 13)) s in
      if s \<noteq> [] \<and> hd s = CHR ''-'' then - atoi_digits 0 (tl s)
      else if s \<noteq> [] \<and> hd s = CHR ''+'' then atoi_digits 0 (tl s)
      else atoi_digits 0 s)"

definition HashKey :: "string \<Rightarrow> int" where
  "HashKey str = atoi str"

definition listTestVector :: "int list" where
  "listTestVector = [9, 5, 7]"

definition hashTestVector :: "string list" where
  "hashTestVector = [''0'', ''1'', ''2'', ''3'', ''4'', ''5'', ''6'', ''7'', ''8'', ''9'', ''10'', ''11'', ''12'',
     ''13'', ''14'']"

definition LibSelfTest :: "unit result" where
  "LibSelfTest =
     bind_result (Bitmap_new 200) (\<lambda>map.
     bind_result (Bitmap_SelfTest map) (\<lambda>_.
     bind_result (List_SelfTest listTestVector List_new) (\<lambda>_.
     bind_result (Sorted_SelfTest IntCompare listTestVector List_new) (\<lambda>_.
     bind_result (Table_SelfTest HashKey HashInt hashTestVector HashTable_new) (\<lambda>table.
     HashTable_delete table)))))"

lemma atoi_values: "map HashKey hashTestVector = [0, 1, 2, 3, 4, 5, 6, 7, 8, 9, 10, 11, 12, 13, 14]"
  by (simp add: hashTestVector_def HashKey_def atoi_def digit_of_def Let_def)

section \<open>Properties\<close>

text \<open>
  The start-up self test of the library succeeds. \<open>LibSelfTest\<close> runs all the self tests on
  its own vectors (the hash table rehashes on the way) and no assertion of any of them fails.
\<close>

theorem LibSelfTest_passes: "LibSelfTest = Inr ()"
proof -
  obtain b where b: "Bitmap_new 200 = Inr b" "bitmap_ok b" "numBits b = nat 200" "bits_of b = {}"
    using Bitmap_new_run[of 200] by auto
  then obtain b' where "Bitmap_SelfTest b = Inr b'" using SelfTest_run[OF b(2,4)] by auto
  moreover note b(1)
  moreover obtain l where "List_SelfTest listTestVector List_new = Inr l"
    using List_SelfTest_run[OF List_new_holds, of listTestVector] by (auto simp: listTestVector_def)
  moreover have "0 \<le> IntCompare x y \<Longrightarrow> IntCompare y x \<le> 0" for x y
    by (auto simp: IntCompare_def split: if_splits)
  then obtain l' where "Sorted_SelfTest IntCompare listTestVector List_new = Inr l'"
    using Sorted_SelfTest_run[OF List_new_holds, of listTestVector IntCompare]
    by (auto simp: listTestVector_def)
  moreover obtain t where "Table_SelfTest HashKey HashInt hashTestVector HashTable_new = Inr t"
    "numItems t = 0"
    using Table_SelfTest_run[OF implements_new, of HashKey hashTestVector HashInt]
      implements_empty(1)[of HashKey HashInt]
    by (auto simp: atoi_values)
  ultimately show ?thesis
    by (simp add: LibSelfTest_def HashTable_delete_def)
qed

end
