(* ===== verification/Interrupts.thy ===== *)
theory Interrupts imports Machine Linked_List begin

text \<open>
  machine/interrupt.cc and machine/stats.cc: the simulated clock, the interrupt level and the list of
  interrupts the hardware devices have scheduled. The list is the \<open>SortedList\<close> of lib/list.cc, taken
  as the sequence that theory Linked\_List proves it implements (a new \<open>PendingInterrupt\<close> object is
  never on the list before, so the assertions of \<open>Insert\<close> hold). What an interrupt does is up to the
  \<open>CallBackObj\<close> that scheduled it: \<open>run\<close> is the virtual call \<open>CallBack\<close>, and the state of the
  devices is the field \<open>world\<close>. The interface \<open>interrupt_source\<close> says what a \<open>CallBack\<close> must keep.
\<close>

section \<open>State\<close>

datatype IntStatus = IntOff | IntOn
datatype MachineStatus = IdleMode | SystemMode | UserMode
datatype IntType = TimerInt | DiskInt | ConsoleWriteInt | ConsoleReadInt | NetworkSendInt | NetworkRecvInt

record 'c PendingInterrupt =
  callOnInterrupt :: 'c
  "when" :: int
  int_type :: IntType

definition PendingCompare :: "'c PendingInterrupt \<Rightarrow> 'c PendingInterrupt \<Rightarrow> int" where
  "PendingCompare x y = (if when x < when y then - 1 else if when x > when y then 1 else 0)"

record Statistics =
  totalTicks :: int
  idleTicks :: int
  systemTicks :: int
  userTicks :: int
  numDiskReads :: int
  numDiskWrites :: int
  numConsoleCharsRead :: int
  numConsoleCharsWritten :: int
  numPageFaults :: int
  numPacketsSent :: int
  numPacketsRecvd :: int

definition Statistics_new :: Statistics where
  "Statistics_new = \<lparr>totalTicks = 0, idleTicks = 0, systemTicks = 0, userTicks = 0, numDiskReads = 0,
     numDiskWrites = 0, numConsoleCharsRead = 0, numConsoleCharsWritten = 0, numPageFaults = 0,
     numPacketsSent = 0, numPacketsRecvd = 0\<rparr>"

definition UserTick :: int where "UserTick = 1"
definition SystemTick :: int where "SystemTick = 10"
definition RotationTime :: int where "RotationTime = 500"
definition SeekTime :: int where "SeekTime = 500"
definition ConsoleTime :: int where "ConsoleTime = 100"
definition NetworkTime :: int where "NetworkTime = 100"
definition TimerTicks :: int where "TimerTicks = 100"

text \<open>The object \<open>kernel->interrupt\<close> with the parts of the kernel it reaches: the statistics, the
  simulated processor \<open>kernel->machine\<close> (absent while the kernel boots) and the devices.\<close>

record ('c, 'w) sim =
  level :: IntStatus
  pending :: "'c PendingInterrupt list"
  inHandler :: bool
  yieldOnReturn :: bool
  status :: MachineStatus
  stats :: Statistics
  cpu :: "machine option"
  world :: 'w

definition Interrupt_new :: "machine option \<Rightarrow> 'w \<Rightarrow> ('c, 'w) sim" where
  "Interrupt_new m w = \<lparr>level = IntOff, pending = [], inHandler = False, yieldOnReturn = False,
     status = SystemMode, stats = Statistics_new, cpu = m, world = w\<rparr>"

type_synonym ('c, 'w) callback = "'c \<Rightarrow> ('c, 'w) sim \<Rightarrow> ('c, 'w) sim result"

section \<open>Operations\<close>

definition ChangeLevel :: "IntStatus \<Rightarrow> IntStatus \<Rightarrow> ('c, 'w) sim \<Rightarrow> ('c, 'w) sim" where
  "ChangeLevel old now s = s\<lparr>level := now\<rparr>"

definition YieldOnReturn :: "('c, 'w) sim \<Rightarrow> ('c, 'w) sim result" where
  "YieldOnReturn s = c_assert (inHandler s) (Inr (s\<lparr>yieldOnReturn := True\<rparr>))"

definition Schedule :: "'c \<Rightarrow> int \<Rightarrow> IntType \<Rightarrow> ('c, 'w) sim \<Rightarrow> ('c, 'w) sim result" where
  "Schedule toCall fromNow kind s =
     (let due = totalTicks (stats s) + fromNow;
          toOccur = \<lparr>callOnInterrupt = toCall, when = due, int_type = kind\<rparr>
      in c_assert (fromNow > 0) (Inr (s\<lparr>pending := insert_by PendingCompare toOccur (pending s)\<rparr>)))"

text \<open>The body and the loop of \<open>CheckIfDue\<close>. The loop gets one unit of fuel for each interrupt pending
  when it starts: a handler can only schedule interrupts for the future.\<close>

definition fire_front :: "('c, 'w) callback \<Rightarrow> ('c, 'w) sim \<Rightarrow> ('c, 'w) sim result" where
  "fire_front run s = (case pending s of
       [] \<Rightarrow> Inl AssertFailure
     | next # rest \<Rightarrow> run (callOnInterrupt next) (s\<lparr>pending := rest\<rparr>))"

definition front_due :: "('c, 'w) sim \<Rightarrow> bool" where
  "front_due s \<longleftrightarrow> pending s \<noteq> [] \<and> when (hd (pending s)) \<le> totalTicks (stats s)"

fun fire_loop :: "('c, 'w) callback \<Rightarrow> nat \<Rightarrow> ('c, 'w) sim \<Rightarrow> ('c, 'w) sim result" where
  "fire_loop run 0 s = Inl Diverges"
| "fire_loop run (Suc fuel) s =
     bind_result (fire_front run s) (\<lambda>s. if front_due s then fire_loop run fuel s else Inr s)"

definition flush_delayed_load :: "('c, 'w) sim \<Rightarrow> ('c, 'w) sim result" where
  "flush_delayed_load s = (case cpu s of
       None \<Rightarrow> Inr s
     | Some m \<Rightarrow> bind_result (DelayedLoad 0 0 m) (\<lambda>m. Inr (s\<lparr>cpu := Some m\<rparr>)))"

definition advance_to :: "int \<Rightarrow> Statistics \<Rightarrow> Statistics" where
  "advance_to t st = st\<lparr>idleTicks := idleTicks st + (t - totalTicks st), totalTicks := t\<rparr>"

definition CheckIfDue :: "('c, 'w) callback \<Rightarrow> bool \<Rightarrow> ('c, 'w) sim \<Rightarrow> (bool \<times> ('c, 'w) sim) result" where
  "CheckIfDue run advanceClock s =
     c_assert (level s = IntOff)
      (case pending s of
         [] \<Rightarrow> Inr (False, s)
       | next # rest \<Rightarrow>
           if when next > totalTicks (stats s) \<and> \<not> advanceClock then Inr (False, s)
           else
             let s = (if when next > totalTicks (stats s) then s\<lparr>stats := advance_to (when next) (stats s)\<rparr> else s)
             in bind_result (flush_delayed_load s) (\<lambda>s.
                bind_result (fire_loop run (length (pending s)) (s\<lparr>inHandler := True\<rparr>)) (\<lambda>s.
                Inr (True, s\<lparr>inHandler := False\<rparr>))))"

text \<open>\<open>OneTick\<close> up to its test of \<open>yieldOnReturn\<close>, and the whole of it: \<open>yield\<close> is
  \<open>kernel->currentThread->Yield()\<close>.\<close>

definition count_tick :: "MachineStatus \<Rightarrow> Statistics \<Rightarrow> Statistics" where
  "count_tick st x =
     (if st = SystemMode then x\<lparr>totalTicks := totalTicks x + SystemTick, systemTicks := systemTicks x + SystemTick\<rparr>
      else x\<lparr>totalTicks := totalTicks x + UserTick, userTicks := userTicks x + UserTick\<rparr>)"

definition tick_and_check :: "('c, 'w) callback \<Rightarrow> ('c, 'w) sim \<Rightarrow> ('c, 'w) sim result" where
  "tick_and_check run s =
     (let s = s\<lparr>stats := count_tick (status s) (stats s)\<rparr>;
          s = ChangeLevel IntOn IntOff s
      in bind_result (CheckIfDue run False s) (\<lambda>(fired, s). Inr (ChangeLevel IntOff IntOn s)))"

definition OneTick :: "('c, 'w) callback \<Rightarrow> (('c, 'w) sim \<Rightarrow> ('c, 'w) sim result) \<Rightarrow> ('c, 'w) sim \<Rightarrow> ('c, 'w) sim result" where
  "OneTick run yield s =
     bind_result (tick_and_check run s) (\<lambda>s'.
       if yieldOnReturn s' then
         bind_result (yield (s'\<lparr>yieldOnReturn := False, status := SystemMode\<rparr>)) (\<lambda>s''.
         Inr (s''\<lparr>status := status s\<rparr>))
       else Inr s')"

definition SetLevel :: "('c, 'w) callback \<Rightarrow> (('c, 'w) sim \<Rightarrow> ('c, 'w) sim result) \<Rightarrow> IntStatus \<Rightarrow> ('c, 'w) sim
    \<Rightarrow> (IntStatus \<times> ('c, 'w) sim) result" where
  "SetLevel run yield now s =
     (let old = level s in
      c_assert (now = IntOff \<or> \<not> inHandler s)
       (let s = ChangeLevel old now s in
        bind_result (if now = IntOn \<and> old = IntOff then OneTick run yield s else Inr s) (\<lambda>s. Inr (old, s))))"

text \<open>\<open>Idle\<close> returns when a handler has run, and otherwise halts the machine: \<open>Halt\<close> prints the
  statistics and deletes the kernel, it never returns.\<close>

datatype 's progress = Running 's | Halted 's

definition Halt :: "('c, 'w) sim \<Rightarrow> ('c, 'w) sim progress" where
  "Halt s = Halted s"

definition Idle :: "('c, 'w) callback \<Rightarrow> ('c, 'w) sim \<Rightarrow> ('c, 'w) sim progress result" where
  "Idle run s =
     bind_result (CheckIfDue run True (s\<lparr>status := IdleMode\<rparr>)) (\<lambda>(fired, s).
       Inr (if fired then Running (s\<lparr>status := SystemMode\<rparr>) else Halt s))"

section \<open>The invariant of the clock\<close>

definition due_now :: "('c, 'w) sim \<Rightarrow> 'c PendingInterrupt \<Rightarrow> bool" where
  "due_now s p \<longleftrightarrow> when p \<le> totalTicks (stats s)"

lemma due_now_fun: "due_now s = (\<lambda>p. when p \<le> totalTicks (stats s))"
  by (rule ext) (rule due_now_def)

definition clock_ok :: "('c, 'w) sim \<Rightarrow> bool" where
  "clock_ok s \<longleftrightarrow> sorted (map when (pending s))
     \<and> totalTicks (stats s) = idleTicks (stats s) + systemTicks (stats s) + userTicks (stats s)"

definition cpu_ok :: "machine option \<Rightarrow> bool" where
  "cpu_ok c \<longleftrightarrow> (\<forall>m. c = Some m \<longrightarrow> unat (registers m LoadReg) < NumGPRegs)"

text \<open>Between two calls of \<open>CheckIfDue\<close> nothing that is pending is overdue.\<close>

definition nothing_overdue :: "('c, 'w) sim \<Rightarrow> bool" where
  "nothing_overdue s \<longleftrightarrow> (\<forall>p \<in> set (pending s). \<not> due_now s p)"

definition clock :: "('c, 'w) sim \<Rightarrow> int \<times> int \<times> int \<times> int" where
  "clock s = (totalTicks (stats s), idleTicks (stats s), systemTicks (stats s), userTicks (stats s))"

text \<open>What a \<open>CallBack\<close> may do to the interrupt object: schedule interrupts for the future and ask for a yield.\<close>

definition schedules :: "('c, 'w) sim \<Rightarrow> ('c, 'w) sim \<Rightarrow> bool" where
  "schedules s s' \<longleftrightarrow> clock s' = clock s \<and> level s' = level s \<and> inHandler s' = inHandler s
     \<and> status s' = status s \<and> cpu s' = cpu s
     \<and> (\<exists>new. pending s' = fold (insert_by PendingCompare) new (pending s)
          \<and> (\<forall>p \<in> set new. totalTicks (stats s) < when p))"

lemma sorted_when_insert:
  "sorted (map when xs) \<Longrightarrow> sorted (map when (insert_by PendingCompare p xs))"
  by (rule sorted_insert_by) (simp add: PendingCompare_def)

lemma sorted_when_fold:
  "sorted (map when xs) \<Longrightarrow> sorted (map when (fold (insert_by PendingCompare) new xs))"
  by (induction new arbitrary: xs) (auto simp: sorted_when_insert)

lemma set_fold_insert_by [simp]: "set (fold (insert_by compare) new xs) = set new \<union> set xs"
  by (induction new arbitrary: xs) auto

text \<open>A due entry stays in front of everything scheduled for the future.\<close>

lemma insert_future_after:
  assumes "totalTicks st < when p" "\<forall>q \<in> set ds. when q \<le> totalTicks st"
  shows "insert_by PendingCompare p (ds @ xs) = ds @ insert_by PendingCompare p xs"
  using assms by (induction ds) (auto simp: PendingCompare_def)

lemma fold_future_after:
  assumes "\<forall>p \<in> set new. totalTicks st < when p" "\<forall>q \<in> set ds. when q \<le> totalTicks st"
  shows "fold (insert_by PendingCompare) new (ds @ xs) = ds @ fold (insert_by PendingCompare) new xs"
  using assms by (induction new arbitrary: xs) (auto simp: insert_future_after)

lemma schedules_refl [simp]: "schedules s s"
  by (auto simp: schedules_def intro: exI[of _ "[]"])

lemma schedules_trans: "schedules s s' \<Longrightarrow> schedules s' s'' \<Longrightarrow> schedules s s''"
proof -
  assume a: "schedules s s'" and b: "schedules s' s''"
  obtain n1 where "pending s' = fold (insert_by PendingCompare) n1 (pending s)"
    "\<forall>p \<in> set n1. totalTicks (stats s) < when p" using a by (auto simp: schedules_def)
  moreover obtain n2 where "pending s'' = fold (insert_by PendingCompare) n2 (pending s')"
    "\<forall>p \<in> set n2. totalTicks (stats s') < when p" using b by (auto simp: schedules_def)
  ultimately show ?thesis using a b
    by (auto simp: schedules_def clock_def intro!: exI[of _ "n1 @ n2"])
qed

lemma schedules_Schedule:
  assumes "0 < fromNow" shows "\<exists>s'. Schedule c fromNow k s = Inr s' \<and> schedules s s' \<and> world s' = world s"
  using assms
  by (auto simp: Schedule_def Let_def schedules_def clock_def
      intro!: exI[of _ "[\<lparr>callOnInterrupt = c, when = totalTicks (stats s) + fromNow, int_type = k\<rparr>]"])

lemma DelayedLoad_cpu:
  assumes "cpu_ok (cpu s)"
  shows "\<exists>c. flush_delayed_load s = Inr (s\<lparr>cpu := c\<rparr>) \<and> cpu_ok c"
proof (cases "cpu s")
  case None
  then show ?thesis by (intro exI[of _ None]) (simp add: flush_delayed_load_def cpu_ok_def)
next
  case (Some m)
  then have "unat (registers m LoadReg) < NumGPRegs" using assms by (simp add: cpu_ok_def)
  then obtain m' where "DelayedLoad 0 0 m = Inr m'" "registers_ok m'"
    using DelayedLoad_ok[of m 0 0] by auto
  then show ?thesis using Some
    by (intro exI[of _ "Some m'"]) (simp add: flush_delayed_load_def cpu_ok_def registers_ok_def)
qed

section \<open>The interface of the devices\<close>

text \<open>The interrupts due now, called one by one from the front of the list.\<close>

fun fire_list :: "('c, 'w) callback \<Rightarrow> 'c PendingInterrupt list \<Rightarrow> ('c, 'w) sim \<Rightarrow> ('c, 'w) sim result" where
  "fire_list run [] s = Inr s"
| "fire_list run (p # ps) s =
     c_assert (pending s \<noteq> [] \<and> hd (pending s) = p) (bind_result (fire_front run s) (fire_list run ps))"

definition due_list :: "('c, 'w) sim \<Rightarrow> 'c PendingInterrupt list" where
  "due_list s = takeWhile (due_now s) (pending s)"

lemma takeWhile_sorted_when:
  assumes "sorted (map when xs)" "p \<in> set (dropWhile (\<lambda>p. when p \<le> t) xs)"
  shows "\<not> when p \<le> t"
  using assms by (induction xs) (auto split: if_splits)

lemma schedules_from:
  assumes "schedules s s'"
  shows "clock s' = clock s" "(\<forall>p \<in> set (pending s). totalTicks (stats s) < when p) \<Longrightarrow> nothing_overdue s'"
    "clock_ok s \<Longrightarrow> clock_ok s'"
  using assms by (auto simp: schedules_def nothing_overdue_def due_now_def clock_def clock_ok_def sorted_when_fold not_le)

text \<open>The time at which \<open>CheckIfDue\<close> runs the handlers.\<close>

definition reached :: "('c, 'w) sim \<Rightarrow> ('c, 'w) sim" where
  "reached s = (if front_due s then s else s\<lparr>stats := advance_to (when (hd (pending s))) (stats s)\<rparr>)"

lemma sorted_map_dropWhile: "sorted (map f xs) \<Longrightarrow> sorted (map f (dropWhile P xs))"
  by (induction xs) auto

locale interrupt_source =
  fixes run :: "('c, 'w) callback"
    and world_ok :: "'w \<Rightarrow> 'c PendingInterrupt list \<Rightarrow> bool"
  assumes call_back:
    "pending s = p # rest \<Longrightarrow> world_ok (world s) (pending s) \<Longrightarrow> inHandler s \<Longrightarrow> level s = IntOff \<Longrightarrow>
     \<exists>s'. run (callOnInterrupt p) (s\<lparr>pending := rest\<rparr>) = Inr s'
       \<and> schedules (s\<lparr>pending := rest\<rparr>) s' \<and> world_ok (world s') (pending s')"
begin

lemma fire_list_run:
  assumes "pending s = ds @ rest" "\<forall>p \<in> set ds. when p \<le> totalTicks (stats s)"
    "world_ok (world s) (pending s)" "inHandler s" "level s = IntOff"
  shows "\<exists>s'. fire_list run ds s = Inr s' \<and> schedules (s\<lparr>pending := rest\<rparr>) s'
    \<and> world_ok (world s') (pending s')"
  using assms
proof (induction ds arbitrary: s rest)
  case (Cons d ds)
  let ?s = "s\<lparr>pending := ds @ rest\<rparr>"
  obtain s1 where s1: "run (callOnInterrupt d) ?s = Inr s1" "schedules ?s s1" "world_ok (world s1) (pending s1)"
    using call_back[of s d "ds @ rest"] Cons.prems by auto
  obtain new where new: "pending s1 = fold (insert_by PendingCompare) new (ds @ rest)"
    "\<forall>p \<in> set new. totalTicks (stats s) < when p" using s1(2) by (auto simp: schedules_def)
  let ?rest = "fold (insert_by PendingCompare) new rest"
  have t: "clock s1 = clock s" "level s1 = level s" "inHandler s1 = inHandler s" "status s1 = status s" "cpu s1 = cpu s"
    using s1(2) by (auto simp: schedules_def clock_def)
  have p1: "pending s1 = ds @ ?rest" using fold_future_after new Cons.prems(2) by fastforce
  obtain s2 where s2: "fire_list run ds s1 = Inr s2" "schedules (s1\<lparr>pending := ?rest\<rparr>) s2"
    "world_ok (world s2) (pending s2)"
    using Cons.IH[OF p1] Cons.prems t s1(3) by (auto simp: clock_def)
  have "schedules (s\<lparr>pending := rest\<rparr>) (s1\<lparr>pending := ?rest\<rparr>)"
    using t new(2) by (auto simp: schedules_def clock_def intro!: exI[of _ new])
  then show ?case using s1(1) s2 Cons.prems(1) schedules_trans by (fastforce simp: fire_front_def)
qed simp

lemma fire_loop_is_fire_list:
  assumes "pending s = ds @ rest" "ds \<noteq> []" "\<forall>p \<in> set ds. when p \<le> totalTicks (stats s)"
    "\<forall>p \<in> set rest. totalTicks (stats s) < when p"
    "world_ok (world s) (pending s)" "inHandler s" "level s = IntOff" "length ds \<le> fuel"
  shows "fire_loop run fuel s = fire_list run ds s"
  using assms
proof (induction ds arbitrary: s rest fuel)
  case (Cons d ds)
  let ?s = "s\<lparr>pending := ds @ rest\<rparr>"
  obtain f where f: "fuel = Suc f" "length ds \<le> f" using Cons.prems(8) by (cases fuel) auto
  obtain s1 where s1: "run (callOnInterrupt d) ?s = Inr s1" "schedules ?s s1" "world_ok (world s1) (pending s1)"
    using call_back[of s d "ds @ rest"] Cons.prems by auto
  obtain new where new: "pending s1 = fold (insert_by PendingCompare) new (ds @ rest)"
    "\<forall>p \<in> set new. totalTicks (stats s) < when p" using s1(2) by (auto simp: schedules_def)
  let ?rest = "fold (insert_by PendingCompare) new rest"
  have t: "totalTicks (stats s1) = totalTicks (stats s)" "level s1 = level s" "inHandler s1 = inHandler s"
    using s1(2) by (auto simp: schedules_def clock_def)
  have p1: "pending s1 = ds @ ?rest" using fold_future_after new Cons.prems(3) by fastforce
  have later: "\<forall>p \<in> set ?rest. totalTicks (stats s1) < when p" using new(2) Cons.prems(4) t by auto
  have step: "fire_front run s = Inr s1" using s1(1) Cons.prems(1) by (simp add: fire_front_def)
  show ?case
  proof (cases "ds = []")
    case True
    have "\<not> front_due s1"
    proof (cases "pending s1")
      case (Cons q qs)
      then show ?thesis using p1 later True by (auto simp: front_due_def)
    qed (simp add: front_due_def)
    then show ?thesis using step f Cons.prems(1) True by simp
  next
    case False
    then have "front_due s1" using p1 Cons.prems(3) t by (cases ds) (auto simp: front_due_def)
    then show ?thesis
      using step f Cons.prems Cons.IH[OF p1 False _ later] t s1(3) by auto
  qed
qed simp

text \<open>\<open>CheckIfDue\<close> when something is due, or when it may advance the clock: the handlers of the due
  interrupts run, and all of them; none is due afterwards.\<close>

lemma CheckIfDue_fires:
  assumes "level s = IntOff" "clock_ok s" "world_ok (world s) (pending s)" "cpu_ok (cpu s)"
    "pending s \<noteq> []" "front_due s \<or> advanceClock"
  shows "\<exists>c s0 s1. s0 = (reached s)\<lparr>cpu := c, inHandler := True\<rparr>
     \<and> CheckIfDue run advanceClock s = Inr (True, s1\<lparr>inHandler := False\<rparr>)
     \<and> cpu_ok c \<and> due_list s0 \<noteq> [] \<and> fire_list run (due_list s0) s0 = Inr s1
     \<and> schedules (s0\<lparr>pending := dropWhile (due_now s0) (pending s0)\<rparr>) s1
     \<and> world_ok (world s1) (pending s1) \<and> nothing_overdue s1 \<and> clock_ok s1"
proof -
  obtain p ps where p: "pending s = p # ps" using assms(5) by (cases "pending s") auto
  have r: "level (reached s) = IntOff" "world (reached s) = world s" "pending (reached s) = pending s"
    "cpu (reached s) = cpu s" "when p \<le> totalTicks (stats (reached s))" "clock_ok (reached s)"
    using assms(1,2,5) p by (auto simp: reached_def front_due_def advance_to_def clock_ok_def)
  obtain c where c: "flush_delayed_load (reached s) = Inr ((reached s)\<lparr>cpu := c\<rparr>)" "cpu_ok c"
    using DelayedLoad_cpu[of "reached s"] assms(4) r(4) by auto
  define s0 where "s0 = (reached s)\<lparr>cpu := c, inHandler := True\<rparr>"
  have eq: "CheckIfDue run advanceClock s =
      bind_result (fire_loop run (length (pending s0)) s0) (\<lambda>s. Inr (True, s\<lparr>inHandler := False\<rparr>))"
    using assms(1,6) p c(1) r(3)
    by (auto simp: CheckIfDue_def reached_def front_due_def s0_def not_le)
  let ?ds = "due_list s0" and ?rest = "dropWhile (due_now s0) (pending s0)"
  have sorted: "sorted (map when (pending s0))" using r(6) by (simp add: clock_ok_def s0_def)
  have ds: "pending s0 = ?ds @ ?rest" by (simp add: due_list_def)
  have ne: "?ds \<noteq> []" using p r by (simp add: due_list_def s0_def due_now_def)
  have due: "\<forall>q \<in> set ?ds. when q \<le> totalTicks (stats s0)"
    by (auto simp: due_list_def due_now_def dest: set_takeWhileD)
  have later: "\<forall>q \<in> set ?rest. totalTicks (stats s0) < when q"
    using takeWhile_sorted_when[OF sorted, of _ "totalTicks (stats s0)"] by (simp add: due_now_fun not_le)
  have w: "world_ok (world s0) (pending s0)" "inHandler s0" "level s0 = IntOff"
    using assms(3) r by (simp_all add: s0_def)
  have len: "length ?ds \<le> length (pending s0)" by (simp add: due_list_def length_takeWhile_le)
  obtain s1 where s1: "fire_list run ?ds s0 = Inr s1" "schedules (s0\<lparr>pending := ?rest\<rparr>) s1"
    "world_ok (world s1) (pending s1)"
    using fire_list_run[OF ds due w] by auto
  then have "CheckIfDue run advanceClock s = Inr (True, s1\<lparr>inHandler := False\<rparr>)"
    using eq fire_loop_is_fire_list[OF ds ne due later w len] by simp
  moreover have "nothing_overdue s1" using schedules_from(2)[OF s1(2)] later by simp
  moreover have "clock_ok (s0\<lparr>pending := ?rest\<rparr>)"
    using r(6) sorted_map_dropWhile[OF sorted, of "due_now s0"] by (simp add: clock_ok_def s0_def)
  then have "clock_ok s1" by (rule schedules_from(3)[OF s1(2)])
  ultimately show ?thesis
    by (intro exI[of _ c] exI[of _ s0] exI[of _ s1] conjI s1 c ne s0_def)
qed

definition sim_ok :: "('c, 'w) sim \<Rightarrow> bool" where
  "sim_ok s \<longleftrightarrow> clock_ok s \<and> cpu_ok (cpu s) \<and> world_ok (world s) (pending s) \<and> \<not> inHandler s"

lemma CheckIfDue_run:
  assumes "sim_ok s" "level s = IntOff"
  shows "\<exists>b s'. CheckIfDue run adv s = Inr (b, s') \<and> sim_ok s' \<and> nothing_overdue s' \<and> level s' = IntOff
    \<and> status s' = status s \<and> (b \<longleftrightarrow> pending s \<noteq> [] \<and> (front_due s \<or> adv))
    \<and> clock s' = (if b then clock (reached s) else clock s)"
proof (cases "pending s \<noteq> [] \<and> (front_due s \<or> adv)")
  case True
  then obtain c s0 s1 where *: "s0 = (reached s)\<lparr>cpu := c, inHandler := True\<rparr>"
     "CheckIfDue run adv s = Inr (True, s1\<lparr>inHandler := False\<rparr>)" "cpu_ok c"
     "schedules (s0\<lparr>pending := dropWhile (due_now s0) (pending s0)\<rparr>) s1"
     "world_ok (world s1) (pending s1)" "nothing_overdue s1" "clock_ok s1"
    using CheckIfDue_fires[of s adv] assms by (auto simp: sim_ok_def)
  have "level (reached s) = IntOff" "status (reached s) = status s" using assms by (auto simp: reached_def)
  then have "sim_ok (s1\<lparr>inHandler := False\<rparr>)" "nothing_overdue (s1\<lparr>inHandler := False\<rparr>)"
    "level s1 = IntOff" "status s1 = status s" "clock s1 = clock (reached s)"
    using * by (auto simp: sim_ok_def clock_ok_def schedules_def nothing_overdue_def due_now_def clock_def)
  then show ?thesis using *(2) True by (auto simp: clock_def)
next
  case False
  then have "CheckIfDue run adv s = Inr (False, s)"
    using assms(2) by (cases "pending s") (auto simp: CheckIfDue_def front_due_def)
  moreover have "nothing_overdue s"
  proof (cases "pending s")
    case Nil
    then show ?thesis by (simp add: nothing_overdue_def)
  next
    case (Cons p ps)
    then have "totalTicks (stats s) < when p" "\<forall>q \<in> set ps. when p \<le> when q"
      using False assms(1) by (auto simp: front_due_def sim_ok_def clock_ok_def)
    then show ?thesis using Cons by (force simp: nothing_overdue_def due_now_def)
  qed
  ultimately show ?thesis using assms False by auto
qed

text \<open>A tick of the clock: it counts, it runs what is due, and it leaves nothing overdue.\<close>

lemma tick_and_check_run:
  assumes "sim_ok s"
  shows "\<exists>s'. tick_and_check run s = Inr s' \<and> sim_ok s' \<and> nothing_overdue s' \<and> level s' = IntOn
    \<and> status s' = status s
    \<and> totalTicks (stats s') = totalTicks (stats s) + (if status s = SystemMode then SystemTick else UserTick)
    \<and> idleTicks (stats s') = idleTicks (stats s)"
proof -
  let ?s = "ChangeLevel IntOn IntOff (s\<lparr>stats := count_tick (status s) (stats s)\<rparr>)"
  have "sim_ok ?s" "level ?s = IntOff" using assms
    by (auto simp: sim_ok_def clock_ok_def ChangeLevel_def count_tick_def)
  then obtain b s' where *: "CheckIfDue run False ?s = Inr (b, s')" "sim_ok s'" "nothing_overdue s'"
    "level s' = IntOff" "status s' = status ?s" "b \<longleftrightarrow> pending ?s \<noteq> [] \<and> front_due ?s"
    "clock s' = (if b then clock (reached ?s) else clock ?s)"
    using CheckIfDue_run[of ?s False] by blast
  then have "clock s' = clock ?s" by (simp add: reached_def)
  then show ?thesis using *(1-5)
    by (cases "status s = SystemMode") (auto simp: tick_and_check_def Let_def ChangeLevel_def sim_ok_def clock_ok_def nothing_overdue_def
        due_now_def clock_def count_tick_def)
qed

lemma Idle_run:
  assumes "sim_ok s" "level s = IntOff" "nothing_overdue s" "pending s \<noteq> []"
  shows "\<exists>s'. Idle run s = Inr (Running s') \<and> sim_ok s' \<and> nothing_overdue s' \<and> level s' = IntOff
    \<and> status s' = SystemMode \<and> totalTicks (stats s') = when (hd (pending s))
    \<and> idleTicks (stats s') = idleTicks (stats s) + (when (hd (pending s)) - totalTicks (stats s))"
proof -
  let ?s = "s\<lparr>status := IdleMode\<rparr>"
  have "sim_ok ?s" "level ?s = IntOff" using assms by (auto simp: sim_ok_def clock_ok_def)
  then obtain b s' where *: "CheckIfDue run True ?s = Inr (b, s')" "sim_ok s'" "nothing_overdue s'"
    "level s' = IntOff" "b \<longleftrightarrow> pending s \<noteq> []"
    "clock s' = (if b then clock (reached ?s) else clock ?s)"
    using CheckIfDue_run[of ?s True] by auto
  moreover have "\<not> front_due ?s"
    using assms(3,4) by (auto simp: front_due_def nothing_overdue_def due_now_def)
  ultimately show ?thesis using assms(4)
    by (auto simp: Idle_def sim_ok_def clock_ok_def nothing_overdue_def due_now_def clock_def
        reached_def advance_to_def)
qed

lemma Idle_halts: "level s = IntOff \<Longrightarrow> pending s = [] \<Longrightarrow> Idle run s = Inr (Halted (s\<lparr>status := IdleMode\<rparr>))"
  by (simp add: Idle_def CheckIfDue_def Halt_def)

end

end
