(* ===== verification/Devices.thy ===== *)
theory Devices imports Complex_Main Interrupts begin

text \<open>
  The hardware devices of the simulator, on the interrupt object of theory Interrupts:
  machine/timer.cc with threads/alarm.cc, machine/disk.cc, machine/console.cc and
  machine/network.cc. What the simulator gets from UNIX is data of the state: the bytes of the disk
  file, what each poll of the keyboard and of the socket finds, the numbers \<open>rand\<close> returns and
  the bytes of a fresh \<open>new char[]\<close>. A device that has news calls its client in the kernel:
  \<open>upcall\<close> is that call. The last part shows that the devices meet the interface of theory
  Interrupts whenever the kernel's upcalls do.
\<close>

section \<open>Integer division of C\<close>

definition c_div :: "int \<Rightarrow> int \<Rightarrow> int" where
  "c_div a b = sgn a * sgn b * (\<bar>a\<bar> div \<bar>b\<bar>)"

definition c_mod :: "int \<Rightarrow> int \<Rightarrow> int" where
  "c_mod a b = a - c_div a b * b"

lemma c_div_nonneg: "0 \<le> a \<Longrightarrow> 0 < b \<Longrightarrow> c_div a b = a div b"
  by (cases "a = 0") (auto simp: c_div_def)

lemma c_mod_nonneg: "0 \<le> a \<Longrightarrow> 0 < b \<Longrightarrow> c_mod a b = a mod b"
  by (simp add: c_mod_def c_div_nonneg minus_div_mult_eq_mod)

section \<open>State of the devices\<close>

text \<open>The \<open>CallBackObj\<close> objects of the hardware, and the clients of the kernel they call back.\<close>

datatype device = TimerDev | DiskDev | ConsoleInDev | ConsoleOutDev | NetInDev | NetOutDev

datatype client = DiskClient | CharAvailClient | CharDoneClient | PacketAvailClient | PacketSentClient

record timer =
  randomize :: bool
  disable :: bool

definition SectorSize :: nat where "SectorSize = 128"
definition SectorsPerTrack :: int where "SectorsPerTrack = 32"
definition NumTracks :: int where "NumTracks = 32"
definition NumSectors :: int where "NumSectors = SectorsPerTrack * NumTracks"

lemmas disk_sizes = SectorSize_def SectorsPerTrack_def NumTracks_def NumSectors_def

record disk =
  platter :: "nat \<Rightarrow> u8"
  active :: bool
  lastSector :: int
  bufferInit :: int

text \<open>One poll of the keyboard: nothing typed, the end of the input file, or a character.\<close>

datatype key_event = NoKey | EndOfFile | Key u8

record console =
  keyboard :: "key_event list"
  incoming :: u8
  display :: "u8 list"
  putBusy :: bool

text \<open>\<open>EOF\<close> kept in a \<open>char\<close>.\<close>

definition EOF_char :: u8 where "EOF_char = - 1"

record PacketHeader =
  hdr_to :: u32
  hdr_from :: u32
  hdr_length :: u32

definition MaxWireSize :: nat where "MaxWireSize = 64"
definition sizeof_PacketHeader :: nat where "sizeof_PacketHeader = 12"
definition MaxPacketSize :: nat where "MaxPacketSize = MaxWireSize - sizeof_PacketHeader"

record network =
  hostName :: u32
  wire_in :: "u8 list option list"
  inHdr :: PacketHeader
  inbox :: "u8 list"
  chanceToWork :: real
  sendBusy :: bool
  wire_out :: "(u32 \<times> u8 list) list"

record 'k hardware =
  timer :: timer
  disk :: disk
  console :: console
  network :: network
  rand_stream :: "nat \<Rightarrow> u32"
  rand_pos :: nat
  garbage :: "nat \<Rightarrow> u8"
  kernel :: 'k

type_synonym 'k hw = "(device, 'k hardware) sim"

definition with_timer :: "(timer \<Rightarrow> timer) \<Rightarrow> 'k hw \<Rightarrow> 'k hw" where
  "with_timer f s = s\<lparr>world := (world s)\<lparr>timer := f (timer (world s))\<rparr>\<rparr>"
definition with_disk :: "(disk \<Rightarrow> disk) \<Rightarrow> 'k hw \<Rightarrow> 'k hw" where
  "with_disk f s = s\<lparr>world := (world s)\<lparr>disk := f (disk (world s))\<rparr>\<rparr>"
definition with_console :: "(console \<Rightarrow> console) \<Rightarrow> 'k hw \<Rightarrow> 'k hw" where
  "with_console f s = s\<lparr>world := (world s)\<lparr>console := f (console (world s))\<rparr>\<rparr>"
definition with_network :: "(network \<Rightarrow> network) \<Rightarrow> 'k hw \<Rightarrow> 'k hw" where
  "with_network f s = s\<lparr>world := (world s)\<lparr>network := f (network (world s))\<rparr>\<rparr>"
definition with_stats :: "(Statistics \<Rightarrow> Statistics) \<Rightarrow> 'k hw \<Rightarrow> 'k hw" where
  "with_stats f s = s\<lparr>stats := f (stats s)\<rparr>"

lemmas with_defs = with_timer_def with_disk_def with_console_def with_network_def with_stats_def

definition RandomNumber :: "'k hw \<Rightarrow> u32 \<times> 'k hw" where
  "RandomNumber s = (rand_stream (world s) (rand_pos (world s)),
     s\<lparr>world := (world s)\<lparr>rand_pos := rand_pos (world s) + 1\<rparr>\<rparr>)"

type_synonym 'k upcall = "client \<Rightarrow> 'k hw \<Rightarrow> 'k hw result"

section \<open>Timer and alarm\<close>

definition Timer_SetInterrupt :: "'k hw \<Rightarrow> 'k hw result" where
  "Timer_SetInterrupt s =
     (if \<not> disable (timer (world s)) then
        let (delay, s) = (if randomize (timer (world s))
              then (let (r, s) = RandomNumber s in (1 + uint (r mod of_int (TimerTicks * 2)), s))
              else (TimerTicks, s))
        in Schedule TimerDev delay TimerInt s
      else Inr s)"

definition Timer_new :: "bool \<Rightarrow> 'k hw \<Rightarrow> 'k hw result" where
  "Timer_new doRandom s = Timer_SetInterrupt (with_timer (\<lambda>_. \<lparr>randomize = doRandom, disable = False\<rparr>) s)"

definition Timer_Disable :: "'k hw \<Rightarrow> 'k hw" where
  "Timer_Disable s = with_timer (\<lambda>t. t\<lparr>disable := True\<rparr>) s"

definition Alarm_CallBack :: "'k hw \<Rightarrow> 'k hw result" where
  "Alarm_CallBack s = (if status s \<noteq> IdleMode then YieldOnReturn s else Inr s)"

definition Timer_CallBack :: "'k hw \<Rightarrow> 'k hw result" where
  "Timer_CallBack s = bind_result (Alarm_CallBack s) Timer_SetInterrupt"

section \<open>Disk\<close>

definition MagicNumber :: u32 where "MagicNumber = 0x456789ab"
definition MagicSize :: nat where "MagicSize = 4"

text \<open>The constructor opens the UNIX file of the disk, or creates it with the magic number and zeroes.\<close>

definition Disk_new :: "u8 list option \<Rightarrow> 'k hw \<Rightarrow> 'k hw result" where
  "Disk_new file s =
     (case file of
        Some bytes \<Rightarrow>
          bind_result (arr_get bytes 0) (\<lambda>b0. bind_result (arr_get bytes 1) (\<lambda>b1.
          bind_result (arr_get bytes 2) (\<lambda>b2. bind_result (arr_get bytes 3) (\<lambda>b3.
          c_assert (le_word32 b0 b1 b2 b3 = MagicNumber)
            (Inr (with_disk (\<lambda>_. \<lparr>platter = (\<lambda>i. if MagicSize + i < length bytes then bytes ! (MagicSize + i) else 0),
                                 active = False, lastSector = 0, bufferInit = 0\<rparr>) s))))))
      | None \<Rightarrow> Inr (with_disk (\<lambda>_. \<lparr>platter = (\<lambda>_. 0), active = False, lastSector = 0, bufferInit = 0\<rparr>) s))"

text \<open>The result of \<open>TimeToSeek\<close> is the seek time and, through its pointer argument, the rotation.\<close>

definition TimeToSeek :: "int \<Rightarrow> 'k hw \<Rightarrow> int \<times> int" where
  "TimeToSeek newSector s =
     (let newTrack = c_div newSector SectorsPerTrack;
          oldTrack = c_div (lastSector (disk (world s))) SectorsPerTrack;
          seek = \<bar>newTrack - oldTrack\<bar> * SeekTime;
          over = c_mod (totalTicks (stats s) + seek) RotationTime
      in (seek, if over > 0 then RotationTime - over else 0))"

definition ModuloDiff :: "int \<Rightarrow> int \<Rightarrow> int" where
  "ModuloDiff to from =
     (let toOffset = c_mod to SectorsPerTrack; fromOffset = c_mod from SectorsPerTrack
      in c_mod ((toOffset - fromOffset) + SectorsPerTrack) SectorsPerTrack)"

definition ComputeLatency :: "int \<Rightarrow> bool \<Rightarrow> 'k hw \<Rightarrow> int" where
  "ComputeLatency newSector writing s =
     (let (seek, rotation) = TimeToSeek newSector s;
          timeAfter = totalTicks (stats s) + seek + rotation;
          since = bufferInit (disk (world s))
      in if \<not> writing \<and> seek = 0
            \<and> c_div (timeAfter - since) RotationTime > ModuloDiff newSector (c_div since RotationTime)
         then RotationTime
         else seek + (rotation + ModuloDiff newSector (c_div timeAfter RotationTime) * RotationTime) + RotationTime)"

definition UpdateLast :: "int \<Rightarrow> 'k hw \<Rightarrow> 'k hw" where
  "UpdateLast newSector s =
     (let (seek, rotate) = TimeToSeek newSector s;
          s = (if seek \<noteq> 0
               then with_disk (\<lambda>d. d\<lparr>bufferInit := totalTicks (stats s) + seek + rotate\<rparr>) s else s)
      in with_disk (\<lambda>d. d\<lparr>lastSector := newSector\<rparr>) s)"

definition read_platter :: "nat \<Rightarrow> 'k hw \<Rightarrow> u8 list" where
  "read_platter sector s = map (platter (disk (world s))) [SectorSize * sector..<SectorSize * sector + SectorSize]"

definition write_platter :: "nat \<Rightarrow> u8 list \<Rightarrow> 'k hw \<Rightarrow> 'k hw" where
  "write_platter sector data s =
     with_disk (\<lambda>d. d\<lparr>platter := (\<lambda>i. if SectorSize * sector \<le> i \<and> i < SectorSize * sector + SectorSize
                                     then data ! (i - SectorSize * sector) else platter d i)\<rparr>) s"

definition ReadRequest :: "int \<Rightarrow> 'k hw \<Rightarrow> (u8 list \<times> 'k hw) result" where
  "ReadRequest sectorNumber s =
     (let ticks = ComputeLatency sectorNumber False s in
      c_assert (\<not> active (disk (world s)))
      (c_assert (sectorNumber \<ge> 0 \<and> sectorNumber < NumSectors)
       (let data = read_platter (nat sectorNumber) s;
            s = with_disk (\<lambda>d. d\<lparr>active := True\<rparr>) s;
            s = UpdateLast sectorNumber s;
            s = with_stats (\<lambda>st. st\<lparr>numDiskReads := numDiskReads st + 1\<rparr>) s
        in bind_result (Schedule DiskDev ticks DiskInt s) (\<lambda>s. Inr (data, s)))))"

definition WriteRequest :: "int \<Rightarrow> u8 list \<Rightarrow> 'k hw \<Rightarrow> 'k hw result" where
  "WriteRequest sectorNumber data s =
     (let ticks = ComputeLatency sectorNumber True s in
      c_assert (\<not> active (disk (world s)))
      (c_assert (sectorNumber \<ge> 0 \<and> sectorNumber < NumSectors)
       (check (SectorSize \<le> length data) OutOfBounds
       (let s = write_platter (nat sectorNumber) data s;
            s = with_disk (\<lambda>d. d\<lparr>active := True\<rparr>) s;
            s = UpdateLast sectorNumber s;
            s = with_stats (\<lambda>st. st\<lparr>numDiskWrites := numDiskWrites st + 1\<rparr>) s
        in Schedule DiskDev ticks DiskInt s))))"

definition Disk_CallBack :: "'k upcall \<Rightarrow> 'k hw \<Rightarrow> 'k hw result" where
  "Disk_CallBack upcall s = upcall DiskClient (with_disk (\<lambda>d. d\<lparr>active := False\<rparr>) s)"

section \<open>Console\<close>

definition ConsoleInput_new :: "'k hw \<Rightarrow> 'k hw result" where
  "ConsoleInput_new s =
     Schedule ConsoleInDev ConsoleTime ConsoleReadInt (with_console (\<lambda>c. c\<lparr>incoming := EOF_char\<rparr>) s)"

text \<open>\<open>PollFile\<close> and \<open>ReadPartial\<close> on the keyboard file: with no more events nothing is ever typed.\<close>

definition poll_keyboard :: "'k hw \<Rightarrow> key_event \<times> 'k hw" where
  "poll_keyboard s = (case keyboard (console (world s)) of
       [] \<Rightarrow> (NoKey, s)
     | e # es \<Rightarrow> (e, with_console (\<lambda>c. c\<lparr>keyboard := es\<rparr>) s))"

definition ConsoleInput_CallBack :: "'k upcall \<Rightarrow> 'k hw \<Rightarrow> 'k hw result" where
  "ConsoleInput_CallBack upcall s =
     c_assert (incoming (console (world s)) = EOF_char)
      (case poll_keyboard s of
         (NoKey, s) \<Rightarrow> Schedule ConsoleInDev ConsoleTime ConsoleReadInt s
       | (EndOfFile, s) \<Rightarrow> upcall CharAvailClient s
       | (Key c, s) \<Rightarrow>
           upcall CharAvailClient
             (with_stats (\<lambda>st. st\<lparr>numConsoleCharsRead := numConsoleCharsRead st + 1\<rparr>)
               (with_console (\<lambda>x. x\<lparr>incoming := c\<rparr>) s)))"

definition ConsoleInput_GetChar :: "'k hw \<Rightarrow> (u8 \<times> 'k hw) result" where
  "ConsoleInput_GetChar s =
     (let ch = incoming (console (world s)) in
      bind_result (if ch \<noteq> EOF_char then Schedule ConsoleInDev ConsoleTime ConsoleReadInt s else Inr s) (\<lambda>s.
      Inr (ch, with_console (\<lambda>c. c\<lparr>incoming := EOF_char\<rparr>) s)))"

definition ConsoleOutput_new :: "'k hw \<Rightarrow> 'k hw" where
  "ConsoleOutput_new s = with_console (\<lambda>c. c\<lparr>putBusy := False\<rparr>) s"

definition ConsoleOutput_CallBack :: "'k upcall \<Rightarrow> 'k hw \<Rightarrow> 'k hw result" where
  "ConsoleOutput_CallBack upcall s =
     upcall CharDoneClient
       (with_stats (\<lambda>st. st\<lparr>numConsoleCharsWritten := numConsoleCharsWritten st + 1\<rparr>)
         (with_console (\<lambda>c. c\<lparr>putBusy := False\<rparr>) s))"

definition ConsoleOutput_PutChar :: "u8 \<Rightarrow> 'k hw \<Rightarrow> 'k hw result" where
  "ConsoleOutput_PutChar ch s =
     c_assert (\<not> putBusy (console (world s)))
       (Schedule ConsoleOutDev ConsoleTime ConsoleWriteInt
         (with_console (\<lambda>c. c\<lparr>display := display c @ [ch], putBusy := True\<rparr>) s))"

section \<open>Network\<close>

text \<open>The header as the first bytes of a packet on the wire.\<close>

definition word_bytes :: "u32 \<Rightarrow> u8 list" where
  "word_bytes w = [word_byte 0 w, word_byte 1 w, word_byte 2 w, word_byte 3 w]"

definition word_at :: "u8 list \<Rightarrow> nat \<Rightarrow> u32" where
  "word_at bs i = le_word32 (bs ! i) (bs ! (i + 1)) (bs ! (i + 2)) (bs ! (i + 3))"

definition header_bytes :: "PacketHeader \<Rightarrow> u8 list" where
  "header_bytes h = word_bytes (hdr_to h) @ word_bytes (hdr_from h) @ word_bytes (hdr_length h)"

definition header_of :: "u8 list \<Rightarrow> PacketHeader" where
  "header_of bs = \<lparr>hdr_to = word_at bs 0, hdr_from = word_at bs 4, hdr_length = word_at bs 8\<rparr>"

definition NetworkInput_new :: "'k hw \<Rightarrow> 'k hw result" where
  "NetworkInput_new s =
     Schedule NetInDev NetworkTime NetworkRecvInt (with_network (\<lambda>n. n\<lparr>inHdr := (inHdr n)\<lparr>hdr_length := 0\<rparr>\<rparr>) s)"

definition poll_socket :: "'k hw \<Rightarrow> u8 list option \<times> 'k hw" where
  "poll_socket s = (case wire_in (network (world s)) of
       [] \<Rightarrow> (None, s)
     | e # es \<Rightarrow> (e, with_network (\<lambda>n. n\<lparr>wire_in := es\<rparr>) s))"

text \<open>\<open>ReadFromSocket\<close> fills the buffer from one datagram: it cuts a long one off and leaves what a
  short one does not reach as it was.\<close>

definition received_buffer :: "'k hw \<Rightarrow> u8 list \<Rightarrow> u8 list" where
  "received_buffer s datagram =
     take MaxWireSize datagram @ map (garbage (world s)) [length datagram..<MaxWireSize]"

definition NetworkInput_CallBack :: "'k upcall \<Rightarrow> 'k hw \<Rightarrow> 'k hw result" where
  "NetworkInput_CallBack upcall s =
     bind_result (Schedule NetInDev NetworkTime NetworkRecvInt s) (\<lambda>s.
       if hdr_length (inHdr (network (world s))) \<noteq> 0 then Inr s
       else case poll_socket s of
         (None, s) \<Rightarrow> Inr s
       | (Some datagram, s) \<Rightarrow>
           (let buffer = received_buffer s datagram;
                hdr = header_of buffer;
                s = with_network (\<lambda>n. n\<lparr>inHdr := hdr\<rparr>) s
            in c_assert (hdr_to hdr = hostName (network (world s)) \<and> unat (hdr_length hdr) \<le> MaxPacketSize)
                (upcall PacketAvailClient
                  (with_stats (\<lambda>st. st\<lparr>numPacketsRecvd := numPacketsRecvd st + 1\<rparr>)
                    (with_network (\<lambda>n. n\<lparr>inbox := take (unat (hdr_length hdr)) (drop sizeof_PacketHeader buffer)
                                          @ drop (unat (hdr_length hdr)) (inbox n)\<rparr>) s)))))"

text \<open>\<open>Receive\<close> hands out the header and the bytes it copies to the caller's buffer.\<close>

definition NetworkInput_Receive :: "'k hw \<Rightarrow> (PacketHeader \<times> u8 list) \<times> 'k hw" where
  "NetworkInput_Receive s =
     (let hdr = inHdr (network (world s))
      in ((hdr, if hdr_length hdr \<noteq> 0 then take (unat (hdr_length hdr)) (inbox (network (world s))) else []),
          with_network (\<lambda>n. n\<lparr>inHdr := (inHdr n)\<lparr>hdr_length := 0\<rparr>\<rparr>) s))"

definition NetworkOutput_new :: "real \<Rightarrow> 'k hw \<Rightarrow> 'k hw" where
  "NetworkOutput_new reliability s =
     with_network (\<lambda>n. n\<lparr>chanceToWork := (if reliability < 0 then 0 else if reliability > 1 then 1 else reliability),
                         sendBusy := False\<rparr>) s"

definition NetworkOutput_CallBack :: "'k upcall \<Rightarrow> 'k hw \<Rightarrow> 'k hw result" where
  "NetworkOutput_CallBack upcall s =
     upcall PacketSentClient
       (with_stats (\<lambda>st. st\<lparr>numPacketsSent := numPacketsSent st + 1\<rparr>)
         (with_network (\<lambda>n. n\<lparr>sendBusy := False\<rparr>) s))"

definition NetworkOutput_Send :: "PacketHeader \<Rightarrow> u8 list \<Rightarrow> 'k hw \<Rightarrow> 'k hw result" where
  "NetworkOutput_Send hdr data s =
     c_assert (\<not> sendBusy (network (world s)) \<and> hdr_length hdr > 0 \<and> unat (hdr_length hdr) \<le> MaxPacketSize
         \<and> hdr_from hdr = hostName (network (world s)))
      (bind_result (Schedule NetOutDev NetworkTime NetworkSendInt s) (\<lambda>s.
       let (r, s) = RandomNumber s in
       if real_of_int (uint (r mod 100)) \<ge> chanceToWork (network (world s)) * 100 then Inr s
       else check (unat (hdr_length hdr) \<le> length data) OutOfBounds
        (let used = header_bytes hdr @ take (unat (hdr_length hdr)) data;
             buffer = used @ map (garbage (world s)) [length used..<MaxWireSize]
         in Inr (with_network (\<lambda>n. n\<lparr>wire_out := wire_out n @ [(hdr_to hdr, buffer)]\<rparr>) s))))"

section \<open>The virtual call\<close>

fun device_CallBack :: "'k upcall \<Rightarrow> device \<Rightarrow> 'k hw \<Rightarrow> 'k hw result" where
  "device_CallBack upcall TimerDev = Timer_CallBack"
| "device_CallBack upcall DiskDev = Disk_CallBack upcall"
| "device_CallBack upcall ConsoleInDev = ConsoleInput_CallBack upcall"
| "device_CallBack upcall ConsoleOutDev = ConsoleOutput_CallBack upcall"
| "device_CallBack upcall NetInDev = NetworkInput_CallBack upcall"
| "device_CallBack upcall NetOutDev = NetworkOutput_CallBack upcall"

section \<open>The devices meet the interrupt interface\<close>

definition waiting :: "device \<Rightarrow> device PendingInterrupt list \<Rightarrow> nat" where
  "waiting d ps = length (filter (\<lambda>p. callOnInterrupt p = d) ps)"

lemma waiting_simps [simp]:
  "waiting d [] = 0"
  "waiting d (p # ps) = (if callOnInterrupt p = d then Suc (waiting d ps) else waiting d ps)"
  by (simp_all add: waiting_def)

lemma waiting_insert_by [simp]:
  "waiting d (insert_by PendingCompare p ps) = (if callOnInterrupt p = d then Suc (waiting d ps) else waiting d ps)"
  by (induction ps) auto

definition packet_ok :: "u32 \<Rightarrow> u8 list \<Rightarrow> bool" where
  "packet_ok host b \<longleftrightarrow> length b = MaxWireSize \<and> hdr_to (header_of b) = host
     \<and> unat (hdr_length (header_of b)) \<le> MaxPacketSize"

text \<open>A device is busy exactly while its interrupt is pending, the keyboard is polled only while its
  buffer is empty, and the packets still to arrive are well formed and meant for this host.\<close>

definition hw_ok :: "'k hardware \<Rightarrow> device PendingInterrupt list \<Rightarrow> bool" where
  "hw_ok w ps \<longleftrightarrow>
     (\<not> disable (timer w) \<longrightarrow> waiting TimerDev ps = 1)
   \<and> waiting DiskDev ps = (if active (disk w) then 1 else 0)
   \<and> waiting ConsoleOutDev ps = (if putBusy (console w) then 1 else 0)
   \<and> waiting ConsoleInDev ps \<le> 1
   \<and> (0 < waiting ConsoleInDev ps \<longrightarrow> incoming (console w) = EOF_char)
   \<and> (\<forall>b. Some b \<in> set (wire_in (network w)) \<longrightarrow> packet_ok (hostName (network w)) b)"

definition set_kernel :: "'k \<Rightarrow> 'k hw \<Rightarrow> 'k hw" where
  "set_kernel k s = s\<lparr>world := (world s)\<lparr>kernel := k\<rparr>\<rparr>"

lemma Timer_SetInterrupt_run:
  shows "\<exists>s'. Timer_SetInterrupt s = Inr s' \<and> schedules s s' \<and> kernel (world s') = kernel (world s)
    \<and> timer (world s') = timer (world s) \<and> disk (world s') = disk (world s)
    \<and> console (world s') = console (world s) \<and> network (world s') = network (world s)
    \<and> (\<forall>d. waiting d (pending s') = waiting d (pending s) + (if d = TimerDev \<and> \<not> disable (timer (world s)) then 1 else 0))
    \<and> (\<not> disable (timer (world s)) \<longrightarrow> (\<exists>p \<in> set (pending s'). callOnInterrupt p = TimerDev
         \<and> when p \<le> totalTicks (stats s) + 2 * TimerTicks))"
proof (cases "disable (timer (world s))")
  case False
  define r where "r = (if randomize (timer (world s)) then 1 + uint (rand_stream (world s) (rand_pos (world s)) mod of_int (TimerTicks * 2)) else TimerTicks)"
  define s1 where "s1 = (if randomize (timer (world s)) then snd (RandomNumber s) else s)"
  have eq: "Timer_SetInterrupt s = Schedule TimerDev r TimerInt s1"
    using False by (simp add: Timer_SetInterrupt_def RandomNumber_def r_def s1_def Let_def)
  have "uint (w mod of_int (TimerTicks * 2)) = uint w mod 200" for w :: u32
    by (simp add: TimerTicks_def uint_mod)
  then have r: "0 < r" "r \<le> 2 * TimerTicks"
    by (auto simp: r_def TimerTicks_def add_pos_nonneg intro: order.trans[OF add_left_mono[OF pos_mod_bound[THEN less_imp_le]]])
  have s1: "pending s1 = pending s" "stats s1 = stats s" "level s1 = level s" "inHandler s1 = inHandler s"
    "status s1 = status s" "cpu s1 = cpu s" "kernel (world s1) = kernel (world s)" "timer (world s1) = timer (world s)"
    "disk (world s1) = disk (world s)" "console (world s1) = console (world s)" "network (world s1) = network (world s)"
    by (auto simp: s1_def RandomNumber_def)
  show ?thesis unfolding eq using r False s1
    by (auto simp: Schedule_def Let_def schedules_def clock_def
        intro!: exI[of _ "[\<lparr>callOnInterrupt = TimerDev, when = totalTicks (stats s) + r, int_type = TimerInt\<rparr>]"])
qed (auto simp: Timer_SetInterrupt_def)

lemma received_whole: "length b = MaxWireSize \<Longrightarrow> received_buffer s b = b"
  by (simp add: received_buffer_def)

text \<open>What is left to show of a callback: it schedules, and the invariant holds again.\<close>

locale kernel_clients =
  fixes upcall :: "'k upcall" and kernel_ok :: "'k \<Rightarrow> bool"
  assumes upcall: "kernel_ok (kernel (world s)) \<Longrightarrow> inHandler s \<Longrightarrow> level s = IntOff \<Longrightarrow>
    \<exists>k. upcall c s = Inr (set_kernel k s) \<and> kernel_ok k"
begin

definition device_ok :: "'k hardware \<Rightarrow> device PendingInterrupt list \<Rightarrow> bool" where
  "device_ok w ps \<longleftrightarrow> hw_ok w ps \<and> kernel_ok (kernel w)"

abbreviation call_back_ok :: "'k hw result \<Rightarrow> 'k hw \<Rightarrow> bool" where
  "call_back_ok r s \<equiv> \<exists>s'. r = Inr s' \<and> schedules s s' \<and> device_ok (world s') (pending s')"

lemma upcall_ok:
  assumes "kernel_ok (kernel (world s))" "inHandler s" "level s = IntOff" "hw_ok (world s) (pending s)" "schedules s0 s"
  shows "call_back_ok (upcall c s) s0"
proof -
  obtain k where "upcall c s = Inr (set_kernel k s)" "kernel_ok k" using upcall assms by blast
  then show ?thesis using assms(4,5)
    by (auto simp: device_ok_def hw_ok_def set_kernel_def schedules_def clock_def)
qed

lemma Timer_CallBack_ok:
  assumes "hw_ok (world s) (p # rest)" "kernel_ok (kernel (world s))" "inHandler s" "callOnInterrupt p = TimerDev"
  shows "call_back_ok (Timer_CallBack (s\<lparr>pending := rest\<rparr>)) (s\<lparr>pending := rest\<rparr>)"
proof -
  have "Alarm_CallBack (s\<lparr>pending := rest\<rparr>)
      = Inr (s\<lparr>pending := rest, yieldOnReturn := (status s \<noteq> IdleMode \<or> yieldOnReturn s)\<rparr>)"
    using assms(3) by (cases s) (auto simp: Alarm_CallBack_def YieldOnReturn_def)
  then obtain y where y: "Alarm_CallBack (s\<lparr>pending := rest\<rparr>) = Inr (s\<lparr>pending := rest, yieldOnReturn := y\<rparr>)"
    by blast
  obtain s' where s': "Timer_SetInterrupt (s\<lparr>pending := rest, yieldOnReturn := y\<rparr>) = Inr s'"
    "schedules (s\<lparr>pending := rest, yieldOnReturn := y\<rparr>) s'" "kernel (world s') = kernel (world s)"
    "timer (world s') = timer (world s)" "disk (world s') = disk (world s)"
    "console (world s') = console (world s)" "network (world s') = network (world s)"
    "\<forall>d. waiting d (pending s') = waiting d rest + (if d = TimerDev \<and> \<not> disable (timer (world s)) then 1 else 0)"
    using Timer_SetInterrupt_run[of "s\<lparr>pending := rest, yieldOnReturn := y\<rparr>"] by auto
  have "schedules (s\<lparr>pending := rest\<rparr>) s'" using s'(2) by (simp add: schedules_def clock_def)
  moreover have "device_ok (world s') (pending s')"
    using assms s'(3-8) by (auto simp: device_ok_def hw_ok_def split: if_splits)
  ultimately show ?thesis using y s'(1) by (simp add: Timer_CallBack_def)
qed

lemma simple_CallBack_ok:
  assumes "hw_ok (world s) (p # rest)" "kernel_ok (kernel (world s))" "inHandler s" "level s = IntOff"
  shows "callOnInterrupt p = DiskDev \<Longrightarrow> call_back_ok (Disk_CallBack upcall (s\<lparr>pending := rest\<rparr>)) (s\<lparr>pending := rest\<rparr>)"
    and "callOnInterrupt p = ConsoleOutDev \<Longrightarrow> call_back_ok (ConsoleOutput_CallBack upcall (s\<lparr>pending := rest\<rparr>)) (s\<lparr>pending := rest\<rparr>)"
    and "callOnInterrupt p = NetOutDev \<Longrightarrow> call_back_ok (NetworkOutput_CallBack upcall (s\<lparr>pending := rest\<rparr>)) (s\<lparr>pending := rest\<rparr>)"
  unfolding Disk_CallBack_def ConsoleOutput_CallBack_def NetworkOutput_CallBack_def
  by (rule upcall_ok; use assms in \<open>auto simp: with_defs hw_ok_def schedules_def clock_def intro: exI[of _ "[]"] split: if_splits\<close>)+

lemma ConsoleInput_CallBack_ok:
  assumes "hw_ok (world s) (p # rest)" "kernel_ok (kernel (world s))" "inHandler s" "level s = IntOff"
    "callOnInterrupt p = ConsoleInDev"
  shows "call_back_ok (ConsoleInput_CallBack upcall (s\<lparr>pending := rest\<rparr>)) (s\<lparr>pending := rest\<rparr>)"
proof -
  let ?s = "s\<lparr>pending := rest\<rparr>"
  have inc: "incoming (console (world s)) = EOF_char" using assms(1,5) by (simp add: hw_ok_def split: if_splits)
  define t where "t = snd (poll_keyboard ?s)"
  have t: "pending t = rest" "stats t = stats s" "level t = IntOff" "inHandler t" "status t = status s" "cpu t = cpu s"
    "kernel (world t) = kernel (world s)" "hw_ok (world t) (p # rest)" "schedules ?s t"
    using assms by (auto simp: t_def poll_keyboard_def with_defs hw_ok_def schedules_def clock_def
        intro: exI[of _ "[]"] split: list.splits)
  have cases: "poll_keyboard ?s = (fst (poll_keyboard ?s), t)" by (simp add: t_def)
  show ?thesis
  proof (cases "fst (poll_keyboard ?s)")
    case NoKey
    have "device_ok (world t) (insert_by PendingCompare q rest)" if "callOnInterrupt q = ConsoleInDev" for q
      using t(7,8) assms(2,5) that by (auto simp: device_ok_def hw_ok_def split: if_splits)
    moreover obtain s' where "Schedule ConsoleInDev ConsoleTime ConsoleReadInt t = Inr s'" "schedules t s'" "world s' = world t"
      using schedules_Schedule[of ConsoleTime ConsoleInDev ConsoleReadInt t] by (auto simp: ConsoleTime_def)
    moreover have "\<exists>q. callOnInterrupt q = ConsoleInDev \<and> pending s' = insert_by PendingCompare q rest"
      using calculation(2) t(1) by (auto simp: Schedule_def Let_def outcome_simps intro!:
        exI[of _ "\<lparr>callOnInterrupt = ConsoleInDev, when = totalTicks (stats t) + ConsoleTime, int_type = ConsoleReadInt\<rparr>"])
    ultimately show ?thesis
      using NoKey cases inc t(9) schedules_trans[of ?s t s'] by (auto simp: ConsoleInput_CallBack_def)
  next
    case EndOfFile
    have "call_back_ok (upcall CharAvailClient t) ?s"
      using t assms(2,5) by (intro upcall_ok) (auto simp: hw_ok_def split: if_splits)
    then show ?thesis using EndOfFile cases inc by (simp add: ConsoleInput_CallBack_def)
  next
    case (Key c)
    let ?t = "with_stats (\<lambda>st. st\<lparr>numConsoleCharsRead := numConsoleCharsRead st + 1\<rparr>)
       (with_console (\<lambda>x. x\<lparr>incoming := c\<rparr>) t)"
    have "schedules ?s ?t" using t(9) by (simp add: schedules_def with_defs clock_def)
    then have "call_back_ok (upcall CharAvailClient ?t) ?s"
      using t assms(2,5) by (intro upcall_ok) (auto simp: hw_ok_def with_defs split: if_splits)
    then show ?thesis using Key cases inc by (simp add: ConsoleInput_CallBack_def)
  qed
qed

lemma NetworkInput_CallBack_ok:
  assumes "hw_ok (world s) (p # rest)" "kernel_ok (kernel (world s))" "inHandler s" "level s = IntOff"
    "callOnInterrupt p = NetInDev"
  shows "call_back_ok (NetworkInput_CallBack upcall (s\<lparr>pending := rest\<rparr>)) (s\<lparr>pending := rest\<rparr>)"
proof -
  let ?s = "s\<lparr>pending := rest\<rparr>"
  obtain s1 where s1: "Schedule NetInDev NetworkTime NetworkRecvInt ?s = Inr s1" "schedules ?s s1" "world s1 = world s"
    using schedules_Schedule[of NetworkTime NetInDev NetworkRecvInt ?s] by (auto simp: NetworkTime_def)
  have hw1: "hw_ok (world s1) (pending s1)" and in1: "inHandler s1" "level s1 = IntOff"
    using assms s1(1) by (auto simp: Schedule_def Let_def outcome_simps hw_ok_def split: if_splits)
  have ok1: "device_ok (world s1) (pending s1)" using hw1 s1(3) assms(2) by (simp add: device_ok_def)
  define t where "t = snd (poll_socket s1)"
  have t: "inHandler t" "level t = IntOff" "kernel (world t) = kernel (world s)" "hw_ok (world t) (pending t)" "schedules ?s t"
    "hostName (network (world t)) = hostName (network (world s))"
    "\<And>b. fst (poll_socket s1) = Some b \<Longrightarrow> packet_ok (hostName (network (world s))) b"
    using hw1 in1 s1(2,3)
    by (auto simp: t_def poll_socket_def with_defs hw_ok_def schedules_def clock_def split: list.splits)
  have cases: "poll_socket s1 = (fst (poll_socket s1), t)" by (simp add: t_def)
  show ?thesis
  proof (cases "hdr_length (inHdr (network (world s1))) = 0 \<and> fst (poll_socket s1) \<noteq> None")
    case False
    moreover have "device_ok (world t) (pending t)" using t(3,4) assms(2) by (simp add: device_ok_def)
    ultimately show ?thesis using s1(1,2) ok1 cases t(5)
      by (cases "fst (poll_socket s1)") (auto simp: NetworkInput_CallBack_def)
  next
    case True
    then obtain b where b: "poll_socket s1 = (Some b, t)" using cases by (cases "fst (poll_socket s1)") auto
    let ?h = "header_of b"
    let ?t = "with_stats (\<lambda>st. st\<lparr>numPacketsRecvd := numPacketsRecvd st + 1\<rparr>)
        (with_network (\<lambda>n. n\<lparr>inbox := take (unat (hdr_length ?h)) (drop sizeof_PacketHeader b)
                                          @ drop (unat (hdr_length ?h)) (inbox n)\<rparr>)
          (with_network (\<lambda>n. n\<lparr>inHdr := ?h\<rparr>) t))"
    have ok: "packet_ok (hostName (network (world s))) b" using t(7) b by simp
    have "schedules ?s ?t" using t(5) by (simp add: schedules_def with_defs clock_def)
    then have "call_back_ok (upcall PacketAvailClient ?t) ?s"
      using t assms(2) by (intro upcall_ok) (auto simp: hw_ok_def with_defs)
    then show ?thesis using True b ok s1(1) t(6)
      by (simp add: NetworkInput_CallBack_def received_whole packet_ok_def Let_def with_network_def)
  qed
qed

text \<open>Every device keeps the contract of an interrupt source.\<close>

lemma device_CallBack_ok:
  assumes "pending s = p # rest" "device_ok (world s) (pending s)" "inHandler s" "level s = IntOff"
  shows "call_back_ok (device_CallBack upcall (callOnInterrupt p) (s\<lparr>pending := rest\<rparr>)) (s\<lparr>pending := rest\<rparr>)"
  using assms Timer_CallBack_ok simple_CallBack_ok ConsoleInput_CallBack_ok NetworkInput_CallBack_ok
  by (cases "callOnInterrupt p") (auto simp: device_ok_def)

end

sublocale kernel_clients \<subseteq> machine: interrupt_source "device_CallBack upcall" device_ok
  by unfold_locales (rule device_CallBack_ok)

section \<open>Disk requests\<close>

definition disk_head_ok :: "'k hw \<Rightarrow> bool" where
  "disk_head_ok s \<longleftrightarrow> 0 \<le> totalTicks (stats s) \<and> 0 \<le> lastSector (disk (world s))
     \<and> lastSector (disk (world s)) < NumSectors \<and> 0 \<le> bufferInit (disk (world s))"

definition sector_ok :: "int \<Rightarrow> bool" where
  "sector_ok n \<longleftrightarrow> 0 \<le> n \<and> n < NumSectors"

lemma TimeToSeek_run:
  assumes "disk_head_ok s" "sector_ok n" "TimeToSeek n s = (seek, rotation)"
  shows "0 \<le> seek" "seek \<le> (NumTracks - 1) * SeekTime" "0 \<le> rotation" "rotation < RotationTime"
    "(totalTicks (stats s) + seek + rotation) mod RotationTime = 0"
proof -
  let ?t = "totalTicks (stats s)"
  have tracks: "0 \<le> n div 32" "n div 32 < 32" "0 \<le> lastSector (disk (world s)) div 32" "lastSector (disk (world s)) div 32 < 32"
    using assms(1,2) by (auto simp: disk_head_ok_def sector_ok_def disk_sizes)
  have seek: "seek = \<bar>n div 32 - lastSector (disk (world s)) div 32\<bar> * 500"
    using assms by (auto simp: TimeToSeek_def Let_def c_div_nonneg disk_head_ok_def sector_ok_def disk_sizes SeekTime_def)
  then show "0 \<le> seek" "seek \<le> (NumTracks - 1) * SeekTime"
    using tracks by (simp_all add: disk_sizes SeekTime_def abs_le_iff)
  then have rot: "rotation = (if (?t + seek) mod 500 > 0 then 500 - (?t + seek) mod 500 else 0)"
    using assms(1,3) by (auto simp: TimeToSeek_def Let_def c_mod_nonneg disk_head_ok_def RotationTime_def)
  then show "0 \<le> rotation" "rotation < RotationTime" by (auto simp: RotationTime_def)
  show "(?t + seek + rotation) mod RotationTime = 0"
  proof (cases "(?t + seek) mod 500 > 0")
    case True
    then have "?t + seek + rotation = (?t + seek) div 500 * 500 + 500"
      using rot minus_mod_eq_div_mult[of "?t + seek" 500] by simp
    then show ?thesis by (simp add: RotationTime_def)
  next
    case False
    then show ?thesis using rot by (simp add: RotationTime_def not_less order.antisym)
  qed
qed

lemma ModuloDiff_run:
  assumes "0 \<le> a" "0 \<le> b"
  shows "0 \<le> ModuloDiff a b" "ModuloDiff a b < SectorsPerTrack"
    "(b + ModuloDiff a b) mod SectorsPerTrack = a mod SectorsPerTrack"
proof -
  have "ModuloDiff a b = (a mod 32 - b mod 32 + 32) mod 32"
    using assms by (simp add: ModuloDiff_def Let_def c_mod_nonneg SectorsPerTrack_def)
  then show "0 \<le> ModuloDiff a b" "ModuloDiff a b < SectorsPerTrack"
    "(b + ModuloDiff a b) mod SectorsPerTrack = a mod SectorsPerTrack"
    by (simp_all add: SectorsPerTrack_def mod_simps)
qed

lemma ComputeLatency_run:
  assumes "disk_head_ok s" "sector_ok n"
  shows "RotationTime \<le> ComputeLatency n writing s"
    and "ComputeLatency n writing s < (NumTracks - 1) * SeekTime + RotationTime + SectorsPerTrack * RotationTime"
    and "ComputeLatency n writing s = RotationTime \<and> \<not> writing \<or>
         (\<exists>k. totalTicks (stats s) + ComputeLatency n writing s = k * RotationTime
            \<and> (k - 1) mod SectorsPerTrack = n mod SectorsPerTrack)"
proof -
  obtain seek rotation where ts: "TimeToSeek n s = (seek, rotation)" by fastforce
  note r = TimeToSeek_run[OF assms ts]
  let ?after = "totalTicks (stats s) + seek + rotation"
  have after: "0 \<le> ?after" using r assms(1) by (simp add: disk_head_ok_def)
  define q where "q = ?after div RotationTime"
  have q: "?after = q * RotationTime" "0 \<le> q" using r(5) after by (auto simp: q_def RotationTime_def)
  have n: "0 \<le> n" using assms(2) by (simp add: sector_ok_def)
  note d = ModuloDiff_run[OF n q(2)]
  have two: "ComputeLatency n writing s = RotationTime \<and> \<not> writing \<or>
      ComputeLatency n writing s = seek + (rotation + ModuloDiff n q * RotationTime) + RotationTime"
    using after by (auto simp: ComputeLatency_def ts Let_def q_def c_div_nonneg RotationTime_def)
  then show "RotationTime \<le> ComputeLatency n writing s"
    "ComputeLatency n writing s < (NumTracks - 1) * SeekTime + RotationTime + SectorsPerTrack * RotationTime"
    using r(1-4) d(1,2) by (auto simp: RotationTime_def SeekTime_def disk_sizes)
  show "ComputeLatency n writing s = RotationTime \<and> \<not> writing \<or>
         (\<exists>k. totalTicks (stats s) + ComputeLatency n writing s = k * RotationTime
            \<and> (k - 1) mod SectorsPerTrack = n mod SectorsPerTrack)"
    using two
  proof
    assume "ComputeLatency n writing s = seek + (rotation + ModuloDiff n q * RotationTime) + RotationTime"
    then have "totalTicks (stats s) + ComputeLatency n writing s = (q + ModuloDiff n q + 1) * RotationTime"
      using q(1) by (simp add: algebra_simps)
    then show ?thesis using d(3) by (intro disjI2 exI[of _ "q + ModuloDiff n q + 1"]) simp
  qed (rule disjI1)
qed

lemma UpdateLast_frame:
  "stats (UpdateLast n s) = stats s" "pending (UpdateLast n s) = pending s"
  "platter (disk (world (UpdateLast n s))) = platter (disk (world s))"
  "active (disk (world (UpdateLast n s))) = active (disk (world s))"
  "lastSector (disk (world (UpdateLast n s))) = n"
  "kernel (world (UpdateLast n s)) = kernel (world s)" "console (world (UpdateLast n s)) = console (world s)"
  "network (world (UpdateLast n s)) = network (world s)" "timer (world (UpdateLast n s)) = timer (world s)"
  "level (UpdateLast n s) = level s" "inHandler (UpdateLast n s) = inHandler s"
  "cpu (UpdateLast n s) = cpu s" "status (UpdateLast n s) = status s"
  by (auto simp: UpdateLast_def with_disk_def split: prod.splits)

lemma ComputeLatency_pos: "disk_head_ok s \<Longrightarrow> sector_ok n \<Longrightarrow> 0 < ComputeLatency n writing s"
  using ComputeLatency_run(1)[of s n writing] by (simp add: RotationTime_def)

definition disk_done :: "'k hw \<Rightarrow> 'k hw" where
  "disk_done s = with_disk (\<lambda>d. d\<lparr>active := False\<rparr>) s"

lemma head_ok_UpdateLast: "disk_head_ok s \<Longrightarrow> sector_ok n \<Longrightarrow> disk_head_ok (UpdateLast n s)"
proof -
  assume a: "disk_head_ok s" "sector_ok n"
  obtain seek rotation where ts: "TimeToSeek n s = (seek, rotation)" by fastforce
  then show ?thesis using a TimeToSeek_run[OF a ts]
    by (auto simp: UpdateLast_def disk_head_ok_def sector_ok_def with_disk_def)
qed

lemma WriteRequest_run:
  assumes "disk_head_ok s" "sector_ok n" "\<not> active (disk (world s))" "length data = SectorSize"
  shows "\<exists>s'. WriteRequest n data s = Inr s' \<and> active (disk (world s')) \<and> disk_head_ok s'
    \<and> platter (disk (world s')) = platter (disk (world (write_platter (nat n) data s)))
    \<and> (\<exists>p \<in> set (pending s'). callOnInterrupt p = DiskDev
         \<and> when p = totalTicks (stats s) + ComputeLatency n True s)"
proof -
  let ?s = "with_stats (\<lambda>st. st\<lparr>numDiskWrites := numDiskWrites st + 1\<rparr>)
    (UpdateLast n (with_disk (\<lambda>d. d\<lparr>active := True\<rparr>) (write_platter (nat n) data s)))"
  have "disk_head_ok (with_disk (\<lambda>d. d\<lparr>active := True\<rparr>) (write_platter (nat n) data s))"
    using assms(1) by (simp add: disk_head_ok_def with_defs write_platter_def)
  then have "disk_head_ok ?s" using head_ok_UpdateLast assms(2)
    by (fastforce simp: disk_head_ok_def with_stats_def)
  moreover have "WriteRequest n data s = Schedule DiskDev (ComputeLatency n True s) DiskInt ?s"
    using assms by (simp add: WriteRequest_def Let_def sector_ok_def)
  ultimately show ?thesis using ComputeLatency_pos[OF assms(1,2), of True]
    by (auto simp: Schedule_def Let_def disk_head_ok_def with_stats_def UpdateLast_frame with_disk_def
        write_platter_def)
qed

lemma ReadRequest_run:
  assumes "disk_head_ok s" "sector_ok n" "\<not> active (disk (world s))"
  shows "\<exists>s'. ReadRequest n s = Inr (read_platter (nat n) s, s') \<and> active (disk (world s')) \<and> disk_head_ok s'
    \<and> platter (disk (world s')) = platter (disk (world s))
    \<and> (\<exists>p \<in> set (pending s'). callOnInterrupt p = DiskDev
         \<and> when p = totalTicks (stats s) + ComputeLatency n False s)"
proof -
  let ?s = "with_stats (\<lambda>st. st\<lparr>numDiskReads := numDiskReads st + 1\<rparr>)
    (UpdateLast n (with_disk (\<lambda>d. d\<lparr>active := True\<rparr>) s))"
  have "disk_head_ok (with_disk (\<lambda>d. d\<lparr>active := True\<rparr>) s)"
    using assms(1) by (simp add: disk_head_ok_def with_defs)
  then have "disk_head_ok ?s" using head_ok_UpdateLast assms(2)
    by (fastforce simp: disk_head_ok_def with_stats_def)
  moreover have "ReadRequest n s = bind_result (Schedule DiskDev (ComputeLatency n False s) DiskInt ?s)
      (\<lambda>s'. Inr (read_platter (nat n) s, s'))"
    using assms by (simp add: ReadRequest_def Let_def sector_ok_def)
  ultimately show ?thesis using ComputeLatency_pos[OF assms(1,2), of False]
    by (auto simp: Schedule_def Let_def disk_head_ok_def with_stats_def UpdateLast_frame with_disk_def)
qed

lemma busy_disk_asserts:
  "active (disk (world s)) \<Longrightarrow> ReadRequest n s = Inl AssertFailure \<and> WriteRequest n data s = Inl AssertFailure"
  by (simp add: ReadRequest_def WriteRequest_def)

lemma read_write_platter:
  assumes "length data = SectorSize"
  shows "read_platter m (write_platter n data s) = (if m = n then data else read_platter m s)"
proof -
  have "read_platter m (write_platter n data s) ! i = (if m = n then data else read_platter m s) ! i"
    if "i < SectorSize" for i
  proof -
    have "SectorSize * n \<le> SectorSize * m + i \<and> SectorSize * m + i < SectorSize * n + SectorSize \<longleftrightarrow> m = n"
      using that by (auto simp: SectorSize_def)
    then show ?thesis using that by (auto simp: read_platter_def write_platter_def with_disk_def)
  qed
  then show ?thesis using assms by (intro nth_equalityI) (auto simp: read_platter_def)
qed

lemma length_word_bytes [simp]: "length (word_bytes w) = 4"
  by (simp add: word_bytes_def)

lemma header_round_trip: "header_of (header_bytes h @ rest) = h"
  by (cases h) (simp add: header_of_def header_bytes_def word_at_def word_bytes_def
      le_word32_of_bytes[unfolded One_nat_def])

lemma length_header_bytes [simp]: "length (header_bytes h) = sizeof_PacketHeader"
  by (simp add: header_bytes_def sizeof_PacketHeader_def)

lemma schedule_run:
  "0 < n \<Longrightarrow> Schedule c n k s =
     Inr (s\<lparr>pending := insert_by PendingCompare \<lparr>callOnInterrupt = c, when = totalTicks (stats s) + n, int_type = k\<rparr> (pending s)\<rparr>)"
  by (simp add: Schedule_def Let_def)

lemma receive_run:
  assumes "hostName (network (world r)) = hdr_to hdr" "hdr_length (inHdr (network (world r))) = 0"
    "wire_in (network (world r)) = Some b # es" "0 < hdr_length hdr" "unat (hdr_length hdr) \<le> MaxPacketSize"
    "length b = MaxWireSize" "header_of b = hdr" "take (unat (hdr_length hdr)) (drop sizeof_PacketHeader b) = msg"
    "length msg = unat (hdr_length hdr)"
  obtains r' where "NetworkInput_CallBack (\<lambda>c s. Inr s) r = Inr r'" "fst (NetworkInput_Receive r') = (hdr, msg)"
    "kernel (world r') = kernel (world r)"
proof -
  obtain r1 where r1: "Schedule NetInDev NetworkTime NetworkRecvInt r = Inr r1" "world r1 = world r"
    by (auto simp: schedule_run NetworkTime_def)
  let ?r = "with_stats (\<lambda>st. st\<lparr>numPacketsRecvd := numPacketsRecvd st + 1\<rparr>)
    (with_network (\<lambda>n. n\<lparr>inbox := msg @ drop (unat (hdr_length hdr)) (inbox n)\<rparr>)
      (with_network (\<lambda>n. n\<lparr>inHdr := hdr\<rparr>) (snd (poll_socket r1))))"
  have "NetworkInput_CallBack (\<lambda>c s. Inr s) r = Inr ?r"
    unfolding NetworkInput_CallBack_def r1(1) bind_result_simps
    using assms r1(2) by (simp add: received_whole poll_socket_def with_defs Let_def)
  moreover have "fst (NetworkInput_Receive ?r) = (hdr, msg)"
    using assms(4,9) by (auto simp: NetworkInput_Receive_def with_defs Let_def)
  moreover have "kernel (world ?r) = kernel (world r)" using assms(3) r1 by (simp add: with_defs poll_socket_def)
  ultimately show thesis by (rule that)
qed

lemma Send_run:
  assumes "\<not> sendBusy (network (world s))" "0 < hdr_length hdr" "unat (hdr_length hdr) \<le> MaxPacketSize"
    "hdr_from hdr = hostName (network (world s))" "unat (hdr_length hdr) \<le> length data"
    "real_of_int (uint (rand_stream (world s) (rand_pos (world s)) mod 100)) < chanceToWork (network (world s)) * 100"
  obtains s' b where "NetworkOutput_Send hdr data s = Inr s'" "length b = MaxWireSize" "header_of b = hdr"
    "take (unat (hdr_length hdr)) (drop sizeof_PacketHeader b) = take (unat (hdr_length hdr)) data"
    "wire_out (network (world s')) = wire_out (network (world s)) @ [(hdr_to hdr, b)]"
proof -
  let ?n = "unat (hdr_length hdr)"
  let ?used = "header_bytes hdr @ take ?n data"
  let ?b = "?used @ map (garbage (world s)) [length ?used..<MaxWireSize]"
  obtain s' where s': "NetworkOutput_Send hdr data s = Inr s'"
    "wire_out (network (world s')) = wire_out (network (world s)) @ [(hdr_to hdr, ?b)]"
    using assms by (auto simp: NetworkOutput_Send_def schedule_run NetworkTime_def RandomNumber_def Let_def
        with_network_def not_le)
  have len: "length ?b = MaxWireSize"
    using assms(3,5) by (simp add: MaxPacketSize_def MaxWireSize_def sizeof_PacketHeader_def)
  have hdr: "header_of ?b = hdr" by (simp only: append_assoc header_round_trip)
  have body: "take ?n (drop sizeof_PacketHeader ?b) = take ?n data" using assms(5) by simp
  show thesis by (rule that[OF s'(1) len hdr body s'(2)])
qed

text \<open>\<open>Send\<close> tests \<open>sendBusy\<close> and \<open>CallBack\<close> clears it, but nothing ever sets it.\<close>

lemma Send_leaves_idle:
  "NetworkOutput_Send hdr data s = Inr s' \<Longrightarrow> \<not> sendBusy (network (world s'))"
  by (auto simp: NetworkOutput_Send_def outcome_simps Schedule_def RandomNumber_def with_network_def Let_def
      split: if_splits)

text \<open>A keyboard byte of value 255 is taken for \<open>EOF\<close>: the reader is not told and polling stops.\<close>

lemma byte_255_is_EOF:
  assumes "incoming (console (world s)) = 255"
  shows "\<exists>s'. ConsoleInput_GetChar s = Inr (255, s') \<and> pending s' = pending s"
  using assms by (simp add: ConsoleInput_GetChar_def EOF_char_def with_console_def)

definition fresh_hardware :: "'k \<Rightarrow> 'k hardware" where
  "fresh_hardware k =
     \<lparr>timer = \<lparr>randomize = False, disable = True\<rparr>,
      disk = \<lparr>platter = (\<lambda>_. 0), active = False, lastSector = 0, bufferInit = 0\<rparr>,
      console = \<lparr>keyboard = [], incoming = EOF_char, display = [], putBusy = False\<rparr>,
      network = \<lparr>hostName = 0, wire_in = [], inHdr = \<lparr>hdr_to = 0, hdr_from = 0, hdr_length = 0\<rparr>,
        inbox = replicate MaxPacketSize 0, chanceToWork = 1, sendBusy = False, wire_out = []\<rparr>,
      rand_stream = (\<lambda>_. 0), rand_pos = 0, garbage = (\<lambda>_. 0), kernel = k\<rparr>"



text \<open>The disk stores sectors: a write of a whole sector to an idle disk is accepted and
  announces its end after the computed latency, every further request is refused by an assertion
  until then, and afterwards a read of that sector returns the bytes written while a read of any
  other sector returns what it returned before.\<close>

theorem disk_read_back:
  assumes "disk_head_ok s" "sector_ok n" "sector_ok m" "\<not> active (disk (world s))" "length data = SectorSize"
  shows "\<exists>s1. WriteRequest n data s = Inr s1
    \<and> (\<exists>p \<in> set (pending s1). callOnInterrupt p = DiskDev
         \<and> when p = totalTicks (stats s) + ComputeLatency n True s)
    \<and> ReadRequest m s1 = Inl AssertFailure \<and> WriteRequest m data s1 = Inl AssertFailure
    \<and> (\<exists>s2. ReadRequest m (disk_done s1) = Inr (if m = n then data else read_platter (nat m) s, s2))"
proof -
  obtain s1 where s1: "WriteRequest n data s = Inr s1" "active (disk (world s1))" "disk_head_ok s1"
    "platter (disk (world s1)) = platter (disk (world (write_platter (nat n) data s)))"
    "\<exists>p \<in> set (pending s1). callOnInterrupt p = DiskDev \<and> when p = totalTicks (stats s) + ComputeLatency n True s"
    using WriteRequest_run[OF assms(1,2,4,5)] by blast
  have "disk_head_ok (disk_done s1)" "\<not> active (disk (world (disk_done s1)))"
    using s1(3) by (simp_all add: disk_head_ok_def disk_done_def with_disk_def)
  moreover have "read_platter (nat m) (disk_done s1) = (if m = n then data else read_platter (nat m) s)"
    using read_write_platter[OF assms(5), of "nat m" "nat n" s] s1(4) assms(2,3)
    by (auto simp: disk_done_def with_disk_def read_platter_def sector_ok_def nat_eq_iff2)
  ultimately show ?thesis
    using s1 busy_disk_asserts[OF s1(2)] ReadRequest_run[OF _ assms(3), of "disk_done s1"] by auto
qed

theorem disk_read_back_witness:
  "\<exists>s1 s2. WriteRequest 5 (replicate 128 7) (Interrupt_new None (fresh_hardware ())) = Inr s1
     \<and> ReadRequest 5 (disk_done s1) = Inr (replicate 128 7, s2)"
proof -
  have "disk_head_ok (Interrupt_new None (fresh_hardware ()) :: unit hw)" "sector_ok 5"
    "\<not> active (disk (world (Interrupt_new None (fresh_hardware ()) :: unit hw)))"
    "length (replicate 128 (7 :: u8)) = SectorSize"
    by (simp_all add: disk_head_ok_def sector_ok_def Interrupt_new_def Statistics_new_def fresh_hardware_def disk_sizes)
  from disk_read_back[OF this(1,2,2,3,4)] show ?thesis by auto
qed

text \<open>C30: A packet that the network does not lose arrives as it was sent: \<open>Send\<close> puts one datagram
  of exactly \<open>MaxWireSize\<close> bytes on the wire for the addressed host, and when that host polls its
  socket and finds it, \<open>Receive\<close> returns the header and the bytes of the message.\<close>

theorem packet_delivery:
  assumes "\<not> sendBusy (network (world s))" "0 < hdr_length hdr" "unat (hdr_length hdr) \<le> MaxPacketSize"
    "hdr_from hdr = hostName (network (world s))" "unat (hdr_length hdr) \<le> length data"
    "real_of_int (uint (rand_stream (world s) (rand_pos (world s)) mod 100)) < chanceToWork (network (world s)) * 100"
  shows "\<exists>s' b. NetworkOutput_Send hdr data s = Inr s' \<and> length b = MaxWireSize
    \<and> wire_out (network (world s')) = wire_out (network (world s)) @ [(hdr_to hdr, b)]
    \<and> (\<forall>r es. hostName (network (world r)) = hdr_to hdr \<longrightarrow> hdr_length (inHdr (network (world r))) = 0 \<longrightarrow>
         wire_in (network (world r)) = Some b # es \<longrightarrow>
         (\<exists>r'. NetworkInput_CallBack (\<lambda>c s. Inr s) r = Inr r'
           \<and> fst (NetworkInput_Receive r') = (hdr, take (unat (hdr_length hdr)) data)))"
proof -
  let ?n = "unat (hdr_length hdr)"
  obtain s' b where b: "NetworkOutput_Send hdr data s = Inr s'" "length b = MaxWireSize" "header_of b = hdr"
    "take ?n (drop sizeof_PacketHeader b) = take ?n data"
    "wire_out (network (world s')) = wire_out (network (world s)) @ [(hdr_to hdr, b)]"
    by (rule Send_run[OF assms])
  have "\<exists>r'. NetworkInput_CallBack (\<lambda>c s. Inr s) r = Inr r' \<and> fst (NetworkInput_Receive r') = (hdr, take ?n data)"
    if "hostName (network (world r)) = hdr_to hdr" "hdr_length (inHdr (network (world r))) = 0"
      "wire_in (network (world r)) = Some b # es" for r :: "'b hw" and es
    by (rule receive_run[OF that assms(2,3) b(2,3,4)]) (use assms(5) in auto)
  then show ?thesis using b(1,2,5) by blast
qed

theorem packet_delivery_witness:
  "\<exists>s'. NetworkOutput_Send \<lparr>hdr_to = 1, hdr_from = 0, hdr_length = 3\<rparr> [1, 2, 3] (Interrupt_new None (fresh_hardware ())) = Inr s'"
  using packet_delivery[of "Interrupt_new None (fresh_hardware ())" "\<lparr>hdr_to = 1, hdr_from = 0, hdr_length = 3\<rparr>" "[1, 2, 3]"]
  by (auto simp: Interrupt_new_def fresh_hardware_def MaxPacketSize_def MaxWireSize_def sizeof_PacketHeader_def)

end
