(* ===== verification/Threads.thy ===== *)
theory Threads imports Devices begin

text \<open>
  threads/thread.cc, threads/scheduler.cc and threads/synch.cc. Nachos threads run one at a time on
  the simulator and switch only inside \<open>SWITCH\<close>, so between two switches a piece of kernel code is
  atomic, except that it may be pre-empted where it turns interrupts on (there the clock ticks). The
  model runs the code of a thread as a list of \<open>task\<close>s, the rest of its control flow: what the real
  stack of the thread holds. A call of a routine is a task; its step does what the routine does up
  to the next call, switch or tick, and leaves the rest of the routine, with its local variables
  (\<open>oldLevel\<close>), as tasks. \<open>kernel_step\<close> runs the first task of the current thread. The code around
  these routines (test drivers, system calls, user instructions) is the parameter \<open>prog\<close>: a
  piece of code changes the state up to the next call of such a routine, and says which it calls.
\<close>

section \<open>State\<close>

datatype ThreadStatus = JUST_CREATED | RUNNING | READY | BLOCKED

text \<open>Pieces of code: a procedure, the exception handler, and the rest of a piece of code after a call,
  with the place where it goes on and its local variables.\<close>

datatype code = Proc nat | Handler ExceptionType | Continue nat "int list"

text \<open>The calls kernel code makes, and the points inside them where a thread can be switched out or
  pre-empted. \<open>Sem_P i r\<close> is \<open>P\<close> of semaphore \<open>i\<close>; \<open>r\<close> says which lock it is acquired for, if any.
  \<open>Shutdown\<close> is a call of \<open>Interrupt::Halt\<close>.\<close>

datatype task =
    Sem_P nat "nat option" | Sem_V nat | Acquire nat | Release nat
  | Wait nat nat | Signal nat nat | Broadcast nat nat
  | Yield | Fork code | Finish | Tick | Shutdown | Code code
  | Thread_Begin | After_Switch | Dispatch bool | Restore_Level IntStatus | Restore_Status MachineStatus
  | P_loop nat IntStatus "nat option" | Set_Holder nat | Delete_Semaphore nat

record address_space =
  spacePages :: "TranslationEntry list"
  numPages :: u32

record thread =
  thread_status :: ThreadStatus
  continuation :: "task list"
  userRegisters :: "nat \<Rightarrow> u32"
  space :: "address_space option"

record semaphore =
  "value" :: int
  waiters :: "nat list"

record lock =
  lock_semaphore :: nat
  lockHolder :: "nat option"

text \<open>Threads, semaphores, locks and conditions are objects at addresses; \<open>None\<close> is memory that was
  never allocated or has been deleted. \<open>client_semaphore\<close> gives the semaphore a device callback of
  the kernel signals (\<open>SynchDisk::CallBack\<close> and its like).\<close>

record 'u kernel =
  threads :: "nat \<Rightarrow> thread option"
  next_thread :: nat
  currentThread :: nat
  readyList :: "nat list"
  toBeDestroyed :: "nat option"
  semaphores :: "nat \<Rightarrow> semaphore option"
  next_semaphore :: nat
  locks :: "nat \<Rightarrow> lock option"
  conditions :: "nat \<Rightarrow> nat list option"
  client_semaphore :: "client \<Rightarrow> nat"
  shared :: 'u

type_synonym 'u system = "'u kernel hw"

abbreviation kern :: "'u system \<Rightarrow> 'u kernel" where "kern s \<equiv> kernel (world s)"

definition upd_kernel :: "('u kernel \<Rightarrow> 'u kernel) \<Rightarrow> 'u system \<Rightarrow> 'u system" where
  "upd_kernel f s = set_kernel (f (kern s)) s"

definition upd_thread :: "nat \<Rightarrow> (thread \<Rightarrow> thread) \<Rightarrow> 'u kernel \<Rightarrow> 'u kernel" where
  "upd_thread t f k = k\<lparr>threads := (threads k)(t := map_option f (threads k t))\<rparr>"

definition upd_semaphore :: "nat \<Rightarrow> (semaphore \<Rightarrow> semaphore) \<Rightarrow> 'u kernel \<Rightarrow> 'u kernel" where
  "upd_semaphore i f k = k\<lparr>semaphores := (semaphores k)(i := map_option f (semaphores k i))\<rparr>"

definition get :: "'a option \<Rightarrow> 'a result" where
  "get x = (case x of None \<Rightarrow> Inl NullPointer | Some v \<Rightarrow> Inr v)"

text \<open>The tasks \<open>ts\<close> are what the current thread does next, before the rest of its context.\<close>

definition push :: "task list \<Rightarrow> 'u kernel \<Rightarrow> 'u kernel" where
  "push ts k = upd_thread (currentThread k) (\<lambda>th. th\<lparr>continuation := ts @ continuation th\<rparr>) k"

text \<open>\<open>List::Append\<close> of lib/list.cc asserts that the item is not on the list (theory Linked\_List).\<close>

definition append_new :: "'a \<Rightarrow> 'a list \<Rightarrow> 'a list result" where
  "append_new x xs = c_assert (x \<notin> set xs) (Inr (xs @ [x]))"

section \<open>Scheduler\<close>

definition ReadyToRun :: "nat \<Rightarrow> 'u system \<Rightarrow> 'u system result" where
  "ReadyToRun t s =
     c_assert (level s = IntOff)
      (bind_result (get (threads (kern s) t)) (\<lambda>_.
       bind_result (append_new t (readyList (kern s))) (\<lambda>rl.
       Inr (upd_kernel (\<lambda>k. (upd_thread t (\<lambda>th. th\<lparr>thread_status := READY\<rparr>) k)\<lparr>readyList := rl\<rparr>) s))))"

definition FindNextToRun :: "'u system \<Rightarrow> (nat option \<times> 'u system) result" where
  "FindNextToRun s =
     c_assert (level s = IntOff)
      (case readyList (kern s) of
         [] \<Rightarrow> Inr (None, s)
       | t # ts \<Rightarrow> Inr (Some t, upd_kernel (\<lambda>k. k\<lparr>readyList := ts\<rparr>) s))"

definition CheckToBeDestroyed :: "'u system \<Rightarrow> 'u system result" where
  "CheckToBeDestroyed s =
     (case toBeDestroyed (kern s) of
        None \<Rightarrow> Inr s
      | Some t \<Rightarrow>
          c_assert (t \<noteq> currentThread (kern s))
            (Inr (upd_kernel (\<lambda>k. k\<lparr>threads := (threads k)(t := None), toBeDestroyed := None\<rparr>) s)))"

text \<open>\<open>SaveUserState\<close> and \<open>RestoreUserState\<close> copy the registers; \<open>AddrSpace::SaveState\<close> does nothing,
  and \<open>RestoreState\<close> hands the machine the page table of the space. The machine works on that very
  table, so what it did to it (the use and dirty bits) is in the space when the thread is switched out.\<close>

definition SaveUserState :: "machine \<Rightarrow> thread \<Rightarrow> thread" where
  "SaveUserState m th = th\<lparr>userRegisters := (\<lambda>i. if i < NumTotalRegs then registers m i else userRegisters th i)\<rparr>"

definition RestoreUserState :: "thread \<Rightarrow> machine \<Rightarrow> machine" where
  "RestoreUserState th m = m\<lparr>registers := (\<lambda>i. if i < NumTotalRegs then userRegisters th i else registers m i)\<rparr>"

definition share_page_table :: "machine \<Rightarrow> address_space \<Rightarrow> address_space" where
  "share_page_table m sp = (case pageTable m of Some pt \<Rightarrow> sp\<lparr>spacePages := pt\<rparr> | None \<Rightarrow> sp)"

definition RestoreState :: "address_space \<Rightarrow> machine \<Rightarrow> machine" where
  "RestoreState sp m = m\<lparr>pageTable := Some (spacePages sp), pageTableSize := numPages sp\<rparr>"

definition save_user :: "machine \<Rightarrow> thread \<Rightarrow> thread" where
  "save_user m th = (case space th of
       None \<Rightarrow> th
     | Some sp \<Rightarrow> (SaveUserState m th)\<lparr>space := Some (share_page_table m sp)\<rparr>)"

definition save_current :: "'u system \<Rightarrow> 'u system result" where
  "save_current s =
     bind_result (get (threads (kern s) (currentThread (kern s)))) (\<lambda>th.
       if space th = None then Inr s
       else bind_result (get (cpu s)) (\<lambda>m.
         Inr (upd_kernel (\<lambda>k. upd_thread (currentThread k) (save_user m) k) s)))"

definition restore_current :: "'u system \<Rightarrow> 'u system result" where
  "restore_current s =
     bind_result (get (threads (kern s) (currentThread (kern s)))) (\<lambda>th.
       case space th of
         None \<Rightarrow> Inr s
       | Some sp \<Rightarrow> bind_result (get (cpu s)) (\<lambda>m.
           Inr (s\<lparr>cpu := Some (RestoreState sp (RestoreUserState th m))\<rparr>)))"

text \<open>\<open>Run\<close> up to \<open>SWITCH\<close>, after which the next thread runs; what \<open>Run\<close> does when \<open>SWITCH\<close> comes
  back to the old thread is its task \<open>After_Switch\<close>.\<close>

definition Run :: "nat \<Rightarrow> bool \<Rightarrow> 'u system \<Rightarrow> 'u system result" where
  "Run next finishing s =
     c_assert (level s = IntOff)
      (c_assert (finishing \<longrightarrow> toBeDestroyed (kern s) = None)
       (bind_result (save_current (if finishing
            then upd_kernel (\<lambda>k. k\<lparr>toBeDestroyed := Some (currentThread k)\<rparr>) s else s)) (\<lambda>s.
        bind_result (get (threads (kern s) next)) (\<lambda>_.
        Inr (upd_kernel (\<lambda>k. upd_thread next (\<lambda>th. th\<lparr>thread_status := RUNNING\<rparr>)
               ((push [After_Switch] k)\<lparr>currentThread := next\<rparr>)) s)))))"

definition Resume :: "'u system \<Rightarrow> 'u system result" where
  "Resume s = c_assert (level s = IntOff) (bind_result (CheckToBeDestroyed s) restore_current)"

section \<open>Interrupt level and clock\<close>

text \<open>The body of a semaphore's \<open>V\<close> between turning interrupts off and restoring their level.\<close>

definition V_body :: "nat \<Rightarrow> 'u system \<Rightarrow> 'u system result" where
  "V_body i s =
     bind_result (get (semaphores (kern s) i)) (\<lambda>sem.
     bind_result
       (case waiters sem of
          [] \<Rightarrow> Inr s
        | t # ts \<Rightarrow> ReadyToRun t (upd_kernel (upd_semaphore i (\<lambda>x. x\<lparr>waiters := ts\<rparr>)) s))
       (\<lambda>s. Inr (upd_kernel (upd_semaphore i (\<lambda>x. x\<lparr>value := value x + 1\<rparr>)) s)))"

text \<open>A device callback signals the semaphore of its client; interrupts are off already, so \<open>V\<close>
  leaves their level alone.\<close>

definition kernel_upcall :: "'u kernel upcall" where
  "kernel_upcall c s = V_body (client_semaphore (kern s) c) s"

abbreviation run_devices :: "(device, 'u kernel hardware) callback" where
  "run_devices \<equiv> device_CallBack kernel_upcall"

text \<open>\<open>OneTick\<close>: the yield it may end with is a call of the current thread.\<close>

definition tick :: "'u system \<Rightarrow> 'u system result" where
  "tick s =
     bind_result (tick_and_check run_devices s) (\<lambda>s'.
       if yieldOnReturn s' then
         Inr (upd_kernel (push [Yield, Restore_Status (status s)]) (s'\<lparr>yieldOnReturn := False, status := SystemMode\<rparr>))
       else Inr s')"

definition set_level :: "IntStatus \<Rightarrow> 'u system \<Rightarrow> 'u system result" where
  "set_level now s =
     c_assert (now = IntOff \<or> \<not> inHandler s)
       (let old = level s; s = ChangeLevel old now s
        in if now = IntOn \<and> old = IntOff then tick s else Inr s)"

section \<open>The steps of the kernel\<close>

text \<open>A piece of other kernel code: what it does to the system up to the next call of a routine of
  threads or synch, and the routines it calls then.\<close>

type_synonym 'u program = "code \<Rightarrow> 'u system \<Rightarrow> ('u system \<times> task list) result"

definition run_code :: "'u program \<Rightarrow> code \<Rightarrow> 'u system \<Rightarrow> 'u system result" where
  "run_code prog c s = bind_result (prog c s) (\<lambda>(s, ts). Inr (upd_kernel (push ts) s))"

text \<open>The registers of a new thread are not initialised; nothing reads them before they are saved. The
  model takes them to be 0.\<close>

definition new_thread :: "code \<Rightarrow> thread" where
  "new_thread c = \<lparr>thread_status = JUST_CREATED, continuation = [Thread_Begin, Code c, Finish],
     userRegisters = (\<lambda>_. 0), space = None\<rparr>"

text \<open>\<open>Fork\<close> up to the restoring of the interrupt level, and the whole of it.\<close>

definition fork_ready :: "code \<Rightarrow> 'u system \<Rightarrow> 'u system result" where
  "fork_ready c s =
     (let t = next_thread (kern s);
          s = upd_kernel (\<lambda>k. k\<lparr>threads := (threads k)(t \<mapsto> new_thread c), next_thread := t + 1\<rparr>) s
      in ReadyToRun t (ChangeLevel (level s) IntOff s))"

definition Thread_Fork :: "code \<Rightarrow> 'u system \<Rightarrow> 'u system result" where
  "Thread_Fork c s =
     (let oldLevel = level s in
      bind_result (fork_ready c s) (\<lambda>s. Inr (upd_kernel (push [Restore_Level oldLevel]) s)))"

text \<open>\<open>Sleep\<close> up to its loop, which is the task \<open>Dispatch\<close>: each round looks for a ready thread, and
  idles when there is none.\<close>

definition Thread_Sleep :: "bool \<Rightarrow> 'u system \<Rightarrow> 'u system result" where
  "Thread_Sleep finishing s =
     c_assert (level s = IntOff)
      (Inr (upd_kernel (\<lambda>k. push [Dispatch finishing]
         (upd_thread (currentThread k) (\<lambda>th. th\<lparr>thread_status := BLOCKED\<rparr>) k)) s))"

definition Sleep_loop :: "bool \<Rightarrow> 'u system \<Rightarrow> 'u system progress result" where
  "Sleep_loop finishing s =
     bind_result (FindNextToRun s) (\<lambda>(next, s). case next of
       Some t \<Rightarrow> bind_result (Run t finishing s) (\<lambda>s. Inr (Running s))
     | None \<Rightarrow> Idle run_devices (upd_kernel (push [Dispatch finishing]) s))"

definition Thread_Finish :: "'u system \<Rightarrow> 'u system result" where
  "Thread_Finish s = Thread_Sleep True (ChangeLevel (level s) IntOff s)"

definition Thread_Yield :: "'u system \<Rightarrow> 'u system result" where
  "Thread_Yield s =
     (let oldLevel = level s; s = ChangeLevel oldLevel IntOff s in
      bind_result (FindNextToRun (upd_kernel (push [Restore_Level oldLevel]) s)) (\<lambda>(next, s). case next of
        None \<Rightarrow> Inr s
      | Some t \<Rightarrow> bind_result (ReadyToRun (currentThread (kern s)) s) (Run t False)))"

definition Semaphore_P :: "nat \<Rightarrow> nat option \<Rightarrow> 'u system \<Rightarrow> 'u system result" where
  "Semaphore_P i r s =
     (let oldLevel = level s in Inr (upd_kernel (push [P_loop i oldLevel r]) (ChangeLevel oldLevel IntOff s)))"

text \<open>One round of the loop of \<open>P\<close>; when \<open>P\<close> returns to \<open>Acquire\<close>, that still has to note the holder.\<close>

definition Semaphore_P_loop :: "nat \<Rightarrow> IntStatus \<Rightarrow> nat option \<Rightarrow> 'u system \<Rightarrow> 'u system result" where
  "Semaphore_P_loop i oldLevel r s =
     bind_result (get (semaphores (kern s) i)) (\<lambda>sem.
       if value sem = 0 then
         bind_result (append_new (currentThread (kern s)) (waiters sem)) (\<lambda>ws.
         Thread_Sleep False (upd_kernel (\<lambda>k. upd_semaphore i (\<lambda>x. x\<lparr>waiters := ws\<rparr>) (push [P_loop i oldLevel r] k)) s))
       else
         Inr (upd_kernel (\<lambda>k. push (Restore_Level oldLevel # (case r of None \<Rightarrow> [] | Some l \<Rightarrow> [Set_Holder l]))
            (upd_semaphore i (\<lambda>x. x\<lparr>value := value x - 1\<rparr>) k)) s))"

definition Semaphore_V :: "nat \<Rightarrow> 'u system \<Rightarrow> 'u system result" where
  "Semaphore_V i s =
     (let oldLevel = level s in
      bind_result (V_body i (ChangeLevel oldLevel IntOff s)) (\<lambda>s. Inr (upd_kernel (push [Restore_Level oldLevel]) s)))"

definition Lock_Acquire :: "nat \<Rightarrow> 'u system \<Rightarrow> 'u system result" where
  "Lock_Acquire l s =
     bind_result (get (locks (kern s) l)) (\<lambda>lk. Inr (upd_kernel (push [Sem_P (lock_semaphore lk) (Some l)]) s))"

definition set_holder :: "nat \<Rightarrow> nat option \<Rightarrow> 'u system \<Rightarrow> 'u system result" where
  "set_holder l h s =
     bind_result (get (locks (kern s) l)) (\<lambda>lk. Inr (upd_kernel (\<lambda>k. k\<lparr>locks := (locks k)(l \<mapsto> lk\<lparr>lockHolder := h\<rparr>)\<rparr>) s))"

text \<open>\<open>ASSERT(lock->IsHeldByCurrentThread(kernel->currentThread))\<close>\<close>

definition assert_held :: "nat \<Rightarrow> 'u system \<Rightarrow> 'a result \<Rightarrow> 'a result" where
  "assert_held l s r =
     bind_result (get (locks (kern s) l)) (\<lambda>lk. c_assert (lockHolder lk = Some (currentThread (kern s))) r)"

definition Lock_Release :: "nat \<Rightarrow> 'u system \<Rightarrow> 'u system result" where
  "Lock_Release l s =
     assert_held l s (bind_result (get (locks (kern s) l)) (\<lambda>lk.
       bind_result (set_holder l None s) (\<lambda>s. Inr (upd_kernel (push [Sem_V (lock_semaphore lk)]) s))))"

definition Condition_Wait :: "nat \<Rightarrow> nat \<Rightarrow> 'u system \<Rightarrow> 'u system result" where
  "Condition_Wait c l s =
     assert_held l s (bind_result (get (conditions (kern s) c)) (\<lambda>ws.
       let w = next_semaphore (kern s) in
       bind_result (append_new w ws) (\<lambda>ws.
       Inr (upd_kernel (\<lambda>k. push [Release l, Sem_P w None, Acquire l, Delete_Semaphore w]
             (k\<lparr>semaphores := (semaphores k)(w \<mapsto> \<lparr>value = 0, waiters = []\<rparr>), next_semaphore := w + 1,
                conditions := (conditions k)(c \<mapsto> ws)\<rparr>)) s))))"

definition Condition_Signal :: "nat \<Rightarrow> nat \<Rightarrow> 'u system \<Rightarrow> 'u system result" where
  "Condition_Signal c l s =
     assert_held l s (bind_result (get (conditions (kern s) c)) (\<lambda>ws. case ws of
       [] \<Rightarrow> Inr s
     | w # rest \<Rightarrow> Inr (upd_kernel (\<lambda>k. push [Sem_V w] (k\<lparr>conditions := (conditions k)(c \<mapsto> rest)\<rparr>)) s)))"

definition Condition_Broadcast :: "nat \<Rightarrow> nat \<Rightarrow> 'u system \<Rightarrow> 'u system result" where
  "Condition_Broadcast c l s =
     bind_result (get (conditions (kern s) c)) (\<lambda>ws.
       Inr (if ws = [] then s else upd_kernel (push [Signal c l, Broadcast c l]) s))"

fun exec :: "'u program \<Rightarrow> task \<Rightarrow> 'u system \<Rightarrow> 'u system progress result" where
  "exec prog (Dispatch finishing) s = Sleep_loop finishing s"
| "exec prog (Sem_P i r) s = bind_result (Semaphore_P i r s) (\<lambda>s. Inr (Running s))"
| "exec prog (P_loop i l r) s = bind_result (Semaphore_P_loop i l r s) (\<lambda>s. Inr (Running s))"
| "exec prog (Sem_V i) s = bind_result (Semaphore_V i s) (\<lambda>s. Inr (Running s))"
| "exec prog (Acquire l) s = bind_result (Lock_Acquire l s) (\<lambda>s. Inr (Running s))"
| "exec prog (Set_Holder l) s = bind_result (set_holder l (Some (currentThread (kern s))) s) (\<lambda>s. Inr (Running s))"
| "exec prog (Release l) s = bind_result (Lock_Release l s) (\<lambda>s. Inr (Running s))"
| "exec prog (Wait c l) s = bind_result (Condition_Wait c l s) (\<lambda>s. Inr (Running s))"
| "exec prog (Signal c l) s = bind_result (Condition_Signal c l s) (\<lambda>s. Inr (Running s))"
| "exec prog (Broadcast c l) s = bind_result (Condition_Broadcast c l s) (\<lambda>s. Inr (Running s))"
| "exec prog (Delete_Semaphore i) s = Inr (Running (upd_kernel (\<lambda>k. k\<lparr>semaphores := (semaphores k)(i := None)\<rparr>) s))"
| "exec prog Yield s = bind_result (Thread_Yield s) (\<lambda>s. Inr (Running s))"
| "exec prog (Fork c) s = bind_result (Thread_Fork c s) (\<lambda>s. Inr (Running s))"
| "exec prog Finish s = bind_result (Thread_Finish s) (\<lambda>s. Inr (Running s))"
| "exec prog Thread_Begin s =
     bind_result (CheckToBeDestroyed s) (\<lambda>s. bind_result (set_level IntOn s) (\<lambda>s. Inr (Running s)))"
| "exec prog After_Switch s = bind_result (Resume s) (\<lambda>s. Inr (Running s))"
| "exec prog (Restore_Level l) s = bind_result (set_level l s) (\<lambda>s. Inr (Running s))"
| "exec prog (Restore_Status st) s = Inr (Running (s\<lparr>status := st\<rparr>))"
| "exec prog Shutdown s = Inr (Halt s)"
| "exec prog Tick s = bind_result (tick s) (\<lambda>s. Inr (Running s))"
| "exec prog (Code c) s = bind_result (run_code prog c s) (\<lambda>s. Inr (Running s))"

definition pop :: "'u system \<Rightarrow> (task \<times> 'u system) result" where
  "pop s =
     bind_result (get (threads (kern s) (currentThread (kern s)))) (\<lambda>th.
       case continuation th of
         [] \<Rightarrow> Inl Uninitialised
       | t # ts \<Rightarrow> Inr (t, upd_kernel (\<lambda>k. upd_thread (currentThread k) (\<lambda>th. th\<lparr>continuation := ts\<rparr>) k) s))"

definition kernel_step :: "'u program \<Rightarrow> 'u system \<Rightarrow> 'u system progress result" where
  "kernel_step prog s = bind_result (pop s) (\<lambda>(t, s). exec prog t s)"

text \<open>A run of the kernel, and the states a run reaches.\<close>

inductive reachable :: "'u program \<Rightarrow> 'u system \<Rightarrow> 'u system \<Rightarrow> bool" for prog s0 where
  start: "reachable prog s0 s0"
| step: "reachable prog s0 s \<Longrightarrow> kernel_step prog s = Inr (Running s') \<Longrightarrow> reachable prog s0 s'"

end
