(* ===== verification/Thread_Invariants.thy ===== *)
theory Thread_Invariants imports Threads begin

text \<open>
  What every step of the kernel keeps: where each thread is (running, on the ready list, waiting on
  one semaphore, about to be destroyed), that its saved control flow fits the interrupt level it
  will be resumed at, and that no assertion of the scheduler or of the lists can fail. The interface
  of the devices is interpreted here on the semaphores the device callbacks signal.
\<close>

section \<open>Shapes of continuations\<close>

text \<open>Tasks that run with interrupts on.\<close>

fun on_task :: "task \<Rightarrow> bool" where
  "on_task Thread_Begin = False"
| "on_task After_Switch = False"
| "on_task (Dispatch fin) = False"
| "on_task (Restore_Level l) = False"
| "on_task (P_loop i l r) = False"
| "on_task _ = True"

text \<open>What code outside threads and synch may call.\<close>

fun client_task :: "task \<Rightarrow> bool" where
  "client_task (Sem_P i r) = (r = None)"
| "client_task (Set_Holder l) = False"
| "client_task (Delete_Semaphore i) = False"
| "client_task t = on_task t"

lemma client_on [simp]: "client_task t \<Longrightarrow> on_task t"
  by (cases t) auto

definition on_list :: "task list \<Rightarrow> bool" where
  "on_list ts \<longleftrightarrow> list_all on_task ts \<and> Finish \<in> set ts"

fun inner_off :: "task list \<Rightarrow> bool" where
  "inner_off (Restore_Level l # ts) = (l = IntOn \<and> on_list ts)"
| "inner_off (P_loop i l r # ts) = (l = IntOn \<and> on_list ts)"
| "inner_off ts = False"

fun off_list :: "task list \<Rightarrow> bool" where
  "off_list (After_Switch # ts) = inner_off ts"
| "off_list (Thread_Begin # ts) = on_list ts"
| "off_list (Dispatch fin # ts) =
     (if fin then list_all on_task ts else \<exists>i r ts'. ts = P_loop i IntOn r # ts' \<and> on_list ts')"
| "off_list ts = inner_off ts"

fun parked :: "task list \<Rightarrow> bool" where
  "parked (After_Switch # ts) = inner_off ts"
| "parked (Thread_Begin # ts) = on_list ts"
| "parked ts = False"

fun sleeping :: "task list \<Rightarrow> bool" where
  "sleeping (Dispatch fin # ts) = True"
| "sleeping ts = False"

fun switching :: "task list \<Rightarrow> bool" where
  "switching (After_Switch # ts) = True"
| "switching (Thread_Begin # ts) = True"
| "switching ts = False"

fun waits_for :: "nat \<Rightarrow> task list \<Rightarrow> bool" where
  "waits_for i (After_Switch # P_loop j l r # ts) = (i = j)"
| "waits_for i (Dispatch False # P_loop j l r # ts) = (i = j)"
| "waits_for i ts = False"

lemma on_off_disjoint: "on_list ts \<Longrightarrow> \<not> off_list ts"
  by (cases ts rule: off_list.cases) (auto simp: on_list_def)

lemma parked_off: "parked ts \<Longrightarrow> off_list ts"
  by (cases ts rule: parked.cases) auto

lemma inner_off_off: "inner_off ts \<Longrightarrow> off_list ts"
  by (cases ts rule: inner_off.cases) auto

lemma on_list_push: "list_all on_task ts \<Longrightarrow> on_list us \<Longrightarrow> on_list (ts @ us)"
  by (auto simp: on_list_def)

lemma on_list_pop: "on_list (t # ts) \<Longrightarrow> t \<noteq> Finish \<Longrightarrow> on_list ts"
  by (auto simp: on_list_def)

lemma list_all_client: "list_all client_task ts \<Longrightarrow> list_all on_task ts"
  by (auto simp: list_all_iff)

section \<open>The invariant of the kernel\<close>

definition ready_ok :: "'u kernel \<Rightarrow> bool" where
  "ready_ok k \<longleftrightarrow> distinct (readyList k) \<and> (\<forall>t \<in> set (readyList k). threads k t \<noteq> None)"

definition thread_ok :: "'u kernel \<Rightarrow> nat \<Rightarrow> thread \<Rightarrow> bool" where
  "thread_ok k t th \<longleftrightarrow>
     t < next_thread k \<and> thread_status th \<noteq> JUST_CREATED
   \<and> (thread_status th = READY \<longleftrightarrow> t \<in> set (readyList k))
   \<and> (thread_status th = RUNNING \<longrightarrow> t = currentThread k)
   \<and> unat (userRegisters th LoadReg) < NumGPRegs
   \<and> (\<forall>w. Delete_Semaphore w \<in> set (continuation th) \<longrightarrow> w \<notin> range (client_semaphore k))
   \<and> (t \<noteq> currentThread k \<longrightarrow>
        (if toBeDestroyed k = Some t
         then thread_status th = BLOCKED \<and> (\<exists>ts. continuation th = After_Switch # ts \<and> list_all on_task ts)
         else parked (continuation th)))"

definition semaphore_ok :: "'u kernel \<Rightarrow> nat \<Rightarrow> semaphore \<Rightarrow> bool" where
  "semaphore_ok k i sem \<longleftrightarrow>
     i < next_semaphore k \<and> 0 \<le> value sem \<and> distinct (waiters sem)
   \<and> (\<forall>t \<in> set (waiters sem). \<exists>th. threads k t = Some th \<and> thread_status th = BLOCKED
        \<and> waits_for i (continuation th))"

definition current_ok :: "'u kernel \<Rightarrow> bool" where
  "current_ok k \<longleftrightarrow> (\<exists>th. threads k (currentThread k) = Some th
     \<and> (on_list (continuation th) \<or> off_list (continuation th))
     \<and> (thread_status th = RUNNING \<longleftrightarrow> \<not> sleeping (continuation th))
     \<and> (\<forall>ts. continuation th = Dispatch True # ts \<longrightarrow> thread_status th = BLOCKED)
     \<and> (toBeDestroyed k \<noteq> None \<longrightarrow> switching (continuation th)))"

definition kernel_inv :: "'u kernel \<Rightarrow> bool" where
  "kernel_inv k \<longleftrightarrow> ready_ok k \<and> current_ok k
     \<and> (\<forall>t th. threads k t = Some th \<longrightarrow> thread_ok k t th)
     \<and> (\<forall>i sem. semaphores k i = Some sem \<longrightarrow> semaphore_ok k i sem)
     \<and> (\<forall>c. semaphores k (client_semaphore k c) \<noteq> None)
     \<and> (\<forall>c ws. conditions k c = Some ws \<longrightarrow> (\<forall>w \<in> set ws. w < next_semaphore k))
     \<and> (\<forall>d. toBeDestroyed k = Some d \<longrightarrow> d \<noteq> currentThread k \<and> threads k d \<noteq> None)"

lemmas kernel_inv_parts = kernel_inv_def ready_ok_def current_ok_def thread_ok_def semaphore_ok_def

lemma kernel_inv_thread: "kernel_inv k \<Longrightarrow> threads k t = Some th \<Longrightarrow> thread_ok k t th"
  by (simp add: kernel_inv_def)

lemma kernel_inv_semaphore: "kernel_inv k \<Longrightarrow> semaphores k i = Some sem \<Longrightarrow> semaphore_ok k i sem"
  by (simp add: kernel_inv_def)

lemma kernel_inv_client:
  assumes "kernel_inv k" obtains sem where "semaphores k (client_semaphore k c) = Some sem"
proof -
  have "semaphores k (client_semaphore k c) \<noteq> None" using assms by (simp add: kernel_inv_def)
  then show ?thesis using that by auto
qed

lemma kernel_inv_current:
  assumes "kernel_inv k"
  obtains th where "threads k (currentThread k) = Some th"
    "on_list (continuation th) \<or> off_list (continuation th)"
    "thread_status th = RUNNING \<longleftrightarrow> \<not> sleeping (continuation th)"
    "toBeDestroyed k \<noteq> None \<Longrightarrow> switching (continuation th)"
  using assms by (auto simp: kernel_inv_def current_ok_def)

lemma thread_ok_frame:
  assumes "thread_ok k t th" "next_thread k \<le> next_thread k'" "t \<in> set (readyList k') \<longleftrightarrow> t \<in> set (readyList k)"
    "currentThread k' = currentThread k" "client_semaphore k' = client_semaphore k"
    "toBeDestroyed k' = toBeDestroyed k"
  shows "thread_ok k' t th"
  using assms(1) less_le_trans[OF _ assms(2), of t] unfolding thread_ok_def assms(3-6) by blast

text \<open>A step that only replaces the current thread's entry, by a running one.\<close>

lemma inv_current:
  assumes "kernel_inv k" "threads k (currentThread k) = Some th" "thread_status th = RUNNING"
    "threads k' = (threads k)(currentThread k \<mapsto> th')" "thread_status th' = RUNNING"
    "on_list (continuation th') \<or> off_list (continuation th')" "\<not> sleeping (continuation th')"
    "toBeDestroyed k \<noteq> None \<Longrightarrow> switching (continuation th')"
    "unat (userRegisters th' LoadReg) < NumGPRegs"
    "\<And>w. Delete_Semaphore w \<in> set (continuation th') \<Longrightarrow>
       Delete_Semaphore w \<in> set (continuation th) \<or> w = next_semaphore k"
    "readyList k' = readyList k" "currentThread k' = currentThread k" "toBeDestroyed k' = toBeDestroyed k"
    "next_thread k' = next_thread k" "next_semaphore k \<le> next_semaphore k'"
    "client_semaphore k' = client_semaphore k"
    "\<And>i sem. semaphores k' i = Some sem \<Longrightarrow> i < next_semaphore k' \<and> 0 \<le> value sem
       \<and> (waiters sem = [] \<or> (\<exists>sem0. semaphores k i = Some sem0 \<and> waiters sem = waiters sem0))"
    "\<And>c. semaphores k' (client_semaphore k c) \<noteq> None"
    "\<And>c ws w. conditions k' c = Some ws \<Longrightarrow> w \<in> set ws \<Longrightarrow> w < next_semaphore k'"
  shows "kernel_inv k'"
proof -
  have cl: "client_semaphore k c < next_semaphore k" for c
  proof -
    obtain sem where "semaphores k (client_semaphore k c) = Some sem" by (rule kernel_inv_client[OF assms(1)])
    from kernel_inv_semaphore[OF assms(1) this] show ?thesis by (simp add: semaphore_ok_def)
  qed
  note ok = kernel_inv_thread[OF assms(1,2), unfolded thread_ok_def]
  have no_ready: "currentThread k \<notin> set (readyList k)" using ok assms(3) by simp
  have "ready_ok k" using assms(1) by (simp add: kernel_inv_def)
  then have "ready_ok k'" using assms(4,11) by (simp add: ready_ok_def)
  moreover have "current_ok k'" using assms(4-8,12,13) by (auto simp: current_ok_def)
  moreover have "thread_ok k' t x" if "threads k' t = Some x" for t x
  proof (cases "t = currentThread k")
    case True
    have "w \<notin> range (client_semaphore k)" if "Delete_Semaphore w \<in> set (continuation th')" for w
      using assms(10)[OF that] cl ok by (auto simp: less_le)
    then show ?thesis using True that assms(3-5,9,11-14,16) no_ready ok by (simp add: thread_ok_def)
  next
    case False
    then have "threads k t = Some x" using that assms(4) by simp
    from kernel_inv_thread[OF assms(1) this] show ?thesis
      using False assms(11-14,16) by (simp add: thread_ok_def)
  qed
  moreover have "semaphore_ok k' i sem" if sem: "semaphores k' i = Some sem" for i sem
  proof (cases "waiters sem = []")
    case True
    then show ?thesis using assms(17)[OF sem] by (simp add: semaphore_ok_def)
  next
    case False
    then obtain sem0 where s0: "semaphores k i = Some sem0" "waiters sem = waiters sem0"
      using assms(17)[OF sem] by blast
    note ok0 = kernel_inv_semaphore[OF assms(1) s0(1), unfolded semaphore_ok_def]
    have "\<exists>x. threads k' t = Some x \<and> thread_status x = BLOCKED \<and> waits_for i (continuation x)" if t: "t \<in> set (waiters sem)" for t
    proof -
      obtain x where x: "threads k t = Some x" "thread_status x = BLOCKED" "waits_for i (continuation x)"
        using ok0 t s0(2) by metis
      then have "t \<noteq> currentThread k" using assms(2,3) by auto
      then show ?thesis using x assms(4) by simp
    qed
    then show ?thesis using assms(17)[OF sem] ok0 s0(2) by (simp add: semaphore_ok_def)
  qed
  moreover have "\<forall>d. toBeDestroyed k' = Some d \<longrightarrow> d \<noteq> currentThread k' \<and> threads k' d \<noteq> None"
  proof (intro allI impI)
    fix d assume "toBeDestroyed k' = Some d"
    then have "d \<noteq> currentThread k \<and> threads k d \<noteq> None" using assms(1,13) by (simp add: kernel_inv_def)
    then show "d \<noteq> currentThread k' \<and> threads k' d \<noteq> None" using assms(4,12) by simp
  qed
  ultimately show ?thesis using assms(16,18,19) by (simp add: kernel_inv_def)
qed

section \<open>Waking a thread\<close>

lemma kern_set_kernel [simp]: "kern (set_kernel k s) = k"
  by (simp add: set_kernel_def)

lemma set_kernel_simps [simp]:
  "level (set_kernel k s) = level s" "set_kernel k (set_kernel k' s) = set_kernel k s"
  "set_kernel (kern s) s = s" "cpu (set_kernel k s) = cpu s" "status (set_kernel k s) = status s"
  "inHandler (set_kernel k s) = inHandler s" "pending (set_kernel k s) = pending s"
  "stats (set_kernel k s) = stats s" "yieldOnReturn (set_kernel k s) = yieldOnReturn s"
  by (simp_all add: set_kernel_def)

lemma upd_kernel_simps [simp]:
  "kern (upd_kernel f s) = f (kern s)" "level (upd_kernel f s) = level s" "cpu (upd_kernel f s) = cpu s"
  "status (upd_kernel f s) = status s" "inHandler (upd_kernel f s) = inHandler s"
  "pending (upd_kernel f s) = pending s" "stats (upd_kernel f s) = stats s"
  "yieldOnReturn (upd_kernel f s) = yieldOnReturn s"
  by (simp_all add: upd_kernel_def)

lemma get_Some [simp]: "get (Some x) = Inr x" and get_Inr [outcome_simps]: "get o1 = Inr x \<longleftrightarrow> o1 = Some x"
  and get_Inl [outcome_simps]: "get o1 = Inl e \<longleftrightarrow> o1 = None \<and> e = NullPointer"
  by (auto simp: get_def split: option.splits)

text \<open>\<open>wake t k\<close> puts a thread on the ready list.\<close>

definition wake :: "nat \<Rightarrow> 'u kernel \<Rightarrow> 'u kernel" where
  "wake t k = (upd_thread t (\<lambda>th. th\<lparr>thread_status := READY\<rparr>) k)\<lparr>readyList := readyList k @ [t]\<rparr>"

lemma ReadyToRun_run:
  assumes "level s = IntOff" "threads (kern s) t = Some th" "t \<notin> set (readyList (kern s))"
  shows "ReadyToRun t s = Inr (upd_kernel (wake t) s)"
  using assms by (simp add: ReadyToRun_def append_new_def wake_def[abs_def] upd_kernel_def)

text \<open>What \<open>V\<close> does to the kernel.\<close>

definition V_kernel :: "nat \<Rightarrow> 'u kernel \<Rightarrow> 'u kernel" where
  "V_kernel i k =
     (case semaphores k i of
        None \<Rightarrow> k
      | Some sem \<Rightarrow>
          (case waiters sem of [] \<Rightarrow> k | t # ts \<Rightarrow> wake t k)
            \<lparr>semaphores := (semaphores k)(i \<mapsto> \<lparr>value = value sem + 1, waiters = tl (waiters sem)\<rparr>)\<rparr>)"

lemma wake_simps [simp]:
  "readyList (wake t k) = readyList k @ [t]" "currentThread (wake t k) = currentThread k"
  "toBeDestroyed (wake t k) = toBeDestroyed k" "semaphores (wake t k) = semaphores k"
  "next_thread (wake t k) = next_thread k" "next_semaphore (wake t k) = next_semaphore k"
  "client_semaphore (wake t k) = client_semaphore k" "locks (wake t k) = locks k"
  "conditions (wake t k) = conditions k" "shared (wake t k) = shared k"
  "threads (wake t k) = (threads k)(t := map_option (\<lambda>th. th\<lparr>thread_status := READY\<rparr>) (threads k t))"
  by (simp_all add: wake_def upd_thread_def)

lemma V_body_run:
  assumes "level s = IntOff" "kernel_inv (kern s)" "semaphores (kern s) i = Some sem"
  shows "V_body i s = Inr (upd_kernel (V_kernel i) s)"
proof (cases "waiters sem")
  case Nil
  then show ?thesis using assms(3)
    by (cases sem) (simp add: V_body_def V_kernel_def[abs_def] upd_kernel_def upd_semaphore_def)
next
  case (Cons t ts)
  obtain th where th: "threads (kern s) t = Some th" "thread_status th = BLOCKED"
    using kernel_inv_semaphore[OF assms(2,3)] Cons by (auto simp: semaphore_ok_def)
  then have nr: "t \<notin> set (readyList (kern s))"
    using kernel_inv_thread[OF assms(2) th(1)] by (simp add: thread_ok_def)
  let ?s = "upd_kernel (upd_semaphore i (\<lambda>x. x\<lparr>waiters := ts\<rparr>)) s"
  have "ReadyToRun t ?s = Inr (upd_kernel (wake t) ?s)"
    by (rule ReadyToRun_run) (use assms(1) th nr in \<open>simp_all add: upd_semaphore_def\<close>)
  then show ?thesis using assms(3) Cons th
    by (cases sem) (simp add: V_body_def V_kernel_def[abs_def] upd_kernel_def upd_semaphore_def wake_def upd_thread_def)
qed

lemma wake_inv:
  assumes "kernel_inv k" "semaphores k i = Some sem" "waiters sem = t # ts"
  shows "kernel_inv ((wake t k)\<lparr>semaphores := (semaphores k)(i \<mapsto> \<lparr>value = value sem + 1, waiters = ts\<rparr>)\<rparr>)"
    (is "kernel_inv ?k")
proof -
  note sok = kernel_inv_semaphore[OF assms(1,2), unfolded semaphore_ok_def]
  obtain th where th: "threads k t = Some th" "thread_status th = BLOCKED" "waits_for i (continuation th)"
    using sok assms(3) by (metis list.set_intros(1))
  note tok = kernel_inv_thread[OF assms(1) th(1), unfolded thread_ok_def]
  have nr: "t \<notin> set (readyList k)" using tok th(2) by simp
  have thr: "threads ?k = (threads k)(t \<mapsto> th\<lparr>thread_status := READY\<rparr>)" using th(1) by simp
  have ready: "ready_ok k" using assms(1) by (simp add: kernel_inv_def)
  have d: "toBeDestroyed k \<noteq> Some t"
  proof
    assume d: "toBeDestroyed k = Some t"
    then have "t \<noteq> currentThread k" using assms(1) by (simp add: kernel_inv_def)
    then have "\<exists>us. continuation th = After_Switch # us \<and> list_all on_task us" using tok d by simp
    then obtain us where "continuation th = After_Switch # us" "list_all on_task us" by blast
    then show False using th(3) by (cases us rule: inner_off.cases) auto
  qed
  have "ready_ok ?k" using ready nr thr by (simp add: ready_ok_def)
  moreover have "current_ok ?k"
  proof -
    have "current_ok k" using assms(1) by (simp add: kernel_inv_def)
    then show ?thesis using th by (cases "t = currentThread k") (auto simp: current_ok_def)
  qed
  moreover have "thread_ok ?k u x" if u: "threads ?k u = Some x" for u x
  proof (cases "u = t")
    case True
    then have "x = th\<lparr>thread_status := READY\<rparr>" using u thr by simp
    then show ?thesis using tok True d by (simp add: thread_ok_def)
  next
    case False
    then have "threads k u = Some x" using u thr by simp
    show ?thesis by (rule thread_ok_frame[OF kernel_inv_thread[OF assms(1) \<open>threads k u = Some x\<close>]]) (use False in simp_all)
  qed
  moreover have "semaphore_ok ?k j x" if x: "semaphores ?k j = Some x" for j x
  proof -
    have w: "\<exists>y. threads ?k u = Some y \<and> thread_status y = BLOCKED \<and> waits_for j (continuation y)"
      if u: "threads k u = Some y" "thread_status y = BLOCKED" "waits_for j (continuation y)" "u \<noteq> t" for u y
      using u thr by simp
    show ?thesis
    proof (cases "j = i")
      case True
      then have xs: "x = \<lparr>value = value sem + 1, waiters = ts\<rparr>" using x by simp
      have "t \<notin> set ts" using sok assms(3) by simp
      then have "\<forall>u \<in> set ts. \<exists>y. threads ?k u = Some y \<and> thread_status y = BLOCKED \<and> waits_for i (continuation y)"
        using sok assms(3) w True by (metis list.set_intros(2))
      then show ?thesis using True xs sok assms(3) by (simp add: semaphore_ok_def)
    next
      case False
      then have x0: "semaphores k j = Some x" using x by simp
      note xok = kernel_inv_semaphore[OF assms(1) x0, unfolded semaphore_ok_def]
      have "t \<notin> set (waiters x)"
      proof
        assume "t \<in> set (waiters x)"
        then have "waits_for j (continuation th)" using xok th(1) by (metis option.inject)
        then show False using th(3) False by (cases "continuation th" rule: parked.cases) (auto elim!: waits_for.elims)
      qed
      then have "\<forall>u \<in> set (waiters x). \<exists>y. threads ?k u = Some y \<and> thread_status y = BLOCKED \<and> waits_for j (continuation y)"
        using xok w by metis
      then show ?thesis using xok by (simp add: semaphore_ok_def)
    qed
  qed
  moreover have "semaphores ?k (client_semaphore ?k c) \<noteq> None" for c
    using assms(1) by (simp add: kernel_inv_def)
  moreover have "\<forall>c ws. conditions ?k c = Some ws \<longrightarrow> (\<forall>w \<in> set ws. w < next_semaphore ?k)"
    using assms(1) by (simp add: kernel_inv_def)
  moreover have "\<forall>d. toBeDestroyed ?k = Some d \<longrightarrow> d \<noteq> currentThread ?k \<and> threads ?k d \<noteq> None"
    using assms(1) thr by (simp add: kernel_inv_def)
  ultimately show ?thesis unfolding kernel_inv_def by blast
qed

lemma V_kernel_inv:
  assumes "kernel_inv k" "semaphores k i = Some sem"
  shows "kernel_inv (V_kernel i k)"
proof (cases "waiters sem")
  case Nil
  let ?k = "V_kernel i k"
  have eq: "?k = k\<lparr>semaphores := (semaphores k)(i \<mapsto> \<lparr>value = value sem + 1, waiters = []\<rparr>)\<rparr>"
    using assms(2) Nil by (simp add: V_kernel_def)
  have "semaphore_ok ?k j x" if x: "semaphores ?k j = Some x" for j x
  proof (cases "j = i")
    case True
    then have "x = \<lparr>value = value sem + 1, waiters = []\<rparr>" using x eq by simp
    then show ?thesis using True eq kernel_inv_semaphore[OF assms] by (simp add: semaphore_ok_def)
  next
    case False
    then have "semaphores k j = Some x" using x eq by simp
    from kernel_inv_semaphore[OF assms(1) this] show ?thesis by (simp add: semaphore_ok_def eq)
  qed
  moreover have "thread_ok ?k u x" if "threads ?k u = Some x" for u x
    using kernel_inv_thread[OF assms(1), of u x] that by (auto simp: eq intro: thread_ok_frame)
  moreover have "ready_ok ?k" "current_ok ?k" "\<And>c. semaphores ?k (client_semaphore ?k c) \<noteq> None"
    "\<forall>c ws. conditions ?k c = Some ws \<longrightarrow> (\<forall>w \<in> set ws. w < next_semaphore ?k)"
    "\<forall>d. toBeDestroyed ?k = Some d \<longrightarrow> d \<noteq> currentThread ?k \<and> threads ?k d \<noteq> None"
    using assms(1) by (simp_all add: kernel_inv_def ready_ok_def current_ok_def eq)
  ultimately show ?thesis unfolding kernel_inv_def by blast
next
  case (Cons t ts)
  then show ?thesis using wake_inv[OF assms Cons] assms(2) by (simp add: V_kernel_def)
qed

text \<open>What the device callbacks of one \<open>CheckIfDue\<close> do to the kernel: a sequence of signals.\<close>

definition interrupted :: "'u kernel \<Rightarrow> 'u kernel \<Rightarrow> bool" where
  "interrupted k0 k \<longleftrightarrow> (\<exists>cs. k = fold (\<lambda>c. V_kernel (client_semaphore k0 c)) cs k0)"

lemma interrupted_refl [simp]: "interrupted k k"
  by (auto simp: interrupted_def intro: exI[of _ "[]"])

lemma V_kernel_client [simp]:
  "client_semaphore (V_kernel i k) = client_semaphore k" "currentThread (V_kernel i k) = currentThread k"
  "next_thread (V_kernel i k) = next_thread k" "toBeDestroyed (V_kernel i k) = toBeDestroyed k"
  "locks (V_kernel i k) = locks k" "conditions (V_kernel i k) = conditions k" "shared (V_kernel i k) = shared k"
  "next_semaphore (V_kernel i k) = next_semaphore k"
  by (simp_all add: V_kernel_def split: option.splits list.splits)

text \<open>Facts the signals keep, one signal at a time.\<close>

lemma interrupted_induct:
  assumes "interrupted k0 k" "Q k0" "\<And>k c. Q k \<Longrightarrow> Q (V_kernel (client_semaphore k0 c) k)"
  shows "Q k"
proof -
  have "Q (fold (\<lambda>c. V_kernel (client_semaphore k0 c)) cs k')" if "Q k'" for cs k'
    using that by (induction cs arbitrary: k') (auto intro: assms(3))
  then show ?thesis using assms(1,2) by (auto simp: interrupted_def)
qed

lemma interrupted_client: "interrupted k0 k \<Longrightarrow> client_semaphore k = client_semaphore k0"
  by (erule interrupted_induct) simp_all

lemma interrupted_signal:
  "interrupted k0 k \<Longrightarrow> interrupted k0 (V_kernel (client_semaphore k0 c) k)"
  unfolding interrupted_def by (elim exE, rule_tac x = "cs @ [c]" in exI) simp

text \<open>The callbacks of the devices keep the invariant: the interface of the devices, for this kernel.\<close>

interpretation clients: kernel_clients kernel_upcall "\<lambda>k. kernel_inv k \<and> interrupted k0 k" for k0 :: "'u kernel"
proof
  fix s :: "'u system" and c
  assume a: "kernel_inv (kern s) \<and> interrupted k0 (kern s)" "inHandler s" "level s = IntOff"
  obtain sem where sem: "semaphores (kern s) (client_semaphore (kern s) c) = Some sem"
    using kernel_inv_client a(1) by blast
  have "kernel_upcall c s = Inr (set_kernel (V_kernel (client_semaphore k0 c) (kern s)) s)"
    using V_body_run[OF a(3) _ sem] a(1) interrupted_client[of k0 "kern s"]
    by (simp add: kernel_upcall_def upd_kernel_def)
  moreover have "kernel_inv (V_kernel (client_semaphore k0 c) (kern s))"
    using V_kernel_inv[OF _ sem] a(1) interrupted_client[of k0 "kern s"] by simp
  ultimately show "\<exists>k. kernel_upcall c s = Inr (set_kernel k s) \<and> kernel_inv k \<and> interrupted k0 k"
    using interrupted_signal a(1) by blast
qed

section \<open>Interrupts and the invariant of the system\<close>

text \<open>The part of the state outside the kernel proper.\<close>

definition base_ok :: "'u system \<Rightarrow> bool" where
  "base_ok s \<longleftrightarrow> clock_ok s \<and> cpu_ok (cpu s) \<and> hw_ok (world s) (pending s) \<and> \<not> inHandler s"

lemma sim_ok_split:
  "clients.machine.sim_ok k0 s \<longleftrightarrow> base_ok s \<and> kernel_inv (kern s) \<and> interrupted k0 (kern s)"
  by (auto simp: clients.machine.sim_ok_def clients.device_ok_def base_ok_def)

lemma hw_ok_kernel [simp]: "hw_ok (w\<lparr>kernel := k\<rparr>) ps = hw_ok w ps"
  by (simp add: hw_ok_def)

lemma base_ok_upd [simp]:
  "base_ok (upd_kernel f s) = base_ok s" "base_ok (s\<lparr>status := st\<rparr>) = base_ok s"
  "base_ok (s\<lparr>yieldOnReturn := y\<rparr>) = base_ok s" "base_ok (ChangeLevel l l' s) = base_ok s"
  by (auto simp: base_ok_def clock_ok_def upd_kernel_def set_kernel_def ChangeLevel_def)

lemma ChangeLevel_simps [simp]:
  "kern (ChangeLevel l l' s) = kern s" "level (ChangeLevel l l' s) = l'" "cpu (ChangeLevel l l' s) = cpu s"
  "status (ChangeLevel l l' s) = status s" "inHandler (ChangeLevel l l' s) = inHandler s"
  by (simp_all add: ChangeLevel_def)

lemma tick_run:
  assumes "base_ok s" "kernel_inv (kern s)"
  shows "\<exists>s' k us. tick s = Inr s' \<and> base_ok s' \<and> level s' = IntOn \<and> nothing_overdue s'
    \<and> interrupted (kern s) k \<and> kernel_inv k \<and> kern s' = push us k \<and> (us = [] \<or> us = [Yield, Restore_Status (status s)])
    \<and> totalTicks (stats s) < totalTicks (stats s')"
proof -
  have "clients.machine.sim_ok (kern s) s" using assms by (simp add: sim_ok_split)
  from clients.machine.tick_and_check_run[OF this] obtain s' where
    s': "tick_and_check run_devices s = Inr s'" "clients.machine.sim_ok (kern s) s'" "nothing_overdue s'" "level s' = IntOn"
    "totalTicks (stats s') = totalTicks (stats s) + (if status s = SystemMode then SystemTick else UserTick)"
    by blast
  have "push [] (kern s') = kern s'" by (simp add: push_def upd_thread_def option.map_ident)
  then have w: "\<exists>k us. interrupted (kern s) k \<and> kernel_inv k \<and> kern s' = push us k
      \<and> (us = [] \<or> us = [Yield, Restore_Status (status s)])"
    using s'(2) by (intro exI[of _ "kern s'"] exI[of _ "[]"]) (simp add: sim_ok_split)
  have t: "totalTicks (stats s) < totalTicks (stats s')" using s'(5) by (simp add: SystemTick_def UserTick_def)
  show ?thesis
  proof (cases "yieldOnReturn s'")
    case True
    then show ?thesis using s'(1-4) t
      by (auto simp: tick_def sim_ok_split nothing_overdue_def due_now_def)
  next
    case False
    then have "tick s = Inr s'" using s'(1) by (simp add: tick_def)
    then show ?thesis using s'(2-4) w t by (auto simp: sim_ok_split)
  qed
qed

end
