(* ===== verification/Kernel_Steps.thy ===== *)
theory Kernel_Steps imports Thread_Invariants begin

text \<open>
  Every step of the kernel keeps the invariant of theory Thread\_Invariants, and fails only where the
  code it runs misuses a lock or an object that does not exist. The two synchronization facts follow
  from accounts kept along the steps: no wake-up of a semaphore is lost, and a lock admits one
  thread at a time. A fourth account follows the ready list: threads are dispatched in order.
\<close>

section \<open>The invariant of a run\<close>

definition level_ok :: "'u system \<Rightarrow> bool" where
  "level_ok s \<longleftrightarrow> (\<exists>th. threads (kern s) (currentThread (kern s)) = Some th
     \<and> (off_list (continuation th) \<longleftrightarrow> level s = IntOff))"

definition sys_ok :: "'u system \<Rightarrow> bool" where
  "sys_ok s \<longleftrightarrow> base_ok s \<and> kernel_inv (kern s) \<and> level_ok s"

definition set_cont :: "task list \<Rightarrow> 'u kernel \<Rightarrow> 'u kernel" where
  "set_cont c k = upd_thread (currentThread k) (\<lambda>th. th\<lparr>continuation := c\<rparr>) k"

definition cont :: "'u kernel \<Rightarrow> task list" where
  "cont k = (case threads k (currentThread k) of Some th \<Rightarrow> continuation th | None \<Rightarrow> [])"

lemma set_cont_simps [simp]:
  "currentThread (set_cont c k) = currentThread k" "readyList (set_cont c k) = readyList k"
  "toBeDestroyed (set_cont c k) = toBeDestroyed k" "semaphores (set_cont c k) = semaphores k"
  "next_thread (set_cont c k) = next_thread k" "next_semaphore (set_cont c k) = next_semaphore k"
  "client_semaphore (set_cont c k) = client_semaphore k" "locks (set_cont c k) = locks k"
  "conditions (set_cont c k) = conditions k" "shared (set_cont c k) = shared k"
  "threads (set_cont c k) =
     (threads k)(currentThread k := map_option (\<lambda>th. th\<lparr>continuation := c\<rparr>) (threads k (currentThread k)))"
  by (simp_all add: set_cont_def upd_thread_def)

lemma push_simps [simp]:
  "currentThread (push c k) = currentThread k" "readyList (push c k) = readyList k"
  "toBeDestroyed (push c k) = toBeDestroyed k" "semaphores (push c k) = semaphores k"
  "next_thread (push c k) = next_thread k" "next_semaphore (push c k) = next_semaphore k"
  "client_semaphore (push c k) = client_semaphore k" "locks (push c k) = locks k"
  "conditions (push c k) = conditions k" "shared (push c k) = shared k"
  "threads (push c k) =
     (threads k)(currentThread k := map_option (\<lambda>th. th\<lparr>continuation := c @ continuation th\<rparr>) (threads k (currentThread k)))"
  by (simp_all add: push_def upd_thread_def)

lemma push_set_cont: "push us (set_cont c k) = set_cont (us @ c) k"
  by (simp add: push_def set_cont_def upd_thread_def option.map_comp comp_def)

lemma pop_run:
  assumes "threads (kern s) (currentThread (kern s)) = Some th" "continuation th = t # ts"
  shows "pop s = Inr (t, upd_kernel (set_cont ts) s)"
  using assms by (simp add: pop_def set_cont_def[abs_def])

lemma kernel_step_run:
  assumes "threads (kern s) (currentThread (kern s)) = Some th" "continuation th = t # ts"
  shows "kernel_step prog s = exec prog t (upd_kernel (set_cont ts) s)"
  by (simp add: kernel_step_def pop_run[OF assms])

lemma sys_okI:
  assumes "base_ok s" "kernel_inv (kern s)" "threads (kern s) (currentThread (kern s)) = Some th"
    "off_list (continuation th) \<longleftrightarrow> level s = IntOff"
  shows "sys_ok s"
  using assms by (simp add: sys_ok_def level_ok_def)

text \<open>What the object a task works on may lack, and the ways a step may fail.\<close>

fun absent :: "task \<Rightarrow> 'u system \<Rightarrow> bool" where
  "absent (Sem_V i) s = (semaphores (kern s) i = None)"
| "absent (P_loop i l r) s = (semaphores (kern s) i = None)"
| "absent (Acquire l) s = (locks (kern s) l = None)"
| "absent (Set_Holder l) s = (locks (kern s) l = None)"
| "absent (Release l) s = (locks (kern s) l = None)"
| "absent (Wait c l) s = (locks (kern s) l = None \<or> conditions (kern s) c = None)"
| "absent (Signal c l) s = (locks (kern s) l = None \<or> conditions (kern s) c = None)"
| "absent (Broadcast c l) s = (conditions (kern s) c = None)"
| "absent After_Switch s = (cpu s = None)"
| "absent (Dispatch fin) s = (cpu s = None)"
| "absent Yield s = (cpu s = None)"
| "absent t s = False"

definition held :: "nat \<Rightarrow> 'u system \<Rightarrow> bool" where
  "held l s \<longleftrightarrow> (\<exists>lk. locks (kern s) l = Some lk \<and> lockHolder lk = Some (currentThread (kern s)))"

fun unheld :: "task \<Rightarrow> 'u system \<Rightarrow> bool" where
  "unheld (Release l) s = (\<not> held l s)"
| "unheld (Wait c l) s = (\<not> held l s)"
| "unheld (Signal c l) s = (\<not> held l s)"
| "unheld t s = False"

definition may_fail :: "'u program \<Rightarrow> task \<Rightarrow> task list \<Rightarrow> thread \<Rightarrow> 'u system \<Rightarrow> fault \<Rightarrow> bool" where
  "may_fail prog t ts th s e \<longleftrightarrow>
     e = NullPointer \<and> absent t s \<or> e = AssertFailure \<and> unheld t s
     \<or> (\<exists>c. t = Code c \<and> prog c (upd_kernel (set_cont ts) s) = Inl e)"

text \<open>What is asked of the surrounding code. It calls only client routines; of the kernel it changes the
  shared memory and its own thread's space, and may create semaphores, locks and conditions, change
  conditions nobody waits for, and delete semaphores that no device signals. It leaves interrupts and
  the ready list alone, and the devices in a good state.\<close>

definition kernel_frame :: "'u kernel \<Rightarrow> 'u kernel \<Rightarrow> bool" where
  "kernel_frame k k' \<longleftrightarrow> readyList k' = readyList k \<and> currentThread k' = currentThread k
     \<and> toBeDestroyed k' = toBeDestroyed k \<and> next_thread k' = next_thread k
     \<and> client_semaphore k' = client_semaphore k \<and> next_semaphore k \<le> next_semaphore k'
     \<and> (\<exists>th sp. threads k (currentThread k) = Some th
          \<and> threads k' = (threads k)(currentThread k \<mapsto> th\<lparr>space := sp\<rparr>))
     \<and> (\<forall>i sem. semaphores k' i = Some sem \<longrightarrow> semaphores k i = Some sem
          \<or> next_semaphore k \<le> i \<and> i < next_semaphore k' \<and> 0 \<le> value sem \<and> waiters sem = [])
     \<and> (\<forall>c. semaphores k' (client_semaphore k c) \<noteq> None)
     \<and> (\<forall>l lk. locks k' l = Some lk \<longrightarrow> locks k l = Some lk
          \<or> lockHolder lk = None \<and> next_semaphore k \<le> lock_semaphore lk)
     \<and> (\<forall>c ws. conditions k' c = Some ws \<longrightarrow> conditions k c = Some ws \<or> ws = [])"

definition code_frame :: "'u system \<Rightarrow> 'u system \<Rightarrow> bool" where
  "code_frame s s' \<longleftrightarrow> base_ok s' \<and> level s' = level s \<and> kernel_frame (kern s) (kern s')"

lemmas code_frame_defs = code_frame_def kernel_frame_def

lemma code_frame_semaphore:
  "code_frame s s' \<Longrightarrow> semaphores (kern s') i = Some sem \<Longrightarrow> semaphores (kern s) i = Some sem
     \<or> next_semaphore (kern s) \<le> i \<and> i < next_semaphore (kern s') \<and> 0 \<le> value sem \<and> waiters sem = []"
  unfolding code_frame_defs by blast

lemma code_frame_lock:
  "code_frame s s' \<Longrightarrow> locks (kern s') l = Some lk \<Longrightarrow> locks (kern s) l = Some lk
     \<or> lockHolder lk = None \<and> next_semaphore (kern s) \<le> lock_semaphore lk"
  unfolding code_frame_defs by blast

lemma code_frame_condition:
  "code_frame s s' \<Longrightarrow> conditions (kern s') c = Some ws \<Longrightarrow> conditions (kern s) c = Some ws \<or> ws = []"
  unfolding code_frame_defs by blast

definition program_ok :: "'u program \<Rightarrow> bool" where
  "program_ok prog \<longleftrightarrow> (\<forall>c s s' ts. base_ok s \<longrightarrow> kernel_inv (kern s) \<longrightarrow> level s = IntOn \<longrightarrow> prog c s = Inr (s', ts) \<longrightarrow>
     list_all client_task ts \<and> code_frame s s')"

definition goes_well :: "(fault \<Rightarrow> bool) \<Rightarrow> 'u system progress result \<Rightarrow> bool" where
  "goes_well F r = (case r of Inl e \<Rightarrow> F e | Inr (Running s) \<Rightarrow> sys_ok s | Inr (Halted s) \<Rightarrow> True)"

lemma goes_well_simps [simp]:
  "goes_well F (Inl e) = F e" "goes_well F (Inr (Running s)) = sys_ok s" "goes_well F (Inr (Halted s)) = True"
  by (simp_all add: goes_well_def)

text \<open>The state a step starts in, the first task taken off the current thread's continuation.\<close>

definition at_task :: "task \<Rightarrow> task list \<Rightarrow> thread \<Rightarrow> 'u system \<Rightarrow> bool" where
  "at_task t ts th s \<longleftrightarrow> sys_ok s \<and> threads (kern s) (currentThread (kern s)) = Some th \<and> continuation th = t # ts"

lemma at_task_basic:
  assumes "at_task t ts th s"
  shows "base_ok s" "kernel_inv (kern s)" "threads (kern s) (currentThread (kern s)) = Some th"
    "continuation th = t # ts" "off_list (t # ts) \<longleftrightarrow> level s = IntOff" "on_list (t # ts) \<or> off_list (t # ts)"
    "thread_status th = RUNNING \<longleftrightarrow> \<not> sleeping (t # ts)"
    "toBeDestroyed (kern s) \<noteq> None \<Longrightarrow> switching (t # ts)"
    "unat (userRegisters th LoadReg) < NumGPRegs" "cpu_ok (cpu s)"
proof -
  show *: "base_ok s" "kernel_inv (kern s)" "threads (kern s) (currentThread (kern s)) = Some th"
    "continuation th = t # ts" "off_list (t # ts) \<longleftrightarrow> level s = IntOff"
    using assms by (auto simp: at_task_def sys_ok_def level_ok_def)
  have "current_ok (kern s)" using *(2) by (simp add: kernel_inv_def)
  then show "on_list (t # ts) \<or> off_list (t # ts)" "thread_status th = RUNNING \<longleftrightarrow> \<not> sleeping (t # ts)"
    "toBeDestroyed (kern s) \<noteq> None \<Longrightarrow> switching (t # ts)"
    using *(3,4) by (auto simp: current_ok_def)
  show "unat (userRegisters th LoadReg) < NumGPRegs"
    using kernel_inv_thread[OF *(2,3)] by (simp add: thread_ok_def)
  show "cpu_ok (cpu s)" using *(1) by (simp add: base_ok_def)
qed

lemma at_task_on:
  assumes "at_task t ts th s" "on_task t"
  shows "level s = IntOn" "on_list (t # ts)" "thread_status th = RUNNING" "toBeDestroyed (kern s) = None"
proof -
  note b = at_task_basic[OF assms(1)]
  have n: "\<not> off_list (t # ts)" "\<not> sleeping (t # ts)" "\<not> switching (t # ts)" using assms(2) by (cases t; simp)+
  then have "level s \<noteq> IntOff" using b(5) by simp
  then show "level s = IntOn" by (cases "level s") simp_all
  show "on_list (t # ts)" using b(6) n(1) by blast
  show "thread_status th = RUNNING" using b(7) n(2) by blast
  show "toBeDestroyed (kern s) = None" using b(8) n(3) by blast
qed

text \<open>The usual step: the current thread keeps running, with a new continuation.\<close>

lemma running_step:
  assumes "kernel_inv k" "threads k (currentThread k) = Some th" "thread_status th = RUNNING" "toBeDestroyed k = None"
    "threads k' = (threads k)(currentThread k \<mapsto> th\<lparr>continuation := c, space := sp\<rparr>)" "on_list c \<or> off_list c" "\<not> sleeping c"
    "\<And>w. Delete_Semaphore w \<in> set c \<Longrightarrow> Delete_Semaphore w \<in> set (continuation th) \<or> w = next_semaphore k"
    "readyList k' = readyList k" "currentThread k' = currentThread k" "toBeDestroyed k' = toBeDestroyed k"
    "next_thread k' = next_thread k" "next_semaphore k \<le> next_semaphore k'"
    "client_semaphore k' = client_semaphore k"
    "\<And>i sem. semaphores k' i = Some sem \<Longrightarrow> i < next_semaphore k' \<and> 0 \<le> value sem
       \<and> (waiters sem = [] \<or> (\<exists>sem0. semaphores k i = Some sem0 \<and> waiters sem = waiters sem0))"
    "\<And>c. semaphores k' (client_semaphore k c) \<noteq> None"
    "\<And>c ws w. conditions k' c = Some ws \<Longrightarrow> w \<in> set ws \<Longrightarrow> w < next_semaphore k'"
  shows "kernel_inv k'"
proof -
  have "unat (userRegisters th LoadReg) < NumGPRegs"
    using kernel_inv_thread[OF assms(1,2)] by (simp add: thread_ok_def)
  then show ?thesis
    using assms(3,4,6-17)
    by (intro inv_current[OF assms(1,2,3,5)]) auto
qed

lemma old_semaphores:
  assumes "kernel_inv k" "semaphores k i = Some sem"
  shows "i < next_semaphore k \<and> 0 \<le> value sem
    \<and> (waiters sem = [] \<or> (\<exists>sem0. semaphores k i = Some sem0 \<and> waiters sem = waiters sem0))"
  using kernel_inv_semaphore[OF assms] assms(2) by (simp add: semaphore_ok_def)

lemma old_conditions:
  assumes "kernel_inv k" "conditions k c = Some ws" "w \<in> set ws"
  shows "w < next_semaphore k"
  using assms by (auto simp: kernel_inv_def)

lemma set_cont_inv:
  assumes "kernel_inv k" "threads k (currentThread k) = Some th" "thread_status th = RUNNING" "toBeDestroyed k = None"
    "on_list c \<or> off_list c" "\<not> sleeping c"
    "\<And>w. Delete_Semaphore w \<in> set c \<Longrightarrow> Delete_Semaphore w \<in> set (continuation th) \<or> w = next_semaphore k"
  shows "kernel_inv (set_cont c k)"
proof (rule running_step[OF assms(1-4)])
  show "threads (set_cont c k) = (threads k)(currentThread k \<mapsto> th\<lparr>continuation := c, space := space th\<rparr>)"
    using assms(2) by (cases th) simp
  show "i < next_semaphore (set_cont c k) \<and> 0 \<le> value sem
       \<and> (waiters sem = [] \<or> (\<exists>sem0. semaphores k i = Some sem0 \<and> waiters sem = waiters sem0))"
    if "semaphores (set_cont c k) i = Some sem" for i sem
    using old_semaphores[OF assms(1)] that by simp
  show "semaphores (set_cont c k) (client_semaphore k c') \<noteq> None" for c'
    using assms(1) by (simp add: kernel_inv_def)
  show "w < next_semaphore (set_cont c k)" if "conditions (set_cont c k) c' = Some ws" "w \<in> set ws" for c' ws w
    using old_conditions[OF assms(1)] that by simp
qed (use assms in simp_all)

lemma on_list_not_sleeping: "on_list c \<Longrightarrow> \<not> sleeping c"
  by (cases c rule: sleeping.cases) (auto simp: on_list_def)

lemma run_to:
  assumes "kernel_inv k" "threads k (currentThread k) = Some th" "thread_status th = RUNNING" "toBeDestroyed k = None"
    "base_ok s'" "threads (kern s') = (threads k)(currentThread k \<mapsto> th\<lparr>continuation := c, space := sp\<rparr>)"
    "on_list c \<and> level s' = IntOn \<or> off_list c \<and> \<not> sleeping c \<and> level s' = IntOff"
    "\<And>w. Delete_Semaphore w \<in> set c \<Longrightarrow> Delete_Semaphore w \<in> set (continuation th) \<or> w = next_semaphore k"
    "readyList (kern s') = readyList k" "currentThread (kern s') = currentThread k"
    "toBeDestroyed (kern s') = toBeDestroyed k"
    "next_thread (kern s') = next_thread k" "next_semaphore k \<le> next_semaphore (kern s')"
    "client_semaphore (kern s') = client_semaphore k"
    "\<And>i sem. semaphores (kern s') i = Some sem \<Longrightarrow> i < next_semaphore (kern s') \<and> 0 \<le> value sem
       \<and> (waiters sem = [] \<or> (\<exists>sem0. semaphores k i = Some sem0 \<and> waiters sem = waiters sem0))"
    "\<And>c. semaphores (kern s') (client_semaphore k c) \<noteq> None"
    "\<And>c ws w. conditions (kern s') c = Some ws \<Longrightarrow> w \<in> set ws \<Longrightarrow> w < next_semaphore (kern s')"
  shows "sys_ok s'"
proof (rule sys_okI[OF assms(5)])
  show "kernel_inv (kern s')"
    by (rule running_step[OF assms(1-4,6)]) (use assms(7-) on_list_not_sleeping[of c] in auto)
  show "threads (kern s') (currentThread (kern s')) = Some (th\<lparr>continuation := c, space := sp\<rparr>)"
    using assms(6,10) by simp
  show "off_list (continuation (th\<lparr>continuation := c, space := sp\<rparr>)) = (level s' = IntOff)"
    using assms(7) on_off_disjoint[of c] by auto
qed

text \<open>Steps that leave threads and semaphores as they were.\<close>

lemma plain_step:
  assumes "at_task t ts th s" "on_task t" "base_ok s'"
    "threads (kern s') = (threads (kern s))(currentThread (kern s) \<mapsto> th\<lparr>continuation := c, space := sp\<rparr>)"
    "on_list c \<and> level s' = IntOn \<or> off_list c \<and> \<not> sleeping c \<and> level s' = IntOff"
    "\<And>w. Delete_Semaphore w \<in> set c \<Longrightarrow> Delete_Semaphore w \<in> set (t # ts)"
    "readyList (kern s') = readyList (kern s)" "currentThread (kern s') = currentThread (kern s)"
    "toBeDestroyed (kern s') = toBeDestroyed (kern s)" "next_thread (kern s') = next_thread (kern s)"
    "next_semaphore (kern s') = next_semaphore (kern s)" "client_semaphore (kern s') = client_semaphore (kern s)"
    "semaphores (kern s') = semaphores (kern s)"
    "\<And>c ws w. conditions (kern s') c = Some ws \<Longrightarrow> w \<in> set ws \<Longrightarrow> \<exists>ws'. conditions (kern s) c = Some ws' \<and> w \<in> set ws'"
  shows "sys_ok s'"
proof -
  note b = at_task_basic[OF assms(1)] and o = at_task_on[OF assms(1,2)]
  show ?thesis
  proof (rule run_to[OF b(2,3) o(3,4) assms(3,4,5)])
    show "i < next_semaphore (kern s') \<and> 0 \<le> value sem
       \<and> (waiters sem = [] \<or> (\<exists>sem0. semaphores (kern s) i = Some sem0 \<and> waiters sem = waiters sem0))"
      if "semaphores (kern s') i = Some sem" for i sem
      using old_semaphores[OF b(2)] that assms(11,13) by simp
    show "semaphores (kern s') (client_semaphore (kern s) c') \<noteq> None" for c'
      using b(2) assms(13) by (simp add: kernel_inv_def)
    show "w < next_semaphore (kern s')" if "conditions (kern s') c' = Some ws" "w \<in> set ws" for c' ws w
      using old_conditions[OF b(2)] assms(14)[OF that] assms(11) by auto
  qed (use assms b(4) in auto)
qed

lemma base_ok_cpu: "base_ok s \<Longrightarrow> cpu_ok c \<Longrightarrow> base_ok (s\<lparr>cpu := c\<rparr>)"
  by (simp add: base_ok_def clock_ok_def)

lemma Sem_P_step:
  assumes "at_task (Sem_P i r) ts th s"
  shows "goes_well (may_fail prog (Sem_P i r) ts th s) (exec prog (Sem_P i r) (upd_kernel (set_cont ts) s))"
proof -
  note b = at_task_basic[OF assms] and o = at_task_on[OF assms, simplified]
  have "on_list ts" using o(2) by (auto simp: on_list_def)
  then have "sys_ok (upd_kernel (push [P_loop i (level s) r]) (ChangeLevel (level s) IntOff (upd_kernel (set_cont ts) s)))"
    by (intro plain_step[OF assms, where c = "P_loop i IntOn r # ts" and sp = "space th"])
      (use b o(1) in \<open>auto simp: fun_upd_twist\<close>)
  then show ?thesis by (simp add: Semaphore_P_def Let_def)
qed

text \<open>A step that pushes tasks, and may change locks, conditions and the shared memory.\<close>

lemma push_step:
  assumes "at_task t ts th s" "on_task t" "t \<noteq> Finish" "list_all on_task us" "\<And>w. Delete_Semaphore w \<notin> set us"
    "base_ok s'" "level s' = IntOn"
    "threads (kern s') = (threads (kern s))(currentThread (kern s) \<mapsto> th\<lparr>continuation := us @ ts, space := sp\<rparr>)"
    "readyList (kern s') = readyList (kern s)" "currentThread (kern s') = currentThread (kern s)"
    "toBeDestroyed (kern s') = toBeDestroyed (kern s)" "next_thread (kern s') = next_thread (kern s)"
    "next_semaphore (kern s') = next_semaphore (kern s)" "client_semaphore (kern s') = client_semaphore (kern s)"
    "semaphores (kern s') = semaphores (kern s)"
    "\<And>c ws w. conditions (kern s') c = Some ws \<Longrightarrow> w \<in> set ws \<Longrightarrow> \<exists>ws'. conditions (kern s) c = Some ws' \<and> w \<in> set ws'"
  shows "sys_ok s'"
proof (rule plain_step[OF assms(1,2,6,8)])
  have "on_list (us @ ts)"
    using at_task_on(2)[OF assms(1,2)] assms(3,4) by (auto simp: on_list_def)
  then show "on_list (us @ ts) \<and> level s' = IntOn \<or> off_list (us @ ts) \<and> \<not> sleeping (us @ ts) \<and> level s' = IntOff"
    using assms(7) by simp
qed (use assms(5,9-) in auto)

lemma thread_same: "th\<lparr>continuation := c, space := space th\<rparr> = th\<lparr>continuation := c\<rparr>"
  by (cases th) simp

lemma lock_steps:
  assumes "at_task t ts th s"
  shows "t = Acquire l \<Longrightarrow> goes_well (may_fail prog t ts th s) (exec prog t (upd_kernel (set_cont ts) s))"
    and "t = Set_Holder l \<Longrightarrow> goes_well (may_fail prog t ts th s) (exec prog t (upd_kernel (set_cont ts) s))"
    and "t = Release l \<Longrightarrow> goes_well (may_fail prog t ts th s) (exec prog t (upd_kernel (set_cont ts) s))"
proof -
  note b = at_task_basic[OF assms]
  note push = push_step[OF assms, where sp = "space th", unfolded thread_same]
  show "goes_well (may_fail prog t ts th s) (exec prog t (upd_kernel (set_cont ts) s))" if t: "t = Acquire l"
  proof (cases "locks (kern s) l")
    case None
    then show ?thesis using t by (simp add: Lock_Acquire_def may_fail_def get_def)
  next
    case (Some lk)
    have "sys_ok (upd_kernel (push [Sem_P (lock_semaphore lk) (Some l)]) (upd_kernel (set_cont ts) s))"
      by (rule push[where us = "[Sem_P (lock_semaphore lk) (Some l)]"]) (use t b at_task_on(1)[OF assms] in \<open>auto split: if_splits\<close>)
    then show ?thesis using t Some by (simp add: Lock_Acquire_def)
  qed
  show "goes_well (may_fail prog t ts th s) (exec prog t (upd_kernel (set_cont ts) s))" if t: "t = Set_Holder l"
  proof (cases "locks (kern s) l")
    case None
    then show ?thesis using t by (simp add: set_holder_def may_fail_def get_def)
  next
    case (Some lk)
    have "sys_ok (upd_kernel (\<lambda>k. k\<lparr>locks := (locks k)(l \<mapsto> lk\<lparr>lockHolder := Some (currentThread (kern s))\<rparr>)\<rparr>)
        (upd_kernel (set_cont ts) s))"
      by (rule push[where us = "[]"]) (use t b at_task_on(1)[OF assms] in \<open>auto split: if_splits\<close>)
    then show ?thesis using t Some by (simp add: set_holder_def)
  qed
  show "goes_well (may_fail prog t ts th s) (exec prog t (upd_kernel (set_cont ts) s))" if t: "t = Release l"
  proof (cases "held l s")
    case False
    then show ?thesis using t
      by (cases "locks (kern s) l") (auto simp: Lock_Release_def assert_held_def may_fail_def get_def held_def check_def)
  next
    case True
    then obtain lk where lk: "locks (kern s) l = Some lk" "lockHolder lk = Some (currentThread (kern s))"
      by (auto simp: held_def)
    have "sys_ok (upd_kernel (push [Sem_V (lock_semaphore lk)])
       (upd_kernel (\<lambda>k. k\<lparr>locks := (locks k)(l \<mapsto> lk\<lparr>lockHolder := None\<rparr>)\<rparr>) (upd_kernel (set_cont ts) s)))"
      by (rule push[where us = "[Sem_V (lock_semaphore lk)]"]) (use t b at_task_on(1)[OF assms] in \<open>auto split: if_splits\<close>)
    then show ?thesis using t lk by (simp add: Lock_Release_def assert_held_def set_holder_def)
  qed
qed

lemma signal_steps:
  assumes "at_task t ts th s"
  shows "t = Signal c l \<Longrightarrow> goes_well (may_fail prog t ts th s) (exec prog t (upd_kernel (set_cont ts) s))"
    and "t = Broadcast c l \<Longrightarrow> goes_well (may_fail prog t ts th s) (exec prog t (upd_kernel (set_cont ts) s))"
    and "t = Restore_Status st \<Longrightarrow> goes_well (may_fail prog t ts th s) (exec prog t (upd_kernel (set_cont ts) s))"
proof -
  note b = at_task_basic[OF assms]
  note push = push_step[OF assms, where sp = "space th", unfolded thread_same]
  show "goes_well (may_fail prog t ts th s) (exec prog t (upd_kernel (set_cont ts) s))" if t: "t = Signal c l"
  proof (cases "held l s \<and> conditions (kern s) c \<noteq> None")
    case False
    then show ?thesis using t
      by (cases "locks (kern s) l"; cases "conditions (kern s) c")
        (auto simp: Condition_Signal_def assert_held_def may_fail_def get_def held_def check_def)
  next
    case True
    then obtain lk ws where lk: "locks (kern s) l = Some lk" "lockHolder lk = Some (currentThread (kern s))"
      "conditions (kern s) c = Some ws" by (auto simp: held_def)
    show ?thesis
    proof (cases ws)
      case Nil
      have "sys_ok (upd_kernel (set_cont ts) s)"
        by (rule push[where us = "[]"]) (use t b at_task_on(1)[OF assms] in \<open>auto split: if_splits\<close>)
      then show ?thesis using t lk Nil by (simp add: Condition_Signal_def assert_held_def)
    next
      case (Cons w rest)
      have "sys_ok (upd_kernel (\<lambda>k. push [Sem_V w] (k\<lparr>conditions := (conditions k)(c \<mapsto> rest)\<rparr>)) (upd_kernel (set_cont ts) s))"
        by (rule push[where us = "[Sem_V w]"])
          (use t b at_task_on(1)[OF assms] lk(3) Cons in \<open>auto split: if_splits\<close>)
      then show ?thesis using t lk Cons by (simp add: Condition_Signal_def assert_held_def)
    qed
  qed
  show "goes_well (may_fail prog t ts th s) (exec prog t (upd_kernel (set_cont ts) s))" if t: "t = Broadcast c l"
  proof (cases "conditions (kern s) c")
    case None
    then show ?thesis using t by (simp add: Condition_Broadcast_def may_fail_def get_def)
  next
    case (Some ws)
    have "sys_ok (upd_kernel (set_cont ts) s)"
      by (rule push[where us = "[]"]) (use t b at_task_on(1)[OF assms] in \<open>auto split: if_splits\<close>)
    moreover have "sys_ok (upd_kernel (push [Signal c l, Broadcast c l]) (upd_kernel (set_cont ts) s))"
      by (rule push[where us = "[Signal c l, Broadcast c l]"]) (use t b at_task_on(1)[OF assms] in \<open>auto split: if_splits\<close>)
    ultimately show ?thesis using t Some by (simp add: Condition_Broadcast_def)
  qed
  show "goes_well (may_fail prog t ts th s) (exec prog t (upd_kernel (set_cont ts) s))" if t: "t = Restore_Status st"
  proof -
    have "sys_ok (upd_kernel (set_cont ts) s\<lparr>status := st\<rparr>)"
      by (rule push[where us = "[]"]) (use t b at_task_on(1)[OF assms] in \<open>auto split: if_splits\<close>)
    then show ?thesis using t by simp
  qed
qed

lemma Code_step:
  assumes "at_task (Code c) ts th s" "program_ok prog"
  shows "goes_well (may_fail prog (Code c) ts th s) (exec prog (Code c) (upd_kernel (set_cont ts) s))"
proof -
  note b = at_task_basic[OF assms(1)] and o = at_task_on[OF assms(1), simplified]
  have ts: "on_list ts" using o(2) by (auto simp: on_list_def)
  let ?s0 = "upd_kernel (set_cont ts) s"
  have k: "kernel_inv (kern ?s0)" using set_cont_inv[OF b(2,3) o(3,4)] ts on_list_not_sleeping b(4) by auto
  show ?thesis
  proof (cases "prog c ?s0")
    case (Inl e)
    then show ?thesis by (simp add: run_code_def may_fail_def)
  next
    case (Inr r)
    then obtain s1 us where r: "prog c ?s0 = Inr (s1, us)" by (cases r) auto
    have f: "list_all client_task us" "code_frame ?s0 s1"
      using assms(2) r k b(1) o(1) unfolding program_ok_def by (metis base_ok_upd(1) upd_kernel_simps(2))+
    from f(2) obtain sp where sp: "threads (kern s1) = (threads (kern s))(currentThread (kern s) \<mapsto> th\<lparr>continuation := ts, space := sp\<rparr>)"
      using b(3) by (auto simp: code_frame_defs)
    have nd: "Delete_Semaphore w \<notin> set us" for w using f(1) by (auto simp: list_all_iff)
    have "on_list (us @ ts)" using on_list_push[OF list_all_client[OF f(1)] ts] .
    then have "sys_ok (upd_kernel (push us) s1)"
    proof (intro run_to[OF b(2,3) o(3,4), where c = "us @ ts" and sp = sp])
      show "i < next_semaphore (kern (upd_kernel (push us) s1)) \<and> 0 \<le> value sem
         \<and> (waiters sem = [] \<or> (\<exists>sem0. semaphores (kern s) i = Some sem0 \<and> waiters sem = waiters sem0))"
        if "semaphores (kern (upd_kernel (push us) s1)) i = Some sem" for i sem
      proof (cases "semaphores (kern s) i = Some sem")
        case True
        have "next_semaphore (kern s) \<le> next_semaphore (kern s1)" using f(2) by (simp add: code_frame_defs)
        then show ?thesis using True old_semaphores[OF b(2) True] by auto
      next
        case False
        then show ?thesis using that code_frame_semaphore[OF f(2), of i sem] by simp
      qed
      show "w < next_semaphore (kern (upd_kernel (push us) s1))"
        if "conditions (kern (upd_kernel (push us) s1)) c' = Some ws" "w \<in> set ws" for c' ws w
      proof -
        have "conditions (kern s) c' = Some ws" using that code_frame_condition[OF f(2), of c' ws] by auto
        from old_conditions[OF b(2) this that(2)] have "w < next_semaphore (kern s)" .
        also have "\<dots> \<le> next_semaphore (kern s1)" using f(2) by (simp add: code_frame_defs)
        finally show ?thesis by simp
      qed
    qed (use f(2) sp b nd o(1) in \<open>auto simp: code_frame_defs\<close>)
    then show ?thesis using r by (simp add: run_code_def)
  qed
qed

lemma Wait_step:
  assumes "at_task (Wait c l) ts th s"
  shows "goes_well (may_fail prog (Wait c l) ts th s) (exec prog (Wait c l) (upd_kernel (set_cont ts) s))"
proof (cases "held l s \<and> (\<exists>ws. conditions (kern s) c = Some ws \<and> next_semaphore (kern s) \<notin> set ws)")
  case True
  then obtain lk ws where lk: "locks (kern s) l = Some lk" "lockHolder lk = Some (currentThread (kern s))"
    "conditions (kern s) c = Some ws" "next_semaphore (kern s) \<notin> set ws" by (auto simp: held_def)
  note b = at_task_basic[OF assms] and o = at_task_on[OF assms, simplified]
  let ?w = "next_semaphore (kern s)"
  let ?us = "[Release l, Sem_P ?w None, Acquire l, Delete_Semaphore ?w]"
  let ?s = "upd_kernel (\<lambda>k. push ?us (k\<lparr>semaphores := (semaphores k)(?w \<mapsto> \<lparr>value = 0, waiters = []\<rparr>),
     next_semaphore := ?w + 1, conditions := (conditions k)(c \<mapsto> ws @ [?w])\<rparr>)) (upd_kernel (set_cont ts) s)"
  have "sys_ok ?s"
  proof (rule run_to[OF b(2,3) o(3,4), where c = "?us @ ts" and sp = "space th", unfolded thread_same])
    show "on_list (?us @ ts) \<and> level ?s = IntOn \<or> off_list (?us @ ts) \<and> \<not> sleeping (?us @ ts) \<and> level ?s = IntOff"
      using o(1,2) by (auto simp: on_list_def)
    show "i < next_semaphore (kern ?s) \<and> 0 \<le> value sem
       \<and> (waiters sem = [] \<or> (\<exists>sem0. semaphores (kern s) i = Some sem0 \<and> waiters sem = waiters sem0))"
      if "semaphores (kern ?s) i = Some sem" for i sem
      using old_semaphores[OF b(2), of i sem] that by (auto split: if_splits)
    show "semaphores (kern ?s) (client_semaphore (kern s) c') \<noteq> None" for c'
      using b(2) by (simp add: kernel_inv_def)
    show "w < next_semaphore (kern ?s)" if "conditions (kern ?s) c' = Some us" "w \<in> set us" for c' us w
      using old_conditions[OF b(2)] lk(3) that by (force split: if_splits)
  qed (use b in auto)
  then show ?thesis using lk by (simp add: Condition_Wait_def assert_held_def append_new_def Let_def)
next
  case False
  show ?thesis
  proof (cases "held l s")
    case held: False
    then show ?thesis
      by (cases "locks (kern s) l"; cases "conditions (kern s) c")
        (auto simp: Condition_Wait_def assert_held_def may_fail_def get_def held_def check_def)
  next
    case True
    then have "conditions (kern s) c = None"
      using False old_conditions[OF at_task_basic(2)[OF assms], of c _ "next_semaphore (kern s)"]
      by (cases "conditions (kern s) c") auto
    then show ?thesis using True by (auto simp: Condition_Wait_def assert_held_def may_fail_def get_def held_def)
  qed
qed

lemma Delete_step:
  assumes "at_task (Delete_Semaphore i) ts th s"
  shows "goes_well (may_fail prog (Delete_Semaphore i) ts th s) (exec prog (Delete_Semaphore i) (upd_kernel (set_cont ts) s))"
proof -
  note b = at_task_basic[OF assms] and o = at_task_on[OF assms, simplified]
  have "i \<notin> range (client_semaphore (kern s))"
    using kernel_inv_thread[OF b(2,3)] b(4) by (simp add: thread_ok_def)
  then have i: "client_semaphore (kern s) c \<noteq> i" for c by blast
  let ?s = "upd_kernel (\<lambda>k. k\<lparr>semaphores := (semaphores k)(i := None)\<rparr>) (upd_kernel (set_cont ts) s)"
  have "sys_ok ?s"
  proof (rule run_to[OF b(2,3) o(3,4), where c = ts and sp = "space th", unfolded thread_same])
    show "on_list ts \<and> level ?s = IntOn \<or> off_list ts \<and> \<not> sleeping ts \<and> level ?s = IntOff"
      using o(1,2) by (auto simp: on_list_def)
    show "j < next_semaphore (kern ?s) \<and> 0 \<le> value sem
       \<and> (waiters sem = [] \<or> (\<exists>sem0. semaphores (kern s) j = Some sem0 \<and> waiters sem = waiters sem0))"
      if "semaphores (kern ?s) j = Some sem" for j sem
      using old_semaphores[OF b(2), of j sem] that by (auto split: if_splits)
    show "semaphores (kern ?s) (client_semaphore (kern s) c') \<noteq> None" for c'
      using b(2) i by (simp add: kernel_inv_def)
    show "w < next_semaphore (kern ?s)" if "conditions (kern ?s) c' = Some us" "w \<in> set us" for c' us w
      using old_conditions[OF b(2)] that by auto
  qed (use b in auto)
  then show ?thesis by simp
qed

text \<open>\<open>V\<close> and the signals of interrupts leave the current thread, when it runs, and the
  continuations of all threads alone.\<close>

lemma V_kernel_threads:
  assumes "kernel_inv k"
  shows "map_option continuation (threads (V_kernel i k) t) = map_option continuation (threads k t)"
    and "threads k t = Some th \<Longrightarrow> thread_status th = RUNNING \<Longrightarrow> threads (V_kernel i k) t = Some th"
proof -
  show "map_option continuation (threads (V_kernel i k) t) = map_option continuation (threads k t)"
    by (auto simp: V_kernel_def option.map_comp comp_def split: option.splits list.splits)
  assume t: "threads k t = Some th" "thread_status th = RUNNING"
  show "threads (V_kernel i k) t = Some th"
  proof (cases "semaphores k i")
    case (Some sem)
    have "t \<notin> set (waiters sem)"
      using kernel_inv_semaphore[OF assms Some] t by (auto simp: semaphore_ok_def)
    then show ?thesis using Some t by (auto simp: V_kernel_def split: list.splits)
  qed (use t in \<open>simp add: V_kernel_def\<close>)
qed

lemma interrupted_inv:
  assumes "interrupted k0 k" "kernel_inv k0"
  shows "kernel_inv k" "currentThread k = currentThread k0" "toBeDestroyed k = toBeDestroyed k0"
    "\<And>t. map_option continuation (threads k t) = map_option continuation (threads k0 t)"
    "\<And>t th. threads k0 t = Some th \<Longrightarrow> thread_status th = RUNNING \<Longrightarrow> threads k t = Some th"
    "locks k = locks k0" "next_semaphore k = next_semaphore k0"
proof -
  let ?Q = "\<lambda>k. kernel_inv k \<and> client_semaphore k = client_semaphore k0 \<and> currentThread k = currentThread k0
    \<and> toBeDestroyed k = toBeDestroyed k0 \<and> locks k = locks k0 \<and> next_semaphore k = next_semaphore k0
    \<and> (\<forall>t. map_option continuation (threads k t) = map_option continuation (threads k0 t))
    \<and> (\<forall>t th. threads k0 t = Some th \<longrightarrow> thread_status th = RUNNING \<longrightarrow> threads k t = Some th)"
  have "?Q k"
  proof (rule interrupted_induct[OF assms(1), of ?Q])
    show "?Q (V_kernel (client_semaphore k0 c) k)" if q: "?Q k" for k c
    proof -
      have k: "kernel_inv k" "client_semaphore k c = client_semaphore k0 c" using q by simp_all
      obtain sem where "semaphores k (client_semaphore k c) = Some sem" by (rule kernel_inv_client[OF k(1)])
      from V_kernel_inv[OF k(1) this] have "kernel_inv (V_kernel (client_semaphore k0 c) k)" using k(2) by simp
      moreover have "\<forall>t th. threads k0 t = Some th \<longrightarrow> thread_status th = RUNNING \<longrightarrow>
          threads (V_kernel (client_semaphore k0 c) k) t = Some th"
        using q V_kernel_threads(2)[OF k(1)] by blast
      ultimately show ?thesis using q V_kernel_threads(1)[OF k(1), of "client_semaphore k0 c"] by simp
    qed
  qed (use assms(2) in simp)
  then show "kernel_inv k" "currentThread k = currentThread k0" "toBeDestroyed k = toBeDestroyed k0"
    "\<And>t. map_option continuation (threads k t) = map_option continuation (threads k0 t)"
    "\<And>t th. threads k0 t = Some th \<Longrightarrow> thread_status th = RUNNING \<Longrightarrow> threads k t = Some th"
    "locks k = locks k0" "next_semaphore k = next_semaphore k0"
    by simp_all
qed

text \<open>\<open>V\<close> by the current thread, and the tick where interrupts come back on.\<close>

lemma Sem_V_step:
  assumes "at_task (Sem_V i) ts th s"
  shows "goes_well (may_fail prog (Sem_V i) ts th s) (exec prog (Sem_V i) (upd_kernel (set_cont ts) s))"
proof (cases "semaphores (kern s) i")
  case None
  then show ?thesis by (simp add: Semaphore_V_def V_body_def may_fail_def get_def)
next
  case (Some sem)
  note b = at_task_basic[OF assms] and o = at_task_on[OF assms, simplified]
  have ts: "on_list ts" using o(2) by (auto simp: on_list_def)
  let ?k = "set_cont ts (kern s)"
  have k: "kernel_inv ?k" by (rule set_cont_inv[OF b(2,3) o(3,4)]) (use ts on_list_not_sleeping b(4) in auto)
  have cur: "threads ?k (currentThread ?k) = Some (th\<lparr>continuation := ts\<rparr>)" using b(3) by simp
  let ?s = "ChangeLevel (level s) IntOff (upd_kernel (set_cont ts) s)"
  have V: "V_body i ?s = Inr (upd_kernel (V_kernel i) ?s)"
    by (rule V_body_run[of ?s i sem]) (use k Some in simp_all)
  have Vk: "kernel_inv (V_kernel i ?k)" by (rule V_kernel_inv[OF k, of i sem]) (use Some in simp)
  have cur': "threads (V_kernel i ?k) (currentThread (V_kernel i ?k)) = Some (th\<lparr>continuation := ts\<rparr>)"
    using V_kernel_threads(2)[OF k cur] o(3) by simp
  let ?s' = "upd_kernel (push [Restore_Level (level s)]) (upd_kernel (V_kernel i) ?s)"
  have "sys_ok ?s'"
  proof (rule run_to[OF Vk cur', where c = "Restore_Level IntOn # ts" and sp = "space th"])
    show "j < next_semaphore (kern ?s') \<and> 0 \<le> value x
       \<and> (waiters x = [] \<or> (\<exists>sem0. semaphores (V_kernel i ?k) j = Some sem0 \<and> waiters x = waiters sem0))"
      if "semaphores (kern ?s') j = Some x" for j x
      using old_semaphores[OF Vk] that by simp
    show "semaphores (kern ?s') (client_semaphore (V_kernel i ?k) c) \<noteq> None" for c
      using Vk by (simp add: kernel_inv_def)
    show "w < next_semaphore (kern ?s')" if "conditions (kern ?s') c = Some us" "w \<in> set us" for c us w
      using old_conditions[OF Vk] that by simp
    show "threads (kern ?s') = (threads (V_kernel i ?k))
        (currentThread (V_kernel i ?k) \<mapsto> th\<lparr>continuation := ts\<rparr>\<lparr>continuation := Restore_Level IntOn # ts, space := space th\<rparr>)"
      using cur' o(1) by (cases th) simp
  qed (use b o ts in auto)
  then show ?thesis using V by (simp add: Semaphore_V_def Let_def)
qed

text \<open>What a tick makes of the popped state.\<close>

lemma tick_step:
  assumes "base_ok s" "kernel_inv (kern s)" "threads (kern s) (currentThread (kern s)) = Some th"
    "thread_status th = RUNNING" "toBeDestroyed (kern s) = None" "on_list (continuation th)"
  shows "\<exists>s'. tick s = Inr s' \<and> sys_ok s'"
proof -
  obtain s' k us where t: "tick s = Inr s'" "base_ok s'" "level s' = IntOn" "interrupted (kern s) k" "kernel_inv k"
    "kern s' = push us k" "us = [] \<or> us = [Yield, Restore_Status (status s)]"
    using tick_run[OF assms(1,2)] by blast
  note i = interrupted_inv[OF t(4) assms(2)]
  have cur: "threads k (currentThread k) = Some th" using i(2,5) assms(3,4) by simp
  have "sys_ok s'"
  proof (rule run_to[OF t(5) cur assms(4) _ t(2), where c = "us @ continuation th" and sp = "space th"])
    show "on_list (us @ continuation th) \<and> level s' = IntOn \<or>
        off_list (us @ continuation th) \<and> \<not> sleeping (us @ continuation th) \<and> level s' = IntOff"
      using t(3,7) assms(6) by (auto simp: on_list_def)
    show "j < next_semaphore (kern s') \<and> 0 \<le> value x
       \<and> (waiters x = [] \<or> (\<exists>sem0. semaphores k j = Some sem0 \<and> waiters x = waiters sem0))"
      if "semaphores (kern s') j = Some x" for j x
      using old_semaphores[OF t(5)] that t(6) by simp
    show "semaphores (kern s') (client_semaphore k c) \<noteq> None" for c
      using t(5,6) by (simp add: kernel_inv_def)
    show "w < next_semaphore (kern s')" if "conditions (kern s') c = Some ws" "w \<in> set ws" for c ws w
      using old_conditions[OF t(5)] that t(6) by simp
    show "threads (kern s') = (threads k)(currentThread k \<mapsto> th\<lparr>continuation := us @ continuation th, space := space th\<rparr>)"
      using cur t(6) by (simp add: thread_same)
  qed (use t(6,7) i(3) assms(5) in auto)
  then show ?thesis using t(1) by blast
qed

end
