(* ===== verification/Kernel_Safety.thy ===== *)
theory Kernel_Safety imports Kernel_Steps begin

text \<open>
  Context switches, sleeping and waking, and the theorem that every step of the kernel keeps the
  invariant.
\<close>

section \<open>Switching threads\<close>

text \<open>A switch takes the front of the ready list; \<open>yields\<close> puts the old thread at its end.\<close>

lemma switch_inv:
  assumes k: "kernel_inv k" "toBeDestroyed k = None" "threads k (currentThread k) = Some th"
    "readyList k = next # rest" "threads k next = Some nx"
    and th': "thread_status th' = (if yields then READY else thread_status th)" "continuation th' = After_Switch # c"
    "unat (userRegisters th' LoadReg) < NumGPRegs"
    "\<And>w. Delete_Semaphore w \<in> set c \<Longrightarrow> Delete_Semaphore w \<in> set (continuation th)"
    and yields: "yields \<Longrightarrow> thread_status th = RUNNING \<and> \<not> fin" "\<not> yields \<Longrightarrow> thread_status th \<noteq> RUNNING"
    and fin: "fin \<Longrightarrow> thread_status th = BLOCKED \<and> list_all on_task c"
      "\<not> fin \<Longrightarrow> inner_off c"
    and waits: "\<And>i. waits_for i (continuation th) \<Longrightarrow> \<not> fin \<and> waits_for i (After_Switch # c)"
    and k': "threads k' = (threads k)(currentThread k \<mapsto> th',
         next \<mapsto> (if next = currentThread k then th' else nx)\<lparr>thread_status := RUNNING\<rparr>)"
      "readyList k' = rest @ (if yields then [currentThread k] else [])" "currentThread k' = next"
      "toBeDestroyed k' = (if fin then Some (currentThread k) else None)"
      "semaphores k' = semaphores k" "next_thread k' = next_thread k" "next_semaphore k' = next_semaphore k"
      "client_semaphore k' = client_semaphore k" "conditions k' = conditions k"
  shows "kernel_inv k'"
proof -
  let ?cur = "currentThread k"
  note cur_ok = kernel_inv_thread[OF k(1,3), unfolded thread_ok_def]
  note next_ok = kernel_inv_thread[OF k(1,5), unfolded thread_ok_def]
  have ready: "distinct (next # rest)" "\<forall>t \<in> set (next # rest). threads k t \<noteq> None"
    using k(1,4) by (simp_all add: kernel_inv_def ready_ok_def)
  have dcur: "Delete_Semaphore w \<in> set (continuation th) \<Longrightarrow> w \<notin> range (client_semaphore k)"
    and dnext: "Delete_Semaphore w \<in> set (continuation nx) \<Longrightarrow> w \<notin> range (client_semaphore k)" for w
    using cur_ok next_ok by blast+
  have next_ready: "thread_status nx = READY" using next_ok k(4) by simp
  have next_cur: "next = ?cur \<Longrightarrow> nx = th" using k(3,5) by simp
  have yields_ne: "yields \<Longrightarrow> next \<noteq> ?cur" using yields(1) next_ready next_cur by auto
  have fin_ne: "fin \<Longrightarrow> next \<noteq> ?cur" using fin(1) next_ready next_cur by auto
  have yields_nr: "yields \<Longrightarrow> ?cur \<notin> set (next # rest)" using cur_ok yields(1) k(4) by auto
  have cur_rest: "\<not> yields \<Longrightarrow> next \<noteq> ?cur \<Longrightarrow> thread_status th = READY \<longleftrightarrow> ?cur \<in> set rest"
    using cur_ok k(4) by auto
  have off: "\<not> fin \<Longrightarrow> off_list (After_Switch # c)" using fin(2) by simp
  have nparked: "next \<noteq> ?cur \<Longrightarrow> parked (continuation nx)" using next_ok k(2) by simp
  have ncont: "off_list (continuation nx) \<and> switching (continuation nx) \<and> \<not> sleeping (continuation nx)"
    if "next \<noteq> ?cur"
    using nparked[OF that] parked_off by (cases "continuation nx" rule: parked.cases) auto
  have "ready_ok k'" using ready yields_nr k'(1,2) k(3) by (auto simp: ready_ok_def)
  moreover have "current_ok k'"
  proof (cases "next = ?cur")
    case True
    then show ?thesis using k'(1,3,4) th'(2) off fin_ne by (auto simp: current_ok_def)
  next
    case False
    then show ?thesis using k'(1,3) ncont by (auto simp: current_ok_def)
  qed
  moreover have "thread_ok k' t x" if t: "threads k' t = Some x" for t x
  proof -
    consider "t = next" | "t = ?cur" "t \<noteq> next" | "t \<noteq> next" "t \<noteq> ?cur" by blast
    then show ?thesis
    proof cases
      case 1
      have "x = (if next = ?cur then th' else nx)\<lparr>thread_status := RUNNING\<rparr>" using t 1 k'(1) by simp
      moreover have "next \<notin> set (readyList k')" using ready(1) yields_ne k'(2) by auto
      moreover have "next < next_thread k" using next_ok by blast
      moreover have "unat (userRegisters (if next = ?cur then th' else nx) LoadReg) < NumGPRegs"
        using next_ok th'(3) by presburger
      moreover have "w \<notin> range (client_semaphore k)"
        if "Delete_Semaphore w \<in> set (continuation (if next = ?cur then th' else nx))" for w
        using that dnext dcur th'(2) th'(4)[of w] by (cases "next = ?cur") simp_all
      ultimately show ?thesis using 1 k'(3,6,8) by (simp add: thread_ok_def)
    next
      case 2
      then have x: "x = th'" using t k'(1) by simp
      have "thread_status th' = READY \<longleftrightarrow> t \<in> set (readyList k')"
        using 2 cur_rest th'(1) k'(2) by (cases yields) auto
      moreover have "thread_status th' \<noteq> RUNNING" "thread_status th' \<noteq> JUST_CREATED"
        using th'(1) yields(2) cur_ok by (cases yields; simp)+
      moreover have "if toBeDestroyed k' = Some t
         then thread_status th' = BLOCKED \<and> (\<exists>ts. continuation th' = After_Switch # ts \<and> list_all on_task ts)
         else parked (continuation th')"
        using 2 k'(4) th'(1,2) fin yields(1) by (cases fin) auto
      moreover have "w \<notin> range (client_semaphore k)" if "Delete_Semaphore w \<in> set (continuation th')" for w
        using that dcur th'(2) th'(4)[of w] by simp
      moreover have "?cur < next_thread k" using cur_ok by blast
      ultimately show ?thesis using 2 x th'(3) k'(3,6,8) by (simp add: thread_ok_def)
    next
      case 3
      then have "threads k t = Some x" using t k'(1) by simp
      note tok = kernel_inv_thread[OF k(1) this, unfolded thread_ok_def]
      have "t \<in> set (readyList k) \<longleftrightarrow> t \<in> set (readyList k')" using 3 k(4) k'(2) by auto
      moreover have "toBeDestroyed k' \<noteq> Some t" using 3 k'(4) by simp
      moreover have "thread_status x \<noteq> RUNNING" using tok 3 by blast
      moreover have "parked (continuation x)" using tok 3 k(2) by simp
      ultimately show ?thesis using tok k'(6,8) unfolding thread_ok_def by simp
    qed
  qed
  moreover have "semaphore_ok k' i sem" if "semaphores k' i = Some sem" for i sem
  proof -
    have s: "semaphores k i = Some sem" using that k'(5) by simp
    note sok = kernel_inv_semaphore[OF k(1) s, unfolded semaphore_ok_def]
    have "\<exists>x. threads k' t = Some x \<and> thread_status x = BLOCKED \<and> waits_for i (continuation x)"
      if t: "t \<in> set (waiters sem)" for t
    proof -
      obtain x where x: "threads k t = Some x" "thread_status x = BLOCKED" "waits_for i (continuation x)"
        using sok t by metis
      then have "t \<noteq> next" using k(5) next_ready by auto
      then show ?thesis using x waits[of i] k(3) k'(1) th'(1,2) yields(1)
        by (cases "t = ?cur") (auto split: if_splits)
    qed
    then show ?thesis using sok k'(7) by (simp add: semaphore_ok_def)
  qed
  moreover have "\<forall>d. toBeDestroyed k' = Some d \<longrightarrow> d \<noteq> currentThread k' \<and> threads k' d \<noteq> None"
    using k'(1,3,4) fin_ne by auto
  ultimately show ?thesis using k(1) k'(5,7,8,9) by (simp add: kernel_inv_def)
qed

definition saved :: "machine option \<Rightarrow> thread \<Rightarrow> thread" where
  "saved c th = (case c of None \<Rightarrow> th | Some m \<Rightarrow> save_user m th)"

lemma saved_simps [simp]:
  "thread_status (saved c th) = thread_status th" "continuation (saved c th) = continuation th"
  by (simp_all add: saved_def save_user_def SaveUserState_def split: option.splits)

lemma saved_regs:
  assumes "cpu_ok c" "unat (userRegisters th LoadReg) < NumGPRegs"
  shows "unat (userRegisters (saved c th) LoadReg) < NumGPRegs"
  using assms by (auto simp: saved_def save_user_def SaveUserState_def cpu_ok_def split: option.splits)

lemma saved_no_space: "space th = None \<Longrightarrow> saved c th = th"
  by (simp add: saved_def save_user_def split: option.splits)

definition switch_to :: "nat \<Rightarrow> bool \<Rightarrow> machine option \<Rightarrow> 'u kernel \<Rightarrow> 'u kernel" where
  "switch_to next fin c k =
     upd_thread next (\<lambda>th. th\<lparr>thread_status := RUNNING\<rparr>)
       ((upd_thread (currentThread k) (\<lambda>th. (saved c th)\<lparr>continuation := After_Switch # continuation th\<rparr>)
          (k\<lparr>toBeDestroyed := (if fin then Some (currentThread k) else toBeDestroyed k)\<rparr>))
         \<lparr>currentThread := next\<rparr>)"

lemma Run_run:
  assumes "level s = IntOff" "fin \<Longrightarrow> toBeDestroyed (kern s) = None" "threads (kern s) (currentThread (kern s)) = Some th"
    "threads (kern s) next \<noteq> None"
  shows "Run next fin s = (if space th \<noteq> None \<and> cpu s = None then Inl NullPointer
     else Inr (upd_kernel (switch_to next fin (cpu s)) s))"
proof -
  let ?s = "if fin then upd_kernel (\<lambda>k. k\<lparr>toBeDestroyed := Some (currentThread k)\<rparr>) s else s"
  have s: "kern ?s = (kern s)\<lparr>toBeDestroyed := (if fin then Some (currentThread (kern s)) else toBeDestroyed (kern s))\<rparr>"
    "cpu ?s = cpu s" by simp_all
  show ?thesis
  proof (cases "space th")
    case None
    have "upd_thread t (\<lambda>th. (saved c th)\<lparr>continuation := x th\<rparr>) k = upd_thread t (\<lambda>th. th\<lparr>continuation := x th\<rparr>) k"
      if "threads k t = Some th" for t c x and k :: "'u kernel"
      using that None by (simp add: upd_thread_def saved_no_space)
    then show ?thesis using assms s None
      by (auto simp: Run_def save_current_def switch_to_def[abs_def] upd_kernel_def push_def upd_thread_def saved_no_space)
  next
    case (Some sp)
    show ?thesis
    proof (cases "cpu s")
      case None
      then show ?thesis using assms s Some by (simp add: Run_def save_current_def get_def)
    next
      case (Some m)
      have "next \<in> dom (threads (kern s))" using assms(4) by auto
      then show ?thesis using assms s \<open>space th = Some sp\<close> Some
        by (auto simp: Run_def save_current_def switch_to_def[abs_def] upd_kernel_def push_def upd_thread_def saved_def get_def
            save_user_def SaveUserState_def)
    qed
  qed
qed

lemma Run_switch_ok:
  assumes "kernel_inv (kern s)" "base_ok s" "level s = IntOff" "toBeDestroyed (kern s) = None"
    "threads (kern s) (currentThread (kern s)) = Some th" "readyList (kern s) = nxt # rest"
    "yields \<Longrightarrow> thread_status th = RUNNING \<and> \<not> fin" "\<not> yields \<Longrightarrow> thread_status th \<noteq> RUNNING"
    "fin \<Longrightarrow> thread_status th = BLOCKED \<and> list_all on_task c" "\<not> fin \<Longrightarrow> inner_off c"
    "\<And>i. waits_for i (continuation th) \<Longrightarrow> \<not> fin \<and> waits_for i (After_Switch # c)"
    "\<And>w. Delete_Semaphore w \<in> set c \<Longrightarrow> Delete_Semaphore w \<in> set (continuation th)"
    "kern s' = switch_to nxt fin (cpu s)
       ((if yields then wake (currentThread (kern s)) else id) ((set_cont c (kern s))\<lparr>readyList := rest\<rparr>))"
    "base_ok s'" "level s' = IntOff"
  shows "sys_ok s'"
proof -
  let ?k = "kern s" and ?k' = "kern s'" and ?cur = "currentThread (kern s)"
  have "threads ?k nxt \<noteq> None" using assms(1,6) by (simp add: kernel_inv_def ready_ok_def)
  then obtain nx where nx: "threads ?k nxt = Some nx" by blast
  define th' where "th' = saved (cpu s) (if yields then th\<lparr>continuation := c, thread_status := READY\<rparr> else th\<lparr>continuation := c\<rparr>)
      \<lparr>continuation := After_Switch # c\<rparr>"
  have regs: "unat (userRegisters th LoadReg) < NumGPRegs"
    using kernel_inv_thread[OF assms(1,5)] by (simp add: thread_ok_def)
  have cpu: "cpu_ok (cpu s)" using assms(2) by (simp add: base_ok_def)
  have th': "thread_status th' = (if yields then READY else thread_status th)" "continuation th' = After_Switch # c"
    "unat (userRegisters th' LoadReg) < NumGPRegs"
    using saved_regs[OF cpu] regs by (simp_all add: th'_def)
  have k': "threads ?k' = (threads ?k)(?cur \<mapsto> th', nxt \<mapsto> (if nxt = ?cur then th' else nx)\<lparr>thread_status := RUNNING\<rparr>)"
      "readyList ?k' = rest @ (if yields then [?cur] else [])" "currentThread ?k' = nxt"
      "toBeDestroyed ?k' = (if fin then Some ?cur else None)"
      "semaphores ?k' = semaphores ?k" "next_thread ?k' = next_thread ?k" "next_semaphore ?k' = next_semaphore ?k"
      "client_semaphore ?k' = client_semaphore ?k" "conditions ?k' = conditions ?k"
    using assms(4,5,13) nx by (auto simp: switch_to_def upd_thread_def th'_def)
  have inv: "kernel_inv ?k'"
    by (rule switch_inv[OF assms(1,4,5,6) nx th' assms(12,7,8,9,10,11) k'])
  then have "\<exists>x. threads ?k' nxt = Some x \<and> (off_list (continuation x))"
  proof (cases "nxt = ?cur")
    case True
    then have "\<not> fin" using assms(5,9) nx kernel_inv_thread[OF assms(1) nx] assms(6)
      by (auto simp: thread_ok_def)
    then show ?thesis using True k'(1) th'(2) assms(10) by simp
  next
    case False
    then have "parked (continuation nx)" using kernel_inv_thread[OF assms(1) nx] assms(4) by (simp add: thread_ok_def)
    then show ?thesis using False k'(1) parked_off by simp
  qed
  then show ?thesis using inv assms(14,15) k'(3) by (auto intro: sys_okI)
qed

lemma Yield_step:
  assumes "at_task Yield ts th s"
  shows "goes_well (may_fail prog Yield ts th s) (exec prog Yield (upd_kernel (set_cont ts) s))"
proof -
  note b = at_task_basic[OF assms] and o = at_task_on[OF assms, simplified]
  let ?c = "Restore_Level IntOn # ts"
  have ts: "on_list ts" using o(2) by (auto simp: on_list_def)
  let ?s = "upd_kernel (push [Restore_Level (level s)]) (ChangeLevel (level s) IntOff (upd_kernel (set_cont ts) s))"
  have k: "kern ?s = set_cont ?c (kern s)" using b(3) o(1) by (simp add: push_def set_cont_def upd_thread_def)
  show ?thesis
  proof (cases "readyList (kern s)")
    case Nil
    have "sys_ok ?s"
      by (rule plain_step[OF assms, where c = ?c and sp = "space th", unfolded thread_same])
        (use ts b o(1) k in \<open>auto simp: thread_same\<close>)
    then show ?thesis using Nil k by (simp add: Thread_Yield_def Let_def FindNextToRun_def)
  next
    case (Cons n rest)
    let ?s1 = "upd_kernel (\<lambda>k. k\<lparr>readyList := rest\<rparr>) ?s"
    have cur: "threads (kern ?s1) (currentThread (kern ?s1)) = Some (th\<lparr>continuation := ?c\<rparr>)" using b(3) k by simp
    have "currentThread (kern s) \<notin> set (n # rest)"
      using kernel_inv_thread[OF b(2,3)] o(3) Cons by (simp add: thread_ok_def)
    then have nr: "currentThread (kern ?s1) \<notin> set (readyList (kern ?s1))" using k by simp
    have R: "ReadyToRun (currentThread (kern ?s1)) ?s1 = Inr (upd_kernel (wake (currentThread (kern ?s1))) ?s1)"
      by (rule ReadyToRun_run[OF _ cur nr]) simp
    let ?s2 = "upd_kernel (wake (currentThread (kern s))) ?s1"
    have nxt: "threads (kern s) n \<noteq> None" using b(2) Cons by (simp add: kernel_inv_def ready_ok_def)
    have "Run n False ?s2 = (if space th \<noteq> None \<and> cpu s = None then Inl NullPointer
       else Inr (upd_kernel (switch_to n False (cpu s)) ?s2))"
      using Run_run[of ?s2 False "th\<lparr>continuation := ?c, thread_status := READY\<rparr>" n] cur nxt b(3) k by simp
    moreover have "sys_ok (upd_kernel (switch_to n False (cpu s)) ?s2)"
      by (rule Run_switch_ok[where s = "ChangeLevel (level s) IntOff s" and yields = True and c = ?c and fin = False
            and th = th and rest = rest])
        (use b o ts Cons in \<open>auto simp: push_set_cont\<close>)
    moreover have "Thread_Yield (upd_kernel (set_cont ts) s) = Run n False ?s2"
      using R Cons k by (simp add: Thread_Yield_def Let_def FindNextToRun_def)
    ultimately show ?thesis by (simp add: may_fail_def)
  qed
qed

text \<open>Blocking on a semaphore, and the end of a thread.\<close>

lemma blocked_current:
  assumes "kernel_inv k" "threads k (currentThread k) = Some th" "thread_status th = RUNNING" "toBeDestroyed k = None"
    and th': "thread_status th' = BLOCKED" "off_list (continuation th')" "sleeping (continuation th')"
      "userRegisters th' = userRegisters th"
      "\<And>w. Delete_Semaphore w \<in> set (continuation th') \<Longrightarrow> Delete_Semaphore w \<in> set (continuation th)"
    and k': "threads k' = (threads k)(currentThread k \<mapsto> th')" "readyList k' = readyList k"
      "currentThread k' = currentThread k" "toBeDestroyed k' = None" "next_thread k' = next_thread k"
      "next_semaphore k' = next_semaphore k" "client_semaphore k' = client_semaphore k" "conditions k' = conditions k"
      "\<And>c. semaphores k' (client_semaphore k c) \<noteq> None"
      "\<And>i sem. semaphores k' i = Some sem \<Longrightarrow> semaphore_ok k' i sem"
  shows "kernel_inv k'"
proof -
  note ok = kernel_inv_thread[OF assms(1,2), unfolded thread_ok_def]
  have "thread_ok k' t x" if t: "threads k' t = Some x" for t x
  proof (cases "t = currentThread k")
    case True
    have "w \<notin> range (client_semaphore k)" if "Delete_Semaphore w \<in> set (continuation th')" for w
      using ok th'(5)[OF that] by blast
    then show ?thesis using True t k'(1-7) th'(1,4) assms(3) ok by (simp add: thread_ok_def)
  next
    case False
    then have "threads k t = Some x" using t k'(1) by simp
    show ?thesis by (rule thread_ok_frame[OF kernel_inv_thread[OF assms(1) \<open>threads k t = Some x\<close>]]) (use k' assms(4) in simp_all)
  qed
  moreover have "ready_ok k" using assms(1) by (simp add: kernel_inv_def)
  then have "ready_ok k'" using k'(1,2) by (simp add: ready_ok_def)
  moreover have "current_ok k'" using k'(1,3,4) th'(1-3) by (simp add: current_ok_def)
  ultimately show ?thesis using assms(1) k' by (simp add: kernel_inv_def)
qed

lemma block_inv:
  assumes "kernel_inv k" "threads k (currentThread k) = Some th" "thread_status th = RUNNING" "toBeDestroyed k = None"
    "semaphores k i = Some sem"
    "continuation th = P_loop i l r # ts \<and> l = IntOn \<and> on_list ts \<and> currentThread k \<notin> set (waiters sem)"
    "threads k' = (threads k)(currentThread k \<mapsto> th\<lparr>thread_status := BLOCKED, continuation := Dispatch False # P_loop i l r # ts\<rparr>)"
    "readyList k' = readyList k"
    "currentThread k' = currentThread k" "toBeDestroyed k' = None" "next_thread k' = next_thread k"
    "next_semaphore k' = next_semaphore k" "client_semaphore k' = client_semaphore k" "conditions k' = conditions k"
    "semaphores k' = (semaphores k)(i \<mapsto> sem\<lparr>waiters := waiters sem @ [currentThread k]\<rparr>)"
  shows "kernel_inv k'"
proof (rule blocked_current[OF assms(1-4) _ _ _ _ _ assms(7-14)])
  show "semaphores k' (client_semaphore k c) \<noteq> None" for c using assms(1,15) by (simp add: kernel_inv_def)
  show "semaphore_ok k' j x" if x: "semaphores k' j = Some x" for j x
  proof -
    have w: "\<exists>y. threads k' u = Some y \<and> thread_status y = BLOCKED \<and> waits_for j (continuation y)"
      if "threads k u = Some y" "thread_status y = BLOCKED" "waits_for j (continuation y)" for u y
      using that assms(2,3,7) by (cases "u = currentThread k") auto
    show ?thesis
    proof (cases "j = i")
      case True
      then have "x = sem\<lparr>waiters := waiters sem @ [currentThread k]\<rparr>" using x assms(15) by simp
      then show ?thesis using True kernel_inv_semaphore[OF assms(1,5), unfolded semaphore_ok_def] w assms(6,7,12)
        by (auto simp: semaphore_ok_def)
    next
      case False
      then have "semaphores k j = Some x" using x assms(15) by simp
      from kernel_inv_semaphore[OF assms(1) this] show ?thesis using w assms(12)
        unfolding semaphore_ok_def by metis
    qed
  qed
qed (use assms(6) in auto)

lemma P_loop_step:
  assumes "at_task (P_loop i l r) ts th s"
  shows "goes_well (may_fail prog (P_loop i l r) ts th s) (exec prog (P_loop i l r) (upd_kernel (set_cont ts) s))"
proof (cases "semaphores (kern s) i")
  case None
  then show ?thesis by (simp add: Semaphore_P_loop_def may_fail_def get_def)
next
  case (Some sem)
  note b = at_task_basic[OF assms]
  have off: "level s = IntOff" "l = IntOn" "on_list ts"
    using b(5,6) by (auto simp: on_list_def)
  have run: "thread_status th = RUNNING" using b(7) by simp
  have tbd: "toBeDestroyed (kern s) = None" using b(8) by (cases "toBeDestroyed (kern s)") auto
  let ?k = "kern s" and ?cur = "currentThread (kern s)"
  show ?thesis
  proof (cases "value sem = 0")
    case False
    let ?us = "Restore_Level l # (case r of None \<Rightarrow> [] | Some l \<Rightarrow> [Set_Holder l])"
    let ?s = "upd_kernel (\<lambda>k. push ?us (upd_semaphore i (\<lambda>x. x\<lparr>value := value x - 1\<rparr>) k)) (upd_kernel (set_cont ts) s)"
    have "sys_ok ?s"
    proof (rule run_to[OF b(2,3) run tbd, where c = "?us @ ts" and sp = "space th", unfolded thread_same])
      show "on_list (?us @ ts) \<and> level ?s = IntOn \<or> off_list (?us @ ts) \<and> \<not> sleeping (?us @ ts) \<and> level ?s = IntOff"
        using off by (auto simp: on_list_def split: option.splits)
      show "j < next_semaphore (kern ?s) \<and> 0 \<le> value x
         \<and> (waiters x = [] \<or> (\<exists>sem0. semaphores ?k j = Some sem0 \<and> waiters x = waiters sem0))"
        if x: "semaphores (kern ?s) j = Some x" for j x
        using x False Some old_semaphores[OF b(2), of j] kernel_inv_semaphore[OF b(2) Some]
        by (cases "j = i") (auto simp: upd_semaphore_def semaphore_ok_def)
      show "semaphores (kern ?s) (client_semaphore ?k c') \<noteq> None" for c'
        using b(2) Some by (simp add: kernel_inv_def upd_semaphore_def)
      show "w < next_semaphore (kern ?s)" if "conditions (kern ?s) c' = Some us" "w \<in> set us" for c' us w
        using old_conditions[OF b(2)] that by (simp add: upd_semaphore_def)
    qed (use b off in \<open>auto simp: upd_semaphore_def split: option.splits\<close>)
    then show ?thesis using False Some by (simp add: Semaphore_P_loop_def)
  next
    case True
    have new: "?cur \<notin> set (waiters sem)"
      using kernel_inv_semaphore[OF b(2) Some] b(3) run by (auto simp: semaphore_ok_def)
    let ?c = "Dispatch False # P_loop i l r # ts"
    let ?s = "upd_kernel (\<lambda>k. push [Dispatch False] (upd_thread (currentThread k) (\<lambda>th. th\<lparr>thread_status := BLOCKED\<rparr>) k))
      (upd_kernel (\<lambda>k. upd_semaphore i (\<lambda>x. x\<lparr>waiters := waiters sem @ [?cur]\<rparr>) (push [P_loop i l r] k)) (upd_kernel (set_cont ts) s))"
    let ?th = "th\<lparr>thread_status := BLOCKED, continuation := ?c\<rparr>"
    have k': "threads (kern ?s) = (threads ?k)(?cur \<mapsto> ?th)" "readyList (kern ?s) = readyList ?k"
      "currentThread (kern ?s) = ?cur" "toBeDestroyed (kern ?s) = None" "next_thread (kern ?s) = next_thread ?k"
      "next_semaphore (kern ?s) = next_semaphore ?k" "client_semaphore (kern ?s) = client_semaphore ?k"
      "conditions (kern ?s) = conditions ?k"
      "semaphores (kern ?s) = (semaphores ?k)(i \<mapsto> sem\<lparr>waiters := waiters sem @ [?cur]\<rparr>)"
      using b(3) tbd Some by (simp_all add: upd_thread_def upd_semaphore_def push_set_cont)
    have "kernel_inv (kern ?s)"
      by (rule block_inv[OF b(2,3) run tbd Some _ k']) (use b(4) off new in auto)
    then have "sys_ok ?s" by (rule sys_okI[rotated]) (use b off k' in auto)
    then show ?thesis using True Some new off(1)
      by (simp add: Semaphore_P_loop_def append_new_def Thread_Sleep_def)
  qed
qed

lemma Finish_step:
  assumes "at_task Finish ts th s"
  shows "goes_well (may_fail prog Finish ts th s) (exec prog Finish (upd_kernel (set_cont ts) s))"
proof -
  note b = at_task_basic[OF assms] and o = at_task_on[OF assms, simplified]
  let ?k = "kern s"
  let ?s = "upd_kernel (\<lambda>k. push [Dispatch True] (upd_thread (currentThread k) (\<lambda>th. th\<lparr>thread_status := BLOCKED\<rparr>) k))
      (ChangeLevel (level s) IntOff (upd_kernel (set_cont ts) s))"
  have k': "threads (kern ?s) = (threads ?k)(currentThread ?k \<mapsto> th\<lparr>thread_status := BLOCKED, continuation := Dispatch True # ts\<rparr>)"
    "readyList (kern ?s) = readyList ?k" "currentThread (kern ?s) = currentThread ?k" "toBeDestroyed (kern ?s) = None"
    "next_thread (kern ?s) = next_thread ?k" "next_semaphore (kern ?s) = next_semaphore ?k"
    "client_semaphore (kern ?s) = client_semaphore ?k" "conditions (kern ?s) = conditions ?k"
    "semaphores (kern ?s) = semaphores ?k"
    using b(3) o(4) by (simp_all add: upd_thread_def)
  have ts: "list_all on_task ts" using o(2) by (simp add: on_list_def)
  have "kernel_inv (kern ?s)"
  proof (rule blocked_current[OF b(2,3) o(3,4) _ _ _ _ _ k'(1-8)])
    show "semaphores (kern ?s) (client_semaphore ?k c) \<noteq> None" for c using b(2) by (simp add: kernel_inv_def upd_thread_def)
    show "semaphore_ok (kern ?s) j x" if "semaphores (kern ?s) j = Some x" for j x
    proof -
      have "semaphores ?k j = Some x" using that k'(9) by simp
      from kernel_inv_semaphore[OF b(2) this, unfolded semaphore_ok_def]
      have ok: "j < next_semaphore ?k" "0 \<le> value x" "distinct (waiters x)"
        "\<And>t. t \<in> set (waiters x) \<Longrightarrow> \<exists>th. threads ?k t = Some th \<and> thread_status th = BLOCKED \<and> waits_for j (continuation th)"
        by auto
      have "\<exists>y. threads (kern ?s) t = Some y \<and> thread_status y = BLOCKED \<and> waits_for j (continuation y)" if "t \<in> set (waiters x)" for t
        using ok(4)[OF that] b(3) o(3) k'(1) by (cases "t = currentThread ?k") auto
      then show ?thesis unfolding semaphore_ok_def k'(6) using ok(1-3) by blast
    qed
  qed (use b(4) ts in auto)
  then have "sys_ok ?s" by (rule sys_okI[rotated]) (use b ts k'(1,3) in auto)
  then show ?thesis by (simp add: Thread_Finish_def Thread_Sleep_def)
qed

text \<open>Idling keeps the sleeping thread where it is, and a switch takes the first ready thread.\<close>

lemma Idle_step:
  assumes "sys_ok s" "level s = IntOff" "threads (kern s) (currentThread (kern s)) = Some th"
  shows "goes_well F (Idle run_devices s)"
proof -
  let ?s = "s\<lparr>status := IdleMode\<rparr>"
  have s: "base_ok s" "kernel_inv (kern s)" "off_list (continuation th)"
    using assms by (auto simp: sys_ok_def level_ok_def)
  have "clients.machine.sim_ok (kern s) ?s" using s by (simp add: sim_ok_split)
  from clients.machine.CheckIfDue_run[OF this, of True] assms(2) obtain b s' where
    c: "CheckIfDue run_devices True ?s = Inr (b, s')" "clients.machine.sim_ok (kern s) s'" "level s' = IntOff"
    by auto
  have i: "base_ok s'" "interrupted (kern s) (kern s')" using c(2) by (auto simp: sim_ok_split)
  note k = interrupted_inv[OF i(2) s(2)]
  have "map_option continuation (threads (kern s') (currentThread (kern s))) = Some (continuation th)"
    using k(4)[of "currentThread (kern s)"] assms(3) by simp
  then obtain th' where "threads (kern s') (currentThread (kern s)) = Some th'" "continuation th' = continuation th"
    by auto
  then have "sys_ok (s'\<lparr>status := SystemMode\<rparr>)"
    using i(1) k(1,2) c(3) s(3) by (intro sys_okI[where th = th']) auto
  then show ?thesis using c(1) by (simp add: Idle_def Halt_def)
qed

lemma Dispatch_step:
  assumes "at_task (Dispatch fin) ts th s"
  shows "goes_well (may_fail prog (Dispatch fin) ts th s) (exec prog (Dispatch fin) (upd_kernel (set_cont ts) s))"
proof -
  note b = at_task_basic[OF assms]
  have off: "level s = IntOff" "off_list (Dispatch fin # ts)" using b(5,6) by (auto simp: on_list_def)
  have tbd: "toBeDestroyed (kern s) = None" using b(8) by (cases "toBeDestroyed (kern s)") auto
  have nrun: "thread_status th \<noteq> RUNNING" using b(7) by simp
  have "current_ok (kern s)" using b(2) by (simp add: kernel_inv_def)
  then have fin: "fin \<Longrightarrow> thread_status th = BLOCKED" using b(3,4) by (auto simp: current_ok_def)
  show ?thesis
  proof (cases "readyList (kern s)")
    case Nil
    have "push [Dispatch fin] (set_cont ts (kern s)) = kern s"
      using b(3,4) by (simp add: push_set_cont) (simp add: set_cont_def upd_thread_def fun_upd_idem)
    then have same: "upd_kernel (push [Dispatch fin]) (upd_kernel (set_cont ts) s) = s" by (simp add: upd_kernel_def)
    have "sys_ok s" using assms by (simp add: at_task_def)
    from Idle_step[OF this off(1) b(3)] show ?thesis using Nil off(1) same
      by (simp add: Sleep_loop_def FindNextToRun_def)
  next
    case (Cons n rest)
    let ?s1 = "upd_kernel (\<lambda>k. k\<lparr>readyList := rest\<rparr>) (upd_kernel (set_cont ts) s)"
    have "threads (kern s) n \<noteq> None" using b(2) Cons by (simp add: kernel_inv_def ready_ok_def)
    then have R: "Run n fin ?s1 = (if space th \<noteq> None \<and> cpu s = None then Inl NullPointer
       else Inr (upd_kernel (switch_to n fin (cpu s)) ?s1))"
      using Run_run[of ?s1 fin "th\<lparr>continuation := ts\<rparr>" n] off(1) tbd b(3) by simp
    have "sys_ok (upd_kernel (switch_to n fin (cpu s)) ?s1)"
    proof (rule Run_switch_ok[where s = s and yields = False and c = ts and fin = fin and th = th and rest = rest and nxt = n])
      show "waits_for i (continuation th) \<Longrightarrow> \<not> fin \<and> waits_for i (After_Switch # ts)" for i
        using off(2) b(4) by (cases fin) auto
      show "\<not> fin \<Longrightarrow> inner_off ts" using off(2) by auto
      show "fin \<Longrightarrow> thread_status th = BLOCKED \<and> list_all on_task ts" using fin off(2) by simp
    qed (use b off tbd nrun Cons in auto)
    then show ?thesis using R Cons off(1) by (simp add: Sleep_loop_def FindNextToRun_def may_fail_def)
  qed
qed


section \<open>Turning interrupts on, starting and resuming a thread\<close>

lemma Tick_step:
  assumes "at_task Tick ts th s"
  shows "goes_well (may_fail prog Tick ts th s) (exec prog Tick (upd_kernel (set_cont ts) s))"
proof -
  note b = at_task_basic[OF assms] and o = at_task_on[OF assms, simplified]
  have ts: "on_list ts" using o(2) by (auto simp: on_list_def)
  let ?s = "upd_kernel (set_cont ts) s"
  have "kernel_inv (kern ?s)" using set_cont_inv[OF b(2,3) o(3,4)] ts on_list_not_sleeping b(4) by auto
  then have "\<exists>s'. tick ?s = Inr s' \<and> sys_ok s'"
    by (rule tick_step[rotated, where th = "th\<lparr>continuation := ts\<rparr>"]) (use b o ts in auto)
  then show ?thesis by auto
qed

lemma enable:
  assumes "base_ok s" "kernel_inv (kern s)" "threads (kern s) (currentThread (kern s)) = Some th"
    "thread_status th = RUNNING" "toBeDestroyed (kern s) = None" "on_list (continuation th)"
  shows "\<exists>s'. set_level IntOn s = Inr s' \<and> (level s = IntOff \<longrightarrow> sys_ok s')"
proof (cases "level s")
  case IntOff
  have "\<exists>s'. tick (ChangeLevel IntOff IntOn s) = Inr s' \<and> sys_ok s'"
    by (rule tick_step[where th = th]) (use assms in auto)
  then show ?thesis using IntOff assms(1) by (auto simp: set_level_def base_ok_def)
qed (use assms(1) in \<open>simp add: set_level_def base_ok_def\<close>)

lemma Restore_Level_step:
  assumes "at_task (Restore_Level l) ts th s"
  shows "goes_well (may_fail prog (Restore_Level l) ts th s) (exec prog (Restore_Level l) (upd_kernel (set_cont ts) s))"
proof -
  note b = at_task_basic[OF assms]
  have off: "level s = IntOff" "l = IntOn" "on_list ts"
    using b(5,6) by (auto simp: on_list_def)
  have run: "thread_status th = RUNNING" using b(7) by simp
  have tbd: "toBeDestroyed (kern s) = None" using b(8) by (cases "toBeDestroyed (kern s)") auto
  let ?s = "upd_kernel (set_cont ts) s"
  have "kernel_inv (kern ?s)" using set_cont_inv[OF b(2,3) run tbd] off(3) on_list_not_sleeping b(4) by auto
  then have "\<exists>s'. set_level IntOn ?s = Inr s' \<and> (level ?s = IntOff \<longrightarrow> sys_ok s')"
    by (rule enable[rotated, where th = "th\<lparr>continuation := ts\<rparr>"]) (use b run tbd off in auto)
  then show ?thesis using off by auto
qed

text \<open>The thread that finished before the switch is deleted.\<close>

definition destroy :: "'u kernel \<Rightarrow> 'u kernel" where
  "destroy k = (case toBeDestroyed k of None \<Rightarrow> k
     | Some d \<Rightarrow> k\<lparr>threads := (threads k)(d := None), toBeDestroyed := None\<rparr>)"

lemma destroy_simps [simp]:
  "currentThread (destroy k) = currentThread k" "readyList (destroy k) = readyList k"
  "toBeDestroyed (destroy k) = None" "semaphores (destroy k) = semaphores k"
  "next_thread (destroy k) = next_thread k" "next_semaphore (destroy k) = next_semaphore k"
  "client_semaphore (destroy k) = client_semaphore k" "locks (destroy k) = locks k"
  "conditions (destroy k) = conditions k" "shared (destroy k) = shared k"
  "threads (destroy k) = (\<lambda>t. if toBeDestroyed k = Some t then None else threads k t)"
  by (auto simp: destroy_def split: option.splits)

lemma CheckToBeDestroyed_run:
  "toBeDestroyed (kern s) \<noteq> Some (currentThread (kern s)) \<Longrightarrow> CheckToBeDestroyed s = Inr (upd_kernel destroy s)"
  by (auto simp: CheckToBeDestroyed_def upd_kernel_def destroy_def split: option.splits)

lemma destroy_set_cont:
  "toBeDestroyed k \<noteq> Some (currentThread k) \<Longrightarrow> destroy (set_cont c k) = set_cont c (destroy k)"
  by (auto simp: destroy_def set_cont_def upd_thread_def fun_upd_twist split: option.splits)

lemma destroy_inv:
  assumes "kernel_inv k"
  shows "kernel_inv (destroy k)" and "toBeDestroyed k \<noteq> Some (currentThread k)"
    and "threads (destroy k) (currentThread k) = threads k (currentThread k)"
proof -
  show d: "toBeDestroyed k \<noteq> Some (currentThread k)" using assms by (auto simp: kernel_inv_def)
  then show cur: "threads (destroy k) (currentThread k) = threads k (currentThread k)" by simp
  have dead: "thread_status x = BLOCKED \<and> (\<exists>ts. continuation x = After_Switch # ts \<and> list_all on_task ts)"
    if "toBeDestroyed k = Some t" "threads k t = Some x" for t x
    using kernel_inv_thread[OF assms that(2)] that(1) d by (auto simp: thread_ok_def)
  have "ready_ok k" using assms by (simp add: kernel_inv_def)
  moreover have "toBeDestroyed k \<noteq> Some t" if t: "t \<in> set (readyList k)" for t
  proof
    assume dt: "toBeDestroyed k = Some t"
    obtain x where x: "threads k t = Some x" using \<open>ready_ok k\<close> t by (auto simp: ready_ok_def)
    then have "thread_status x = READY" using kernel_inv_thread[OF assms x] t by (simp add: thread_ok_def)
    then show False using dead[OF dt x] by simp
  qed
  ultimately have "ready_ok (destroy k)" by (auto simp: ready_ok_def)
  moreover have "current_ok k" using assms by (simp add: kernel_inv_def)
  then have "current_ok (destroy k)" using d by (auto simp: current_ok_def)
  moreover have "thread_ok (destroy k) t x" if t: "threads (destroy k) t = Some x" for t x
  proof -
    have "threads k t = Some x" "toBeDestroyed k \<noteq> Some t" using t by (simp_all split: if_splits)
    then show ?thesis using kernel_inv_thread[OF assms, of t x] by (simp add: thread_ok_def)
  qed
  moreover have "semaphore_ok (destroy k) i sem" if sem: "semaphores (destroy k) i = Some sem" for i sem
  proof -
    have "semaphores k i = Some sem" using sem by simp
    note sok = kernel_inv_semaphore[OF assms this, unfolded semaphore_ok_def]
    have "\<exists>x. threads (destroy k) t = Some x \<and> thread_status x = BLOCKED \<and> waits_for i (continuation x)"
      if t: "t \<in> set (waiters sem)" for t
    proof -
      obtain x where x: "threads k t = Some x" "thread_status x = BLOCKED" "waits_for i (continuation x)"
        using sok t by metis
      have "toBeDestroyed k \<noteq> Some t"
      proof
        assume "toBeDestroyed k = Some t"
        from dead[OF this x(1)] obtain ts where "continuation x = After_Switch # ts" "list_all on_task ts" by blast
        then show False using x(3) by (cases ts rule: inner_off.cases) auto
      qed
      then show ?thesis using x by simp
    qed
    then show ?thesis using sok by (simp add: semaphore_ok_def)
  qed
  ultimately show "kernel_inv (destroy k)" using assms by (simp add: kernel_inv_def)
qed

lemma popped_destroy:
  assumes "at_task t ts th s" "switching (t # ts)" "off_list ts \<or> on_list ts" "\<not> sleeping ts"
    "\<And>w. Delete_Semaphore w \<in> set ts \<Longrightarrow> Delete_Semaphore w \<in> set (t # ts)"
  defines "s' \<equiv> upd_kernel destroy (upd_kernel (set_cont ts) s)"
  shows "CheckToBeDestroyed (upd_kernel (set_cont ts) s) = Inr s'" "base_ok s'" "kernel_inv (kern s')"
    "threads (kern s') (currentThread (kern s')) = Some (th\<lparr>continuation := ts\<rparr>)" "thread_status th = RUNNING"
    "toBeDestroyed (kern s') = None"
proof -
  note b = at_task_basic[OF assms(1)]
  note d = destroy_inv[OF b(2)]
  show run: "thread_status th = RUNNING" using b(7) assms(2) by (cases t) auto
  have cur: "threads (destroy (kern s)) (currentThread (destroy (kern s))) = Some th" using d(3) b(3) by simp
  show "CheckToBeDestroyed (upd_kernel (set_cont ts) s) = Inr s'"
    unfolding s'_def by (rule CheckToBeDestroyed_run) (use d(2) in simp)
  show "base_ok s'" using b(1) by (simp add: s'_def)
  have "kernel_inv (set_cont ts (destroy (kern s)))"
    by (rule set_cont_inv[OF d(1) cur run]) (use assms(3-5) b(4) in auto)
  then show "kernel_inv (kern s')" using d(2) by (simp add: s'_def destroy_set_cont)
  show "threads (kern s') (currentThread (kern s')) = Some (th\<lparr>continuation := ts\<rparr>)"
    using b(3) d(2) by (simp add: s'_def)
  show "toBeDestroyed (kern s') = None" by (simp add: s'_def)
qed

lemma Thread_Begin_step:
  assumes "at_task Thread_Begin ts th s"
  shows "goes_well (may_fail prog Thread_Begin ts th s) (exec prog Thread_Begin (upd_kernel (set_cont ts) s))"
proof -
  note b = at_task_basic[OF assms]
  have off: "level s = IntOff" "on_list ts" using b(5,6) by (auto simp: on_list_def)
  have "off_list ts \<or> on_list ts" "\<not> sleeping ts" "switching (Thread_Begin # ts)"
    using off(2) on_list_not_sleeping by auto
  note p = popped_destroy[OF assms this(3,1,2), simplified]
  let ?s = "upd_kernel destroy (upd_kernel (set_cont ts) s)"
  have "\<exists>s'. set_level IntOn ?s = Inr s' \<and> (level ?s = IntOff \<longrightarrow> sys_ok s')"
    by (rule enable[where th = "th\<lparr>continuation := ts\<rparr>"]) (use p off in auto)
  then show ?thesis using p(1) off by auto
qed

lemma RestoreState_ok:
  assumes "unat (userRegisters th LoadReg) < NumGPRegs"
  shows "cpu_ok (Some (RestoreState sp (RestoreUserState th m)))"
  using assms by (simp add: cpu_ok_def RestoreState_def RestoreUserState_def)

lemma After_Switch_step:
  assumes "at_task After_Switch ts th s"
  shows "goes_well (may_fail prog After_Switch ts th s) (exec prog After_Switch (upd_kernel (set_cont ts) s))"
proof -
  note b = at_task_basic[OF assms]
  have off: "level s = IntOff" "inner_off ts" using b(5,6) by (auto simp: on_list_def)
  have "off_list ts \<or> on_list ts" "\<not> sleeping ts" "switching (After_Switch # ts)"
    using off(2) inner_off_off by (cases ts rule: inner_off.cases; auto)+
  note p = popped_destroy[OF assms this(3,1,2), simplified]
  let ?s = "upd_kernel destroy (upd_kernel (set_cont ts) s)"
  have ok: "sys_ok (?s\<lparr>cpu := c\<rparr>)" if "cpu_ok c" for c
    by (rule sys_okI[where th = "th\<lparr>continuation := ts\<rparr>"])
      (use p that off inner_off_off in \<open>auto simp: base_ok_cpu\<close>)
  have "sys_ok ?s" using ok[of "cpu s"] b(10) by (cases s) (simp add: upd_kernel_def set_kernel_def)
  moreover have "sys_ok (?s\<lparr>cpu := Some (RestoreState sp (RestoreUserState (th\<lparr>continuation := ts\<rparr>) m))\<rparr>)" for sp m
    by (rule ok, rule RestoreState_ok) (use b(9) in simp)
  ultimately show ?thesis
    using p(1,4) off(1) by (auto simp: Resume_def restore_current_def may_fail_def get_def split: option.splits)
qed

lemma fork_inv:
  assumes "kernel_inv k" "threads k (currentThread k) = Some th"
  shows "kernel_inv (k\<lparr>threads := (threads k)(next_thread k \<mapsto> (new_thread c)\<lparr>thread_status := READY\<rparr>),
     next_thread := next_thread k + 1, readyList := readyList k @ [next_thread k]\<rparr>)" (is "kernel_inv ?k")
    and "threads k (next_thread k) = None" and "next_thread k \<notin> set (readyList k)"
proof -
  let ?t = "next_thread k"
  show new: "threads k ?t = None"
    using kernel_inv_thread[OF assms(1), of ?t] by (cases "threads k ?t") (auto simp: thread_ok_def)
  have ready: "ready_ok k" using assms(1) by (simp add: kernel_inv_def)
  then show nr: "?t \<notin> set (readyList k)" using new by (auto simp: ready_ok_def)
  have old: "threads ?k t = threads k t" if "threads k t \<noteq> None" for t using that new by auto
  have "ready_ok ?k" using ready nr by (auto simp: ready_ok_def)
  moreover have "current_ok k" using assms(1) by (simp add: kernel_inv_def)
  then have "current_ok ?k" using old[of "currentThread k"] assms(2) by (simp add: current_ok_def)
  moreover have "thread_ok ?k t x" if t: "threads ?k t = Some x" for t x
  proof (cases "t = ?t")
    case True
    then have "toBeDestroyed k \<noteq> Some t" using assms(1) new by (auto simp: kernel_inv_def)
    then show ?thesis using True t by (auto simp: thread_ok_def new_thread_def on_list_def)
  next
    case False
    then have "threads k t = Some x" using t by simp
    show ?thesis by (rule thread_ok_frame[OF kernel_inv_thread[OF assms(1) \<open>threads k t = Some x\<close>]]) (use False in simp_all)
  qed
  moreover have "semaphore_ok ?k i sem" if "semaphores ?k i = Some sem" for i sem
  proof -
    have "semaphores k i = Some sem" using that by simp
    note sok = kernel_inv_semaphore[OF assms(1) this, unfolded semaphore_ok_def]
    have "\<exists>x. threads ?k t = Some x \<and> thread_status x = BLOCKED \<and> waits_for i (continuation x)"
      if t: "t \<in> set (waiters sem)" for t
    proof -
      obtain x where "threads k t = Some x" "thread_status x = BLOCKED" "waits_for i (continuation x)"
        using sok t by metis
      then show ?thesis using old[of t] by simp
    qed
    then show ?thesis using sok by (simp add: semaphore_ok_def)
  qed
  moreover have "\<forall>d. toBeDestroyed ?k = Some d \<longrightarrow> d \<noteq> currentThread ?k \<and> threads ?k d \<noteq> None"
    using assms(1) by (simp add: kernel_inv_def)
  ultimately show "kernel_inv ?k" using assms(1) by (simp add: kernel_inv_def)
qed

lemma Fork_step:
  assumes "at_task (Fork c) ts th s"
  shows "goes_well (may_fail prog (Fork c) ts th s) (exec prog (Fork c) (upd_kernel (set_cont ts) s))"
proof -
  note b = at_task_basic[OF assms] and o = at_task_on[OF assms, simplified]
  have ts: "on_list ts" using o(2) by (auto simp: on_list_def)
  let ?k = "kern s" and ?t = "next_thread (kern s)"
  note f = fork_inv(1)[OF b(2,3), of c] fork_inv(2,3)[OF b(2,3)]
  let ?k1 = "?k\<lparr>threads := (threads ?k)(?t \<mapsto> (new_thread c)\<lparr>thread_status := READY\<rparr>),
     next_thread := ?t + 1, readyList := readyList ?k @ [?t]\<rparr>"
  let ?s = "ChangeLevel (level s) IntOff (upd_kernel (\<lambda>k. k\<lparr>threads := (threads k)(?t \<mapsto> new_thread c), next_thread := ?t + 1\<rparr>)
     (upd_kernel (set_cont ts) s))"
  have R: "ReadyToRun ?t ?s = Inr (upd_kernel (wake ?t) ?s)" by (rule ReadyToRun_run) (use f(3) in simp_all)
  have ne: "?t \<noteq> currentThread ?k" using f(2) b(3) by auto
  let ?s' = "upd_kernel (push [Restore_Level (level s)]) (upd_kernel (wake ?t) ?s)"
  have "sys_ok ?s'"
  proof (rule run_to[OF f(1), where c = "Restore_Level IntOn # ts" and sp = "space th" and th = th, unfolded thread_same])
    show "threads ?k1 (currentThread ?k1) = Some th" using b(3) ne by simp
    show "j < next_semaphore (kern ?s') \<and> 0 \<le> value x
       \<and> (waiters x = [] \<or> (\<exists>sem0. semaphores ?k1 j = Some sem0 \<and> waiters x = waiters sem0))"
      if "semaphores (kern ?s') j = Some x" for j x
      using old_semaphores[OF b(2)] that by simp
    show "semaphores (kern ?s') (client_semaphore ?k1 c') \<noteq> None" for c'
      using b(2) by (simp add: kernel_inv_def)
    show "w < next_semaphore (kern ?s')" if "conditions (kern ?s') c' = Some us" "w \<in> set us" for c' us w
      using old_conditions[OF b(2)] that by simp
    show "threads (kern ?s') = (threads ?k1)(currentThread ?k1 \<mapsto> th\<lparr>continuation := Restore_Level IntOn # ts\<rparr>)"
      using b(3) ne o(1) by (simp add: fun_upd_twist)
  qed (use b o ts in auto)
  then show ?thesis using R by (simp add: Thread_Fork_def fork_ready_def Let_def)
qed

section \<open>Every step keeps the invariant\<close>

lemma step_goes_well:
  assumes "at_task t ts th s" "program_ok prog"
  shows "goes_well (may_fail prog t ts th s) (exec prog t (upd_kernel (set_cont ts) s))"
proof -
  have a: "at_task t' ts th s" if "t' = t" for t' using assms(1) that by simp
  show ?thesis
  proof (cases t)
    case (Code c)
    show ?thesis unfolding Code by (rule Code_step[OF a assms(2)]) (use Code in simp)
  next
    case (Sem_P i r) show ?thesis unfolding Sem_P by (rule Sem_P_step[OF a]) (use Sem_P in simp)
  next
    case (Sem_V i) show ?thesis unfolding Sem_V by (rule Sem_V_step[OF a]) (use Sem_V in simp)
  next
    case (Wait c l) show ?thesis unfolding Wait by (rule Wait_step[OF a]) (use Wait in simp)
  next
    case Yield show ?thesis unfolding Yield by (rule Yield_step[OF a]) (use Yield in simp)
  next
    case (Fork c) show ?thesis unfolding Fork by (rule Fork_step[OF a]) (use Fork in simp)
  next
    case Finish show ?thesis unfolding Finish by (rule Finish_step[OF a]) (use Finish in simp)
  next
    case Shutdown show ?thesis unfolding Shutdown by (simp add: Halt_def)
  next
    case Tick show ?thesis unfolding Tick by (rule Tick_step[OF a]) (use Tick in simp)
  next
    case Thread_Begin show ?thesis unfolding Thread_Begin by (rule Thread_Begin_step[OF a]) (use Thread_Begin in simp)
  next
    case After_Switch show ?thesis unfolding After_Switch by (rule After_Switch_step[OF a]) (use After_Switch in simp)
  next
    case (Dispatch f) show ?thesis unfolding Dispatch by (rule Dispatch_step[OF a]) (use Dispatch in simp)
  next
    case (Restore_Level l)
    show ?thesis unfolding Restore_Level by (rule Restore_Level_step[OF a]) (use Restore_Level in simp)
  next
    case (P_loop i l r) show ?thesis unfolding P_loop by (rule P_loop_step[OF a]) (use P_loop in simp)
  next
    case (Delete_Semaphore i)
    show ?thesis unfolding Delete_Semaphore by (rule Delete_step[OF a]) (use Delete_Semaphore in simp)
  qed (use lock_steps[OF assms(1)] signal_steps[OF assms(1)] in \<open>(hypsubst, metis)+\<close>)
qed

lemma kernel_step_goes_well:
  assumes "sys_ok s" "program_ok prog"
  obtains t ts th where "at_task t ts th s" "goes_well (may_fail prog t ts th s) (kernel_step prog s)"
proof -
  obtain th where th: "threads (kern s) (currentThread (kern s)) = Some th"
    using assms(1) by (auto simp: sys_ok_def level_ok_def)
  have "current_ok (kern s)" using assms(1) by (simp add: sys_ok_def kernel_inv_def)
  then have "on_list (continuation th) \<or> off_list (continuation th)" using th by (auto simp: current_ok_def)
  then obtain t ts where c: "continuation th = t # ts" by (cases "continuation th") (auto simp: on_list_def)
  have "at_task t ts th s" using assms(1) th c by (simp add: at_task_def)
  from that[OF this] step_goes_well[OF this assms(2)] show ?thesis by (simp add: kernel_step_run[OF th c])
qed

end
