(* ===== verification/Kernel_Init.thy ===== *)
theory Kernel_Init imports Kernel_Safety begin

text \<open>
  Starting the kernel: the constructors of semaphores, locks, conditions, of the synchronized devices
  and of the post office, and \<open>Kernel::Initialize\<close> of threads/kernel.cc, which runs them. The state it
  leaves satisfies the invariant, so that every state a run of the kernel reaches does. The file
  system is the one of the shipped build, the stub, whose constructor does nothing.
\<close>

section \<open>Constructors\<close>

definition Semaphore_new :: "int \<Rightarrow> 'u kernel \<Rightarrow> nat \<times> 'u kernel" where
  "Semaphore_new v k =
     (let i = next_semaphore k
      in (i, k\<lparr>semaphores := (semaphores k)(i \<mapsto> \<lparr>value = v, waiters = []\<rparr>), next_semaphore := i + 1\<rparr>))"

text \<open>Locks and conditions are named by the caller.\<close>

definition Lock_new :: "nat \<Rightarrow> 'u kernel \<Rightarrow> 'u kernel" where
  "Lock_new l k =
     (let (i, k) = Semaphore_new 1 k in k\<lparr>locks := (locks k)(l \<mapsto> \<lparr>lock_semaphore = i, lockHolder = None\<rparr>)\<rparr>)"

definition Condition_new :: "nat \<Rightarrow> 'u kernel \<Rightarrow> 'u kernel" where
  "Condition_new c k = k\<lparr>conditions := (conditions k)(c \<mapsto> [])\<rparr>"

text \<open>The semaphore a device callback signals.\<close>

definition client_new :: "client \<Rightarrow> 'u kernel \<Rightarrow> 'u kernel" where
  "client_new c k = (let (i, k) = Semaphore_new 0 k in k\<lparr>client_semaphore := (client_semaphore k)(c := i)\<rparr>)"

definition SynchList_new :: "nat \<Rightarrow> nat \<Rightarrow> 'u kernel \<Rightarrow> 'u kernel" where
  "SynchList_new l c k = Condition_new c (Lock_new l k)"

definition ConsoleInLock :: nat where "ConsoleInLock = 0"
definition ConsoleOutLock :: nat where "ConsoleOutLock = 1"
definition DiskLock :: nat where "DiskLock = 2"
definition SendLock :: nat where "SendLock = 3"
definition BoxLock :: "nat \<Rightarrow> nat" where "BoxLock b = 4 + b"

definition SynchConsoleInput_new :: "'u system \<Rightarrow> 'u system result" where
  "SynchConsoleInput_new s =
     bind_result (ConsoleInput_new s) (\<lambda>s.
     Inr (upd_kernel (\<lambda>k. client_new CharAvailClient (Lock_new ConsoleInLock k)) s))"

definition SynchConsoleOutput_new :: "'u system \<Rightarrow> 'u system" where
  "SynchConsoleOutput_new s =
     upd_kernel (\<lambda>k. client_new CharDoneClient (Lock_new ConsoleOutLock k)) (ConsoleOutput_new s)"

definition SynchDisk_new :: "u8 list option \<Rightarrow> 'u system \<Rightarrow> 'u system result" where
  "SynchDisk_new diskfile s = Disk_new diskfile (upd_kernel (\<lambda>k. Lock_new DiskLock (client_new DiskClient k)) s)"

definition PostOfficeInput_new :: "nat \<Rightarrow> code \<Rightarrow> 'u system \<Rightarrow> 'u system result" where
  "PostOfficeInput_new nBoxes delivery s =
     bind_result (NetworkInput_new (upd_kernel (\<lambda>k.
         fold (\<lambda>b. SynchList_new (BoxLock b) b) [0..<nBoxes] (client_new PacketAvailClient k)) s)) (\<lambda>s.
     bind_result (fork_ready delivery s) (set_level (level s)))"

definition PostOfficeOutput_new :: "real \<Rightarrow> 'u system \<Rightarrow> 'u system" where
  "PostOfficeOutput_new reliability s =
     NetworkOutput_new reliability (upd_kernel (\<lambda>k. Lock_new SendLock (client_new PacketSentClient k)) s)"

text \<open>\<open>PTable\<close> has a semaphore of its own, and those of the block of the first process.\<close>

definition process_semaphores :: "'u kernel \<Rightarrow> 'u kernel" where
  "process_semaphores k = fold (\<lambda>v k. snd (Semaphore_new v k)) [1, 0, 0, 1] k"

text \<open>The main thread starts as the running one; what it does next is to enable interrupts and go on
  with \<open>main\<close>, which ends by calling \<open>Halt\<close> and does not return.\<close>

definition boot_kernel :: "code \<Rightarrow> 'u \<Rightarrow> 'u kernel" where
  "boot_kernel main u =
     \<lparr>threads = [0 \<mapsto> \<lparr>thread_status = RUNNING, continuation = [Restore_Level IntOn, Code main, Shutdown, Finish],
                     userRegisters = (\<lambda>_. 0), space = None\<rparr>],
      next_thread = 1, currentThread = 0, readyList = [], toBeDestroyed = None,
      semaphores = (\<lambda>_. None), next_semaphore = 0, locks = (\<lambda>_. None), conditions = (\<lambda>_. None),
      client_semaphore = (\<lambda>_. 0), shared = u\<rparr>"

definition Kernel_Initialize :: "bool \<Rightarrow> real \<Rightarrow> u8 list option \<Rightarrow> code \<Rightarrow> code \<Rightarrow> 'u kernel hardware \<Rightarrow> 'u system result" where
  "Kernel_Initialize randomSlice reliability diskfile main delivery w =
     bind_result (Timer_new randomSlice (Interrupt_new None (w\<lparr>kernel := boot_kernel main (shared (kernel w))\<rparr>))) (\<lambda>s.
     bind_result (SynchConsoleInput_new (s\<lparr>cpu := Some (Machine_new False)\<rparr>)) (\<lambda>s.
     bind_result (SynchDisk_new diskfile (SynchConsoleOutput_new s)) (\<lambda>s.
     bind_result (PostOfficeInput_new 10 delivery
        (upd_kernel (\<lambda>k. process_semaphores (snd (Semaphore_new 1 k))) s)) (\<lambda>s.
     Inr (PostOfficeOutput_new reliability s)))))"

section \<open>The state after initialisation\<close>

definition fresh :: "'u kernel \<Rightarrow> bool" where
  "fresh k \<longleftrightarrow> (\<forall>i sem. semaphores k i = Some sem \<longrightarrow> i < next_semaphore k \<and> 0 \<le> value sem \<and> waiters sem = [])
     \<and> (\<forall>c ws. conditions k c = Some ws \<longrightarrow> ws = [])
     \<and> (\<forall>l lk. locks k l = Some lk \<longrightarrow> lockHolder lk = None
          \<and> semaphores k (lock_semaphore lk) = Some \<lparr>value = 1, waiters = []\<rparr>)
     \<and> (\<forall>l l' lk lk'. locks k l = Some lk \<longrightarrow> locks k l' = Some lk' \<longrightarrow> lock_semaphore lk = lock_semaphore lk' \<longrightarrow> l = l')"

definition signals :: "client \<Rightarrow> 'u kernel \<Rightarrow> bool" where
  "signals c k \<longleftrightarrow> semaphores k (client_semaphore k c) = Some \<lparr>value = 0, waiters = []\<rparr>"

text \<open>The part of the kernel the constructors leave alone.\<close>

definition run_state :: "'u kernel \<Rightarrow> (nat \<Rightarrow> thread option) \<times> nat \<times> nat \<times> nat list \<times> nat option \<times> 'u" where
  "run_state k = (threads k, next_thread k, currentThread k, readyList k, toBeDestroyed k, shared k)"

lemma run_state_simps [simp]:
  "run_state (snd (Semaphore_new v k)) = run_state k" "run_state (Lock_new l k) = run_state k"
  "run_state (Condition_new c k) = run_state k" "run_state (client_new cl k) = run_state k"
  by (simp_all add: Semaphore_new_def Lock_new_def Condition_new_def client_new_def run_state_def Let_def)

lemma run_state_groups [simp]:
  "run_state (SynchList_new l c k) = run_state k" "run_state (process_semaphores k) = run_state k"
  by (simp_all add: SynchList_new_def process_semaphores_def)

lemma fresh_next: "fresh k \<Longrightarrow> semaphores k (next_semaphore k) = None"
  by (cases "semaphores k (next_semaphore k)") (auto simp: fresh_def)

lemma fresh_lock_next: "fresh k \<Longrightarrow> locks k l = Some lk \<Longrightarrow> lock_semaphore lk \<noteq> next_semaphore k"
  using fresh_next[of k] by (fastforce simp: fresh_def)

lemma fresh_Semaphore [simp]:
  assumes "0 \<le> v" "fresh k"
  shows "fresh (snd (Semaphore_new v k))"
  using assms fresh_lock_next[OF assms(2)] unfolding fresh_def Semaphore_new_def Let_def
  by (auto simp: less_SucI)

lemma fresh_Lock [simp]:
  assumes "fresh k"
  shows "fresh (Lock_new l k)"
proof -
  have "fresh (snd (Semaphore_new 1 k))" using assms by simp
  moreover have "\<forall>l' lk. locks k l' = Some lk \<longrightarrow> lock_semaphore lk \<noteq> next_semaphore k"
    using fresh_lock_next[OF assms] by blast
  ultimately show ?thesis using assms unfolding fresh_def Lock_new_def Semaphore_new_def Let_def
    by (auto split: if_splits) blast+
qed

lemma fresh_simps [simp]:
  "fresh k \<Longrightarrow> fresh (Condition_new c k)" "fresh k \<Longrightarrow> fresh (client_new cl k)"
proof -
  show "fresh k \<Longrightarrow> fresh (Condition_new c k)" unfolding fresh_def Condition_new_def by auto
  assume "fresh k"
  then have "fresh (snd (Semaphore_new 0 k))" by simp
  then show "fresh (client_new cl k)" unfolding fresh_def client_new_def Semaphore_new_def Let_def by simp
qed

lemma fresh_boot: "fresh (boot_kernel main u)"
  by (simp add: fresh_def boot_kernel_def)

lemma fresh_SynchList [simp]: "fresh k \<Longrightarrow> fresh (SynchList_new l c k)"
  by (simp add: SynchList_new_def)

lemma fresh_process [simp]: "fresh k \<Longrightarrow> fresh (process_semaphores k)"
  by (simp add: process_semaphores_def)

lemma signals_simps [simp]:
  "fresh k \<Longrightarrow> signals cl k \<Longrightarrow> signals cl (snd (Semaphore_new v k))"
  "fresh k \<Longrightarrow> signals cl k \<Longrightarrow> signals cl (Lock_new l k)"
  "signals cl (Condition_new c k) \<longleftrightarrow> signals cl k"
  "fresh k \<Longrightarrow> signals cl k \<or> cl = cl' \<Longrightarrow> signals cl (client_new cl' k)"
  by (auto simp: signals_def Semaphore_new_def Lock_new_def Condition_new_def client_new_def Let_def fresh_next)

lemma signals_SynchList [simp]: "fresh k \<Longrightarrow> signals cl k \<Longrightarrow> signals cl (SynchList_new l c k)"
  by (simp add: SynchList_new_def)

lemma signals_process [simp]: "fresh k \<Longrightarrow> signals cl k \<Longrightarrow> signals cl (process_semaphores k)"
  by (simp add: process_semaphores_def)

lemma mailboxes [simp]:
  "run_state (fold (\<lambda>b. SynchList_new (f b) b) bs k) = run_state k"
  "fresh k \<Longrightarrow> fresh (fold (\<lambda>b. SynchList_new (f b) b) bs k)"
  "fresh k \<Longrightarrow> signals cl k \<Longrightarrow> signals cl (fold (\<lambda>b. SynchList_new (f b) b) bs k)"
  by (induction bs arbitrary: k) simp_all

text \<open>The first two threads: the main thread, running with interrupts off, and the postal worker.\<close>

lemma first_threads_inv:
  assumes "run_state k = ([0 \<mapsto> \<lparr>thread_status = RUNNING, continuation = [Restore_Level IntOn, Code main, Shutdown, Finish],
                     userRegisters = (\<lambda>_. 0), space = None\<rparr>,
        Suc 0 \<mapsto> (new_thread delivery)\<lparr>thread_status := READY\<rparr>], Suc (Suc 0), 0, [Suc 0], None, u)"
    and "fresh k" "\<And>cl. signals cl k"
  shows "kernel_inv k"
proof -
  have r: "threads k = [0 \<mapsto> \<lparr>thread_status = RUNNING, continuation = [Restore_Level IntOn, Code main, Shutdown, Finish],
                     userRegisters = (\<lambda>_. 0), space = None\<rparr>,
        Suc 0 \<mapsto> (new_thread delivery)\<lparr>thread_status := READY\<rparr>]" "next_thread k = Suc (Suc 0)" "currentThread k = 0"
    "readyList k = [Suc 0]" "toBeDestroyed k = None"
    using assms(1) by (simp_all add: run_state_def)
  have "ready_ok k" using r by (simp add: ready_ok_def)
  moreover have "current_ok k" using r by (simp add: current_ok_def on_list_def)
  moreover have "thread_ok k t th" if "threads k t = Some th" for t th
    using that r by (auto simp: thread_ok_def new_thread_def on_list_def split: if_splits)
  moreover have "semaphore_ok k i sem" if "semaphores k i = Some sem" for i sem
    using assms(2) that by (simp add: fresh_def semaphore_ok_def)
  moreover have "\<forall>c ws. conditions k c = Some ws \<longrightarrow> (\<forall>w \<in> set ws. w < next_semaphore k)"
    using assms(2) unfolding fresh_def by force
  moreover have "semaphores k (client_semaphore k cl) \<noteq> None" for cl
    using assms(3) by (simp add: signals_def)
  ultimately show ?thesis using r(5) unfolding kernel_inv_def by simp
qed


text \<open>The devices: scheduling an interrupt keeps the clock, and every device starts idle.\<close>

definition boot_ok :: "'u system \<Rightarrow> bool" where
  "boot_ok s \<longleftrightarrow> clock_ok s \<and> level s = IntOff \<and> \<not> inHandler s \<and> cpu_ok (cpu s)"

lemma boot_ok_simps [simp]:
  "boot_ok (upd_kernel f s) = boot_ok s" "boot_ok (s\<lparr>world := w\<rparr>) = boot_ok s"
  "boot_ok s \<Longrightarrow> boot_ok (ChangeLevel l IntOff s)"
  by (simp_all add: boot_ok_def clock_ok_def upd_kernel_def set_kernel_def ChangeLevel_def)

lemma upd_kernel_devices [simp]:
  "timer (world (upd_kernel f s)) = timer (world s)" "disk (world (upd_kernel f s)) = disk (world s)"
  "console (world (upd_kernel f s)) = console (world s)" "network (world (upd_kernel f s)) = network (world s)"
  "world (ChangeLevel l l' s) = world s" "pending (ChangeLevel l l' s) = pending s"
  by (simp_all add: upd_kernel_def set_kernel_def ChangeLevel_def)

lemma Schedule_boot:
  assumes "boot_ok s" "0 < d"
  obtains s' where "Schedule c d i s = Inr s'" "boot_ok s'" "world s' = world s"
    "\<And>x. waiting x (pending s') = waiting x (pending s) + (if c = x then 1 else 0)"
  using that assms by (simp add: Schedule_def Let_def boot_ok_def clock_ok_def sorted_when_insert)

text \<open>A disk file of the host, when there is one, starts with the magic number; the packets other
  machines will send to this host are well formed.\<close>

definition disk_file_ok :: "u8 list option \<Rightarrow> bool" where
  "disk_file_ok diskfile \<longleftrightarrow> (\<forall>bs. diskfile = Some bs \<longrightarrow>
     4 \<le> length bs \<and> le_word32 (bs ! 0) (bs ! 1) (bs ! 2) (bs ! 3) = MagicNumber)"

definition outside_ok :: "'k hardware \<Rightarrow> bool" where
  "outside_ok w \<longleftrightarrow> (\<forall>b. Some b \<in> set (wire_in (network w)) \<longrightarrow> packet_ok (hostName (network w)) b)"

lemma Disk_new_run:
  assumes "disk_file_ok diskfile"
  shows "\<exists>p. Disk_new diskfile s = Inr (with_disk (\<lambda>_. \<lparr>platter = p, active = False, lastSector = 0, bufferInit = 0\<rparr>) s)"
proof (cases diskfile)
  case (Some bs)
  then show ?thesis using assms by (auto simp: Disk_new_def disk_file_ok_def arr_get_def check_def)
qed (auto simp: Disk_new_def)

lemma Kernel_Initialize_run:
  assumes "disk_file_ok diskfile" "outside_ok w"
  shows "\<exists>s. Kernel_Initialize rs rel diskfile main delivery w = Inr s \<and> sys_ok s
    \<and> run_state (kern s) = ([0 \<mapsto> \<lparr>thread_status = RUNNING, continuation = [Restore_Level IntOn, Code main, Shutdown, Finish],
                     userRegisters = (\<lambda>_. 0), space = None\<rparr>,
        Suc 0 \<mapsto> (new_thread delivery)\<lparr>thread_status := READY\<rparr>], Suc (Suc 0), 0, [Suc 0], None, shared (kernel w))
    \<and> fresh (kern s) \<and> (\<forall>cl. signals cl (kern s))"
proof -
  let ?k0 = "boot_kernel main (shared (kernel w))"
  let ?s0 = "Interrupt_new None (w\<lparr>kernel := ?k0\<rparr>)"
  let ?t0 = "with_timer (\<lambda>_. \<lparr>randomize = rs, disable = False\<rparr>) ?s0"
  obtain s1 where s1: "Timer_SetInterrupt ?t0 = Inr s1" "schedules ?t0 s1" "kern s1 = ?k0"
    "timer (world s1) = \<lparr>randomize = rs, disable = False\<rparr>" "console (world s1) = console w" "network (world s1) = network w"
    "\<forall>d. waiting d (pending s1) = (if d = TimerDev then 1 else 0)"
    using Timer_SetInterrupt_run[of ?t0] by (auto simp: with_timer_def Interrupt_new_def)
  have "boot_ok (s1\<lparr>cpu := Some (Machine_new False)\<rparr>)"
    using s1(2) by (auto simp: schedules_def boot_ok_def clock_ok_def clock_def with_timer_def Interrupt_new_def
        Statistics_new_def cpu_ok_def Machine_new_def intro!: sorted_when_fold)
  then have "boot_ok (with_console (\<lambda>c. c\<lparr>incoming := EOF_char\<rparr>) (s1\<lparr>cpu := Some (Machine_new False)\<rparr>))"
    by (simp add: with_console_def)
  from Schedule_boot[OF this, of ConsoleTime] obtain s2 where
    s2: "ConsoleInput_new (s1\<lparr>cpu := Some (Machine_new False)\<rparr>) = Inr s2" "boot_ok s2"
      "world s2 = (world s1)\<lparr>console := (console (world s1))\<lparr>incoming := EOF_char\<rparr>\<rparr>"
      "\<And>x. waiting x (pending s2) = waiting x (pending s1) + (if ConsoleInDev = x then 1 else 0)"
    by (auto simp: ConsoleInput_new_def ConsoleTime_def with_console_def)
  define s3 where "s3 = SynchConsoleOutput_new (upd_kernel (\<lambda>k. client_new CharAvailClient (Lock_new ConsoleInLock k)) s2)"
  have s3: "boot_ok s3" "run_state (kern s3) = run_state ?k0" "fresh (kern s3)" "signals CharAvailClient (kern s3)"
    "signals CharDoneClient (kern s3)" "timer (world s3) = timer (world s1)" "network (world s3) = network w"
    "incoming (console (world s3)) = EOF_char" "\<not> putBusy (console (world s3))" "pending s3 = pending s2"
    using s2(2,3) s1(3-6) by (simp_all add: s3_def SynchConsoleOutput_new_def ConsoleOutput_new_def with_console_def
        upd_kernel_def set_kernel_def fresh_boot)
  obtain p where p: "SynchDisk_new diskfile s3 = Inr (with_disk (\<lambda>_. \<lparr>platter = p, active = False, lastSector = 0, bufferInit = 0\<rparr>)
      (upd_kernel (\<lambda>k. Lock_new DiskLock (client_new DiskClient k)) s3))" (is "_ = Inr ?s4")
    using Disk_new_run[OF assms(1)] unfolding SynchDisk_new_def by blast
  let ?s5 = "upd_kernel (\<lambda>k. process_semaphores (snd (Semaphore_new 1 k))) ?s4"
  let ?s6 = "upd_kernel (\<lambda>k. fold (\<lambda>b. SynchList_new (BoxLock b) b) [0..<10] (client_new PacketAvailClient k)) ?s5"
  have "boot_ok (with_network (\<lambda>n. n\<lparr>inHdr := (inHdr n)\<lparr>hdr_length := 0\<rparr>\<rparr>) ?s6)"
    using s3(1) by (simp add: with_network_def with_disk_def)
  from Schedule_boot[OF this, of NetworkTime NetInDev NetworkRecvInt] obtain s7 where
    s7: "NetworkInput_new ?s6 = Inr s7" "boot_ok s7"
      "world s7 = (world ?s6)\<lparr>network := (network (world ?s6))\<lparr>inHdr := (inHdr (network (world ?s6)))\<lparr>hdr_length := 0\<rparr>\<rparr>\<rparr>"
      "\<And>x. waiting x (pending s7) = waiting x (pending s3) + (if NetInDev = x then 1 else 0)"
    by (auto simp: NetworkInput_new_def NetworkTime_def with_network_def with_disk_def)
  have k7: "run_state (kern s7) = run_state ?k0" "fresh (kern s7)"
    "\<And>cl. cl \<noteq> PacketSentClient \<Longrightarrow> signals cl (kern s7)"
    using s3 by (simp_all add: s7(3) with_disk_def upd_kernel_def set_kernel_def) (case_tac cl; simp)
  have r7: "next_thread (kern s7) = Suc 0" "readyList (kern s7) = []" "threads (kern s7) = threads ?k0"
    using k7(1) by (simp_all add: run_state_def boot_kernel_def)
  let ?s8 = "upd_kernel (wake (Suc 0)) (ChangeLevel (level s7) IntOff (upd_kernel (\<lambda>k. k\<lparr>threads := (threads k)(Suc 0 \<mapsto> new_thread delivery),
     next_thread := Suc (Suc 0)\<rparr>) s7))"
  have "ReadyToRun (Suc 0) (ChangeLevel (level s7) IntOff (upd_kernel (\<lambda>k. k\<lparr>threads := (threads k)(Suc 0 \<mapsto> new_thread delivery),
     next_thread := Suc (Suc 0)\<rparr>) s7)) = Inr ?s8"
    by (rule ReadyToRun_run) (use r7 in simp_all)
  then have "fork_ready delivery s7 = Inr ?s8" by (simp add: fork_ready_def r7(1))
  moreover have "level s7 = IntOff" using s7(2) by (simp add: boot_ok_def)
  ultimately have P: "PostOfficeInput_new 10 delivery ?s5 = Inr ?s8"
    using s7(1) by (simp add: PostOfficeInput_new_def set_level_def ChangeLevel_def)
  let ?s9 = "PostOfficeOutput_new rel ?s8"
  have "Kernel_Initialize rs rel diskfile main delivery w = Inr ?s9"
    using s1(1) s2(1) p P by (simp add: Kernel_Initialize_def Timer_new_def SynchConsoleInput_new_def s3_def)
  moreover have k9: "kern ?s9 = Lock_new SendLock (client_new PacketSentClient (kern ?s8))"
    by (simp add: PostOfficeOutput_new_def NetworkOutput_new_def with_network_def)
  moreover have r9: "run_state (kern ?s9) = ([0 \<mapsto> \<lparr>thread_status = RUNNING, continuation = [Restore_Level IntOn, Code main, Shutdown, Finish],
                     userRegisters = (\<lambda>_. 0), space = None\<rparr>,
        Suc 0 \<mapsto> (new_thread delivery)\<lparr>thread_status := READY\<rparr>], Suc (Suc 0), 0, [Suc 0], None, shared (kernel w))" (is "_ = ?r")
  proof -
    have "run_state (kern ?s8) = ?r" using k7(1) by (simp add: run_state_def boot_kernel_def)
    then show ?thesis by (simp add: k9)
  qed
  moreover have f8: "fresh (kern ?s8)" using k7(2) by (simp add: fresh_def)
  then have f9: "fresh (kern ?s9)" by (simp add: k9)
  moreover have "signals cl (kern ?s8)" if "cl \<noteq> PacketSentClient" for cl using k7(3)[OF that] by (simp add: signals_def)
  then have sig9: "signals cl (kern ?s9)" for cl using f8 by (cases "cl = PacketSentClient") (simp_all add: k9)
  moreover have "sys_ok ?s9"
  proof (rule sys_okI)
    have "boot_ok ?s9"
      using s7(2) by (simp add: PostOfficeOutput_new_def NetworkOutput_new_def with_network_def)
    moreover have "hw_ok (world ?s9) (pending ?s9)"
      using s7(3,4) s3(6-10) s2(4) s1(4,7) assms(2)
      by (simp add: hw_ok_def outside_ok_def PostOfficeOutput_new_def NetworkOutput_new_def with_network_def with_disk_def)
    ultimately show "base_ok ?s9" by (simp add: boot_ok_def base_ok_def)
  next
    show "kernel_inv (kern ?s9)"
      by (rule first_threads_inv[OF r9 f9 sig9])
  next
    show "threads (kern ?s9) (currentThread (kern ?s9)) = Some \<lparr>thread_status = RUNNING,
        continuation = [Restore_Level IntOn, Code main, Shutdown, Finish], userRegisters = (\<lambda>_. 0), space = None\<rparr>"
      using r9 by (simp add: run_state_def)
    show "off_list (continuation \<lparr>thread_status = RUNNING, continuation = [Restore_Level IntOn, Code main, Shutdown, Finish],
        userRegisters = (\<lambda>_. 0), space = None\<rparr>) \<longleftrightarrow> level ?s9 = IntOff"
      using s7(2) by (simp add: boot_ok_def on_list_def PostOfficeOutput_new_def NetworkOutput_new_def with_network_def)
  qed
  ultimately show ?thesis by blast
qed

end
