(* ===== verification/Kernel_Model.thy ===== *)
theory Kernel_Model imports Kernel_Init begin

text \<open>
  What a step of the kernel looks like when the hardware is left out: a transition relation on the
  kernel alone, in which an interrupt is a signal some device may send at any tick. Every step of the
  detailed model is such a transition.
\<close>

section \<open>Transitions of the kernel\<close>

definition block_current :: "task \<Rightarrow> 'u kernel \<Rightarrow> 'u kernel" where
  "block_current t k = push [t] (upd_thread (currentThread k) (\<lambda>th. th\<lparr>thread_status := BLOCKED\<rparr>) k)"

definition ticked :: "'u kernel \<Rightarrow> 'u kernel \<Rightarrow> bool" where
  "ticked k k' \<longleftrightarrow> (\<exists>k1 us. interrupted k k1 \<and> k' = push us k1 \<and> (us = [] \<or> (\<exists>st. us = [Yield, Restore_Status st])))"

definition hold :: "nat \<Rightarrow> nat option \<Rightarrow> 'u kernel \<Rightarrow> 'u kernel" where
  "hold l h k = k\<lparr>locks := (locks k)(l := map_option (\<lambda>lk. lk\<lparr>lockHolder := h\<rparr>) (locks k l))\<rparr>"

definition held_by_current :: "nat \<Rightarrow> 'u kernel \<Rightarrow> bool" where
  "held_by_current l k \<longleftrightarrow> (\<exists>lk. locks k l = Some lk \<and> lockHolder lk = Some (currentThread k))"

text \<open>The effect of a task on the kernel it was taken off.\<close>

fun effect :: "task \<Rightarrow> 'u kernel \<Rightarrow> 'u kernel \<Rightarrow> bool" where
  "effect (Sem_P i r) k k' \<longleftrightarrow> k' = push [P_loop i IntOn r] k"
| "effect (P_loop i l r) k k' \<longleftrightarrow> (\<exists>sem. semaphores k i = Some sem \<and>
     k' = (if value sem = 0
           then block_current (Dispatch False)
             (upd_semaphore i (\<lambda>x. x\<lparr>waiters := waiters sem @ [currentThread k]\<rparr>) (push [P_loop i l r] k))
           else push (Restore_Level l # (case r of None \<Rightarrow> [] | Some l \<Rightarrow> [Set_Holder l]))
             (upd_semaphore i (\<lambda>x. x\<lparr>value := value x - 1\<rparr>) k)))"
| "effect (Sem_V i) k k' \<longleftrightarrow> semaphores k i \<noteq> None \<and> k' = push [Restore_Level IntOn] (V_kernel i k)"
| "effect (Acquire l) k k' \<longleftrightarrow> (\<exists>lk. locks k l = Some lk \<and> k' = push [Sem_P (lock_semaphore lk) (Some l)] k)"
| "effect (Set_Holder l) k k' \<longleftrightarrow> locks k l \<noteq> None \<and> k' = hold l (Some (currentThread k)) k"
| "effect (Release l) k k' \<longleftrightarrow> held_by_current l k
     \<and> (\<exists>lk. locks k l = Some lk \<and> k' = push [Sem_V (lock_semaphore lk)] (hold l None k))"
| "effect (Wait c l) k k' \<longleftrightarrow> held_by_current l k \<and> (\<exists>ws. conditions k c = Some ws
     \<and> k' = push [Release l, Sem_P (next_semaphore k) None, Acquire l, Delete_Semaphore (next_semaphore k)]
         (k\<lparr>semaphores := (semaphores k)(next_semaphore k \<mapsto> \<lparr>value = 0, waiters = []\<rparr>),
            next_semaphore := next_semaphore k + 1, conditions := (conditions k)(c \<mapsto> ws @ [next_semaphore k])\<rparr>))"
| "effect (Signal c l) k k' \<longleftrightarrow> held_by_current l k \<and> (\<exists>ws. conditions k c = Some ws
     \<and> k' = (case ws of [] \<Rightarrow> k | w # rest \<Rightarrow> push [Sem_V w] (k\<lparr>conditions := (conditions k)(c \<mapsto> rest)\<rparr>)))"
| "effect (Broadcast c l) k k' \<longleftrightarrow> k' = k \<or> k' = push [Signal c l, Broadcast c l] k"
| "effect (Delete_Semaphore i) k k' \<longleftrightarrow> k' = k\<lparr>semaphores := (semaphores k)(i := None)\<rparr>"
| "effect Yield k k' \<longleftrightarrow> (case readyList k of
       [] \<Rightarrow> k' = push [Restore_Level IntOn] k
     | n # rest \<Rightarrow> \<exists>c. k' = switch_to n False c (wake (currentThread k) ((push [Restore_Level IntOn] k)\<lparr>readyList := rest\<rparr>)))"
| "effect (Fork c) k k' \<longleftrightarrow> k' = push [Restore_Level IntOn] (wake (next_thread k)
     (k\<lparr>threads := (threads k)(next_thread k \<mapsto> new_thread c), next_thread := next_thread k + 1\<rparr>))"
| "effect Finish k k' \<longleftrightarrow> k' = block_current (Dispatch True) k"
| "effect (Dispatch fin) k k' \<longleftrightarrow> (case readyList k of
       [] \<Rightarrow> interrupted (push [Dispatch fin] k) k'
     | n # rest \<Rightarrow> \<exists>c. k' = switch_to n fin c (k\<lparr>readyList := rest\<rparr>))"
| "effect Thread_Begin k k' \<longleftrightarrow> ticked (destroy k) k'"
| "effect After_Switch k k' \<longleftrightarrow> k' = destroy k"
| "effect (Restore_Level l) k k' \<longleftrightarrow> ticked k k'"
| "effect (Restore_Status st) k k' \<longleftrightarrow> k' = k"
| "effect Tick k k' \<longleftrightarrow> ticked k k'"
| "effect Shutdown k k' \<longleftrightarrow> False"
| "effect (Code c) k k' \<longleftrightarrow> (\<exists>k1 us. kernel_frame k k1 \<and> list_all client_task us \<and> k' = push us k1)"

definition kernel_move :: "'u kernel \<Rightarrow> 'u kernel \<Rightarrow> bool" where
  "kernel_move k k' \<longleftrightarrow> (\<exists>th t ts. threads k (currentThread k) = Some th \<and> continuation th = t # ts
     \<and> effect t (set_cont ts k) k')"

section \<open>Every step is a transition\<close>

lemma popped_inv:
  assumes "at_task t ts th s" "on_task t \<and> t \<noteq> Finish \<or> (\<exists>l. t = Restore_Level l)"
  shows "kernel_inv (set_cont ts (kern s))"
proof -
  note b = at_task_basic[OF assms(1)]
  have sw: "\<not> switching (t # ts)" "\<not> sleeping (t # ts)" using assms(2) by (cases t; simp)+
  then have run: "thread_status th = RUNNING" "toBeDestroyed (kern s) = None"
    using b(7) sw by (simp, cases "toBeDestroyed (kern s)") (use b(8) in auto)
  have ts: "on_list ts"
  proof (cases "on_task t")
    case True
    then show ?thesis using at_task_on(2)[OF assms(1)] assms(2) on_list_pop by auto
  next
    case False
    then obtain l where "t = Restore_Level l" using assms(2) by blast
    then show ?thesis using b(6) by (auto simp: on_list_def)
  qed
  show ?thesis by (rule set_cont_inv[OF b(2,3) run]) (use ts on_list_not_sleeping b(4) in auto)
qed

lemma tick_ticked:
  assumes "base_ok s" "kernel_inv (kern s)" "tick s = Inr s'"
  shows "ticked (kern s) (kern s')"
  using tick_run[OF assms(1,2)] assms(3) by (auto simp: ticked_def)

lemma Run_kern:
  assumes "Run n fin s = Inr s'"
  shows "kern s' = switch_to n fin (cpu s) (kern s)"
proof -
  have "level s = IntOff" "fin \<Longrightarrow> toBeDestroyed (kern s) = None"
    "threads (kern s) (currentThread (kern s)) \<noteq> None" "threads (kern s) n \<noteq> None"
    using assms by (auto simp: Run_def save_current_def outcome_simps upd_thread_def split: if_splits)
  then obtain th where "threads (kern s) (currentThread (kern s)) = Some th" by auto
  from Run_run[OF \<open>level s = IntOff\<close> \<open>fin \<Longrightarrow> toBeDestroyed (kern s) = None\<close> this \<open>threads (kern s) n \<noteq> None\<close>]
  show ?thesis using assms by (auto split: if_splits)
qed

lemma ReadyToRun_kern: "ReadyToRun t s = Inr s' \<Longrightarrow> s' = upd_kernel (wake t) s"
  by (auto simp: ReadyToRun_def append_new_def outcome_simps wake_def[abs_def] upd_kernel_def)

lemma set_level_on:
  assumes "base_ok s" "kernel_inv (kern s)" "set_level l s = Inr s'" "level s = IntOff" "l = IntOn"
  shows "ticked (kern s) (kern s')"
proof -
  have "tick (ChangeLevel IntOff IntOn s) = Inr s'" using assms(3-5) by (auto simp: set_level_def outcome_simps)
  from tick_ticked[OF _ _ this] show ?thesis using assms(1,2) by simp
qed

lemma Idle_kern:
  assumes "base_ok s" "kernel_inv (kern s)" "level s = IntOff" "Idle run_devices s = Inr (Running s')"
  shows "interrupted (kern s) (kern s')"
proof -
  let ?s = "s\<lparr>status := IdleMode\<rparr>"
  have "clients.machine.sim_ok (kern s) ?s" using assms(1,2) by (simp add: sim_ok_split)
  from clients.machine.CheckIfDue_run[OF this, of True] assms(3) obtain b s1 where
    "CheckIfDue run_devices True ?s = Inr (b, s1)" "clients.machine.sim_ok (kern s) s1" by auto
  then show ?thesis using assms(4) by (auto simp: Idle_def Halt_def sim_ok_split split: if_splits)
qed

lemma step_effect:
  assumes "at_task t ts th s" "program_ok prog" "exec prog t (upd_kernel (set_cont ts) s) = Inr (Running s')"
  shows "effect t (set_cont ts (kern s)) (kern s')"
proof -
  note b = at_task_basic[OF assms(1)] and run = assms(3)
  have on: "on_task t \<Longrightarrow> level s = IntOn" using at_task_on(1)[OF assms(1)] .
  show ?thesis
  proof (cases t)
    case (Sem_P i r)
    then show ?thesis using run on by (auto simp: Semaphore_P_def Let_def)
  next
    case (P_loop i l r)
    have "Semaphore_P_loop i l r (upd_kernel (set_cont ts) s) = Inr s'"
      using run P_loop by (simp add: outcome_simps)
    then obtain sem where sem: "semaphores (kern s) i = Some sem" by (auto simp: Semaphore_P_loop_def outcome_simps)
    show ?thesis
    proof (cases "value sem = 0")
      case True
      then show ?thesis using sem P_loop \<open>Semaphore_P_loop i l r _ = _\<close>
        by (simp add: Semaphore_P_loop_def outcome_simps append_new_def Thread_Sleep_def block_current_def) auto
    next
      case False
      then show ?thesis using sem P_loop \<open>Semaphore_P_loop i l r _ = _\<close>
        by (simp add: Semaphore_P_loop_def) auto
    qed
  next
    case (Sem_V i)
    let ?s = "ChangeLevel (level s) IntOff (upd_kernel (set_cont ts) s)"
    have k: "kernel_inv (kern ?s)" using popped_inv[OF assms(1)] Sem_V by simp
    obtain s1 where s1: "V_body i ?s = Inr s1" "s' = upd_kernel (push [Restore_Level (level s)]) s1"
      using run Sem_V by (auto simp: Semaphore_V_def Let_def outcome_simps)
    then obtain sem where sem: "semaphores (kern ?s) i = Some sem" by (auto simp: V_body_def outcome_simps)
    have "s1 = upd_kernel (V_kernel i) ?s" using V_body_run[OF _ k sem] s1(1) by simp
    then show ?thesis using s1(2) sem Sem_V on by simp
  next
    case (Acquire l)
    then show ?thesis using run by (auto simp: Lock_Acquire_def outcome_simps)
  next
    case (Set_Holder l)
    then show ?thesis using run by (auto simp: set_holder_def outcome_simps hold_def)
  next
    case (Release l)
    then show ?thesis using run by (auto simp: Lock_Release_def assert_held_def set_holder_def outcome_simps hold_def held_by_current_def)
  next
    case (Wait c l)
    then show ?thesis using run by (auto simp: Condition_Wait_def assert_held_def outcome_simps held_by_current_def append_new_def Let_def)
  next
    case (Signal c l)
    have r: "Condition_Signal c l (upd_kernel (set_cont ts) s) = Inr s'" using run Signal by (simp add: outcome_simps)
    then obtain ws lk where ws: "conditions (kern s) c = Some ws" "locks (kern s) l = Some lk" "lockHolder lk = Some (currentThread (kern s))"
      by (auto simp: Condition_Signal_def assert_held_def outcome_simps)
    show ?thesis using r ws Signal
      by (cases ws) (auto simp: Condition_Signal_def assert_held_def held_by_current_def)
  next
    case (Broadcast c l)
    then show ?thesis using run by (auto simp: Condition_Broadcast_def outcome_simps)
  next
    case Yield
    let ?s = "upd_kernel (push [Restore_Level (level s)]) (ChangeLevel (level s) IntOff (upd_kernel (set_cont ts) s))"
    have l: "level s = IntOn" using on Yield by simp
    have "bind_result (FindNextToRun ?s) (\<lambda>(n, s). case n of None \<Rightarrow> Inr s
        | Some t \<Rightarrow> bind_result (ReadyToRun (currentThread (kern s)) s) (Run t False)) = Inr s'"
      using run Yield by (auto simp: Thread_Yield_def Let_def outcome_simps)
    then show ?thesis using Yield l
      by (auto simp: FindNextToRun_def outcome_simps Run_kern dest!: ReadyToRun_kern split: list.splits)
  next
    case (Fork c)
    then show ?thesis using run on
      by (auto simp: Thread_Fork_def fork_ready_def Let_def outcome_simps dest!: ReadyToRun_kern)
  next
    case Finish
    then show ?thesis using run by (auto simp: Thread_Finish_def Thread_Sleep_def block_current_def outcome_simps)
  next
    case (Dispatch fin)
    have off: "level s = IntOff" using b(5,6) Dispatch by (auto simp: on_list_def)
    have r: "Sleep_loop fin (upd_kernel (set_cont ts) s) = Inr (Running s')" using run Dispatch by simp
    show ?thesis
    proof (cases "readyList (kern s)")
      case Nil
      have same: "push [Dispatch fin] (set_cont ts (kern s)) = kern s"
        using b(3,4) Dispatch by (simp add: push_set_cont) (simp add: set_cont_def upd_thread_def fun_upd_idem)
      then have "Idle run_devices s = Inr (Running s')"
        using r Nil off by (simp add: Sleep_loop_def FindNextToRun_def) (simp add: upd_kernel_def)
      then show ?thesis using Idle_kern[OF b(1,2) off] Nil Dispatch same by simp
    next
      case (Cons n rest)
      then have "Run n fin (upd_kernel (\<lambda>k. k\<lparr>readyList := rest\<rparr>) (upd_kernel (set_cont ts) s)) = Inr s'"
        using r off by (simp add: Sleep_loop_def FindNextToRun_def outcome_simps)
      from Run_kern[OF this] show ?thesis using Cons Dispatch by auto
    qed
  next
    case Thread_Begin
    have off: "level s = IntOff" "on_list ts" using b(5,6) Thread_Begin by (auto simp: on_list_def)
    have "off_list ts \<or> on_list ts" "\<not> sleeping ts" "switching (t # ts)"
      using off(2) on_list_not_sleeping Thread_Begin by auto
    note p = popped_destroy[OF assms(1) this(3,1,2), simplified]
    have "set_level IntOn (upd_kernel destroy (upd_kernel (set_cont ts) s)) = Inr s'"
      using run p(1) Thread_Begin by (auto simp: outcome_simps)
    from set_level_on[OF _ _ this] show ?thesis using p off(1) Thread_Begin by simp
  next
    case After_Switch
    have off: "inner_off ts" using b(5,6) After_Switch by (auto simp: on_list_def)
    have "off_list ts \<or> on_list ts" "\<not> sleeping ts" "switching (t # ts)"
      using off inner_off_off After_Switch by (cases ts rule: inner_off.cases; auto)+
    note p = popped_destroy[OF assms(1) this(3,1,2), simplified]
    show ?thesis using run p(1) After_Switch
      by (auto simp: Resume_def restore_current_def outcome_simps split: option.splits)
  next
    case (Restore_Level l)
    have off: "level s = IntOff" "l = IntOn" using b(5,6) Restore_Level by (auto simp: on_list_def)
    have "kernel_inv (kern (upd_kernel (set_cont ts) s))" using popped_inv[OF assms(1)] Restore_Level by simp
    from set_level_on[OF _ this _ _ off(2)] show ?thesis using run b(1) off Restore_Level by (auto simp: outcome_simps)
  next
    case Tick
    have "kernel_inv (kern (upd_kernel (set_cont ts) s))" using popped_inv[OF assms(1)] Tick by simp
    from tick_ticked[OF _ this] show ?thesis using run b(1) Tick by (auto simp: outcome_simps)
  next
    case (Code c)
    have "kernel_inv (kern (upd_kernel (set_cont ts) s))" using popped_inv[OF assms(1)] Code by simp
    moreover obtain s1 us where "prog c (upd_kernel (set_cont ts) s) = Inr (s1, us)" "s' = upd_kernel (push us) s1"
      using run Code by (auto simp: run_code_def outcome_simps)
    moreover have "base_ok (upd_kernel (set_cont ts) s)" "level (upd_kernel (set_cont ts) s) = IntOn" using b(1) on Code by simp_all
    ultimately have "list_all client_task us \<and> code_frame (upd_kernel (set_cont ts) s) s1"
      using assms(2) unfolding program_ok_def by blast
    then show ?thesis using \<open>s' = _\<close> Code by (auto simp: code_frame_def)
  qed (use run in \<open>auto simp: outcome_simps Halt_def\<close>)
qed


lemma kernel_step_move:
  assumes "sys_ok s" "program_ok prog" "kernel_step prog s = Inr (Running s')"
  shows "kernel_move (kern s) (kern s')"
proof -
  obtain t ts th where a: "at_task t ts th s" by (rule kernel_step_goes_well[OF assms(1,2)])
  note b = at_task_basic(3,4)[OF a]
  have "exec prog t (upd_kernel (set_cont ts) s) = Inr (Running s')"
    using assms(3) by (simp add: kernel_step_run[OF b])
  from step_effect[OF a assms(2) this] show ?thesis using b unfolding kernel_move_def by blast
qed

end
