(* ===== verification/Kernel_Accounts.thy ===== *)
theory Kernel_Accounts imports Kernel_Model begin

text \<open>
  Accounts kept along the transitions of the kernel: threads woken from a semaphore against its
  value, so that no wake-up is lost; the semaphore of a lock, its holder and the threads between the
  two, so that a lock has one holder; the order of the ready list; and what a thread keeps while it
  does not run.
\<close>

lemma step_at_task:
  assumes "sys_ok s" "program_ok prog" "kernel_step prog s = Inr (Running s')"
  obtains t ts th where "at_task t ts th s" "effect t (set_cont ts (kern s)) (kern s')" "sys_ok s'"
proof -
  obtain t ts th where a: "at_task t ts th s" and g: "goes_well (may_fail prog t ts th s) (kernel_step prog s)"
    by (rule kernel_step_goes_well[OF assms(1,2)])
  note b = at_task_basic(3,4)[OF a]
  have "exec prog t (upd_kernel (set_cont ts) s) = Inr (Running s')"
    using assms(3) by (simp add: kernel_step_run[OF b])
  from step_effect[OF a assms(2) this] that[OF a] g assms(3) show ?thesis by simp
qed

lemma effect_Signal:
  assumes "effect (Signal c l) k k'"
  shows "k' = k \<or> (\<exists>w rest. conditions k c = Some (w # rest) \<and> k' = push [Sem_V w] (k\<lparr>conditions := (conditions k)(c \<mapsto> rest)\<rparr>))"
proof -
  obtain ws where "conditions k c = Some ws"
    "k' = (case ws of [] \<Rightarrow> k | w # rest \<Rightarrow> push [Sem_V w] (k\<lparr>conditions := (conditions k)(c \<mapsto> rest)\<rparr>))"
    using assms by auto
  then show ?thesis by (cases ws) auto
qed

section \<open>Wake-ups\<close>

text \<open>A thread that is not blocked and goes on in the loop of \<open>P\<close>.\<close>

fun enters :: "nat \<Rightarrow> task list \<Rightarrow> bool" where
  "enters i (P_loop j l r # ts) = (i = j)"
| "enters i (After_Switch # P_loop j l r # ts) = (i = j)"
| "enters i (Dispatch False # P_loop j l r # ts) = (i = j)"
| "enters i ts = False"

definition heading :: "'u kernel \<Rightarrow> nat \<Rightarrow> nat \<Rightarrow> bool" where
  "heading k i t \<longleftrightarrow> (\<exists>th. threads k t = Some th \<and> thread_status th \<noteq> BLOCKED \<and> enters i (continuation th))"

definition no_lost_wakeup :: "'u kernel \<Rightarrow> bool" where
  "no_lost_wakeup k \<longleftrightarrow> (\<forall>i sem. semaphores k i = Some sem \<longrightarrow> waiters sem \<noteq> [] \<longrightarrow>
     value sem \<le> int (card {t. heading k i t}))"

definition keeps :: "'u kernel \<Rightarrow> 'u kernel \<Rightarrow> bool" where
  "keeps k k' \<longleftrightarrow> (\<forall>i t. heading k i t \<longrightarrow> heading k' i t)
     \<and> (\<forall>i sem'. semaphores k' i = Some sem' \<longrightarrow> waiters sem' \<noteq> [] \<longrightarrow>
          (\<exists>sem. semaphores k i = Some sem \<and> waiters sem \<noteq> [] \<and> value sem' \<le> value sem))"

lemma keeps_refl [simp]: "keeps k k"
  by (auto simp: keeps_def)

lemma keeps_trans: "keeps k1 k2 \<Longrightarrow> keeps k2 k3 \<Longrightarrow> keeps k1 k3"
  unfolding keeps_def by (meson order.trans)

lemma finite_heading: "kernel_inv k \<Longrightarrow> finite {t. heading k i t}"
proof -
  assume k: "kernel_inv k"
  have "{t. heading k i t} \<subseteq> {..<next_thread k}"
    using kernel_inv_thread[OF k] by (auto simp: heading_def thread_ok_def)
  then show ?thesis by (rule finite_subset) simp
qed

lemma keeps_no_lost:
  assumes "no_lost_wakeup k" "keeps k k'" "kernel_inv k'"
  shows "no_lost_wakeup k'"
  unfolding no_lost_wakeup_def
proof (intro allI impI)
  fix i sem' assume s: "semaphores k' i = Some sem'" "waiters sem' \<noteq> []"
  then obtain sem where "semaphores k i = Some sem" "waiters sem \<noteq> []" "value sem' \<le> value sem"
    using assms(2) unfolding keeps_def by blast
  then have "value sem' \<le> int (card {t. heading k i t})" using assms(1) by (force simp: no_lost_wakeup_def)
  also have "card {t. heading k i t} \<le> card {t. heading k' i t}"
    by (rule card_mono[OF finite_heading[OF assms(3)]]) (use assms(2) in \<open>auto simp: keeps_def\<close>)
  finally show "value sem' \<le> int (card {t. heading k' i t})" by simp
qed

lemma enters_waits: "waits_for i ts \<Longrightarrow> enters i ts"
  by (cases "(i, ts)" rule: waits_for.cases) auto

lemma enters_pop: "enters i (t # ts) \<Longrightarrow> (\<forall>j l r. t \<noteq> P_loop j l r) \<Longrightarrow> enters i ts"
  by (cases "(i, t # ts)" rule: enters.cases) auto

lemma enters_on: "on_list ts \<Longrightarrow> \<not> enters i ts"
  by (cases "(i, ts)" rule: enters.cases) (auto simp: on_list_def)

lemma enters_tasks: "list_all on_task ts \<Longrightarrow> \<not> enters i ts"
  by (cases "(i, ts)" rule: enters.cases) auto

text \<open>A signal adds one to the value and wakes one waiter.\<close>

lemma V_no_lost:
  assumes "kernel_inv k" "no_lost_wakeup k" "semaphores k i = Some sem"
  shows "no_lost_wakeup (V_kernel i k)"
proof (cases "waiters sem")
  case Nil
  then have eq: "V_kernel i k = k\<lparr>semaphores := (semaphores k)(i \<mapsto> \<lparr>value = value sem + 1, waiters = []\<rparr>)\<rparr>"
    using assms(3) by (simp add: V_kernel_def)
  have "keeps k (V_kernel i k)" by (auto simp: eq keeps_def heading_def split: if_splits)
  then show ?thesis by (rule keeps_no_lost[OF assms(2) _ V_kernel_inv[OF assms(1,3)]])
next
  case (Cons t ts)
  obtain th where th: "threads k t = Some th" "thread_status th = BLOCKED" "waits_for i (continuation th)"
    using kernel_inv_semaphore[OF assms(1,3), unfolded semaphore_ok_def] Cons by (metis list.set_intros(1))
  let ?k = "V_kernel i k"
  have k': "threads ?k = (threads k)(t \<mapsto> th\<lparr>thread_status := READY\<rparr>)"
    "semaphores ?k = (semaphores k)(i \<mapsto> \<lparr>value = value sem + 1, waiters = ts\<rparr>)"
    using assms(3) Cons th(1) by (simp_all add: V_kernel_def)
  have h: "heading k j u \<Longrightarrow> heading ?k j u" for j u using th(1) k'(1) by (auto simp: heading_def)
  have new: "\<not> heading k i t" "heading ?k i t" using th k'(1) enters_waits by (auto simp: heading_def)
  have fin: "finite {u. heading ?k j u}" for j by (rule finite_heading[OF V_kernel_inv[OF assms(1,3)]])
  show ?thesis unfolding no_lost_wakeup_def
  proof (intro allI impI)
    fix j x assume x: "semaphores ?k j = Some x" "waiters x \<noteq> []"
    show "value x \<le> int (card {u. heading ?k j u})"
    proof (cases "j = i")
      case True
      have "value sem \<le> int (card {u. heading k i u})" using assms(2,3) Cons by (force simp: no_lost_wakeup_def)
      moreover have "finite {u. heading k i u}" by (rule finite_heading[OF assms(1)])
      then have "card (insert t {u. heading k i u}) = card {u. heading k i u} + 1" using new(1) by simp
      moreover have "card (insert t {u. heading k i u}) \<le> card {u. heading ?k i u}"
        by (rule card_mono[OF fin]) (use h new(2) in auto)
      moreover have "value x = value sem + 1" using True x k'(2) by auto
      ultimately show ?thesis using True by simp
    next
      case False
      then have "value x \<le> int (card {u. heading k j u})" using assms(2) x k'(2) by (force simp: no_lost_wakeup_def)
      also have "card {u. heading k j u} \<le> card {u. heading ?k j u}" by (rule card_mono[OF fin]) (use h in auto)
      finally show ?thesis by simp
    qed
  qed
qed

lemma interrupted_no_lost:
  assumes "interrupted k0 k" "kernel_inv k0" "no_lost_wakeup k0"
  shows "no_lost_wakeup k"
proof -
  have "kernel_inv k \<and> client_semaphore k = client_semaphore k0 \<and> no_lost_wakeup k"
  proof (rule interrupted_induct[OF assms(1)])
    fix k c assume k: "kernel_inv k \<and> client_semaphore k = client_semaphore k0 \<and> no_lost_wakeup k"
    then obtain sem where sem: "semaphores k (client_semaphore k0 c) = Some sem"
      using kernel_inv_client[of k c] by metis
    show "kernel_inv (V_kernel (client_semaphore k0 c) k) \<and>
        client_semaphore (V_kernel (client_semaphore k0 c) k) = client_semaphore k0 \<and>
        no_lost_wakeup (V_kernel (client_semaphore k0 c) k)"
      using k V_kernel_inv[OF _ sem] V_no_lost[OF _ _ sem] by simp
  qed (use assms in simp)
  then show ?thesis by blast
qed


text \<open>Steps of the current thread that do not concern a semaphore.\<close>

lemma keeps_local:
  assumes "threads k (currentThread k) = Some th" "\<And>i. \<not> enters i (continuation th)"
    "\<And>u. u \<noteq> currentThread k \<Longrightarrow> threads k u \<noteq> None \<Longrightarrow> threads k' u = threads k u"
    "\<And>i sem'. semaphores k' i = Some sem' \<Longrightarrow> waiters sem' \<noteq> [] \<Longrightarrow> semaphores k i = Some sem'"
  shows "keeps k k'"
proof -
  have "heading k' i u" if h: "heading k i u" for i u
  proof -
    obtain x where x: "threads k u = Some x" "enters i (continuation x)" using h by (auto simp: heading_def)
    then have "u \<noteq> currentThread k" using assms(1,2) by auto
    then show ?thesis using h assms(3)[of u] x(1) by (simp add: heading_def)
  qed
  then show ?thesis using assms(4) unfolding keeps_def by blast
qed

lemma keeps_switch:
  assumes "threads k (currentThread k) = Some th" "\<And>i. enters i (continuation th) \<Longrightarrow> enters i (After_Switch # continuation th)"
  shows "keeps k (switch_to n fin c k)"
proof -
  have "heading (switch_to n fin c k) i u" if h: "heading k i u" for i u
    using h assms by (cases "u = currentThread k"; cases "u = n") (auto simp: heading_def switch_to_def upd_thread_def)
  then show ?thesis by (auto simp: keeps_def switch_to_def upd_thread_def)
qed

lemma keeps_wake: "keeps k (wake t k)" and keeps_ready: "keeps k (k\<lparr>readyList := rl\<rparr>)"
  by (auto simp: keeps_def heading_def)

lemma ticked_no_lost:
  assumes "ticked k k'" "kernel_inv k" "no_lost_wakeup k" "threads k (currentThread k) = Some th" "on_list (continuation th)"
    "kernel_inv k'"
  shows "no_lost_wakeup k'"
proof -
  obtain k1 us where k1: "interrupted k k1" "k' = push us k1" using assms(1) by (auto simp: ticked_def)
  note i = interrupted_inv[OF k1(1) assms(2)]
  obtain x where x: "threads k1 (currentThread k1) = Some x" "continuation x = continuation th"
    using i(4)[of "currentThread k"] i(2) assms(4) by auto
  have "keeps k1 k'" by (rule keeps_local[OF x(1)]) (use x(2) enters_on assms(5) k1(2) in auto)
  from keeps_no_lost[OF interrupted_no_lost[OF k1(1) assms(2,3)] this assms(6)] show ?thesis .
qed

lemma enters_popped: "enters i ts \<Longrightarrow> off_list (t # ts) \<Longrightarrow> (\<forall>j l r. t \<noteq> P_loop j l r) \<Longrightarrow> t \<noteq> Dispatch True"
  by (cases "(i, ts)" rule: enters.cases) (auto split: if_splits)

lemma P_loop_no_lost:
  assumes "at_task (P_loop i l r) ts th s" "effect (P_loop i l r) (set_cont ts (kern s)) k'" "kernel_inv k'"
    "no_lost_wakeup (kern s)"
  shows "no_lost_wakeup k'"
proof -
  note b = at_task_basic[OF assms(1)]
  let ?k = "kern s"
  have other: "heading ?k j u \<Longrightarrow> j = i \<or> u \<noteq> currentThread ?k" for j u
    using b(3,4) by (auto simp: heading_def)
  have fin: "finite {u. heading ?k j u}" "finite {u. heading k' j u}" for j
    by (rule finite_heading[OF b(2)], rule finite_heading[OF assms(3)])
  obtain sem where sem: "semaphores ?k i = Some sem" using assms(2) by auto
  have same: "threads k' u = threads ?k u" if "u \<noteq> currentThread ?k" for u
    using assms(2) that by (auto simp: block_current_def upd_thread_def upd_semaphore_def split: if_splits option.splits)
  have sems: "semaphores k' j = semaphores ?k j" if "j \<noteq> i" for j
    using assms(2) that by (auto simp: block_current_def upd_thread_def upd_semaphore_def split: if_splits option.splits)
  have h: "heading k' j u" if "heading ?k j u" "u \<noteq> currentThread ?k" for j u
    using that same by (simp add: heading_def)
  show ?thesis unfolding no_lost_wakeup_def
  proof (intro allI impI)
    fix j x assume x: "semaphores k' j = Some x" "waiters x \<noteq> []"
    show "value x \<le> int (card {u. heading k' j u})"
    proof (cases "j = i")
      case False
      then have "value x \<le> int (card {u. heading ?k j u})" using assms(4) x sems by (force simp: no_lost_wakeup_def)
      also have "card {u. heading ?k j u} \<le> card {u. heading k' j u}"
        by (rule card_mono[OF fin(2)]) (use h other False in blast)
      finally show ?thesis by simp
    next
      case True
      show ?thesis
      proof (cases "value sem = 0")
        case z: True
        then have "value x = 0" using assms(2) x(1) sem True
          by (auto simp: block_current_def upd_thread_def upd_semaphore_def)
        then show ?thesis by simp
      next
        case False
        then have v: "value x = value sem - 1" "waiters x = waiters sem" using assms(2) x(1) sem True
          by (auto simp: upd_semaphore_def)
        then have "value sem \<le> int (card {u. heading ?k i u})"
          using assms(4) sem x(2) by (force simp: no_lost_wakeup_def)
        also have "card {u. heading ?k i u} \<le> card ({u. heading k' i u} \<union> {currentThread ?k})"
          by (rule card_mono) (use fin h in auto)
        also have "\<dots> \<le> card {u. heading k' i u} + 1"
          using card_Un_le[of "{u. heading k' i u}" "{currentThread ?k}"] by simp
        finally show ?thesis using v True by simp
      qed
    qed
  qed
qed


lemma keeps_pop_destroy:
  assumes "at_task t ts th s" "\<And>i. enters i (t # ts) \<Longrightarrow> enters i ts"
  shows "keeps (kern s) (destroy (set_cont ts (kern s)))"
proof -
  note b = at_task_basic[OF assms(1)]
  have "heading (destroy (set_cont ts (kern s))) i u" if h: "heading (kern s) i u" for i u
  proof -
    obtain x where x: "threads (kern s) u = Some x" "thread_status x \<noteq> BLOCKED" using h by (auto simp: heading_def)
    have "toBeDestroyed (kern s) \<noteq> Some u"
      using kernel_inv_thread[OF b(2) x(1)] x(2) destroy_inv(2)[OF b(2)] by (auto simp: thread_ok_def)
    then show ?thesis using h assms(2)[of i] b(3,4) destroy_inv(2)[OF b(2)]
      by (cases "u = currentThread (kern s)") (auto simp: heading_def)
  qed
  then show ?thesis by (auto simp: keeps_def)
qed

lemma no_lost_step:
  assumes "at_task t ts th s" "effect t (set_cont ts (kern s)) (kern s')" "kernel_inv (kern s')" "no_lost_wakeup (kern s)"
  shows "no_lost_wakeup (kern s')"
proof -
  note b = at_task_basic[OF assms(1)]
  let ?k = "kern s" and ?p = "set_cont ts (kern s)" and ?k' = "kern s'"
  have by_keeps: "keeps ?k ?k' \<Longrightarrow> ?thesis" by (rule keeps_no_lost[OF assms(4) _ assms(3)])
  have local: ?thesis if "\<And>i. \<not> enters i (t # ts)"
    "\<And>u. u \<noteq> currentThread ?k \<Longrightarrow> threads ?k u \<noteq> None \<Longrightarrow> threads ?k' u = threads ?k u"
    "\<And>i sem'. semaphores ?k' i = Some sem' \<Longrightarrow> waiters sem' \<noteq> [] \<Longrightarrow> semaphores ?k i = Some sem'"
    by (rule by_keeps, rule keeps_local[OF b(3)]) (use that b(4) in simp_all)
  have pop: "no_lost_wakeup ?p" if "kernel_inv ?p" "\<And>i. \<not> enters i (t # ts)"
    by (rule keeps_no_lost[OF assms(4) _ that(1)], rule keeps_local[OF b(3)]) (use that(2) b(4) in simp_all)
  have cur: "threads ?p (currentThread ?p) = Some (th\<lparr>continuation := ts\<rparr>)" using b(3) by simp
  show ?thesis
  proof (cases t)
    case (P_loop i l r)
    then show ?thesis using P_loop_no_lost assms by blast
  next
    case (Sem_V i)
    have ts: "on_list ts" using at_task_on(2)[OF assms(1)] Sem_V by (auto simp: on_list_def)
    have inv: "kernel_inv ?p" using popped_inv[OF assms(1)] Sem_V by simp
    obtain sem where sem: "semaphores ?p i = Some sem" "?k' = push [Restore_Level IntOn] (V_kernel i ?p)"
      using assms(2) Sem_V by auto
    obtain x where x: "threads (V_kernel i ?p) (currentThread (V_kernel i ?p)) = Some x" "continuation x = ts"
      using V_kernel_threads(1)[OF inv, of i "currentThread ?p"] cur by auto
    have "keeps (V_kernel i ?p) ?k'" by (rule keeps_local[OF x(1)]) (use x(2) enters_on[OF ts] sem(2) in auto)
    moreover have "no_lost_wakeup (V_kernel i ?p)"
      by (rule V_no_lost[OF inv pop[OF inv] sem(1)]) (use Sem_V in simp)
    ultimately show ?thesis using keeps_no_lost assms(3) by blast
  next
    case Yield
    have ts: "on_list ts" using at_task_on(2)[OF assms(1)] Yield by (auto simp: on_list_def)
    have kp: "keeps ?k (push [Restore_Level IntOn] ?p)" by (rule keeps_local[OF b(3)]) (use b(4) Yield in auto)
    show ?thesis
    proof (cases "readyList ?k")
      case Nil
      then show ?thesis using by_keeps kp assms(2) Yield by simp
    next
      case (Cons n rest)
      let ?q = "(push [Restore_Level IntOn] ?p)\<lparr>readyList := rest\<rparr>"
      obtain c where c: "?k' = switch_to n False c (wake (currentThread ?p) ?q)" using assms(2) Yield Cons by auto
      have "keeps (wake (currentThread ?p) ?q) ?k'" unfolding c
        by (rule keeps_switch[where th = "th\<lparr>continuation := Restore_Level IntOn # ts, thread_status := READY\<rparr>"]) (use b(3) in auto)
      from keeps_trans[OF keeps_trans[OF keeps_trans[OF kp keeps_ready] keeps_wake] this] show ?thesis by (rule by_keeps)
    qed
  next
    case (Dispatch fin)
    have off: "off_list (Dispatch fin # ts)" using b(6) Dispatch by (auto simp: on_list_def)
    show ?thesis
    proof (cases "readyList ?k")
      case Nil
      have "push [Dispatch fin] ?p = ?k"
        using b(3,4) Dispatch by (simp add: push_set_cont) (simp add: set_cont_def upd_thread_def fun_upd_idem)
      then have "interrupted ?k ?k'" using assms(2) Dispatch Nil by simp
      from interrupted_no_lost[OF this b(2) assms(4)] show ?thesis .
    next
      case (Cons n rest)
      then obtain c where c: "?k' = switch_to n fin c (?p\<lparr>readyList := rest\<rparr>)" using assms(2) Dispatch by auto
      have p: "keeps ?k ?p"
      proof -
        have "heading ?p i u" if "heading ?k i u" for i u
          using that b(3,4) Dispatch enters_pop[of i t ts] by (cases "u = currentThread ?k") (auto simp: heading_def)
        then show ?thesis by (auto simp: keeps_def)
      qed
      have "keeps (?p\<lparr>readyList := rest\<rparr>) ?k'" unfolding c
        by (rule keeps_switch[where th = "th\<lparr>continuation := ts\<rparr>"]) (use b(3) off in \<open>auto simp: enters_tasks split: if_splits\<close>)
      from keeps_trans[OF keeps_trans[OF p keeps_ready] this] show ?thesis by (rule by_keeps)
    qed
  next
    case Thread_Begin
    have ts: "on_list ts" using b(6) Thread_Begin by (auto simp: on_list_def)
    then have "off_list ts \<or> on_list ts" "\<not> sleeping ts" "switching (t # ts)"
      using on_list_not_sleeping Thread_Begin by auto
    note p = popped_destroy[OF assms(1) this(3,1,2), simplified]
    have "keeps ?k (destroy ?p)" by (rule keeps_pop_destroy[OF assms(1)]) (use Thread_Begin in simp)
    from keeps_no_lost[OF assms(4) this] have "no_lost_wakeup (destroy ?p)" using p(3) by simp
    from ticked_no_lost[OF _ _ this _ _ assms(3)] show ?thesis
      using assms(2) Thread_Begin ts p(3,4) by simp
  next
    case After_Switch
    have "keeps ?k (destroy ?p)"
      by (rule keeps_pop_destroy[OF assms(1)]) (use After_Switch enters_pop in blast)
    then show ?thesis using by_keeps assms(2) After_Switch by simp
  next
    case (Restore_Level l)
    have ts: "on_list ts" using b(5,6) Restore_Level by (auto simp: on_list_def)
    have inv: "kernel_inv ?p" using popped_inv[OF assms(1)] Restore_Level by simp
    show ?thesis
      by (rule ticked_no_lost[OF _ inv pop[OF inv] cur _ assms(3)]) (use assms(2) Restore_Level ts in auto)
  next
    case Tick
    have ts: "on_list ts" using at_task_on(2)[OF assms(1)] Tick by (auto simp: on_list_def)
    have inv: "kernel_inv ?p" using popped_inv[OF assms(1)] Tick by simp
    show ?thesis
      by (rule ticked_no_lost[OF _ inv pop[OF inv] cur _ assms(3)]) (use assms(2) Tick ts in auto)
  next
    case (Fork c)
    have "threads ?k (next_thread ?k) = None" by (rule fork_inv(2)[OF b(2,3)])
    then show ?thesis by (intro local) (use assms(2) Fork in auto)
  next
    case (Code c)
    then obtain k1 us where k1: "kernel_frame ?p k1" "?k' = push us k1" using assms(2) by auto
    show ?thesis by (rule local) (use k1 Code in \<open>auto simp: kernel_frame_def\<close>)
  next
    case (Signal c l)
    then consider "?k' = ?p" | w rest where "?k' = push [Sem_V w] (?p\<lparr>conditions := (conditions ?p)(c \<mapsto> rest)\<rparr>)"
      using effect_Signal[of c l ?p ?k'] assms(2) by blast
    then show ?thesis by cases (rule local; use Signal in auto)+
  next
    case (Broadcast c l)
    then consider "?k' = ?p" | "?k' = push [Signal c l, Broadcast c l] ?p" using assms(2) by auto
    then show ?thesis by cases (rule local; use Broadcast in auto)+
  qed (rule local; use assms(2) in \<open>auto simp: block_current_def upd_thread_def hold_def split: if_splits list.splits option.splits\<close>)+
qed

end
