(* ===== verification/Kernel_Locks.thy ===== *)
theory Kernel_Locks imports Kernel_Accounts begin

text \<open>
  The account of a lock: its semaphore, its holder and the threads that have passed \<open>P\<close> in
  \<open>Acquire\<close> or are on their way to \<open>V\<close> in \<open>Release\<close> add up to one at most. So a lock is taken by
  one thread at a time, and only the thread that holds it gives it up.
\<close>

definition conts :: "'u kernel \<Rightarrow> nat \<Rightarrow> task list" where
  "conts k t = (case threads k t of None \<Rightarrow> [] | Some th \<Rightarrow> continuation th)"

lemma conts_simps [simp]:
  "threads k (currentThread k) \<noteq> None \<Longrightarrow> conts (push us k) = (conts k)(currentThread k := us @ conts k (currentThread k))"
  "threads k (currentThread k) \<noteq> None \<Longrightarrow> conts (set_cont ts k) = (conts k)(currentThread k := ts)"
  "conts (wake t k) = conts k" "conts (V_kernel i k) = conts k" "conts (upd_semaphore i f k) = conts k"
  "conts (hold l h k) = conts k" "conts (k\<lparr>readyList := rl\<rparr>) = conts k" "conts (k\<lparr>conditions := cs\<rparr>) = conts k"
  "conts (k\<lparr>semaphores := ss\<rparr>) = conts k" "conts (k\<lparr>next_semaphore := n\<rparr>) = conts k"
  "threads k (currentThread k) \<noteq> None \<Longrightarrow> conts (switch_to n fin c k) = (conts k)(currentThread k := After_Switch # conts k (currentThread k))"
  "threads k (currentThread k) \<noteq> None \<Longrightarrow> conts (block_current tk k) = (conts k)(currentThread k := tk # conts k (currentThread k))"
  by (auto simp: conts_def V_kernel_def upd_semaphore_def hold_def switch_to_def block_current_def upd_thread_def fun_eq_iff
      split: option.splits list.splits)

lemma block_current_simps [simp]:
  "currentThread (block_current tk k) = currentThread k" "next_thread (block_current tk k) = next_thread k"
  "client_semaphore (block_current tk k) = client_semaphore k" "next_semaphore (block_current tk k) = next_semaphore k"
  "locks (block_current tk k) = locks k" "semaphores (block_current tk k) = semaphores k"
  "conditions (block_current tk k) = conditions k" "readyList (block_current tk k) = readyList k"
  by (simp_all add: block_current_def upd_thread_def)

lemma upd_semaphore_simps [simp]:
  "currentThread (upd_semaphore i f k) = currentThread k" "next_thread (upd_semaphore i f k) = next_thread k"
  "client_semaphore (upd_semaphore i f k) = client_semaphore k" "next_semaphore (upd_semaphore i f k) = next_semaphore k"
  "locks (upd_semaphore i f k) = locks k" "conditions (upd_semaphore i f k) = conditions k"
  "threads (upd_semaphore i f k) = threads k" "readyList (upd_semaphore i f k) = readyList k"
  "semaphores (upd_semaphore i f k) = (semaphores k)(i := map_option f (semaphores k i))"
  by (simp_all add: upd_semaphore_def)

lemma hold_simps [simp]:
  "currentThread (hold l h k) = currentThread k" "next_thread (hold l h k) = next_thread k"
  "client_semaphore (hold l h k) = client_semaphore k" "next_semaphore (hold l h k) = next_semaphore k"
  "semaphores (hold l h k) = semaphores k" "conditions (hold l h k) = conditions k" "threads (hold l h k) = threads k"
  "readyList (hold l h k) = readyList k"
  "locks (hold l h k) = (locks k)(l := map_option (\<lambda>lk. lk\<lparr>lockHolder := h\<rparr>) (locks k l))"
  by (simp_all add: hold_def)

lemma switch_to_simps [simp]:
  "currentThread (switch_to n fin c k) = n" "next_thread (switch_to n fin c k) = next_thread k"
  "client_semaphore (switch_to n fin c k) = client_semaphore k" "next_semaphore (switch_to n fin c k) = next_semaphore k"
  "locks (switch_to n fin c k) = locks k" "semaphores (switch_to n fin c k) = semaphores k"
  "conditions (switch_to n fin c k) = conditions k" "readyList (switch_to n fin c k) = readyList k"
  by (simp_all add: switch_to_def upd_thread_def)

lemma conts_destroy: "conts (destroy k) = (\<lambda>t. if toBeDestroyed k = Some t then [] else conts k t)"
  by (auto simp: conts_def fun_eq_iff)

lemma interrupted_thread: "interrupted k0 k \<Longrightarrow> (threads k t = None) = (threads k0 t = None)"
  by (erule interrupted_induct) (simp_all add: V_kernel_def split: option.splits list.splits)

lemma conts_interrupted: "interrupted k0 k \<Longrightarrow> conts k = conts k0"
  by (erule interrupted_induct) simp_all

section \<open>The account\<close>

text \<open>Tasks of a thread that has passed \<open>P\<close> but is not yet the holder, or has stopped being the holder
  and not yet done \<open>V\<close>.\<close>

definition weight :: "nat \<Rightarrow> nat \<Rightarrow> task list \<Rightarrow> nat" where
  "weight l q ts = length (filter (\<lambda>t. t = Set_Holder l \<or> t = Sem_V q) ts)"

definition passing :: "nat \<Rightarrow> nat \<Rightarrow> 'u kernel \<Rightarrow> nat" where
  "passing l q k = (\<Sum>t<next_thread k. weight l q (conts k t))"

lemma weight_simps [simp]:
  "weight l q [] = 0" "weight l q (t # ts) = (if t = Set_Holder l \<or> t = Sem_V q then 1 else 0) + weight l q ts"
  "weight l q (ts @ us) = weight l q ts + weight l q us"
  by (simp_all add: weight_def)

text \<open>\<open>proper l q\<close>: the task uses semaphore \<open>q\<close> only as the semaphore of lock \<open>l\<close>.\<close>

fun proper :: "nat \<Rightarrow> nat \<Rightarrow> task \<Rightarrow> bool" where
  "proper l q (Sem_P i r) = (i = q \<longleftrightarrow> r = Some l)"
| "proper l q (P_loop i l' r) = (i = q \<longleftrightarrow> r = Some l)"
| "proper l q (Delete_Semaphore i) = (i \<noteq> q)"
| "proper l q t = True"

definition lock_private :: "nat \<Rightarrow> nat \<Rightarrow> 'u kernel \<Rightarrow> bool" where
  "lock_private l q k \<longleftrightarrow> q < next_semaphore k \<and> q \<notin> range (client_semaphore k)
     \<and> (\<forall>l' lk. locks k l' = Some lk \<longrightarrow> (lock_semaphore lk = q \<longleftrightarrow> l' = l))
     \<and> (\<forall>c ws. conditions k c = Some ws \<longrightarrow> q \<notin> set ws)
     \<and> (\<forall>t. list_all (proper l q) (conts k t))"

definition taken :: "lock \<Rightarrow> int" where
  "taken lk = (if lockHolder lk = None then 0 else 1)"

definition lock_account :: "nat \<Rightarrow> nat \<Rightarrow> 'u kernel \<Rightarrow> bool" where
  "lock_account l q k \<longleftrightarrow> lock_private l q k \<and> (\<exists>lk sem. locks k l = Some lk \<and> semaphores k q = Some sem
     \<and> value sem + int (passing l q k) + taken lk \<le> 1)"

definition touches :: "nat \<Rightarrow> task \<Rightarrow> bool" where
  "touches q t \<longleftrightarrow> (\<exists>r. t = Sem_P q r) \<or> t = Sem_V q"

text \<open>The other code of the kernel uses the lock through \<open>Acquire\<close> and \<open>Release\<close> only.\<close>

definition leaves_alone :: "nat \<Rightarrow> nat \<Rightarrow> 'u program \<Rightarrow> bool" where
  "leaves_alone l q prog \<longleftrightarrow> (\<forall>c s s' ts. prog c s = Inr (s', ts) \<longrightarrow> (\<forall>t \<in> set ts. \<not> touches q t)
     \<and> locks (kern s') l = locks (kern s) l \<and> semaphores (kern s') q = semaphores (kern s) q)"

lemma inv_next:
  assumes "kernel_inv k"
  shows "currentThread k < next_thread k" "next_thread k \<le> u \<Longrightarrow> conts k u = []"
proof -
  obtain th where "threads k (currentThread k) = Some th" by (rule kernel_inv_current[OF assms])
  from kernel_inv_thread[OF assms this] show "currentThread k < next_thread k" by (simp add: thread_ok_def)
  show "conts k u = []" if "next_thread k \<le> u"
  proof (cases "threads k u")
    case (Some th)
    from kernel_inv_thread[OF assms this] show ?thesis using that by (simp add: thread_ok_def)
  qed (simp add: conts_def)
qed

lemma private_frame:
  assumes "lock_private l q k" "next_semaphore k \<le> next_semaphore k'" "client_semaphore k' = client_semaphore k"
    "\<And>l' lk'. locks k' l' = Some lk' \<Longrightarrow> (\<exists>lk. locks k l' = Some lk \<and> lock_semaphore lk = lock_semaphore lk')
       \<or> l' \<noteq> l \<and> next_semaphore k \<le> lock_semaphore lk'"
    "\<And>c ws x. conditions k' c = Some ws \<Longrightarrow> x \<in> set ws \<Longrightarrow>
       (\<exists>ws'. conditions k c = Some ws' \<and> x \<in> set ws') \<or> next_semaphore k \<le> x"
    "\<And>u. conts k' u = conts k u \<or> list_all (proper l q) (conts k' u)"
  shows "lock_private l q k'"
proof -
  have p: "q < next_semaphore k" "q \<notin> range (client_semaphore k)"
    "\<And>l' lk. locks k l' = Some lk \<Longrightarrow> (lock_semaphore lk = q \<longleftrightarrow> l' = l)"
    "\<And>c ws. conditions k c = Some ws \<Longrightarrow> q \<notin> set ws" "\<And>u. list_all (proper l q) (conts k u)"
    using assms(1) unfolding lock_private_def by blast+
  have "lock_semaphore lk = q \<longleftrightarrow> l' = l" if "locks k' l' = Some lk" for l' lk
    using assms(4)[OF that] p(1,3) by (metis not_less)
  moreover have "q \<notin> set ws" if "conditions k' c = Some ws" for c ws
    using assms(5)[OF that] p(1,4) by (metis not_less)
  moreover have "list_all (proper l q) (conts k' u)" for u using assms(6)[of u] p(5) by metis
  moreover have "q < next_semaphore k'" using p(1) assms(2) by simp
  ultimately show ?thesis using p(2) assms(3) unfolding lock_private_def by simp
qed

text \<open>A step of the current thread that runs \<open>us\<close> next instead of its first task.\<close>

definition steps_to :: "task \<Rightarrow> task list \<Rightarrow> task list \<Rightarrow> 'u kernel \<Rightarrow> 'u kernel \<Rightarrow> bool" where
  "steps_to t ts us k k' \<longleftrightarrow> conts k (currentThread k) = t # ts \<and> conts k' (currentThread k) = us @ ts
     \<and> next_thread k \<le> next_thread k' \<and> client_semaphore k' = client_semaphore k \<and> next_semaphore k \<le> next_semaphore k'
     \<and> (\<forall>u. u \<noteq> currentThread k \<longrightarrow> conts k' u = conts k u \<or> conts k' u = []
          \<or> (\<exists>c. u = next_thread k \<and> conts k u = [] \<and> conts k' u = [Thread_Begin, Code c, Finish]))"

lemma steps_to_passing:
  assumes "steps_to t ts us k k'" "currentThread k < next_thread k" "\<And>u. next_thread k \<le> u \<Longrightarrow> conts k u = []"
  shows "passing l q k' + weight l q [t] \<le> passing l q k + weight l q us"
proof -
  have w: "weight l q (conts k' u) \<le> weight l q (conts k u)" if "u \<noteq> currentThread k" for u
    using assms(1) that unfolding steps_to_def by fastforce
  have z: "weight l q (conts k' u) = 0" if "u \<ge> next_thread k" for u
    using w[of u] assms(2) assms(3)[OF that] that by simp
  have "passing l q k' = (\<Sum>u<next_thread k. weight l q (conts k' u))"
    unfolding passing_def using assms(1) z
    by (intro sum.mono_neutral_right) (auto simp: steps_to_def)
  also have "\<dots> = (\<Sum>u\<in>{..<next_thread k} - {currentThread k}. weight l q (conts k' u)) + weight l q (us @ ts)"
    using assms(1,2) by (simp add: sum.remove add.commute steps_to_def)
  also have "\<dots> \<le> (\<Sum>u\<in>{..<next_thread k} - {currentThread k}. weight l q (conts k u)) + weight l q (us @ ts)"
    by (intro add_right_mono sum_mono w) auto
  finally have "passing l q k' \<le> (\<Sum>u\<in>{..<next_thread k} - {currentThread k}. weight l q (conts k u)) + weight l q (us @ ts)" .
  moreover have "passing l q k = (\<Sum>u\<in>{..<next_thread k} - {currentThread k}. weight l q (conts k u)) + weight l q (t # ts)"
    unfolding passing_def using assms(1,2) by (simp add: sum.remove add.commute steps_to_def)
  ultimately show ?thesis by simp
qed


lemma steps_private:
  assumes "lock_private l q k" "steps_to t ts us k k'" "list_all (proper l q) us"
    "\<And>l' lk'. locks k' l' = Some lk' \<Longrightarrow> (\<exists>lk. locks k l' = Some lk \<and> lock_semaphore lk = lock_semaphore lk')
       \<or> l' \<noteq> l \<and> next_semaphore k \<le> lock_semaphore lk'"
    "\<And>c ws x. conditions k' c = Some ws \<Longrightarrow> x \<in> set ws \<Longrightarrow>
       (\<exists>ws'. conditions k c = Some ws' \<and> x \<in> set ws') \<or> next_semaphore k \<le> x"
  shows "lock_private l q k'"
proof (rule private_frame[OF assms(1)])
  have s: "client_semaphore k' = client_semaphore k" "next_semaphore k \<le> next_semaphore k'"
    "conts k (currentThread k) = t # ts" "conts k' (currentThread k) = us @ ts"
    "\<And>u. u \<noteq> currentThread k \<Longrightarrow> conts k' u = conts k u \<or> conts k' u = []
          \<or> (\<exists>c. u = next_thread k \<and> conts k u = [] \<and> conts k' u = [Thread_Begin, Code c, Finish])"
    using assms(2) unfolding steps_to_def by blast+
  show "client_semaphore k' = client_semaphore k" "next_semaphore k \<le> next_semaphore k'" by (fact s)+
  have "list_all (proper l q) (t # ts)" using assms(1) s(3) unfolding lock_private_def by metis
  then show "conts k' u = conts k u \<or> list_all (proper l q) (conts k' u)" for u
    using s(4) s(5)[of u] assms(3) by (cases "u = currentThread k") auto
qed (use assms(4,5) in blast)+

lemma steps_account:
  assumes "lock_account l q k" "kernel_inv k" "steps_to t ts us k k'" "list_all (proper l q) us"
    "\<And>l' lk'. locks k' l' = Some lk' \<Longrightarrow> (\<exists>lk. locks k l' = Some lk \<and> lock_semaphore lk = lock_semaphore lk')
       \<or> l' \<noteq> l \<and> next_semaphore k \<le> lock_semaphore lk'"
    "\<And>c ws x. conditions k' c = Some ws \<Longrightarrow> x \<in> set ws \<Longrightarrow>
       (\<exists>ws'. conditions k c = Some ws' \<and> x \<in> set ws') \<or> next_semaphore k \<le> x"
    "\<And>lk sem. locks k l = Some lk \<Longrightarrow> semaphores k q = Some sem \<Longrightarrow>
       \<exists>lk' sem'. locks k' l = Some lk' \<and> semaphores k' q = Some sem'
         \<and> value sem' + int (weight l q us) + taken lk' \<le> value sem + int (weight l q [t]) + taken lk"
  shows "lock_account l q k'"
proof -
  obtain lk sem where a: "lock_private l q k" "locks k l = Some lk" "semaphores k q = Some sem"
    "value sem + int (passing l q k) + taken lk \<le> 1"
    using assms(1) by (auto simp: lock_account_def)
  obtain lk' sem' where b: "locks k' l = Some lk'" "semaphores k' q = Some sem'"
    "value sem' + int (weight l q us) + taken lk' \<le> value sem + int (weight l q [t]) + taken lk"
    using assms(7)[OF a(2,3)] by blast
  have "passing l q k' + weight l q [t] \<le> passing l q k + weight l q us"
    by (rule steps_to_passing[OF assms(3) inv_next[OF assms(2)]])
  then have "value sem' + int (passing l q k') + taken lk' \<le> 1" using a(4) b(3) by linarith
  moreover have "lock_private l q k'" by (rule steps_private[OF a(1) assms(3-6)])
  ultimately show ?thesis using b(1,2) unfolding lock_account_def by blast
qed

text \<open>Most steps leave locks, semaphore and conditions as they are.\<close>

lemma plain_account:
  assumes "lock_account l q k" "kernel_inv k" "steps_to t ts us k k'" "list_all (proper l q) us"
    "weight l q us \<le> weight l q [t]" "locks k' = locks k"
    "map_option value (semaphores k' q) = map_option value (semaphores k q)" "conditions k' = conditions k"
  shows "lock_account l q k'"
proof (rule steps_account[OF assms(1-4)])
  fix lk sem assume "locks k l = Some lk" "semaphores k q = Some sem"
  then show "\<exists>lk' sem'. locks k' l = Some lk' \<and> semaphores k' q = Some sem'
         \<and> value sem' + int (weight l q us) + taken lk' \<le> value sem + int (weight l q [t]) + taken lk"
    using assms(5-7) by auto
qed (use assms(6,8) in auto)

lemma interrupted_lock:
  fixes k0 :: "'u kernel"
  assumes "interrupted k0 k" "q \<notin> range (client_semaphore k0)"
  shows "semaphores k q = semaphores k0 q" "conditions k = conditions k0" "next_thread k = next_thread k0"
    "client_semaphore k = client_semaphore k0" "locks k = locks k0" "next_semaphore k = next_semaphore k0"
    "currentThread k = currentThread k0"
proof -
  have "semaphores k q = semaphores k0 q \<and> conditions k = conditions k0 \<and> next_thread k = next_thread k0
    \<and> client_semaphore k = client_semaphore k0 \<and> locks k = locks k0 \<and> next_semaphore k = next_semaphore k0
    \<and> currentThread k = currentThread k0"
  proof (rule interrupted_induct[OF assms(1)])
    fix k :: "'u kernel" and c assume k: "semaphores k q = semaphores k0 q \<and> conditions k = conditions k0 \<and> next_thread k = next_thread k0
      \<and> client_semaphore k = client_semaphore k0 \<and> locks k = locks k0 \<and> next_semaphore k = next_semaphore k0
      \<and> currentThread k = currentThread k0"
    have "client_semaphore k0 c \<noteq> q" using assms(2) by auto
    then have "semaphores (V_kernel (client_semaphore k0 c) k) q = semaphores k q"
      by (simp add: V_kernel_def split: option.splits list.splits)
    then show "semaphores (V_kernel (client_semaphore k0 c) k) q = semaphores k0 q
      \<and> conditions (V_kernel (client_semaphore k0 c) k) = conditions k0 \<and> next_thread (V_kernel (client_semaphore k0 c) k) = next_thread k0
      \<and> client_semaphore (V_kernel (client_semaphore k0 c) k) = client_semaphore k0 \<and> locks (V_kernel (client_semaphore k0 c) k) = locks k0
      \<and> next_semaphore (V_kernel (client_semaphore k0 c) k) = next_semaphore k0
      \<and> currentThread (V_kernel (client_semaphore k0 c) k) = currentThread k0"
      using k by simp
  qed simp
  then show "semaphores k q = semaphores k0 q" "conditions k = conditions k0" "next_thread k = next_thread k0"
    "client_semaphore k = client_semaphore k0" "locks k = locks k0" "next_semaphore k = next_semaphore k0"
    "currentThread k = currentThread k0" by simp_all
qed

lemma ticked_account:
  assumes "ticked k1 k'" "lock_account l q k" "kernel_inv k" "steps_to t ts [] k k1" "threads k1 (currentThread k1) \<noteq> None"
    "locks k1 = locks k" "semaphores k1 q = semaphores k q" "conditions k1 = conditions k" "currentThread k1 = currentThread k"
    "client_semaphore k1 = client_semaphore k"
  shows "lock_account l q k'"
proof -
  obtain k2 us where k2: "interrupted k1 k2" "k' = push us k2" "us = [] \<or> (\<exists>st. us = [Yield, Restore_Status st])"
    using assms(1) by (auto simp: ticked_def)
  have "q \<notin> range (client_semaphore k1)" using assms(2,10) by (auto simp: lock_account_def lock_private_def)
  note i = interrupted_lock[OF k2(1) this] conts_interrupted[OF k2(1)]
  have "threads k2 (currentThread k2) \<noteq> None"
    using interrupted_thread[OF k2(1)] assms(5) i(7) by metis
  then have "steps_to t ts us k k'"
    using assms(4,9) i k2(2) unfolding steps_to_def by auto
  then show ?thesis
    by (rule plain_account[OF assms(2,3)]) (use k2(2,3) i assms in auto)
qed


text \<open>A step that only pushes tasks on a kernel with the same continuations, and one after a signal.\<close>

lemma steps_pushed:
  assumes "threads k (currentThread k) = Some th" "continuation th = t # ts" "k' = push us k1" "conts k1 = conts (set_cont ts k)"
    "currentThread k1 = currentThread k" "threads k1 (currentThread k1) \<noteq> None" "next_thread k1 = next_thread k"
    "client_semaphore k1 = client_semaphore k" "next_semaphore k \<le> next_semaphore k1"
  shows "steps_to t ts us k k'"
proof -
  have "conts k (currentThread k) = t # ts" using assms(1,2) by (simp add: conts_def)
  then show ?thesis using assms by (auto simp: steps_to_def)
qed

lemma P_loop_account:
  assumes "at_task (P_loop i l' r) ts th s" "effect (P_loop i l' r) (set_cont ts (kern s)) k'" "lock_account l q (kern s)"
  shows "lock_account l q k'"
proof -
  note b = at_task_basic[OF assms(1)]
  let ?k = "kern s" and ?p = "set_cont ts (kern s)"
  have k: "conts ?k (currentThread ?k) = P_loop i l' r # ts" using b(3,4) by (simp add: conts_def)
  have "list_all (proper l q) (conts ?k (currentThread ?k))" using assms(3) unfolding lock_account_def lock_private_def by blast
  then have r: "i = q \<longleftrightarrow> r = Some l" using k by simp
  obtain sem where sem: "semaphores ?k i = Some sem" using assms(2) by auto
  show ?thesis
  proof (cases "value sem = 0")
    case True
    have k': "k' = block_current (Dispatch False)
         (upd_semaphore i (\<lambda>x. x\<lparr>waiters := waiters sem @ [currentThread ?p]\<rparr>) (push [P_loop i l' r] ?p))"
      using assms(2) sem True by simp
    have "steps_to (P_loop i l' r) ts [Dispatch False, P_loop i l' r] ?k k'"
      using k b(3) unfolding k' steps_to_def by auto
    then show ?thesis
      by (rule plain_account[OF assms(3) b(2)])
        (use r sem k' in auto)
  next
    case False
    let ?us = "Restore_Level l' # (case r of None \<Rightarrow> [] | Some l \<Rightarrow> [Set_Holder l])"
    have k': "k' = push ?us (upd_semaphore i (\<lambda>x. x\<lparr>value := value x - 1\<rparr>) ?p)"
      using assms(2) sem False by simp
    have st: "steps_to (P_loop i l' r) ts ?us ?k k'"
      by (rule steps_pushed[OF b(3,4) k']) (use b(3) in simp_all)
    show ?thesis
    proof (rule steps_account[OF assms(3) b(2) st])
      fix lk x assume "locks ?k l = Some lk" "semaphores ?k q = Some x"
      then show "\<exists>lk' sem'. locks k' l = Some lk' \<and> semaphores k' q = Some sem'
         \<and> value sem' + int (weight l q ?us) + taken lk' \<le> value x + int (weight l q [P_loop i l' r]) + taken lk"
        using r sem by (auto simp: k' split: option.splits)
    qed (use k' in \<open>auto split: option.splits if_splits\<close>)
  qed
qed

lemma Sem_V_account:
  assumes "at_task (Sem_V i) ts th s" "effect (Sem_V i) (set_cont ts (kern s)) k'" "lock_account l q (kern s)"
  shows "lock_account l q k'"
proof -
  note b = at_task_basic[OF assms(1)]
  let ?k = "kern s" and ?p = "set_cont ts (kern s)"
  have k': "k' = push [Restore_Level IntOn] (V_kernel i ?p)" "semaphores ?k i \<noteq> None" using assms(2) by auto
  have "threads (V_kernel i ?p) (currentThread ?p) \<noteq> None"
    using b(3) by (auto simp: V_kernel_def split: option.splits list.splits)
  then have st: "steps_to (Sem_V i) ts [Restore_Level IntOn] ?k k'"
    by (intro steps_pushed[OF b(3,4) k'(1)]) simp_all
  show ?thesis
  proof (rule steps_account[OF assms(3) b(2) st])
    fix lk x assume "locks ?k l = Some lk" "semaphores ?k q = Some x"
    then show "\<exists>lk' sem'. locks k' l = Some lk' \<and> semaphores k' q = Some sem'
       \<and> value sem' + int (weight l q [Restore_Level IntOn]) + taken lk' \<le> value x + int (weight l q [Sem_V i]) + taken lk"
      using k'(2) by (auto simp: k'(1) V_kernel_def split: option.splits list.splits)
  qed (use k' in auto)
qed

lemma holder_account:
  assumes "at_task t ts th s" "effect t (set_cont ts (kern s)) k'" "lock_account l q (kern s)"
    "t = Set_Holder l' \<or> t = Release l'"
  shows "lock_account l q k'"
proof -
  note b = at_task_basic[OF assms(1)]
  let ?k = "kern s" and ?p = "set_cont ts (kern s)"
  obtain lk where lk: "locks ?k l' = Some lk" using assms(2,4) by auto
  have q: "lock_semaphore lk = q \<longleftrightarrow> l' = l" using assms(3) lk unfolding lock_account_def lock_private_def by blast
  define us where "us = (if t = Set_Holder l' then [] else [Sem_V (lock_semaphore lk)])"
  define h where "h = (if t = Set_Holder l' then Some (currentThread ?p) else None)"
  have "push [] x = x" for x :: "'a kernel" by (simp add: push_def upd_thread_def option.map_ident)
  then have k': "k' = push us (hold l' h ?p)" using assms(2,4) lk by (auto simp: us_def h_def)
  have held: "t = Release l' \<Longrightarrow> lockHolder lk = Some (currentThread ?k)"
    using assms(2) lk by (auto simp: held_by_current_def)
  have st: "steps_to t ts us ?k k'"
    by (rule steps_pushed[OF b(3,4) k']) (use b(3) in simp_all)
  show ?thesis
  proof (rule steps_account[OF assms(3) b(2) st])
    fix lk0 x assume a: "locks ?k l = Some lk0" "semaphores ?k q = Some x"
    then show "\<exists>lk' sem'. locks k' l = Some lk' \<and> semaphores k' q = Some sem'
       \<and> value sem' + int (weight l q us) + taken lk' \<le> value x + int (weight l q [t]) + taken lk0"
      using q lk held assms(4) by (cases "l' = l") (auto simp: k' us_def h_def taken_def)
  qed (use k' lk assms(4) in \<open>auto simp: us_def split: if_splits\<close>)
qed


text \<open>What code that leaves the lock alone does to the kernel.\<close>

definition code_alone :: "nat \<Rightarrow> nat \<Rightarrow> 'u kernel \<Rightarrow> 'u kernel \<Rightarrow> bool" where
  "code_alone l q k k' \<longleftrightarrow> (\<exists>k1 us. kernel_frame k k1 \<and> list_all client_task us \<and> k' = push us k1
     \<and> (\<forall>t \<in> set us. \<not> touches q t) \<and> locks k1 l = locks k l \<and> semaphores k1 q = semaphores k q)"

lemma push_Nil [simp]: "push [] k = k"
  by (simp add: push_def upd_thread_def option.map_ident)

lemma lock_step:
  assumes "at_task t ts th s" "effect t (set_cont ts (kern s)) k'" "lock_account l q (kern s)"
    "\<And>c. t = Code c \<Longrightarrow> code_alone l q (set_cont ts (kern s)) k'"
  shows "lock_account l q k'"
proof -
  note b = at_task_basic[OF assms(1)]
  let ?k = "kern s" and ?p = "set_cont ts (kern s)"
  have k: "conts ?k (currentThread ?k) = t # ts" using b(3,4) by (simp add: conts_def)
  have priv: "lock_private l q ?k" using assms(3) by (simp add: lock_account_def)
  then have pr: "proper l q t" "q \<noteq> next_semaphore ?k" "\<And>l' lk. locks ?k l' = Some lk \<Longrightarrow> (lock_semaphore lk = q \<longleftrightarrow> l' = l)"
    "\<And>c ws. conditions ?k c = Some ws \<Longrightarrow> q \<notin> set ws" "q \<notin> range (client_semaphore ?k)"
    using k unfolding lock_private_def by (metis list.pred_inject(2), blast+)
  have cur: "threads ?p (currentThread ?p) \<noteq> None" using b(3) by simp
  note account = steps_account[OF assms(3) b(2)] and plain = plain_account[OF assms(3) b(2)]
  note pushed = steps_pushed[OF b(3,4), where ?k1.0 = ?p and k' = k', simplified]
  show ?thesis
  proof (cases t)
    case (Sem_P i r)
    then have "k' = push [P_loop i IntOn r] ?p" using assms(2) by simp
    then show ?thesis using plain[OF pushed[of "[P_loop i IntOn r]"]] Sem_P pr(1) b(3) by simp
  next
    case (P_loop i l' r)
    then show ?thesis using P_loop_account assms(1-3) by blast
  next
    case (Sem_V i)
    then show ?thesis using Sem_V_account assms(1-3) by blast
  next
    case (Set_Holder l')
    then show ?thesis using holder_account assms(1-3) by blast
  next
    case (Release l')
    then show ?thesis using holder_account assms(1-3) by blast
  next
    case (Acquire l')
    then obtain lk where lk: "locks ?k l' = Some lk" "k' = push [Sem_P (lock_semaphore lk) (Some l')] ?p" using assms(2) by auto
    then show ?thesis using plain[OF pushed[OF lk(2)]] Acquire pr(3)[OF lk(1)] b(3) by simp
  next
    case (Broadcast c l')
    then consider "k' = ?p" | "k' = push [Signal c l', Broadcast c l'] ?p" using assms(2) by auto
    then show ?thesis
    proof cases
      case 1
      then show ?thesis using plain[OF pushed[of "[]"]] Broadcast b(3) by simp
    next
      case 2
      then show ?thesis using plain[OF pushed[OF 2]] Broadcast b(3) by simp
    qed
  next
    case (Restore_Status st)
    then show ?thesis using plain[OF pushed[of "[]"]] assms(2) b(3) by simp
  next
    case Finish
    then have k': "k' = block_current (Dispatch True) ?p" using assms(2) by simp
    have "steps_to Finish ts [Dispatch True] ?k k'" using k Finish cur unfolding k' steps_to_def by simp
    then show ?thesis by (rule plain) (simp_all add: k')
  next
    case (Delete_Semaphore i)
    then have k': "k' = ?p\<lparr>semaphores := (semaphores ?p)(i := None)\<rparr>" using assms(2) by simp
    have "steps_to t ts [] ?k k'" using k cur unfolding k' steps_to_def by simp
    then show ?thesis by (rule plain) (use pr(1) Delete_Semaphore in \<open>simp_all add: k'\<close>)
  next
    case (Fork c)
    let ?n = "next_thread ?k"
    let ?f = "?p\<lparr>threads := (threads ?p)(?n \<mapsto> new_thread c), next_thread := ?n + 1\<rparr>"
    have new: "threads ?k ?n = None" by (rule fork_inv(2)[OF b(2,3)])
    have ne: "currentThread ?k \<noteq> ?n" using new b(3) by auto
    have k': "k' = push [Restore_Level IntOn] (wake ?n ?f)" using assms(2) Fork by simp
    have "conts ?f = (conts ?p)(?n := [Thread_Begin, Code c, Finish])" by (auto simp: conts_def new_thread_def fun_eq_iff)
    then have "steps_to t ts [Restore_Level IntOn] ?k k'"
      using k b(3) new ne unfolding k' steps_to_def by (auto simp: conts_def)
    then show ?thesis by (rule plain) (simp_all add: k')
  next
    case (Wait c l')
    let ?w = "next_semaphore ?k"
    let ?us = "[Release l', Sem_P ?w None, Acquire l', Delete_Semaphore ?w]"
    obtain ws where ws: "conditions ?k c = Some ws" "k' = push ?us (?p\<lparr>semaphores := (semaphores ?p)(?w \<mapsto> \<lparr>value = 0, waiters = []\<rparr>),
            next_semaphore := ?w + 1, conditions := (conditions ?p)(c \<mapsto> ws @ [?w])\<rparr>)"
      using assms(2) Wait by auto
    have "steps_to t ts ?us ?k k'" by (rule steps_pushed[OF b(3,4) ws(2)]) (use b(3) in simp_all)
    then show ?thesis
      by (rule account) (use ws pr(2) in \<open>auto split: if_splits\<close>)
  next
    case (Signal c l')
    then consider "k' = ?p" | w rest where "conditions ?p c = Some (w # rest)"
        "k' = push [Sem_V w] (?p\<lparr>conditions := (conditions ?p)(c \<mapsto> rest)\<rparr>)"
      using effect_Signal[of c l' ?p k'] assms(2) by blast
    then show ?thesis
    proof cases
      case 1
      then show ?thesis using plain[OF pushed[of "[]"]] Signal b(3) by simp
    next
      case 2
      have "q \<noteq> w" using pr(4)[of c "w # rest"] 2(1) by simp
      have "steps_to t ts [Sem_V w] ?k k'" by (rule steps_pushed[OF b(3,4) 2(2)]) (use b(3) in simp_all)
      then show ?thesis
        by (rule account) (use 2 \<open>q \<noteq> w\<close> in \<open>auto split: if_splits\<close>)
    qed
  next
    case Yield
    show ?thesis
    proof (cases "readyList ?k")
      case Nil
      then have "k' = push [Restore_Level IntOn] ?p" using assms(2) Yield by simp
      then show ?thesis using plain[OF pushed] b(3) by simp
    next
      case (Cons n rest)
      let ?q = "wake (currentThread ?p) ((push [Restore_Level IntOn] ?p)\<lparr>readyList := rest\<rparr>)"
      obtain c where k': "k' = switch_to n False c ?q" using assms(2) Yield Cons by auto
      have st: "steps_to t ts [After_Switch, Restore_Level IntOn] ?k k'"
        using k b(3) unfolding k' steps_to_def by simp
      show ?thesis by (rule plain[OF st]) (simp_all add: k')
    qed
  next
    case (Dispatch fin)
    show ?thesis
    proof (cases "readyList ?k")
      case Nil
      have "push [Dispatch fin] ?p = ?k"
        using b(3,4) Dispatch by (simp add: push_set_cont) (simp add: set_cont_def upd_thread_def fun_upd_idem)
      then have i: "interrupted ?k k'" using assms(2) Dispatch Nil by simp
      note same = interrupted_lock[OF i pr(5)] conts_interrupted[OF i]
      have "steps_to t ts [Dispatch fin] ?k k'" using k same Dispatch unfolding steps_to_def by simp
      then show ?thesis by (rule plain) (simp_all add: same)
    next
      case (Cons n rest)
      then obtain c where k': "k' = switch_to n fin c (?p\<lparr>readyList := rest\<rparr>)" using assms(2) Dispatch by auto
      have "steps_to t ts [After_Switch] ?k k'" using k b(3) unfolding k' steps_to_def by simp
      then show ?thesis by (rule plain) (simp_all add: k')
    qed
  next
    case Thread_Begin
    have d: "toBeDestroyed ?k \<noteq> Some (currentThread ?k)" by (rule destroy_inv(2)[OF b(2)])
    have "steps_to t ts [] ?k (destroy ?p)" using k b(3) d by (auto simp: steps_to_def conts_destroy)
    from ticked_account[OF _ assms(3) b(2) this] show ?thesis using assms(2) Thread_Begin b(3) d by simp
  next
    case After_Switch
    have d: "toBeDestroyed ?k \<noteq> Some (currentThread ?k)" by (rule destroy_inv(2)[OF b(2)])
    have "steps_to t ts [] ?k (destroy ?p)" using k b(3) d by (auto simp: steps_to_def conts_destroy)
    then show ?thesis using plain assms(2) After_Switch by simp
  next
    case (Restore_Level l')
    have "steps_to t ts [] ?k ?p" using k cur by (simp add: steps_to_def)
    from ticked_account[OF _ assms(3) b(2) this cur] show ?thesis using assms(2) Restore_Level by simp
  next
    case Tick
    have "steps_to t ts [] ?k ?p" using k cur by (simp add: steps_to_def)
    from ticked_account[OF _ assms(3) b(2) this cur] show ?thesis using assms(2) Tick by simp
  next
    case (Code c)
    obtain k1 us where k1: "kernel_frame ?p k1" "list_all client_task us" "k' = push us k1" "\<forall>x \<in> set us. \<not> touches q x"
      "locks k1 l = locks ?p l" "semaphores k1 q = semaphores ?p q"
      using assms(4)[OF Code] by (auto simp: code_alone_def)
    obtain sp where sp: "threads k1 = (threads ?p)(currentThread ?p \<mapsto> th\<lparr>continuation := ts, space := sp\<rparr>)"
      using k1(1) b(3) by (auto simp: kernel_frame_def)
    have c1: "conts k1 = conts ?p" using sp b(3) by (auto simp: conts_def fun_eq_iff)
    have f: "currentThread k1 = currentThread ?k" "next_thread k1 = next_thread ?k" "client_semaphore k1 = client_semaphore ?k"
      "next_semaphore ?k \<le> next_semaphore k1" using k1(1) by (simp_all add: kernel_frame_def)
    have st: "steps_to t ts us ?k k'" by (rule steps_pushed[OF b(3,4) k1(3) c1 f(1) _ f(2-4)]) (use sp f(1) in simp)
    have us: "x \<noteq> Set_Holder l \<and> x \<noteq> Sem_V q \<and> proper l q x" if "x \<in> set us" for x
      using k1(2,4) that by (cases x) (auto simp: list_all_iff touches_def)
    show ?thesis
    proof (rule account[OF st])
      show "list_all (proper l q) us" using us by (simp add: list_all_iff)
      have "weight l q us = 0" using us unfolding weight_def by (auto simp: filter_empty_conv)
      then show "\<exists>lk' sem'. locks k' l = Some lk' \<and> semaphores k' q = Some sem'
         \<and> value sem' + int (weight l q us) + taken lk' \<le> value x + int (weight l q [t]) + taken lk"
        if "locks ?k l = Some lk" "semaphores ?k q = Some x" for lk x
        using that k1(3,5,6) by simp
      show "(\<exists>lk. locks ?k l' = Some lk \<and> lock_semaphore lk = lock_semaphore lk')
          \<or> l' \<noteq> l \<and> next_semaphore ?k \<le> lock_semaphore lk'" if a: "locks k' l' = Some lk'" for l' lk'
      proof (cases "locks ?k l' = Some lk'")
        case False
        then have "locks ?p l' \<noteq> Some lk'" "locks k1 l' = Some lk'" using a k1(3) by simp_all
        then have "next_semaphore ?k \<le> lock_semaphore lk'" using k1(1) unfolding kernel_frame_def by (metis set_cont_simps(6))
        moreover have "l' \<noteq> l" using False \<open>locks k1 l' = _\<close> k1(5) by auto
        ultimately show ?thesis by blast
      qed blast
      show "(\<exists>ws'. conditions ?k c = Some ws' \<and> x \<in> set ws') \<or> next_semaphore ?k \<le> x"
        if "conditions k' c = Some ws" "x \<in> set ws" for c ws x
        using that k1(1,3) unfolding kernel_frame_def by (metis empty_iff list.set(1) push_simps(9) set_cont_simps(9))
    qed
  qed (use assms(2) in simp)
qed

end
