(* ===== verification/Kernel_Dispatch.thy ===== *)
theory Kernel_Dispatch imports Kernel_Locks begin

text \<open>
  The order in which threads are dispatched, and what a thread keeps while others run.
\<close>

section \<open>First come, first served\<close>

text \<open>The thread a step switches to, if it does.\<close>

definition next_dispatch :: "'u system \<Rightarrow> nat list" where
  "next_dispatch s = (case conts (kern s) (currentThread (kern s)) of
       [] \<Rightarrow> []
     | t # ts \<Rightarrow> if t = Yield \<or> t = Dispatch False \<or> t = Dispatch True then take 1 (readyList (kern s)) else [])"

definition fifo_order :: "nat list \<Rightarrow> 'u kernel \<Rightarrow> 'u kernel \<Rightarrow> bool" where
  "fifo_order ds k k' \<longleftrightarrow> (\<exists>new. readyList k @ new = ds @ readyList k')
     \<and> currentThread k' = (if ds = [] then currentThread k else last ds)"

lemma fifo_same [simp]: "readyList k' = readyList k \<Longrightarrow> currentThread k' = currentThread k \<Longrightarrow> fifo_order [] k k'"
  by (auto simp: fifo_order_def)

lemma fifo_append: "readyList k' = readyList k @ new \<Longrightarrow> currentThread k' = currentThread k \<Longrightarrow> fifo_order [] k k'"
  by (auto simp: fifo_order_def)

lemma fifo_trans:
  assumes "fifo_order ds k1 k2" "fifo_order es k2 k3"
  shows "fifo_order (ds @ es) k1 k3"
proof -
  obtain n1 n2 where n: "readyList k1 @ n1 = ds @ readyList k2" "readyList k2 @ n2 = es @ readyList k3"
    using assms by (auto simp: fifo_order_def)
  then have "readyList k1 @ n1 @ n2 = (ds @ es) @ readyList k3" by (metis append.assoc)
  then show ?thesis using assms by (auto simp: fifo_order_def)
qed

lemma V_kernel_ready: "\<exists>new. readyList (V_kernel i k) = readyList k @ new"
  by (auto simp: V_kernel_def split: option.splits list.splits)

lemma interrupted_ready: "interrupted k0 k \<Longrightarrow> (\<exists>new. readyList k = readyList k0 @ new) \<and> currentThread k = currentThread k0"
  by (erule interrupted_induct) (auto, metis V_kernel_ready append.assoc)

lemma interrupted_next: "interrupted k0 k \<Longrightarrow> next_thread k = next_thread k0"
  by (erule interrupted_induct) simp_all

lemma ticked_next: "ticked k0 k \<Longrightarrow> next_thread k = next_thread k0"
  by (auto simp: ticked_def interrupted_next)

lemma ticked_ready: "ticked k0 k \<Longrightarrow> (\<exists>new. readyList k = readyList k0 @ new) \<and> currentThread k = currentThread k0"
  unfolding ticked_def using interrupted_ready by fastforce

lemma effect_in_order:
  assumes "effect t k k'"
  shows "fifo_order (if t = Yield \<or> t = Dispatch False \<or> t = Dispatch True then take 1 (readyList k) else []) k k'"
proof (cases t)
  case (Sem_V i)
  obtain new where "readyList (V_kernel i k) = readyList k @ new" using V_kernel_ready by blast
  then show ?thesis using assms Sem_V by (simp, intro fifo_append[where new = new]) auto
next
  case (Signal c l)
  then consider "k' = k" | w rest where "k' = push [Sem_V w] (k\<lparr>conditions := (conditions k)(c \<mapsto> rest)\<rparr>)"
    using effect_Signal[of c l k k'] assms by blast
  then show ?thesis by cases (use Signal in auto)
next
  case (Broadcast c l)
  then consider "k' = k" | "k' = push [Signal c l, Broadcast c l] k" using assms by auto
  then show ?thesis by cases (use Broadcast in auto)
next
  case (P_loop i l r)
  then show ?thesis using assms by (auto split: if_splits)
next
  case Yield
  then show ?thesis using assms by (cases "readyList k") (auto simp: fifo_order_def)
next
  case (Dispatch fin)
  show ?thesis
  proof (cases "readyList k")
    case Nil
    then have "interrupted (push [Dispatch fin] k) k'" using assms Dispatch by simp
    from interrupted_ready[OF this] show ?thesis using Nil by (auto simp: fifo_order_def)
  next
    case (Cons n rest)
    then show ?thesis using assms Dispatch by (cases fin) (auto simp: fifo_order_def)
  qed
next
  case (Fork c)
  then show ?thesis using assms by (simp, intro fifo_append[where new = "[next_thread k]"]) auto
next
  case Thread_Begin
  then have "ticked (destroy k) k'" using assms by simp
  from ticked_ready[OF this] show ?thesis using Thread_Begin by (auto simp: fifo_order_def)
next
  case (Restore_Level l)
  then have "ticked k k'" using assms by simp
  from ticked_ready[OF this] show ?thesis using Restore_Level by (auto simp: fifo_order_def)
next
  case Tick
  then have "ticked k k'" using assms by simp
  from ticked_ready[OF this] show ?thesis using Tick by (auto simp: fifo_order_def)
next
  case (Code c)
  then show ?thesis using assms by (auto simp: kernel_frame_def)
qed (use assms in auto)

inductive dispatches :: "'u program \<Rightarrow> 'u system \<Rightarrow> nat list \<Rightarrow> 'u system \<Rightarrow> bool" for prog s0 where
  start: "dispatches prog s0 [] s0"
| step: "dispatches prog s0 ds s \<Longrightarrow> kernel_step prog s = Inr (Running s') \<Longrightarrow> dispatches prog s0 (ds @ next_dispatch s) s'"

lemma step_in_order:
  assumes "sys_ok s" "program_ok prog" "kernel_step prog s = Inr (Running s')"
  shows "fifo_order (next_dispatch s) (kern s) (kern s')" "sys_ok s'"
proof -
  obtain t ts th where a: "at_task t ts th s" "effect t (set_cont ts (kern s)) (kern s')" "sys_ok s'"
    by (rule step_at_task[OF assms])
  have "conts (kern s) (currentThread (kern s)) = t # ts" using at_task_basic(3,4)[OF a(1)] by (simp add: conts_def)
  then show "fifo_order (next_dispatch s) (kern s) (kern s')" "sys_ok s'"
    using effect_in_order[OF a(2)] a(3) by (auto simp: next_dispatch_def fifo_order_def)
qed

lemma dispatches_in_order:
  assumes "dispatches prog s0 ds s" "sys_ok s0" "program_ok prog"
  shows "fifo_order ds (kern s0) (kern s) \<and> sys_ok s"
  using assms(1)
proof induction
  case (step ds s s')
  then show ?case using step_in_order[OF _ assms(3) step(2)] fifo_trans by blast
qed (use assms(2) in simp)


section \<open>What a thread keeps while others run\<close>

text \<open>Another thread's step changes the status of a thread at most, or deletes it.\<close>

definition untouched :: "nat \<Rightarrow> 'u kernel \<Rightarrow> 'u kernel \<Rightarrow> bool" where
  "untouched u k k' \<longleftrightarrow> (case threads k u of
       None \<Rightarrow> threads k' u = None
     | Some th \<Rightarrow> threads k' u = None \<or> (\<exists>st. threads k' u = Some (th\<lparr>thread_status := st\<rparr>)))"

lemma status_same [simp]: "\<exists>st. th = th\<lparr>thread_status := st\<rparr>"
  by (rule exI[of _ "thread_status th"]) (cases th, simp)

lemma untouched_same [simp]: "threads k' u = threads k u \<Longrightarrow> untouched u k k'"
  by (auto simp: untouched_def split: option.splits)

lemma untouched_trans: "untouched u k1 k2 \<Longrightarrow> untouched u k2 k3 \<Longrightarrow> untouched u k1 k3"
  by (auto simp: untouched_def split: option.splits)

lemma untouched_wake [simp]: "untouched u k (wake t k)"
  by (auto simp: untouched_def split: option.splits)

lemma untouched_V: "untouched u k (V_kernel i k)"
proof (cases "semaphores k i")
  case None
  then show ?thesis by (simp add: V_kernel_def)
next
  case (Some sem)
  show ?thesis
  proof (cases "waiters sem")
    case Nil
    then show ?thesis using Some by (simp add: V_kernel_def)
  next
    case (Cons t ts)
    have "untouched u (wake t k) (V_kernel i k)" using Some Cons by (intro untouched_same) (simp add: V_kernel_def)
    then show ?thesis using untouched_trans[OF untouched_wake] by blast
  qed
qed

lemma interrupted_untouched: "interrupted k0 k \<Longrightarrow> untouched u k0 k"
  by (erule interrupted_induct) (simp, metis untouched_V untouched_trans)

lemma ticked_untouched:
  assumes "ticked k k'" "u \<noteq> currentThread k"
  shows "untouched u k k'"
proof -
  obtain k1 us where k1: "interrupted k k1" "k' = push us k1" using assms(1) by (auto simp: ticked_def)
  have "untouched u k1 k'" using assms(2) interrupted_ready[OF k1(1)] k1(2) by simp
  then show ?thesis using untouched_trans[OF interrupted_untouched[OF k1(1)]] by blast
qed

lemma untouched_switch: "u \<noteq> currentThread k \<Longrightarrow> untouched u k (switch_to n fin c k)"
  by (auto simp: untouched_def switch_to_def upd_thread_def split: option.splits)

lemma effect_untouched:
  assumes "effect t k k'" "u \<noteq> currentThread k" "u \<noteq> next_thread k"
  shows "untouched u k k'"
proof (cases t)
  case (Sem_V i)
  then have "k' = push [Restore_Level IntOn] (V_kernel i k)" using assms(1) by simp
  moreover have "untouched u (V_kernel i k) (push [Restore_Level IntOn] (V_kernel i k))" using assms(2) by simp
  ultimately show ?thesis using untouched_trans[OF untouched_V] by blast
next
  case (Signal c l)
  then consider "k' = k" | w rest where "k' = push [Sem_V w] (k\<lparr>conditions := (conditions k)(c \<mapsto> rest)\<rparr>)"
    using effect_Signal[of c l k k'] assms(1) by blast
  then show ?thesis by cases (use assms(2) in auto)
next
  case (Broadcast c l)
  then consider "k' = k" | "k' = push [Signal c l, Broadcast c l] k" using assms(1) by auto
  then show ?thesis by cases (use assms(2) in auto)
next
  case (P_loop i l r)
  then show ?thesis using assms(1,2) by (auto simp: block_current_def upd_thread_def split: if_splits)
next
  case Finish
  then show ?thesis using assms(1,2) by (auto simp: block_current_def upd_thread_def)
next
  case Yield
  show ?thesis
  proof (cases "readyList k")
    case Nil
    then show ?thesis using assms(1,2) Yield by simp
  next
    case (Cons n rest)
    let ?q = "(push [Restore_Level IntOn] k)\<lparr>readyList := rest\<rparr>"
    obtain c where c: "k' = switch_to n False c (wake (currentThread k) ?q)" using assms(1) Yield Cons by auto
    have "untouched u k ?q" using assms(2) by simp
    moreover have "untouched u (wake (currentThread k) ?q) k'" unfolding c by (rule untouched_switch) (use assms(2) in simp)
    ultimately show ?thesis using untouched_trans[OF _ untouched_trans[OF untouched_wake]] by blast
  qed
next
  case (Dispatch fin)
  show ?thesis
  proof (cases "readyList k")
    case Nil
    then have "interrupted (push [Dispatch fin] k) k'" using assms(1) Dispatch by simp
    moreover have "untouched u k (push [Dispatch fin] k)" using assms(2) by simp
    ultimately show ?thesis using untouched_trans interrupted_untouched by blast
  next
    case (Cons n rest)
    then obtain c where c: "k' = switch_to n fin c (k\<lparr>readyList := rest\<rparr>)" using assms(1) Dispatch by auto
    have "untouched u (k\<lparr>readyList := rest\<rparr>) k'" unfolding c by (rule untouched_switch) (use assms(2) in simp)
    moreover have "untouched u k (k\<lparr>readyList := rest\<rparr>)" by simp
    ultimately show ?thesis using untouched_trans by blast
  qed
next
  case (Fork c)
  then have "threads k' u = threads k u" using assms by simp
  then show ?thesis by simp
next
  case Thread_Begin
  then have "ticked (destroy k) k'" using assms(1) by simp
  then have "untouched u (destroy k) k'" by (rule ticked_untouched) (use assms(2) in simp)
  moreover have "untouched u k (destroy k)" by (auto simp: untouched_def split: option.splits)
  ultimately show ?thesis using untouched_trans by blast
next
  case After_Switch
  then show ?thesis using assms(1) by (auto simp: untouched_def split: option.splits)
next
  case (Restore_Level l)
  then show ?thesis using assms(1,2) ticked_untouched by auto
next
  case Tick
  then show ?thesis using assms(1,2) ticked_untouched by auto
next
  case (Code c)
  then show ?thesis using assms(1,2) by (auto simp: kernel_frame_def)
qed (use assms in auto)


lemma effect_next_thread:
  assumes "effect t k k'"
  shows "next_thread k \<le> next_thread k'"
proof (cases t)
  case (Signal c l)
  then consider "k' = k" | w rest where "k' = push [Sem_V w] (k\<lparr>conditions := (conditions k)(c \<mapsto> rest)\<rparr>)"
    using effect_Signal[of c l k k'] assms by blast
  then show ?thesis by cases auto
next
  case Yield
  then show ?thesis using assms by (cases "readyList k") auto
next
  case (Dispatch fin)
  show ?thesis
  proof (cases "readyList k")
    case Nil
    then have "interrupted (push [Dispatch fin] k) k'" using assms Dispatch by simp
    from interrupted_next[OF this] show ?thesis by simp
  qed (use assms Dispatch in auto)
next
  case Thread_Begin
  then show ?thesis using assms ticked_next[of "destroy k" k'] by simp
next
  case (Restore_Level l)
  then show ?thesis using assms ticked_next[of k k'] by simp
next
  case Tick
  then show ?thesis using assms ticked_next[of k k'] by simp
next
  case (P_loop i l r)
  then show ?thesis using assms by (auto split: if_splits)
next
  case (Code c)
  then obtain k1 us where "kernel_frame k k1" "k' = push us k1" using assms by auto
  then show ?thesis by (simp add: kernel_frame_def)
qed (use assms in auto)

text \<open>A switch saves the user registers and the address space of the thread that gives up the processor.\<close>

definition saved_context :: "machine \<Rightarrow> address_space \<Rightarrow> thread \<Rightarrow> bool" where
  "saved_context m sp th \<longleftrightarrow> (\<exists>c. continuation th = After_Switch # c)
     \<and> (\<forall>i<NumTotalRegs. userRegisters th i = registers m i) \<and> space th = Some (share_page_table m sp)"

lemma switch_saves:
  assumes "threads k (currentThread k) = Some th" "space th = Some sp" "n \<noteq> currentThread k"
  shows "\<exists>x. threads (switch_to n fin (Some m) k) (currentThread k) = Some x \<and> saved_context m sp x"
  using assms by (simp add: switch_to_def upd_thread_def saved_def save_user_def SaveUserState_def saved_context_def)

lemma step_saves:
  assumes "at_task t ts th s" "exec prog t (upd_kernel (set_cont ts) s) = Inr (Running s')"
    "effect t (set_cont ts (kern s)) (kern s')"
    "currentThread (kern s') \<noteq> currentThread (kern s)" "space th = Some sp" "cpu s = Some m"
  shows "\<exists>x. threads (kern s') (currentThread (kern s)) = Some x \<and> saved_context m sp x"
proof -
  note b = at_task_basic(3,4)[OF assms(1)]
  let ?p = "set_cont ts (kern s)"
  obtain n rest where ready: "readyList (kern s) = n # rest" and t: "t = Yield \<or> (\<exists>fin. t = Dispatch fin)"
    and n: "currentThread (kern s') = n"
    using effect_in_order[OF assms(3)] assms(4) by (cases "readyList (kern s)") (auto simp: fifo_order_def split: if_splits)
  from t show ?thesis
  proof
    assume Y: "t = Yield"
    let ?s = "upd_kernel (\<lambda>k. k\<lparr>readyList := rest\<rparr>) (upd_kernel (push [Restore_Level (level s)]) (ChangeLevel (level s) IntOff (upd_kernel (set_cont ts) s)))"
    have "bind_result (ReadyToRun (currentThread (kern s)) ?s) (Run n False) = Inr s'"
      using assms(2) Y ready by (auto simp: Thread_Yield_def Let_def FindNextToRun_def outcome_simps)
    then have "Run n False (upd_kernel (wake (currentThread (kern s))) ?s) = Inr s'"
      by (auto simp: outcome_simps dest!: ReadyToRun_kern)
    from Run_kern[OF this] have k': "kern s' = switch_to n False (Some m)
        (wake (currentThread (kern s)) ((push [Restore_Level (level s)] ?p)\<lparr>readyList := rest\<rparr>))" (is "_ = switch_to _ _ _ ?k")
      using assms(6) by simp
    have "\<exists>x. threads (switch_to n False (Some m) ?k) (currentThread ?k) = Some x \<and> saved_context m sp x"
      by (rule switch_saves[where th = "th\<lparr>continuation := Restore_Level (level s) # ts, thread_status := READY\<rparr>"])
        (use b(1) assms(4,5) n in auto)
    then show ?thesis using k' by simp
  next
    assume "\<exists>fin. t = Dispatch fin"
    then obtain fin where D: "t = Dispatch fin" by blast
    have "level s = IntOff" using at_task_basic(5,6)[OF assms(1)] D by (auto simp: on_list_def)
    then have "Run n fin (upd_kernel (\<lambda>k. k\<lparr>readyList := rest\<rparr>) (upd_kernel (set_cont ts) s)) = Inr s'"
      using assms(2) D ready by (auto simp: Sleep_loop_def FindNextToRun_def outcome_simps)
    from Run_kern[OF this] have k': "kern s' = switch_to n fin (Some m) (?p\<lparr>readyList := rest\<rparr>)" (is "_ = switch_to _ _ _ ?k")
      using assms(6) by simp
    have "\<exists>x. threads (switch_to n fin (Some m) ?k) (currentThread ?k) = Some x \<and> saved_context m sp x"
      by (rule switch_saves[where th = "th\<lparr>continuation := ts\<rparr>"]) (use b(1) assms(4,5) n in auto)
    then show ?thesis using k' by simp
  qed
qed

text \<open>Steps of other threads, and the step a thread takes when it is back.\<close>

inductive away :: "'u program \<Rightarrow> nat \<Rightarrow> 'u system \<Rightarrow> 'u system \<Rightarrow> bool" for prog t s0 where
  start: "away prog t s0 s0"
| step: "away prog t s0 s \<Longrightarrow> currentThread (kern s) \<noteq> t \<Longrightarrow> kernel_step prog s = Inr (Running s') \<Longrightarrow> away prog t s0 s'"

lemma away_keeps:
  assumes "away prog t s0 s" "sys_ok s0" "program_ok prog" "threads (kern s0) t = Some th"
  shows "sys_ok s \<and> (threads (kern s) t = None \<or> (\<exists>st. threads (kern s) t = Some (th\<lparr>thread_status := st\<rparr>)))
    \<and> t < next_thread (kern s)"
  using assms(1)
proof induction
  case start
  have "t < next_thread (kern s0)"
    using assms(2) kernel_inv_thread[OF _ assms(4)] by (auto simp: sys_ok_def thread_ok_def)
  then show ?case using assms(2,4) by simp
next
  case (step s s')
  obtain x us y where a: "at_task x us y s" "effect x (set_cont us (kern s)) (kern s')" "sys_ok s'"
    by (rule step_at_task[OF _ assms(3) step(3)]) (use step in auto)
  have "untouched t (set_cont us (kern s)) (kern s')"
    by (rule effect_untouched[OF a(2)]) (use step in auto)
  then have "threads (kern s') t = None \<or> (\<exists>st. threads (kern s') t = Some (th\<lparr>thread_status := st\<rparr>))"
    using step by (auto simp: untouched_def)
  moreover have "next_thread (kern s) \<le> next_thread (kern s')"
    using effect_next_thread[OF a(2)] by simp
  ultimately show ?case using a(3) step by auto
qed

lemma resume_restores:
  assumes "sys_ok s" "program_ok prog" "threads (kern s) (currentThread (kern s)) = Some x" "saved_context m sp x"
    "kernel_step prog s = Inr (Running s')"
  shows "\<exists>m'. cpu s' = Some m' \<and> (\<forall>i<NumTotalRegs. registers m' i = registers m i)
    \<and> pageTable m' = Some (spacePages (share_page_table m sp)) \<and> pageTableSize m' = numPages sp"
proof -
  obtain c where c: "continuation x = After_Switch # c" using assms(4) by (auto simp: saved_context_def)
  have "Resume (upd_kernel (set_cont c) s) = Inr s'"
    using assms(5) by (auto simp: kernel_step_run[OF assms(3) c] outcome_simps)
  moreover have "kernel_inv (kern s)" using assms(1) by (simp add: sys_ok_def)
  from destroy_inv(2)[OF this] have "CheckToBeDestroyed (upd_kernel (set_cont c) s) = Inr (upd_kernel destroy (upd_kernel (set_cont c) s))"
    by (intro CheckToBeDestroyed_run) simp
  ultimately have "restore_current (upd_kernel destroy (upd_kernel (set_cont c) s)) = Inr s'"
    by (auto simp: Resume_def outcome_simps)
  then show ?thesis using assms(3,4) destroy_inv(2)[OF \<open>kernel_inv (kern s)\<close>]
    by (auto simp: restore_current_def outcome_simps saved_context_def RestoreState_def RestoreUserState_def
        share_page_table_def split: option.splits)
qed

end
