(* ===== verification/Kernel_Theorems.thy ===== *)
theory Kernel_Theorems imports Kernel_Dispatch begin

text \<open>
  The properties of the thread system as a whole: they hold in every state that a kernel set up by
  \<open>Kernel_Initialize\<close> reaches, whatever kernel code runs in its threads, provided that code calls the
  routines of threads and synch for what they own.
\<close>

section \<open>Reachable states\<close>

lemma reachable_ok:
  assumes "reachable prog s0 s" "sys_ok s0" "program_ok prog"
  shows "sys_ok s"
  using assms(1)
proof induction
  case (step s s')
  obtain t ts th where "at_task t ts th s" "effect t (set_cont ts (kern s)) (kern s')" "sys_ok s'"
    by (rule step_at_task[OF step(3) assms(3) step(2)])
  then show ?case by simp
qed (rule assms(2))

lemma initial_ok:
  assumes "disk_file_ok d" "outside_ok w" "Kernel_Initialize rs rel d main delivery w = Inr s0"
  shows "sys_ok s0" "fresh (kern s0)" "signals cl (kern s0)"
    "run_state (kern s0) = ([0 \<mapsto> \<lparr>thread_status = RUNNING, continuation = [Restore_Level IntOn, Code main, Shutdown, Finish],
                     userRegisters = (\<lambda>_. 0), space = None\<rparr>,
        Suc 0 \<mapsto> (new_thread delivery)\<lparr>thread_status := READY\<rparr>], Suc (Suc 0), 0, [Suc 0], None, shared (kernel w))"
  using Kernel_Initialize_run[OF assms(1,2), of rs rel main delivery] assms(3) by auto

lemma initial_reachable:
  assumes "disk_file_ok d" "outside_ok w" "program_ok prog"
    "Kernel_Initialize rs rel d main delivery w = Inr s0" "reachable prog s0 s"
  shows "sys_ok s" "kernel_inv (kern s)"
  using reachable_ok[OF assms(5) initial_ok(1)[OF assms(1,2,4)] assms(3)] by (simp_all add: sys_ok_def)

text \<open>Every kernel account that holds at first and that each step keeps holds in all reachable states.\<close>

lemma reachable_account:
  assumes "reachable prog s0 s" "sys_ok s0" "program_ok prog" "P (kern s0)"
    "\<And>t ts th s s'. at_task t ts th s \<Longrightarrow> effect t (set_cont ts (kern s)) (kern s') \<Longrightarrow> sys_ok s' \<Longrightarrow>
       exec prog t (upd_kernel (set_cont ts) s) = Inr (Running s') \<Longrightarrow> P (kern s) \<Longrightarrow> P (kern s')"
  shows "P (kern s)"
  using assms(1)
proof induction
  case (step s s')
  have ok: "sys_ok s" by (rule reachable_ok[OF step(1) assms(2,3)])
  obtain t ts th where a: "at_task t ts th s" "effect t (set_cont ts (kern s)) (kern s')" "sys_ok s'"
    by (rule step_at_task[OF ok assms(3) step(2)])
  moreover have "exec prog t (upd_kernel (set_cont ts) s) = Inr (Running s')"
    using step(2) kernel_step_run[OF at_task_basic(3,4)[OF a(1)]] by simp
  ultimately show ?case using assms(5) step.IH by blast
qed (rule assms(4))

lemma initial_no_lost: "fresh k \<Longrightarrow> no_lost_wakeup k"
  by (auto simp: fresh_def no_lost_wakeup_def)

lemma initial_account:
  assumes "fresh (kern s)" "\<And>cl. signals cl (kern s)" "locks (kern s) l = Some lk"
    "run_state (kern s) = ([0 \<mapsto> \<lparr>thread_status = RUNNING, continuation = [Restore_Level IntOn, Code main, Shutdown, Finish],
                     userRegisters = (\<lambda>_. 0), space = None\<rparr>,
        Suc 0 \<mapsto> (new_thread delivery)\<lparr>thread_status := READY\<rparr>], Suc (Suc 0), 0, [Suc 0], None, u)"
  shows "lock_account l (lock_semaphore lk) (kern s)"
proof -
  let ?k = "kern s" and ?q = "lock_semaphore lk"
  have q: "semaphores ?k ?q = Some \<lparr>value = 1, waiters = []\<rparr>" "lockHolder lk = None" "?q < next_semaphore ?k"
    using assms(1,3) unfolding fresh_def by blast+
  have "?q \<noteq> client_semaphore ?k cl" for cl using assms(2)[of cl] q(1) by (auto simp: signals_def)
  then have cl: "?q \<notin> range (client_semaphore ?k)" by blast
  have same: "lock_semaphore lk' = ?q \<longleftrightarrow> l' = l" if "locks ?k l' = Some lk'" for l' lk'
    using assms(1,3) that unfolding fresh_def by (metis option.inject)
  have c: "conts ?k t = (if t = 0 then [Restore_Level IntOn, Code main, Shutdown, Finish]
      else if t = Suc 0 then [Thread_Begin, Code delivery, Finish] else [])" for t
    using assms(4) by (simp add: run_state_def conts_def new_thread_def)
  have ws: "ws = []" if "conditions ?k c = Some ws" for c ws using assms(1) that unfolding fresh_def by blast
  have "lock_private l ?q ?k"
    using q(3) cl same c ws by (fastforce simp: lock_private_def)
  moreover have "passing l ?q ?k = 0" using c assms(4) by (simp add: passing_def run_state_def weight_def)
  ultimately show ?thesis using q assms(3) by (auto simp: lock_account_def taken_def)
qed

lemma leaves_alone_code:
  assumes "leaves_alone l q prog" "at_task t ts th s" "t = Code c" "program_ok prog"
    "exec prog t (upd_kernel (set_cont ts) s) = Inr (Running s')"
  shows "code_alone l q (set_cont ts (kern s)) (kern s')"
proof -
  let ?s = "upd_kernel (set_cont ts) s"
  obtain s1 us where p: "prog c ?s = Inr (s1, us)" "s' = upd_kernel (push us) s1"
    using assms(3,5) by (auto simp: run_code_def outcome_simps split: prod.splits)
  have on: "level ?s = IntOn" using at_task_on(1)[OF assms(2)] assms(3) by simp
  have "kernel_inv (kern ?s)" using popped_inv[OF assms(2)] assms(3) by simp
  moreover have "base_ok ?s" using at_task_basic(1)[OF assms(2)] by simp
  ultimately have "list_all client_task us" "code_frame ?s s1"
    using assms(4) p(1) on unfolding program_ok_def by blast+
  moreover have "\<forall>t \<in> set us. \<not> touches q t" "locks (kern s1) l = locks (kern ?s) l"
    "semaphores (kern s1) q = semaphores (kern ?s) q"
    using assms(1) p(1) unfolding leaves_alone_def by blast+
  ultimately show ?thesis unfolding code_alone_def
    by (intro exI[of _ "kern s1"] exI[of _ us]) (simp add: p(2) code_frame_def)
qed

lemma reachable_lock_account:
  assumes "reachable prog s0 s" "sys_ok s0" "program_ok prog" "leaves_alone l q prog" "lock_account l q (kern s0)"
  shows "lock_account l q (kern s)"
  by (rule reachable_account[OF assms(1-3), of "lock_account l q"])
    (use assms(3-5) in \<open>blast intro: lock_step leaves_alone_code\<close>)+

section \<open>A small kernel\<close>

text \<open>A kernel whose main program takes the lock of the post office, yields and releases it, on a
  machine without a disk file. It shows that the hypotheses of the properties can hold.\<close>

definition demo :: "unit program" where
  "demo c s = Inr (s, if c = Proc 0 then [Acquire SendLock, Yield, Release SendLock] else [])"

abbreviation demo_kernel :: "unit kernel" where "demo_kernel \<equiv> boot_kernel (Proc 0) ()"

definition demo_hardware :: "unit kernel hardware" where
  "demo_hardware = fresh_hardware demo_kernel"

lemma kernel_frame_refl: "kernel_inv k \<Longrightarrow> kernel_frame k k"
proof -
  assume k: "kernel_inv k"
  obtain th where th: "threads k (currentThread k) = Some th" by (rule kernel_inv_current[OF k])
  then have "threads k = (threads k)(currentThread k \<mapsto> th\<lparr>space := space th\<rparr>)" by (simp add: fun_upd_idem)
  then have "\<exists>sp. threads k = (threads k)(currentThread k \<mapsto> th\<lparr>space := sp\<rparr>)" by blast
  moreover have "\<forall>c. semaphores k (client_semaphore k c) \<noteq> None" using k by (simp add: kernel_inv_def)
  ultimately show ?thesis using th by (simp add: kernel_frame_def)
qed

lemma demo_ok: "program_ok demo"
  by (auto simp: program_ok_def demo_def code_frame_def kernel_frame_refl)

lemma demo_alone: "leaves_alone l q demo"
  by (auto simp: leaves_alone_def demo_def touches_def)

lemma demo_world: "disk_file_ok None" "outside_ok demo_hardware"
  by (simp_all add: disk_file_ok_def outside_ok_def demo_hardware_def fresh_hardware_def)

lemma demo_start:
  obtains s0 s1 where "Kernel_Initialize False 1 None (Proc 0) (Proc 1) demo_hardware = Inr s0"
    "kernel_step demo s0 = Inr (Running s1)" "reachable demo s0 s1" "sys_ok s0" "sys_ok s1"
proof -
  obtain s0 where s0: "Kernel_Initialize False 1 None (Proc 0) (Proc 1) demo_hardware = Inr s0"
    using Kernel_Initialize_run[OF demo_world] by blast
  note ok = initial_ok[OF demo_world s0]
  have th: "threads (kern s0) (currentThread (kern s0)) = Some \<lparr>thread_status = RUNNING,
      continuation = [Restore_Level IntOn, Code (Proc 0), Shutdown, Finish], userRegisters = (\<lambda>_. 0), space = None\<rparr>"
    using ok(4) by (simp add: run_state_def)
  obtain t ts x where a: "at_task t ts x s0" "goes_well (may_fail demo t ts x s0) (kernel_step demo s0)"
    by (rule kernel_step_goes_well[OF ok(1) demo_ok])
  have t: "t = Restore_Level IntOn" using at_task_basic(3,4)[OF a(1)] th by auto
  have k: "kernel_step demo s0 = exec demo t (upd_kernel (set_cont ts) s0)"
    by (rule kernel_step_run[OF at_task_basic(3,4)[OF a(1)]])
  obtain s1 where s1: "kernel_step demo s0 = Inr (Running s1)" "sys_ok s1"
  proof (cases "set_level IntOn (upd_kernel (set_cont ts) s0)")
    case (Inl e)
    then show ?thesis using a(2) k t by (simp add: may_fail_def)
  next
    case (Inr s1)
    then show ?thesis using a(2) k t that by simp
  qed
  show ?thesis by (rule that[OF s0 s1(1) reachable.step[OF reachable.start s1(1)] ok(1) s1(2)])
qed

section \<open>The properties\<close>

text \<open>C2: In every reachable state of the kernel the queues and the thread states agree: the ready
  list has no duplicates and holds exactly the threads that are READY; only the current thread is
  RUNNING; the current thread exists and is not the one waiting to be destroyed; every semaphore has
  a value of at least 0, and its queue holds, once each, threads that exist, are BLOCKED and will go
  on in the loop of its \<open>P\<close>.\<close>

theorem kernel_invariant:
  assumes "disk_file_ok d" "outside_ok w" "program_ok prog"
    "Kernel_Initialize rs rel d main delivery w = Inr s0" "reachable prog s0 s"
  shows "distinct (readyList (kern s))
    \<and> (\<forall>t th. threads (kern s) t = Some th \<longrightarrow>
          (thread_status th = READY \<longleftrightarrow> t \<in> set (readyList (kern s)))
        \<and> (thread_status th = RUNNING \<longrightarrow> t = currentThread (kern s)))
    \<and> threads (kern s) (currentThread (kern s)) \<noteq> None
    \<and> toBeDestroyed (kern s) \<noteq> Some (currentThread (kern s))
    \<and> (\<forall>i sem. semaphores (kern s) i = Some sem \<longrightarrow> 0 \<le> value sem \<and> distinct (waiters sem)
        \<and> (\<forall>t \<in> set (waiters sem). \<exists>th. threads (kern s) t = Some th
             \<and> thread_status th = BLOCKED \<and> waits_for i (continuation th)))"
proof -
  note inv = initial_reachable(2)[OF assms]
  obtain th where th: "threads (kern s) (currentThread (kern s)) = Some th" by (rule kernel_inv_current[OF inv])
  show ?thesis
  proof (intro conjI allI impI)
    show "distinct (readyList (kern s))" using inv by (simp add: kernel_inv_def ready_ok_def)
    show "threads (kern s) (currentThread (kern s)) \<noteq> None" using th by simp
    show "toBeDestroyed (kern s) \<noteq> Some (currentThread (kern s))" using destroy_inv(2)[OF inv] by blast
  next
    fix t th assume "threads (kern s) t = Some th"
    from kernel_inv_thread[OF inv this] show "thread_status th = READY \<longleftrightarrow> t \<in> set (readyList (kern s))"
      and "thread_status th = RUNNING \<Longrightarrow> t = currentThread (kern s)"
      by (simp_all add: thread_ok_def)
  next
    fix i sem assume "semaphores (kern s) i = Some sem"
    from kernel_inv_semaphore[OF inv this] show "0 \<le> value sem" "distinct (waiters sem)"
      "\<forall>t \<in> set (waiters sem). \<exists>th. threads (kern s) t = Some th
         \<and> thread_status th = BLOCKED \<and> waits_for i (continuation th)"
      by (simp_all add: semaphore_ok_def)
  qed
qed

theorem kernel_invariant_witness:
  "\<exists>s0 s. Kernel_Initialize False 1 None (Proc 0) (Proc 1) demo_hardware = Inr s0 \<and> reachable demo s0 s
     \<and> kernel_step demo s0 = Inr (Running s) \<and> distinct (readyList (kern s))"
proof (rule demo_start)
  fix s0 s assume s: "Kernel_Initialize False 1 None (Proc 0) (Proc 1) demo_hardware = Inr s0"
    "kernel_step demo s0 = Inr (Running s)" "reachable demo s0 s"
  then show ?thesis using kernel_invariant[OF demo_world demo_ok s(1,3)] by blast
qed



text \<open>C6: Every step of the detailed kernel, with its interrupt levels, clock and devices, is a
  transition of the abstract kernel \<open>kernel_move\<close>, in which only threads, queues and synchronisation
  objects exist, each task has its textbook effect, and an interrupt is a signal to a semaphore that
  may arrive at any tick.\<close>

theorem kernel_step_refines:
  assumes "disk_file_ok d" "outside_ok w" "program_ok prog"
    "Kernel_Initialize rs rel d main delivery w = Inr s0" "reachable prog s0 s"
    "kernel_step prog s = Inr (Running s')"
  shows "kernel_move (kern s) (kern s')"
  by (rule kernel_step_move[OF initial_reachable(1)[OF assms(1-5)] assms(3,6)])

theorem kernel_step_refines_witness:
  "\<exists>s0 s1. Kernel_Initialize False 1 None (Proc 0) (Proc 1) demo_hardware = Inr s0
     \<and> kernel_step demo s0 = Inr (Running s1) \<and> kernel_move (kern s0) (kern s1)"
proof (rule demo_start)
  fix s0 s assume s: "Kernel_Initialize False 1 None (Proc 0) (Proc 1) demo_hardware = Inr s0"
    "kernel_step demo s0 = Inr (Running s)"
  from kernel_step_refines[OF demo_world demo_ok s(1) reachable.start s(2)] s show ?thesis by blast
qed



text \<open>The holder of a lock changes in \<open>Acquire\<close> and \<open>Release\<close> only.\<close>

lemma effect_locks:
  assumes "effect t k k'" "\<And>c. t \<noteq> Code c"
  shows "locks k' = (case t of Set_Holder l \<Rightarrow> locks (hold l (Some (currentThread k)) k)
     | Release l \<Rightarrow> locks (hold l None k) | _ \<Rightarrow> locks k)"
proof -
  have i: "interrupted a b \<Longrightarrow> locks b = locks a" for a b :: "'a kernel"
    by (erule interrupted_induct) simp_all
  have tk: "ticked a b \<Longrightarrow> locks b = locks a" for a b :: "'a kernel"
    using i by (auto simp: ticked_def)
  show ?thesis
  proof (cases t)
    case (Signal c l)
    then show ?thesis using effect_Signal[of c l k k'] assms(1) by auto
  next
    case (Dispatch fin)
    then show ?thesis using assms(1) i[of "push [Dispatch fin] k" k'] by (cases "readyList k") auto
  next
    case Yield
    then show ?thesis using assms(1) by (cases "readyList k") auto
  next
    case Thread_Begin
    then show ?thesis using assms(1) tk[of "destroy k" k'] by simp
  qed (use assms tk in \<open>auto split: if_splits\<close>)
qed

text \<open>What the account of a lock says of the next step.\<close>

lemma lock_account_step:
  assumes "at_task t ts th s" "effect t (set_cont ts (kern s)) (kern s')" "lock_account l q (kern s)"
    "\<And>c. t = Code c \<Longrightarrow> locks (kern s') l = locks (kern s) l"
  shows "\<exists>lk sem lk'. locks (kern s) l = Some lk \<and> semaphores (kern s) q = Some sem \<and> locks (kern s') l = Some lk'
    \<and> (case lockHolder lk of
          None \<Rightarrow> lockHolder lk' = None \<or> lockHolder lk' = Some (currentThread (kern s))
        | Some u \<Rightarrow> value sem = 0 \<and> (lockHolder lk' = Some u \<or> u = currentThread (kern s) \<and> lockHolder lk' = None))"
proof -
  note b = at_task_basic[OF assms(1)]
  let ?k = "kern s" and ?p = "set_cont ts (kern s)"
  obtain lk sem where lk: "locks ?k l = Some lk" "semaphores ?k q = Some sem" "value sem + int (passing l q ?k) + taken lk \<le> 1"
    using assms(3) unfolding lock_account_def by blast
  have v: "0 \<le> value sem" using kernel_inv_semaphore[OF b(2) lk(2)] by (simp add: semaphore_ok_def)
  have cur: "conts ?k (currentThread ?k) = t # ts" using b(3,4) by (simp add: conts_def)
  have w: "weight l q (conts ?k u) \<le> passing l q ?k" if "u < next_thread ?k" for u
    unfolding passing_def using that member_le_sum[of u "{..<next_thread ?k}" "\<lambda>t. weight l q (conts ?k t)"] by simp
  have set: "t = Set_Holder l \<Longrightarrow> lockHolder lk = None"
    using w[OF inv_next(1)[OF b(2)]] cur lk(3) v by (auto simp: taken_def split: if_splits)
  have val: "lockHolder lk \<noteq> None \<Longrightarrow> value sem = 0" using lk(3) v by (auto simp: taken_def)
  have rel: "t = Release l \<Longrightarrow> lockHolder lk = Some (currentThread ?k)"
    using assms(2) lk(1) by (auto simp: held_by_current_def)
  have new: "locks (kern s') l = (if t = Set_Holder l then Some (lk\<lparr>lockHolder := Some (currentThread ?k)\<rparr>)
      else if t = Release l then Some (lk\<lparr>lockHolder := None\<rparr>) else Some lk)"
  proof (cases "\<exists>c. t = Code c")
    case True
    then show ?thesis using assms(4) lk(1) by auto
  next
    case False
    then have "locks (kern s') = (case t of Set_Holder l \<Rightarrow> locks (hold l (Some (currentThread ?p)) ?p)
     | Release l \<Rightarrow> locks (hold l None ?p) | _ \<Rightarrow> locks ?p)" using effect_locks[OF assms(2)] by blast
    then show ?thesis using lk(1) by (cases t) auto
  qed
  have h: "case lockHolder lk of
          None \<Rightarrow> lockHolder lk' = None \<or> lockHolder lk' = Some (currentThread ?k)
        | Some u \<Rightarrow> value sem = 0 \<and> (lockHolder lk' = Some u \<or> u = currentThread ?k \<and> lockHolder lk' = None)"
    if "locks (kern s') l = Some lk'" for lk'
    using that new set rel val by (cases "lockHolder lk") (auto split: if_splits)
  obtain lk' where "locks (kern s') l = Some lk'" using new by (auto split: if_splits)
  with h lk(1,2) show ?thesis by blast
qed


lemma demo_lock:
  assumes "Kernel_Initialize rs rel d main delivery w = Inr s0"
  obtains lk where "locks (kern s0) SendLock = Some lk"
proof -
  obtain s where "s0 = PostOfficeOutput_new rel s" using assms by (auto simp: Kernel_Initialize_def outcome_simps)
  then have "locks (kern s0) SendLock \<noteq> None"
    by (simp add: PostOfficeOutput_new_def NetworkOutput_new_def with_network_def Lock_new_def Semaphore_new_def Let_def)
  then show ?thesis using that by blast
qed


text \<open>C24: Threads are dispatched first come, first served: over any run of the kernel from a reachable
  state, the threads dispatched, followed by the ready list at the end, are the ready list at the
  beginning followed by the threads made ready since. So the thread at position p of the ready list is
  the one of the p-th dispatch from there, and the last thread dispatched is the current one.\<close>

theorem dispatch_is_fifo:
  assumes "disk_file_ok d" "outside_ok w" "program_ok prog"
    "Kernel_Initialize rs rel d main delivery w = Inr s0" "reachable prog s0 s" "dispatches prog s ds s'"
  shows "(\<exists>new. ds @ readyList (kern s') = readyList (kern s) @ new)
    \<and> (\<forall>p. p < length ds \<and> p < length (readyList (kern s)) \<longrightarrow> ds ! p = readyList (kern s) ! p)
    \<and> currentThread (kern s') = (if ds = [] then currentThread (kern s) else last ds)"
proof -
  have "fifo_order ds (kern s) (kern s')"
    using dispatches_in_order[OF assms(6) initial_reachable(1)[OF assms(1-5)] assms(3)] by simp
  then obtain new where new: "readyList (kern s) @ new = ds @ readyList (kern s')"
    "currentThread (kern s') = (if ds = [] then currentThread (kern s) else last ds)"
    by (auto simp: fifo_order_def)
  have "ds ! p = readyList (kern s) ! p" if "p < length ds" "p < length (readyList (kern s))" for p
    using that arg_cong[OF new(1), of "\<lambda>xs. xs ! p"] by (simp add: nth_append)
  then show ?thesis using new by metis
qed

theorem dispatch_is_fifo_witness:
  "\<exists>s0 s. Kernel_Initialize False 1 None (Proc 0) (Proc 1) demo_hardware = Inr s0
     \<and> kernel_step demo s0 = Inr (Running s) \<and> readyList (kern s0) = [1] \<and> currentThread (kern s) = 0
     \<and> (\<exists>new. readyList (kern s) = 1 # new)"
proof (rule demo_start)
  fix s0 s assume s: "Kernel_Initialize False 1 None (Proc 0) (Proc 1) demo_hardware = Inr s0"
    "kernel_step demo s0 = Inr (Running s)"
  have r: "readyList (kern s0) = [1]" "currentThread (kern s0) = 0" "next_dispatch s0 = []"
    using initial_ok(4)[OF demo_world s(1)] by (auto simp: run_state_def next_dispatch_def conts_def)
  have d: "dispatches demo s0 ([] @ next_dispatch s0) s" by (rule dispatches.step[OF dispatches.start s(2)])
  from dispatch_is_fifo[OF demo_world demo_ok s(1) reachable.start this] s r show ?thesis by auto
qed



text \<open>C23: A context switch preserves the user program: when a thread with an address space is switched
  out, other threads run, and it is dispatched again, its first step reloads the machine with all its
  user registers, and with the page table, as the machine had left it, and its size.\<close>

theorem context_switch_restores:
  assumes "sys_ok s" "program_ok prog" "cpu s = Some m"
    "threads (kern s) t = Some th" "t = currentThread (kern s)" "space th = Some sp"
    "kernel_step prog s = Inr (Running s1)" "currentThread (kern s1) \<noteq> t"
    "away prog t s1 s2" "currentThread (kern s2) = t" "kernel_step prog s2 = Inr (Running s3)"
  shows "\<exists>m'. cpu s3 = Some m' \<and> (\<forall>i<NumTotalRegs. registers m' i = registers m i)
    \<and> pageTable m' = Some (case pageTable m of Some pt \<Rightarrow> pt | None \<Rightarrow> spacePages sp)
    \<and> pageTableSize m' = numPages sp"
proof -
  obtain x ts y where a: "at_task x ts y s" "effect x (set_cont ts (kern s)) (kern s1)" "sys_ok s1"
    by (rule step_at_task[OF assms(1,2,7)])
  have y: "y = th" using at_task_basic(3)[OF a(1)] assms(4,5) by simp
  have "exec prog x (upd_kernel (set_cont ts) s) = Inr (Running s1)"
    using assms(7) kernel_step_run[OF at_task_basic(3,4)[OF a(1)]] by simp
  from step_saves[OF a(1) this a(2)] assms(3,5,6,8) y obtain z where
    z: "threads (kern s1) t = Some z" "saved_context m sp z" by blast
  note k = away_keeps[OF assms(9) a(3) assms(2) z(1)]
  have "threads (kern s2) t \<noteq> None"
    using kernel_inv_current[of "kern s2"] k assms(10) by (auto simp: sys_ok_def)
  then obtain st where c: "threads (kern s2) (currentThread (kern s2)) = Some (z\<lparr>thread_status := st\<rparr>)"
    using k assms(10) by auto
  have "saved_context m sp (z\<lparr>thread_status := st\<rparr>)" using z(2) by (simp add: saved_context_def)
  from resume_restores[OF _ assms(2) c this assms(11)] k show ?thesis
    by (auto simp: share_page_table_def split: option.splits)
qed

text \<open>A state in which the current thread, a user program, is about to yield to a thread that goes on in
  the loop of \<open>P\<close> and blocks.\<close>

definition swap_kernel :: "unit kernel" where
  "swap_kernel =
     \<lparr>threads = [0 \<mapsto> \<lparr>thread_status = RUNNING, continuation = [Yield, Finish], userRegisters = (\<lambda>_. 0),
                       space = Some \<lparr>spacePages = [], numPages = 0\<rparr>\<rparr>,
                1 \<mapsto> \<lparr>thread_status = READY, continuation = [After_Switch, P_loop 0 IntOn None, Finish],
                       userRegisters = (\<lambda>_. 0), space = None\<rparr>],
      next_thread = 2, currentThread = 0, readyList = [1], toBeDestroyed = None,
      semaphores = [0 \<mapsto> \<lparr>value = 0, waiters = []\<rparr>], next_semaphore = 1,
      locks = (\<lambda>_. None), conditions = (\<lambda>_. None), client_semaphore = (\<lambda>_. 0), shared = ()\<rparr>"

definition swap_state :: "unit system" where
  "swap_state = (Interrupt_new (Some ((Machine_new False)\<lparr>registers := (\<lambda>i. if i = 5 then 42 else 0)\<rparr>))
     (fresh_hardware swap_kernel))\<lparr>level := IntOn\<rparr>"

lemma swap_ok: "sys_ok swap_state"
proof -
  have k: "kern swap_state = swap_kernel" by (simp add: swap_state_def Interrupt_new_def fresh_hardware_def)
  have "base_ok swap_state"
    by (simp add: base_ok_def swap_state_def Interrupt_new_def fresh_hardware_def clock_ok_def Statistics_new_def
        cpu_ok_def Machine_new_def hw_ok_def)
  moreover have "kernel_inv swap_kernel"
    by (auto simp: kernel_inv_parts swap_kernel_def on_list_def)
  moreover have "level_ok swap_state"
    by (simp add: level_ok_def k) (simp add: swap_kernel_def swap_state_def Interrupt_new_def on_list_def)
  ultimately show ?thesis by (simp add: sys_ok_def k)
qed

lemmas step_defs = kernel_step_def pop_def Thread_Yield_def Let_def FindNextToRun_def ReadyToRun_def Run_def save_current_def
  save_user_def Resume_def CheckToBeDestroyed_def restore_current_def Semaphore_P_loop_def Thread_Sleep_def Sleep_loop_def append_new_def
  push_def upd_thread_def upd_semaphore_def ChangeLevel_def

lemma swap_run:
  "\<exists>s1 s2 s3 s4 s5. kernel_step demo swap_state = Inr (Running s1) \<and> kernel_step demo s1 = Inr (Running s2)
     \<and> kernel_step demo s2 = Inr (Running s3) \<and> kernel_step demo s3 = Inr (Running s4) \<and> kernel_step demo s4 = Inr (Running s5)
     \<and> currentThread (kern s1) = 1 \<and> currentThread (kern s2) = 1 \<and> currentThread (kern s3) = 1 \<and> currentThread (kern s4) = 0"
  by (simp add: step_defs swap_state_def Interrupt_new_def fresh_hardware_def swap_kernel_def upd_kernel_def set_kernel_def
      SaveUserState_def)

theorem context_switch_restores_witness:
  "\<exists>s1 s4 s5 m. kernel_step demo swap_state = Inr (Running s1) \<and> currentThread (kern s1) = 1
     \<and> away demo 0 s1 s4 \<and> kernel_step demo s4 = Inr (Running s5) \<and> cpu s5 = Some m \<and> registers m 5 = 42"
proof -
  obtain s1 s2 s3 s4 s5 where r: "kernel_step demo swap_state = Inr (Running s1)" "kernel_step demo s1 = Inr (Running s2)"
    "kernel_step demo s2 = Inr (Running s3)" "kernel_step demo s3 = Inr (Running s4)" "kernel_step demo s4 = Inr (Running s5)"
    "currentThread (kern s1) = 1" "currentThread (kern s2) = 1" "currentThread (kern s3) = 1" "currentThread (kern s4) = 0"
    using swap_run by blast
  have a: "away demo 0 s1 s2" by (rule away.step[OF away.start _ r(2)]) (simp add: r)
  have a: "away demo 0 s1 s3" by (rule away.step[OF a _ r(3)]) (simp add: r)
  have a: "away demo 0 s1 s4" by (rule away.step[OF a _ r(4)]) (simp add: r)
  have c: "cpu swap_state = Some ((Machine_new False)\<lparr>registers := (\<lambda>i. if i = 5 then 42 else 0)\<rparr>)"
    by (simp add: swap_state_def Interrupt_new_def)
  have th: "\<exists>th. threads (kern swap_state) 0 = Some th \<and> 0 = currentThread (kern swap_state)
      \<and> space th = Some \<lparr>spacePages = [], numPages = 0\<rparr>"
    by (simp add: swap_state_def Interrupt_new_def fresh_hardware_def swap_kernel_def)
  then obtain th where th: "threads (kern swap_state) 0 = Some th" "0 = currentThread (kern swap_state)"
    "space th = Some \<lparr>spacePages = [], numPages = 0\<rparr>" by blast
  have "currentThread (kern s1) \<noteq> 0" using r(6) by simp
  from context_switch_restores[OF swap_ok demo_ok c th r(1) this a r(9,5)] r a show ?thesis
    by force
qed

end
