(* ===== verification/Host_Files.thy ===== *)
theory Host_Files imports Prelude begin

text \<open>
  The stub file system of filesys/filesys.h and filesys/openfile.h (the build defines
  \<open>FILESYS_STUB\<close>), which turns file operations into those of the host through lib/sysdep.cc: a host
  with files named by paths, open files at descriptors with a position each, and the POSIX calls the
  wrappers use. The assertions of the wrappers are commented out in the source, so a call that fails
  leaves the host as it was.
\<close>

type_synonym path = "u8 list"

text \<open>A file is a node with its bytes; a path names a node, an open descriptor has a node and a position.\<close>

record host =
  nodes :: "nat \<Rightarrow> u8 list"
  next_node :: nat
  names :: "path \<Rightarrow> nat option"
  descriptors :: "nat \<Rightarrow> (nat \<times> nat) option"
  fd_limit :: nat

section \<open>The host, by lib/sysdep.cc\<close>

text \<open>The kernel of the host gives out the lowest free descriptor.\<close>

definition new_descriptor :: "nat \<Rightarrow> host \<Rightarrow> int \<times> host" where
  "new_descriptor node h =
     (case first_below (\<lambda>fd. descriptors h fd = None) (fd_limit h) of
        None \<Rightarrow> (- 1, h)
      | Some fd \<Rightarrow> (int fd, h\<lparr>descriptors := (descriptors h)(fd \<mapsto> (node, 0))\<rparr>))"

definition OpenForReadWrite :: "path \<Rightarrow> host \<Rightarrow> int \<times> host" where
  "OpenForReadWrite name h =
     (case names h name of None \<Rightarrow> (- 1, h) | Some node \<Rightarrow> new_descriptor node h)"

text \<open>\<open>O_CREAT | O_TRUNC\<close>: the file is created or emptied. The empty path names nothing.\<close>

definition OpenForWrite :: "path \<Rightarrow> host \<Rightarrow> int \<times> host" where
  "OpenForWrite name h =
     (if name = [] \<or> first_below (\<lambda>fd. descriptors h fd = None) (fd_limit h) = None then (- 1, h)
      else case names h name of
        Some node \<Rightarrow> new_descriptor node (h\<lparr>nodes := (nodes h)(node := [])\<rparr>)
      | None \<Rightarrow> new_descriptor (next_node h)
          (h\<lparr>nodes := (nodes h)(next_node h := []), names := (names h)(name \<mapsto> next_node h),
             next_node := next_node h + 1\<rparr>))"

definition Close :: "int \<Rightarrow> host \<Rightarrow> host" where
  "Close fd h = (if fd < 0 then h else h\<lparr>descriptors := (descriptors h)(nat fd := None)\<rparr>)"

text \<open>\<open>Lseek\<close> from the beginning, and to the end of the file; \<open>Tell\<close>.\<close>

definition Lseek_set :: "int \<Rightarrow> int \<Rightarrow> host \<Rightarrow> host" where
  "Lseek_set fd offset h =
     (case descriptors h (nat fd) of
        Some (node, pos) \<Rightarrow> if fd < 0 \<or> offset < 0 then h else h\<lparr>descriptors := (descriptors h)(nat fd \<mapsto> (node, nat offset))\<rparr>
      | None \<Rightarrow> h)"

definition Lseek_end :: "int \<Rightarrow> host \<Rightarrow> host" where
  "Lseek_end fd h =
     (case descriptors h (nat fd) of
        Some (node, pos) \<Rightarrow> if fd < 0 then h else h\<lparr>descriptors := (descriptors h)(nat fd \<mapsto> (node, length (nodes h node)))\<rparr>
      | None \<Rightarrow> h)"

definition Tell :: "int \<Rightarrow> host \<Rightarrow> int" where
  "Tell fd h = (if fd < 0 then - 1 else case descriptors h (nat fd) of Some (node, pos) \<Rightarrow> int pos | None \<Rightarrow> - 1)"

definition ReadPartial :: "int \<Rightarrow> int \<Rightarrow> host \<Rightarrow> (int \<times> u8 list) \<times> host" where
  "ReadPartial fd n h =
     (case descriptors h (nat fd) of
        Some (node, pos) \<Rightarrow>
          if fd < 0 \<or> n < 0 then ((- 1, []), h)
          else let bytes = take (nat n) (drop pos (nodes h node))
            in ((int (length bytes), bytes), h\<lparr>descriptors := (descriptors h)(nat fd \<mapsto> (node, pos + length bytes))\<rparr>)
      | None \<Rightarrow> ((- 1, []), h))"

text \<open>A write past the end fills the gap with zeros.\<close>

definition overwrite :: "nat \<Rightarrow> u8 list \<Rightarrow> u8 list \<Rightarrow> u8 list" where
  "overwrite pos bytes file =
     (if bytes = [] then file
      else take pos (file @ replicate (pos - length file) 0) @ bytes @ drop (pos + length bytes) file)"

definition WriteFile :: "int \<Rightarrow> u8 list \<Rightarrow> host \<Rightarrow> host" where
  "WriteFile fd bytes h =
     (case descriptors h (nat fd) of
        Some (node, pos) \<Rightarrow>
          if fd < 0 then h
          else h\<lparr>nodes := (nodes h)(node := overwrite pos bytes (nodes h node)),
                 descriptors := (descriptors h)(nat fd \<mapsto> (node, pos + length bytes))\<rparr>
      | None \<Rightarrow> h)"

text \<open>\<open>unlink\<close> removes the name; open descriptors keep the node. It returns 0, or -1.\<close>

definition unlink :: "path \<Rightarrow> host \<Rightarrow> int \<times> host" where
  "unlink name h = (case names h name of None \<Rightarrow> (- 1, h) | Some _ \<Rightarrow> (0, h\<lparr>names := (names h)(name := None)\<rparr>))"

definition Unlink :: "path \<Rightarrow> host \<Rightarrow> bool \<times> host" where
  "Unlink name h = (let (r, h) = unlink name h in (r \<noteq> 0, h))"

section \<open>The stub OpenFile and FileSystem\<close>

record open_file =
  file_id :: int
  currentOffset :: int

definition OpenFile_ReadAt :: "open_file \<Rightarrow> int \<Rightarrow> int \<Rightarrow> host \<Rightarrow> (int \<times> u8 list) \<times> host" where
  "OpenFile_ReadAt f numBytes position h = ReadPartial (file_id f) numBytes (Lseek_set (file_id f) position h)"

definition OpenFile_WriteAt :: "open_file \<Rightarrow> u8 list \<Rightarrow> int \<Rightarrow> host \<Rightarrow> int \<times> host" where
  "OpenFile_WriteAt f bytes position h =
     (int (length bytes), WriteFile (file_id f) bytes (Lseek_set (file_id f) position h))"

definition OpenFile_Read :: "open_file \<Rightarrow> int \<Rightarrow> host \<Rightarrow> (int \<times> u8 list) \<times> open_file \<times> host" where
  "OpenFile_Read f numBytes h =
     (let ((n, bytes), h) = OpenFile_ReadAt f numBytes (currentOffset f) h
      in ((n, bytes), f\<lparr>currentOffset := currentOffset f + n\<rparr>, h))"

definition OpenFile_Write :: "open_file \<Rightarrow> u8 list \<Rightarrow> host \<Rightarrow> int \<times> open_file \<times> host" where
  "OpenFile_Write f bytes h =
     (let (n, h) = OpenFile_WriteAt f bytes (currentOffset f) h
      in (n, f\<lparr>currentOffset := currentOffset f + n\<rparr>, h))"

text \<open>\<open>Length\<close> is one less than the size of the file.\<close>

definition OpenFile_Length :: "open_file \<Rightarrow> host \<Rightarrow> int \<times> host" where
  "OpenFile_Length f h = (let h = Lseek_end (file_id f) h in (Tell (file_id f) h - 1, h))"

definition OpenFile_Seek :: "int \<Rightarrow> open_file \<Rightarrow> int \<times> open_file" where
  "OpenFile_Seek pos f = (pos, f\<lparr>currentOffset := pos\<rparr>)"

definition FileSystem_Create :: "path \<Rightarrow> host \<Rightarrow> bool \<times> host" where
  "FileSystem_Create name h =
     (let (fd, h) = OpenForWrite name h in if fd = - 1 then (False, h) else (True, Close fd h))"

definition FileSystem_Open :: "path \<Rightarrow> host \<Rightarrow> open_file option \<times> host" where
  "FileSystem_Open name h =
     (let (fd, h) = OpenForReadWrite name h
      in if fd = - 1 then (None, h) else (Some \<lparr>file_id = fd, currentOffset = 0\<rparr>, h))"

definition FileSystem_Remove :: "path \<Rightarrow> host \<Rightarrow> bool \<times> host" where
  "FileSystem_Remove name h = (let (r, h) = Unlink name h in (\<not> r, h))"

section \<open>What the calls do\<close>

definition file_of :: "open_file \<Rightarrow> host \<Rightarrow> u8 list option" where
  "file_of f h = (if file_id f < 0 then None else map_option (\<lambda>(node, pos). nodes h node) (descriptors h (nat (file_id f))))"

lemma length_overwrite [simp]:
  "bytes \<noteq> [] \<Longrightarrow> length (overwrite pos bytes file) = max (length file) (pos + length bytes)"
  by (auto simp: overwrite_def max_def)

lemma overwrite_end: "overwrite (length file) bytes file = file @ bytes"
  by (simp add: overwrite_def)

lemma read_overwritten: "take (length bytes) (drop pos (overwrite pos bytes file)) = bytes"
  by (auto simp: overwrite_def)

lemma overwrite_elsewhere:
  "i < length file \<Longrightarrow> i < pos \<or> pos + length bytes \<le> i \<Longrightarrow> overwrite pos bytes file ! i = file ! i"
  by (auto simp: overwrite_def nth_append min_def)

lemma ReadAt_run:
  assumes "file_of f h = Some file" "0 \<le> n" "0 \<le> position"
  obtains h' where "OpenFile_ReadAt f n position h =
      ((int (length (take (nat n) (drop (nat position) file))), take (nat n) (drop (nat position) file)), h')"
    "file_of f h' = Some file" "nodes h' = nodes h" "names h' = names h"
  using assms that by (auto simp: OpenFile_ReadAt_def ReadPartial_def Lseek_set_def file_of_def Let_def split: if_splits option.splits)

lemma WriteAt_run:
  assumes "file_of f h = Some file" "0 \<le> position"
  obtains h' where "OpenFile_WriteAt f bytes position h = (int (length bytes), h')"
    "file_of f h' = Some (overwrite (nat position) bytes file)" "names h' = names h"
  using assms that by (auto simp: OpenFile_WriteAt_def WriteFile_def Lseek_set_def file_of_def split: if_splits option.splits)

lemma Length_run:
  assumes "file_of f h = Some file"
  obtains h' where "OpenFile_Length f h = (int (length file) - 1, h')" "file_of f h' = Some file" "nodes h' = nodes h" "names h' = names h"
  using assms that by (auto simp: OpenFile_Length_def Lseek_end_def Tell_def file_of_def Let_def split: if_splits option.splits)

end
