(* ===== verification/Addr_Space.thy ===== *)
theory Addr_Space imports Bitmap Threads Host_Files begin

text \<open>
  userprog/addrspace.cc and userprog/noff.h: the address spaces of user programs. \<open>Load\<close> takes page
  frames from the bitmap of the kernel, maps the pages of the program to them and copies its segments
  from the executable into the simulated memory. The whole of \<open>Load\<close> between \<open>P\<close> and \<open>V\<close> of
  \<open>addrLock\<close> is one function on the frame map, the memory and the host file.
\<close>

section \<open>Executables\<close>

record Segment =
  virtualAddr :: u32
  inFileAddr :: u32
  seg_size :: u32

record NoffHeader =
  noffMagic :: u32
  code_seg :: Segment
  initData :: Segment
  readonlyData :: Segment
  uninitData :: Segment

definition NOFFMAGIC :: u32 where "NOFFMAGIC = 0xbadfad"
definition UserStackSize :: u32 where "UserStackSize = 1024"
definition sizeof_NoffHeader :: nat where "sizeof_NoffHeader = 52"

text \<open>The header is read as the bytes of the struct; a file that is too short leaves fields uninitialised.\<close>

definition int_at :: "u8 list \<Rightarrow> nat \<Rightarrow> u32" where
  "int_at bs p = le_word32 (bs ! p) (bs ! (p + 1)) (bs ! (p + 2)) (bs ! (p + 3))"

definition Segment_at :: "u8 list \<Rightarrow> nat \<Rightarrow> Segment" where
  "Segment_at bs p = \<lparr>virtualAddr = int_at bs p, inFileAddr = int_at bs (p + 4), seg_size = int_at bs (p + 8)\<rparr>"

definition NoffHeader_at :: "u8 list \<Rightarrow> NoffHeader result" where
  "NoffHeader_at bs =
     check (sizeof_NoffHeader \<le> length bs) Uninitialised
       (Inr \<lparr>noffMagic = int_at bs 0, code_seg = Segment_at bs 4, initData = Segment_at bs 16,
             readonlyData = Segment_at bs 28, uninitData = Segment_at bs 40\<rparr>)"

text \<open>\<open>WordToHost\<close> of machine/translate.cc does nothing on a little-endian host.\<close>

definition WordToHost :: "u32 \<Rightarrow> u32" where
  "WordToHost w = w"

definition swap_Segment :: "Segment \<Rightarrow> Segment" where
  "swap_Segment s = \<lparr>virtualAddr = WordToHost (virtualAddr s), inFileAddr = WordToHost (inFileAddr s),
                     seg_size = WordToHost (seg_size s)\<rparr>"

definition SwapHeader :: "NoffHeader \<Rightarrow> NoffHeader" where
  "SwapHeader h = \<lparr>noffMagic = WordToHost (noffMagic h), code_seg = swap_Segment (code_seg h),
     initData = swap_Segment (initData h), readonlyData = swap_Segment (readonlyData h),
     uninitData = swap_Segment (uninitData h)\<rparr>"

section \<open>Frames and memory\<close>

type_synonym memory = "nat \<Rightarrow> u8"

definition AddrSpace_new :: address_space where
  "AddrSpace_new = \<lparr>spacePages = [], numPages = 0\<rparr>"

text \<open>The bytes that go to \<open>mainMemory[p]\<close> and on; the array has \<open>MemorySize\<close> elements.\<close>

definition put_bytes :: "int \<Rightarrow> u8 list \<Rightarrow> memory \<Rightarrow> memory result" where
  "put_bytes p bytes mem =
     check (bytes = [] \<or> 0 \<le> p \<and> p + int (length bytes) \<le> int MemorySize) OutOfBounds
       (Inr (\<lambda>a. if p \<le> int a \<and> int a < p + int (length bytes) then bytes ! nat (int a - p) else mem a))"

text \<open>The loop that builds the page table: each page gets a frame, which is cleared.\<close>

definition new_entry :: "nat \<Rightarrow> int \<Rightarrow> TranslationEntry" where
  "new_entry page frame =
     \<lparr>virtualPage = of_nat page, physicalPage = of_int frame, valid = True, readOnly = False,
      use_bit = False, dirty = False\<rparr>"

fun map_pages :: "nat \<Rightarrow> nat \<Rightarrow> bitmap \<Rightarrow> memory \<Rightarrow> (TranslationEntry list \<times> bitmap \<times> memory) result" where
  "map_pages i 0 b mem = Inr ([], b, mem)"
| "map_pages i (Suc k) b mem =
     bind_result (Bitmap_FindAndSet b) (\<lambda>(frame, b).
     bind_result (put_bytes (frame * int PageSize) (replicate PageSize 0) mem) (\<lambda>mem.
     bind_result (map_pages (Suc i) k b mem) (\<lambda>(pt, b, mem). Inr (new_entry i frame # pt, b, mem))))"

text \<open>The loops that copy a segment: for every page of the space one page of the file, to the address
  of the segment plus the start of the frame of that page.\<close>

fun copy_pages :: "Segment \<Rightarrow> open_file \<Rightarrow> nat \<Rightarrow> TranslationEntry list \<Rightarrow> memory \<Rightarrow> host \<Rightarrow> (memory \<times> host) result" where
  "copy_pages seg f i [] mem h = Inr (mem, h)"
| "copy_pages seg f i (e # pt) mem h =
     (let ((n, bytes), h) = OpenFile_ReadAt f (int PageSize) (sint (inFileAddr seg + of_nat i * of_nat PageSize)) h
      in bind_result (put_bytes (sint (virtualAddr seg) + sint (physicalPage e) * int PageSize) bytes mem) (\<lambda>mem.
         copy_pages seg f (Suc i) pt mem h))"

definition copy_segment :: "Segment \<Rightarrow> open_file \<Rightarrow> TranslationEntry list \<Rightarrow> memory \<Rightarrow> host \<Rightarrow> (memory \<times> host) result" where
  "copy_segment seg f pt mem h = (if sint (seg_size seg) > 0 then copy_pages seg f 0 pt mem h else Inr (mem, h))"

section \<open>Loading\<close>

text \<open>\<open>Load\<close> up to \<open>addrLock->P()\<close>: the header, or \<open>None\<close> when there is no such file.\<close>

definition Load_header :: "path \<Rightarrow> host \<Rightarrow> ((open_file \<times> NoffHeader) option \<times> host) result" where
  "Load_header fileName h =
     (case FileSystem_Open fileName h of
        (None, h) \<Rightarrow> Inr (None, h)
      | (Some f, h) \<Rightarrow>
          let ((n, bytes), h) = OpenFile_ReadAt f (int sizeof_NoffHeader) 0 h
          in bind_result (NoffHeader_at bytes) (\<lambda>noffH.
             let noffH = (if noffMagic noffH \<noteq> NOFFMAGIC \<and> WordToHost (noffMagic noffH) = NOFFMAGIC
                          then SwapHeader noffH else noffH)
             in c_assert (noffMagic noffH = NOFFMAGIC) (Inr (Some (f, noffH), h))))"

definition space_pages :: "NoffHeader \<Rightarrow> u32" where
  "space_pages noffH =
     (let size = seg_size (code_seg noffH) + seg_size (initData noffH) + seg_size (uninitData noffH) + UserStackSize
      in size div of_nat PageSize + (if size mod of_nat PageSize > 0 then 1 else 0))"

text \<open>\<open>Load\<close> from there to \<open>addrLock->V()\<close>, which the last two results report with the answer.\<close>

definition Load_pages ::
  "open_file \<Rightarrow> NoffHeader \<Rightarrow> bitmap \<Rightarrow> memory \<Rightarrow> host \<Rightarrow> (bool \<times> address_space \<times> bitmap \<times> memory \<times> host) result" where
  "Load_pages f noffH b mem h =
     (let pages = space_pages noffH in
      c_assert (unat pages \<le> NumPhysPages)
       (bind_result (Bitmap_NumClear b) (\<lambda>clear.
          if int (unat pages) > clear then Inr (False, AddrSpace_new, b, mem, Close (file_id f) h)
          else bind_result (map_pages 0 (unat pages) b mem) (\<lambda>(pt, b, mem).
               bind_result (copy_segment (code_seg noffH) f pt mem h) (\<lambda>(mem, h).
               bind_result (copy_segment (initData noffH) f pt mem h) (\<lambda>(mem, h).
               Inr (True, \<lparr>spacePages = pt, numPages = pages\<rparr>, b, mem, Close (file_id f) h)))))))"

text \<open>\<open>~AddrSpace\<close> gives the frames back.\<close>

fun free_pages :: "TranslationEntry list \<Rightarrow> bitmap \<Rightarrow> bitmap result" where
  "free_pages [] b = Inr b"
| "free_pages (e # pt) b = bind_result (Bitmap_Clear b (sint (physicalPage e))) (free_pages pt)"

definition AddrSpace_delete :: "address_space \<Rightarrow> bitmap \<Rightarrow> bitmap result" where
  "AddrSpace_delete sp b =
     check (unat (numPages sp) \<le> length (spacePages sp)) NullPointer
       (free_pages (take (unat (numPages sp)) (spacePages sp)) b)"

section \<open>Running\<close>

text \<open>\<open>InitRegisters\<close>; the registers are numbered from 0.\<close>

fun clear_registers :: "nat \<Rightarrow> nat \<Rightarrow> machine \<Rightarrow> machine result" where
  "clear_registers i 0 m = Inr m"
| "clear_registers i (Suc k) m = bind_result (WriteRegister (int i) 0 m) (clear_registers (Suc i) k)"

definition InitRegisters :: "address_space \<Rightarrow> machine \<Rightarrow> machine result" where
  "InitRegisters sp m =
     bind_result (clear_registers 0 NumTotalRegs m) (\<lambda>m.
     bind_result (WriteRegister (int PCReg) 0 m) (\<lambda>m.
     bind_result (WriteRegister (int NextPCReg) 4 m) (\<lambda>m.
     WriteRegister (int StackReg) (numPages sp * of_nat PageSize - 16) m)))"

text \<open>\<open>Execute\<close> up to \<open>Machine::Run\<close>.\<close>

definition Execute :: "address_space \<Rightarrow> machine \<Rightarrow> machine result" where
  "Execute sp m = bind_result (InitRegisters sp m) (\<lambda>m. Inr (RestoreState sp m))"

text \<open>\<open>AddrSpace::Translate\<close>: the exception, or the physical address and the space with the use and
  dirty bits set. The frame number is compared as a signed integer.\<close>

definition AddrSpace_Translate :: "u32 \<Rightarrow> bool \<Rightarrow> address_space \<Rightarrow> (ExceptionType + (nat \<times> address_space)) result" where
  "AddrSpace_Translate vaddr isReadWrite sp =
     (let vpn = unat vaddr div PageSize; offset = unat vaddr mod PageSize in
      if vpn \<ge> unat (numPages sp) then Inr (Inl AddressErrorException)
      else bind_result (arr_get (spacePages sp) vpn) (\<lambda>e.
        if isReadWrite \<and> readOnly e then Inr (Inl ReadOnlyException)
        else if sint (physicalPage e) \<ge> int NumPhysPages then Inr (Inl BusErrorException)
        else let paddr = unat (physicalPage e * of_nat PageSize + of_nat offset :: u32)
          in c_assert (paddr < MemorySize)
               (Inr (Inr (paddr, sp\<lparr>spacePages := (spacePages sp)[vpn := touch isReadWrite e]\<rparr>)))))"


section \<open>What loading does\<close>

abbreviation in_frame :: "nat \<Rightarrow> nat \<Rightarrow> nat" where
  "in_frame frame off \<equiv> frame * PageSize + off"

lemma in_frame_div [simp]: "off < PageSize \<Longrightarrow> in_frame frame off div PageSize = frame"
  by (simp add: PageSize_def)

lemma small_word: "n < 128 \<Longrightarrow> sint (of_nat n :: u32) = int n" "n < 128 \<Longrightarrow> unat (of_nat n :: u32) = n"
  "n < 128 \<Longrightarrow> sint (of_int (int n) :: u32) = int n" "n < 128 \<Longrightarrow> unat (of_int (int n) :: u32) = n"
  by (simp_all add: sint_uint signed_take_bit_int_eq_self unsigned_of_nat take_bit_nat_eq_self)

lemma frame_range:
  fixes a :: nat
  assumes "n \<le> PageSize"
  shows "int frame * int PageSize \<le> int a \<and> int a < int frame * int PageSize + int n
      \<longleftrightarrow> a div PageSize = frame \<and> a mod PageSize < n"
proof -
  have "frame * PageSize \<le> a \<and> a < frame * PageSize + n \<longleftrightarrow> a div PageSize = frame \<and> a mod PageSize < n"
  proof
    assume l: "frame * PageSize \<le> a \<and> a < frame * PageSize + n"
    then have "a div PageSize = frame" using assms by (intro div_nat_eqI) (simp_all add: PageSize_def)
    then show "a div PageSize = frame \<and> a mod PageSize < n" using l div_mult_mod_eq[of a PageSize] by auto
  next
    assume "a div PageSize = frame \<and> a mod PageSize < n"
    then show "frame * PageSize \<le> a \<and> a < frame * PageSize + n" using div_mult_mod_eq[of a PageSize] by auto
  qed
  then show ?thesis by (simp flip: of_nat_mult of_nat_add)
qed

lemma sint_small:
  fixes w :: u32
  assumes "unat w < 2147483648"
  shows "sint w = int (unat w)"
proof -
  have "uint w < 2147483648" using assms uint_ge_0[of w] by (simp only: unat_eq_nat_uint; linarith?)
  moreover have "- 2147483648 \<le> uint w" using uint_ge_0[of w] by linarith
  ultimately have "signed_take_bit 31 (uint w) = uint w" by (intro signed_take_bit_int_eq_self) simp_all
  then show ?thesis by (simp add: sint_uint)
qed
lemma unat_pos: "unat (s :: u32) + i * 128 < 2147483648 \<Longrightarrow> unat (s + of_nat i * 128) = unat s + i * 128"
  by (simp add: unat_word_ariths unat_of_nat take_bit_eq_mod mod_mult_left_eq  mod_add_right_eq)

lemma sint_nonneg:
  fixes w :: u32
  assumes "0 \<le> sint w"
  shows "sint w = int (unat w)"
proof -
  have b: "\<not> bit (uint w) 31"
  proof
    assume "bit (uint w) 31"
    then have "signed_take_bit 31 (uint w) < 0" by simp
    then show False using assms by (simp add: sint_uint)
  qed
  have "uint w = take_bit (Suc 31) (uint w)"
    using unsigned_less[of w, where ?'a = int] uint_ge_0[of w] by (simp add: take_bit_int_eq_self)
  then have "uint w = take_bit 31 (uint w)" using b unfolding take_bit_Suc_from_most by simp
  then have "sint w = uint w" using b by (simp add: sint_uint signed_take_bit_eq_if_positive)
  then show ?thesis by simp
qed

lemma clear_enough: "int (n - k) < uint (w :: u32) \<longleftrightarrow> n < k + unat w \<and> k \<le> n \<or> n < k \<and> 0 < unat w"
  by (simp only: uint_nat of_nat_less_iff) linarith

lemma put_page:
  assumes "frame < NumPhysPages" "length bytes \<le> PageSize"
  shows "put_bytes (int frame * int PageSize) bytes mem =
    Inr (\<lambda>a. if a div PageSize = frame \<and> a mod PageSize < length bytes then bytes ! (a mod PageSize) else mem a)"
proof -
  have "int frame * int PageSize + int (length bytes) \<le> int MemorySize"
  proof -
    have "frame * PageSize + length bytes \<le> MemorySize"
      using assms by (simp add: machine_sizes)
    then show ?thesis by (simp flip: of_nat_mult of_nat_add)
  qed
  moreover have "int frame * int PageSize \<le> int a \<and> int a < int frame * int PageSize + int (length bytes)
      \<longleftrightarrow> a div PageSize = frame \<and> a mod PageSize < length bytes" for a
    by (rule frame_range[OF assms(2)])
  moreover have "nat (int a - int frame * int PageSize) = a mod PageSize" if "a div PageSize = frame" for a
    using that div_mult_mod_eq[of a PageSize] by (auto simp: PageSize_def)
  ultimately show ?thesis by (auto simp: put_bytes_def fun_eq_iff)
qed

definition table_of :: "nat \<Rightarrow> nat list \<Rightarrow> TranslationEntry list" where
  "table_of i fs = map (\<lambda>j. new_entry (i + j) (int (fs ! j))) [0..<length fs]"

lemma table_of_Cons: "table_of i (frame # fs) = new_entry i (int frame) # table_of (Suc i) fs"
  by (simp add: table_of_def upt_conv_Cons map_Suc_upt[symmetric] comp_def del: upt_Suc)

lemma table_of_simps [simp]:
  "length (table_of i fs) = length fs"
  "j < length fs \<Longrightarrow> table_of i fs ! j = new_entry (i + j) (int (fs ! j))"
  by (simp_all add: table_of_def)

lemma map_pages_alloc:
  assumes "alloc_loop Bitmap_FindAndSet k b = Inr (map int fs, b')" "set fs \<subseteq> {..<NumPhysPages}"
  shows "map_pages i k b mem = Inr (table_of i fs, b', \<lambda>a. if a div PageSize \<in> set fs then 0 else mem a)"
  using assms
proof (induction k arbitrary: i b mem fs)
  case (Suc k)
  obtain r b1 rs where s: "Bitmap_FindAndSet b = Inr (r, b1)" "alloc_loop Bitmap_FindAndSet k b1 = Inr (rs, b')"
    "map int fs = r # rs"
    using Suc.prems(1) by (auto simp: outcome_simps)
  then obtain frame rest where f: "fs = frame # rest" "r = int frame" "rs = map int rest"
    by (cases fs) auto
  have p: "put_bytes (int frame * int PageSize) (replicate PageSize 0) mem = Inr (\<lambda>a. if a div PageSize = frame then 0 else mem a)"
    using Suc.prems(2) f(1) by (subst put_page) (auto simp: fun_eq_iff PageSize_def)
  have "map_pages (Suc i) k b1 mem' = Inr (table_of (Suc i) rest, b', \<lambda>a. if a div PageSize \<in> set rest then 0 else mem' a)" for mem'
    by (rule Suc.IH) (use s(2) f(3) f(1) Suc.prems(2) in auto)
  then show ?case using s(1) p f by (simp add: table_of_Cons fun_eq_iff)
qed (simp add: table_of_def)

lemma map_pages_run:
  assumes "bitmap_ok b" "numBits b = NumPhysPages" "card (bits_of b) + k \<le> NumPhysPages"
  obtains fs b' where
    "map_pages 0 k b mem = Inr (table_of 0 fs, b', \<lambda>a. if a div PageSize \<in> set fs then 0 else mem a)"
    "length fs = k" "distinct fs" "set fs \<inter> bits_of b = {}" "set fs \<subseteq> {..<NumPhysPages}"
    "bitmap_ok b'" "numBits b' = NumPhysPages" "bits_of b' = bits_of b \<union> set fs"
proof -
  obtain js b' where js: "alloc_loop Bitmap_FindAndSet k b = Inr (map int js, b')" "length js = k" "distinct js"
    "set js \<inter> bits_of b = {}" "set js \<subseteq> {..<NumPhysPages}" "bitmap_ok b'" "numBits b' = NumPhysPages"
    "bits_of b' = bits_of b \<union> set js"
    using bitmap_slots.alloc_loop_fresh[OF assms(1), of k] assms(2,3) by auto
  with map_pages_alloc[OF js(1,5)] that show ?thesis by blast
qed

text \<open>Copying a segment that starts at address 0: every frame gets its page of the file.\<close>

definition file_page :: "u8 list \<Rightarrow> nat \<Rightarrow> nat \<Rightarrow> u8 option" where
  "file_page file pos off = (if pos + off < length file then Some (file ! (pos + off)) else None)"

lemma copy_pages_run:
  assumes "virtualAddr seg = 0" "file_of f h = Some file" "set fs \<subseteq> {..<NumPhysPages}" "distinct fs"
    "unat (inFileAddr seg) + (i + length fs) * PageSize < 2 ^ 31"
  shows "\<exists>mem' h'. copy_pages seg f i (table_of i fs) mem h = Inr (mem', h') \<and> file_of f h' = Some file
    \<and> nodes h' = nodes h \<and> names h' = names h
    \<and> (\<forall>j<length fs. \<forall>off<PageSize. mem' (in_frame (fs ! j) off) =
         (case file_page file (unat (inFileAddr seg) + (i + j) * PageSize) off of
            Some b \<Rightarrow> b | None \<Rightarrow> mem (in_frame (fs ! j) off)))
    \<and> (\<forall>a. a div PageSize \<notin> set fs \<longrightarrow> mem' a = mem a)"
  using assms(2-5)
proof (induction fs arbitrary: i mem h)
  case Nil
  then show ?case by (simp add: table_of_def)
next
  case (Cons frame fs)
  let ?w = "inFileAddr seg + of_nat i * of_nat PageSize" and ?pos = "unat (inFileAddr seg) + i * PageSize"
  let ?bytes = "take PageSize (drop ?pos file)"
  have small: "?pos < 2147483648" using Cons.prems(4) by (simp add: algebra_simps)
  then have "unat ?w = ?pos" using unat_pos[of "inFileAddr seg" i] by (simp add: PageSize_def)
  then have pos: "sint ?w = int ?pos" using sint_small[of ?w] small by simp
  have read: "\<exists>h1. OpenFile_ReadAt f (int PageSize) (int pos) h =
      ((int (length (take PageSize (drop pos file))), take PageSize (drop pos file)), h1)
      \<and> file_of f h1 = Some file \<and> nodes h1 = nodes h \<and> names h1 = names h" for pos
    by (rule ReadAt_run[OF Cons.prems(1), of "int PageSize" "int pos"]) auto
  obtain h1 where h1: "OpenFile_ReadAt f (int PageSize) (int ?pos) h = ((int (length ?bytes), ?bytes), h1)"
    "file_of f h1 = Some file" "nodes h1 = nodes h" "names h1 = names h"
    using read[of ?pos] by (elim exE conjE) (rule that)
  let ?mem = "\<lambda>a. if a div PageSize = frame \<and> a mod PageSize < length ?bytes then ?bytes ! (a mod PageSize) else mem a"
  have "sint (physicalPage (new_entry i (int frame))) = int frame"
    using Cons.prems(2) by (simp add: new_entry_def NumPhysPages_def small_word)
  then have p: "put_bytes (sint (virtualAddr seg) + sint (physicalPage (new_entry i (int frame))) * int PageSize) ?bytes mem = Inr ?mem"
    using assms(1) put_page[of frame ?bytes mem] Cons.prems(2) by simp
  have c: "set fs \<subseteq> {..<NumPhysPages}" "distinct fs" "unat (inFileAddr seg) + (Suc i + length fs) * PageSize < 2 ^ 31"
    using Cons.prems by simp_all
  obtain mem' h' where r: "copy_pages seg f (Suc i) (table_of (Suc i) fs) ?mem h1 = Inr (mem', h')" "file_of f h' = Some file"
    "nodes h' = nodes h1" "names h' = names h1"
    "\<forall>j<length fs. \<forall>off<PageSize. mem' (in_frame (fs ! j) off) =
         (case file_page file (unat (inFileAddr seg) + (Suc i + j) * PageSize) off of
            Some b \<Rightarrow> b | None \<Rightarrow> ?mem (in_frame (fs ! j) off))"
    "\<forall>a. a div PageSize \<notin> set fs \<longrightarrow> mem' a = ?mem a"
    using Cons.IH[OF h1(2) c, of ?mem] by (elim exE conjE) (rule that)
  have run: "copy_pages seg f i (table_of i (frame # fs)) mem h = Inr (mem', h')"
    using h1(1) p r(1) pos by (simp add: table_of_Cons)
  have "mem' (in_frame ((frame # fs) ! j) off) =
         (case file_page file (unat (inFileAddr seg) + (i + j) * PageSize) off of
            Some b \<Rightarrow> b | None \<Rightarrow> mem (in_frame ((frame # fs) ! j) off))"
    if "j < length (frame # fs)" "off < PageSize" for j off
  proof (cases j)
    case 0
    have "mem' (in_frame frame off) = ?mem (in_frame frame off)"
      using r(6) Cons.prems(3) that(2) by simp
    then show ?thesis using 0 that(2) by (auto simp: file_page_def PageSize_def)
  next
    case (Suc l)
    then have "fs ! l \<noteq> frame" using that(1) Cons.prems(3) by auto
    have l: "l < length fs" using that(1) Suc by simp
    show ?thesis using r(5)[rule_format, OF l that(2)] \<open>fs ! l \<noteq> frame\<close> Suc that(2) by (simp split: option.split)
  qed
  moreover have "mem' a = mem a" if "a div PageSize \<notin> set (frame # fs)" for a
    using r(6) that by auto
  ultimately show ?case using run r(2-4) h1(3,4)
    by (intro exI[of _ mem'] exI[of _ h']) simp
qed


section \<open>Properties\<close>

text \<open>An executable with a code segment only, at address 0, inside the part of the file an \<open>int\<close> reaches.\<close>

definition plain_code :: "NoffHeader \<Rightarrow> bool" where
  "plain_code noffH \<longleftrightarrow> virtualAddr (code_seg noffH) = 0 \<and> 0 < sint (seg_size (code_seg noffH))
     \<and> sint (seg_size (initData noffH)) \<le> 0
     \<and> unat (inFileAddr (code_seg noffH)) + unat (space_pages noffH) * PageSize < 2 ^ 31"


text \<open>The witness: on an empty machine, an executable of one word of code needs nine pages for itself and
  its stack.\<close>

definition one_word :: NoffHeader where
  "one_word = \<lparr>noffMagic = NOFFMAGIC, code_seg = \<lparr>virtualAddr = 0, inFileAddr = 52, seg_size = 4\<rparr>,
     initData = \<lparr>virtualAddr = 0, inFileAddr = 0, seg_size = 0\<rparr>, readonlyData = \<lparr>virtualAddr = 0, inFileAddr = 0, seg_size = 0\<rparr>,
     uninitData = \<lparr>virtualAddr = 0, inFileAddr = 0, seg_size = 0\<rparr>\<rparr>"

definition one_word_host :: host where
  "one_word_host = \<lparr>nodes = (\<lambda>_. replicate 52 0 @ [1, 2, 3, 4]), next_node = 1, names = [[120] \<mapsto> 0],
     descriptors = [3 \<mapsto> (0, 0)], fd_limit = 8\<rparr>"

lemma one_word: "space_pages one_word = 9" "plain_code one_word"
  by (simp_all add: one_word_def plain_code_def space_pages_def UserStackSize_def PageSize_def Let_def word_div_def word_mod_def)


text \<open>Every way of loading takes frames that were free, and deletion gives exactly these back.\<close>

lemma free_table:
  assumes "bitmap_ok b" "numBits b = NumPhysPages" "set fs \<subseteq> {..<NumPhysPages}"
  shows "\<exists>b'. free_pages (table_of i fs) b = Inr b' \<and> bitmap_ok b' \<and> numBits b' = NumPhysPages \<and> bits_of b' = bits_of b - set fs"
  using assms
proof (induction fs arbitrary: b i)
  case (Cons x fs)
  then obtain b1 where b1: "Bitmap_Clear b (int x) = Inr b1" "bitmap_ok b1" "numBits b1 = NumPhysPages" "bits_of b1 = bits_of b - {x}"
    using bitmap_slots.clr_used[of b x] by auto
  obtain b' where "free_pages (table_of (Suc i) fs) b1 = Inr b'" "bitmap_ok b'" "numBits b' = NumPhysPages"
    "bits_of b' = bits_of b1 - set fs"
    using Cons.IH[OF b1(2,3), of "Suc i"] Cons.prems(3) by auto
  moreover have "sint (physicalPage (new_entry i (int x))) = int x"
    using Cons.prems(3) by (simp add: new_entry_def NumPhysPages_def small_word)
  ultimately show ?case using b1 by (auto simp: table_of_Cons)
qed (simp add: table_of_def)

lemma touched_frames: "map physicalPage pt = map physicalPage pt' \<Longrightarrow> free_pages pt b = free_pages pt' b"
proof (induction pt arbitrary: pt' b)
  case (Cons e pt)
  then obtain e' pt1 where "pt' = e' # pt1" "physicalPage e = physicalPage e'" "map physicalPage pt = map physicalPage pt1"
    by (cases pt') auto
  moreover have "free_pages pt = free_pages pt1" using Cons.IH[OF calculation(3)] by blast
  ultimately show ?case by simp
qed simp

text \<open>C21: Frames come back: whatever the executable, when loading succeeds the new space has frames
  that no other space had, all different, and when the space is deleted, after the program has set
  use and dirty bits in its page table, the frame map marks exactly what it marked before loading.\<close>

theorem frames_round_trip:
  assumes "bitmap_ok b" "numBits b = NumPhysPages" "Load_pages f noffH b mem h = Inr (True, sp, b', mem', h')"
    "map physicalPage (spacePages sp') = map physicalPage (spacePages sp)" "numPages sp' = numPages sp"
  shows "distinct (map physicalPage (spacePages sp))
    \<and> (\<forall>e \<in> set (spacePages sp). unat (physicalPage e) < NumPhysPages \<and> unat (physicalPage e) \<notin> bits_of b)
    \<and> (\<exists>b''. AddrSpace_delete sp' b' = Inr b'' \<and> bitmap_ok b'' \<and> bits_of b'' = bits_of b)"
proof -
  have room: "card (bits_of b) + unat (space_pages noffH) \<le> NumPhysPages"
  proof -
    have "\<not> int (NumPhysPages - card (bits_of b)) < uint (space_pages noffH)"
      using assms(1-3) by (auto simp: Load_pages_def Let_def outcome_simps split: if_splits)
    moreover have "card (bits_of b) \<le> NumPhysPages" using card_mono[OF _ bits_of_subset, of b] assms(2) by simp
    ultimately show ?thesis unfolding clear_enough by linarith
  qed
  obtain fs b1 where m: "map_pages 0 (unat (space_pages noffH)) b mem =
      Inr (table_of 0 fs, b1, \<lambda>a. if a div PageSize \<in> set fs then 0 else mem a)"
    "length fs = unat (space_pages noffH)" "distinct fs" "set fs \<inter> bits_of b = {}" "set fs \<subseteq> {..<NumPhysPages}"
    "bitmap_ok b1" "numBits b1 = NumPhysPages" "bits_of b1 = bits_of b \<union> set fs"
    by (rule map_pages_run[OF assms(1,2) room])
  have sp: "spacePages sp = table_of 0 fs" "numPages sp = space_pages noffH" "b' = b1"
    using assms(3) m(1) by (auto simp: Load_pages_def Let_def outcome_simps split: if_splits prod.splits)
  have pages: "map physicalPage (spacePages sp) = map (\<lambda>x. of_nat x) fs"
    unfolding sp(1) by (rule nth_equalityI) (simp_all add: new_entry_def)
  have unat: "unat (of_nat x :: u32) = x" if "x \<in> set fs" for x
    using that m(5) by (intro small_word) (auto simp: NumPhysPages_def)
  then have "inj_on (\<lambda>x. of_nat x :: u32) (set fs)" by (metis inj_onI)
  then have d: "distinct (map physicalPage (spacePages sp))" using m(3) by (simp add: pages distinct_map)
  have e: "unat (physicalPage e) < NumPhysPages \<and> unat (physicalPage e) \<notin> bits_of b" if "e \<in> set (spacePages sp)" for e
  proof -
    have "physicalPage e \<in> set (map physicalPage (spacePages sp))" using that by simp
    then obtain x where "x \<in> set fs" "physicalPage e = of_nat x" unfolding pages by auto
    then show ?thesis using unat m(4,5) by auto
  qed
  obtain b2 where b2: "free_pages (table_of 0 fs) b1 = Inr b2" "bitmap_ok b2" "bits_of b2 = bits_of b1 - set fs"
    using free_table[OF m(6,7,5), of 0] by blast
  have "length (spacePages sp') = unat (space_pages noffH)"
    using assms(4) m(2) sp(1) by (metis length_map table_of_simps(1))
  then have "AddrSpace_delete sp' b' = Inr b2"
    using touched_frames[OF assms(4)] b2(1) sp assms(5) by (simp add: AddrSpace_delete_def)
  moreover have "bits_of b2 = bits_of b" using b2(3) m(4,8) by blast
  ultimately show ?thesis using d e b2(2) by blast
qed

text \<open>The witness: an executable with no segments has a space of eight pages, for its stack.\<close>

definition no_code :: NoffHeader where
  "no_code = one_word\<lparr>code_seg := \<lparr>virtualAddr = 0, inFileAddr = 52, seg_size = 0\<rparr>\<rparr>"

lemma no_code: "space_pages no_code = 8" "copy_segment (code_seg no_code) f pt mem h = Inr (mem, h)"
  "copy_segment (initData no_code) f pt mem h = Inr (mem, h)"
  by (simp_all add: no_code_def one_word_def copy_segment_def space_pages_def UserStackSize_def PageSize_def Let_def word_div_def word_mod_def)

theorem frames_round_trip_witness:
  "\<exists>b sp b' mem' h' b''. Bitmap_new 128 = Inr b
     \<and> Load_pages \<lparr>file_id = 3, currentOffset = 0\<rparr> no_code b (\<lambda>_. 7) one_word_host = Inr (True, sp, b', mem', h')
     \<and> length (spacePages sp) = 8 \<and> AddrSpace_delete sp b' = Inr b'' \<and> bits_of b'' = {}"
proof -
  obtain b where b: "Bitmap_new 128 = Inr b" "bitmap_ok b" "numBits b = NumPhysPages" "bits_of b = {}"
    using Bitmap_new_run[of 128] by (auto simp: NumPhysPages_def)
  have room: "card (bits_of b) + 8 \<le> NumPhysPages" using b(4) by (simp add: NumPhysPages_def)
  obtain fs b' where
    m: "map_pages 0 8 b (\<lambda>_. 7) = Inr (table_of 0 fs, b', \<lambda>a. if a div PageSize \<in> set fs then 0 else 7)" "length fs = 8"
    by (rule map_pages_run[OF b(2,3) room])
  have l: "Load_pages \<lparr>file_id = 3, currentOffset = 0\<rparr> no_code b (\<lambda>_. 7) one_word_host =
      Inr (True, \<lparr>spacePages = table_of 0 fs, numPages = 8\<rparr>, b', \<lambda>a. if a div PageSize \<in> set fs then 0 else 7, Close 3 one_word_host)"
    using b(2-4) m(1) by (simp add: Load_pages_def Let_def no_code NumPhysPages_def)
  from frames_round_trip[OF b(2,3) l refl refl] obtain b'' where
    "AddrSpace_delete \<lparr>spacePages = table_of 0 fs, numPages = 8\<rparr> b' = Inr b''" "bits_of b'' = {}"
    using b(4) by auto
  then show ?thesis using b(1) l m(2) by (intro exI conjI; (assumption | simp))
qed

text \<open>C32: The kernel's own translation of user addresses is the one the machine does for the program:
  for a byte access through the page table of a space whose entries are valid and have frame numbers
  that are not negative, \<open>AddrSpace::Translate\<close> gives the same exception, or the same physical address
  and the same page table afterwards, as \<open>Machine::Translate\<close> does after \<open>RestoreState\<close>.\<close>

theorem Translate_agrees:
  assumes "tlb m = None" "unat (numPages sp) \<le> length (spacePages sp)"
    "\<forall>e \<in> set (spacePages sp). valid e \<and> 0 \<le> sint (physicalPage e)"
  shows "Translate vaddr 1 writing (RestoreState sp m) =
    (case AddrSpace_Translate vaddr writing sp of
       Inl e \<Rightarrow> Inl e
     | Inr (Inl exc) \<Rightarrow> Inr (Inl exc)
     | Inr (Inr (paddr, sp')) \<Rightarrow> Inr (Inr (paddr, RestoreState sp' m)))"
proof -
  let ?m = "RestoreState sp m" and ?vpn = "unat vaddr div PageSize"
  have lin: "linear ?m (spacePages sp)" using assms(1,2) by (simp add: linear_def RestoreState_def)
  show ?thesis
  proof (cases "?vpn < unat (numPages sp)")
    case False
    then show ?thesis
      using Translate_linear[OF lin, of 1 vaddr writing]
      by (simp add: access_check_def AddrSpace_Translate_def Let_def RestoreState_def)
  next
    case True
    let ?e = "spacePages sp ! ?vpn"
    have in_table: "?vpn < length (spacePages sp)" using True assms(2) by simp
    then have e: "valid ?e" "0 \<le> sint (physicalPage ?e)" using assms(3) by simp_all
    have s: "sint (physicalPage ?e) = int (unat (physicalPage ?e))"
      by (rule sint_nonneg[OF e(2)])
    then have cmp: "int NumPhysPages \<le> sint (physicalPage ?e) \<longleftrightarrow> NumPhysPages \<le> unat (physicalPage ?e)"
      unfolding s by (simp only: of_nat_le_iff)
    have addr: "unat (physicalPage ?e * of_nat PageSize + of_nat (unat vaddr mod PageSize)) = physical_address (spacePages sp) vaddr"
      "physical_address (spacePages sp) vaddr < MemorySize" if "unat (physicalPage ?e) < NumPhysPages"
    proof -
      have "unat vaddr mod PageSize < PageSize" by (simp add: PageSize_def)
      then have b: "unat (physicalPage ?e) * PageSize + unat vaddr mod PageSize < MemorySize"
        using that by (simp add: machine_sizes)
      then show "physical_address (spacePages sp) vaddr < MemorySize" by (simp add: physical_address_def)
      show "unat (physicalPage ?e * of_nat PageSize + of_nat (unat vaddr mod PageSize)) = physical_address (spacePages sp) vaddr"
        using b by (simp add: physical_address_def unat_word_ariths unat_of_nat take_bit_eq_mod machine_sizes)
    qed
    have "Translate vaddr 1 writing ?m =
        (if readOnly ?e \<and> writing then Inr (Inl ReadOnlyException)
         else if NumPhysPages \<le> unat (physicalPage ?e) then Inr (Inl BusErrorException)
         else Inr (Inr (physical_address (spacePages sp) vaddr, touch_page writing vaddr ?m)))"
      using Translate_linear[OF lin, of 1 vaddr writing] True e(1)
      by (simp add: access_check_def Let_def RestoreState_def)
    moreover have "AddrSpace_Translate vaddr writing sp =
        (if readOnly ?e \<and> writing then Inr (Inl ReadOnlyException)
         else if NumPhysPages \<le> unat (physicalPage ?e) then Inr (Inl BusErrorException)
         else Inr (Inr (physical_address (spacePages sp) vaddr, sp\<lparr>spacePages := (spacePages sp)[?vpn := touch writing ?e]\<rparr>)))"
      using True in_table cmp addr by (auto simp: AddrSpace_Translate_def Let_def)
    ultimately show ?thesis by (auto simp: touch_page_def RestoreState_def Let_def)
  qed
qed

theorem Translate_agrees_witness:
  "Translate 130 1 True (RestoreState \<lparr>spacePages = table_of 0 [7, 3], numPages = 2\<rparr> (Machine_new False)) =
    (case AddrSpace_Translate 130 True \<lparr>spacePages = table_of 0 [7, 3], numPages = 2\<rparr> of
       Inl e \<Rightarrow> Inl e
     | Inr (Inl exc) \<Rightarrow> Inr (Inl exc)
     | Inr (Inr (paddr, sp')) \<Rightarrow> Inr (Inr (paddr, RestoreState sp' (Machine_new False))))"
  by (rule Translate_agrees) (simp_all add: Machine_new_def table_of_def new_entry_def)

end
