(* ===== verification/Semaphore_Table.thy ===== *)
theory Semaphore_Table imports Bitmap Kernel_Init begin

text \<open>
  threads/stable.cc: the table of the semaphores that user programs create by name. A semaphore keeps
  the pointer it was given as its name, not a copy, so names are pointers into a heap of C strings
  here; \<open>None\<close> is memory that has been deleted, and comparing a string there has no defined result.
  An operation that calls \<open>P\<close> or \<open>V\<close> says so in the list of calls it returns.
\<close>

section \<open>C strings on the heap\<close>

type_synonym string_heap = "nat \<Rightarrow> u8 list option"

definition strcmp_equal :: "string_heap \<Rightarrow> nat \<Rightarrow> nat \<Rightarrow> bool result" where
  "strcmp_equal hp p q =
     (case (hp p, hp q) of (Some a, Some b) \<Rightarrow> Inr (c_string a = c_string b) | _ \<Rightarrow> Inl Uninitialised)"

section \<open>The table\<close>

definition MAX_SEMAPHORE :: nat where "MAX_SEMAPHORE = 10"

record slot =
  slot_semaphore :: nat
  slot_name :: nat

record sem_table =
  sem_map :: bitmap
  sem_slots :: "slot option list"

definition STable_new :: "sem_table result" where
  "STable_new =
     bind_result (Bitmap_new (int MAX_SEMAPHORE)) (\<lambda>b.
     Inr \<lparr>sem_map = b, sem_slots = replicate MAX_SEMAPHORE None\<rparr>)"

text \<open>The loop of \<open>Create\<close>, \<open>Wait\<close> and \<open>Signal\<close>: the first slot whose bit is as wanted and whose
  semaphore has that name. \<open>Create\<close> and \<open>Wait\<close> look at the marked slots, \<open>Signal\<close> at the others.\<close>

fun find_slot :: "bool \<Rightarrow> string_heap \<Rightarrow> nat \<Rightarrow> sem_table \<Rightarrow> nat \<Rightarrow> nat \<Rightarrow> slot option result" where
  "find_slot want hp name st i 0 = Inr None"
| "find_slot want hp name st i (Suc k) =
     bind_result (Bitmap_Test (sem_map st) (int i)) (\<lambda>t.
       if t = want then
         bind_result (bind_result (arr_get (sem_slots st) i) get) (\<lambda>s.
         bind_result (strcmp_equal hp name (slot_name s)) (\<lambda>eq.
         if eq then Inr (Some s) else find_slot want hp name st (Suc i) k))
       else find_slot want hp name st (Suc i) k)"

definition FindFreeSlot :: "sem_table \<Rightarrow> (int \<times> sem_table) result" where
  "FindFreeSlot st = bind_result (Bitmap_FindAndSet (sem_map st)) (\<lambda>(slotno, b). Inr (slotno, st\<lparr>sem_map := b\<rparr>))"

definition STable_Create :: "string_heap \<Rightarrow> nat \<Rightarrow> int \<Rightarrow> sem_table \<Rightarrow> 'u kernel \<Rightarrow> (int \<times> sem_table \<times> 'u kernel) result" where
  "STable_Create hp name v st k =
     bind_result (find_slot True hp name st 0 MAX_SEMAPHORE) (\<lambda>r. case r of
       Some s \<Rightarrow> Inr (- 1, st, k)
     | None \<Rightarrow>
         bind_result (FindFreeSlot st) (\<lambda>(slotno, st).
           if slotno < 0 then Inr (- 1, st, k)
           else let (i, k) = Semaphore_new v k in
             bind_result (arr_set (sem_slots st) (nat slotno) (Some \<lparr>slot_semaphore = i, slot_name = name\<rparr>)) (\<lambda>ss.
             Inr (0, st\<lparr>sem_slots := ss\<rparr>, k))))"

definition STable_Wait :: "string_heap \<Rightarrow> nat \<Rightarrow> sem_table \<Rightarrow> (int \<times> task list) result" where
  "STable_Wait hp name st =
     bind_result (find_slot True hp name st 0 MAX_SEMAPHORE) (\<lambda>r. case r of
       Some s \<Rightarrow> Inr (0, [Sem_P (slot_semaphore s) None])
     | None \<Rightarrow> Inr (- 1, []))"

definition STable_Signal :: "string_heap \<Rightarrow> nat \<Rightarrow> sem_table \<Rightarrow> (int \<times> task list) result" where
  "STable_Signal hp name st =
     bind_result (find_slot False hp name st 0 MAX_SEMAPHORE) (\<lambda>r. case r of
       Some s \<Rightarrow> Inr (0, [Sem_V (slot_semaphore s)])
     | None \<Rightarrow> Inr (- 1, []))"

section \<open>The table as a map from names to semaphores\<close>

text \<open>A table the kernel can have: the bitmap marks the slots in use.\<close>

definition table_ok :: "sem_table \<Rightarrow> bool" where
  "table_ok st \<longleftrightarrow> bitmap_ok (sem_map st) \<and> numBits (sem_map st) = MAX_SEMAPHORE \<and> length (sem_slots st) = MAX_SEMAPHORE
     \<and> (\<forall>i<MAX_SEMAPHORE. i \<in> bits_of (sem_map st) \<longleftrightarrow> sem_slots st ! i \<noteq> None)"

definition live_names :: "string_heap \<Rightarrow> sem_table \<Rightarrow> bool" where
  "live_names hp st \<longleftrightarrow> (\<forall>s. Some s \<in> set (sem_slots st) \<longrightarrow> hp (slot_name s) \<noteq> None)"

definition string_at :: "string_heap \<Rightarrow> nat \<Rightarrow> u8 list" where
  "string_at hp p = c_string (the (hp p))"

text \<open>What a name stands for.\<close>

definition slot_is :: "string_heap \<Rightarrow> sem_table \<Rightarrow> u8 list \<Rightarrow> nat \<Rightarrow> bool" where
  "slot_is hp st n i = (case sem_slots st ! i of Some s \<Rightarrow> string_at hp (slot_name s) = n | None \<Rightarrow> False)"

definition semaphore_named :: "string_heap \<Rightarrow> sem_table \<Rightarrow> u8 list \<Rightarrow> nat option" where
  "semaphore_named hp st n =
     map_option (\<lambda>i. slot_semaphore (the (sem_slots st ! i))) (first_below (slot_is hp st n) MAX_SEMAPHORE)"

lemma table_ok_bit:
  "table_ok st \<Longrightarrow> i < MAX_SEMAPHORE \<Longrightarrow> Bitmap_Test (sem_map st) (int i) = Inr (sem_slots st ! i \<noteq> None)"
  by (simp add: table_ok_def)

lemma table_ok_get: "table_ok st \<Longrightarrow> i < MAX_SEMAPHORE \<Longrightarrow> arr_get (sem_slots st) i = Inr (sem_slots st ! i)"
  by (simp add: table_ok_def)

lemma strcmp_run:
  "hp p \<noteq> None \<Longrightarrow> hp q \<noteq> None \<Longrightarrow> strcmp_equal hp p q = Inr (string_at hp p = string_at hp q)"
  by (auto simp: strcmp_equal_def string_at_def)

lemma find_slot_run:
  assumes "table_ok st" "live_names hp st" "hp name \<noteq> None" "i + k \<le> MAX_SEMAPHORE"
  shows "find_slot True hp name st i k =
    Inr (case first_from (slot_is hp st (string_at hp name)) i k of Some j \<Rightarrow> sem_slots st ! j | None \<Rightarrow> None)"
  using assms(4)
proof (induction k arbitrary: i)
  case (Suc k)
  then have i: "i < MAX_SEMAPHORE" by simp
  note IH = Suc.IH[of "Suc i"]
  show ?case
  proof (cases "sem_slots st ! i")
    case None
    then show ?thesis using IH Suc.prems table_ok_bit[OF assms(1) i] by (simp add: slot_is_def)
  next
    case (Some s)
    then have "hp (slot_name s) \<noteq> None"
      using assms(1,2) i by (metis live_names_def nth_mem table_ok_def)
    then show ?thesis
      using Some IH Suc.prems table_ok_bit[OF assms(1) i] table_ok_get[OF assms(1) i] assms(3)
      by (auto simp: slot_is_def strcmp_run get_def)
  qed
qed simp

lemma first_slot_is:
  assumes "first_below (slot_is hp st n) MAX_SEMAPHORE = Some j"
  obtains s where "sem_slots st ! j = Some s" "string_at hp (slot_name s) = n"
  using assms by (auto simp: first_below_Some slot_is_def split: option.splits)

lemma find_named:
  assumes "table_ok st" "live_names hp st" "hp name \<noteq> None"
  shows "find_slot True hp name st 0 MAX_SEMAPHORE = Inr None \<and> semaphore_named hp st (string_at hp name) = None
   \<or> (\<exists>s. find_slot True hp name st 0 MAX_SEMAPHORE = Inr (Some s)
        \<and> semaphore_named hp st (string_at hp name) = Some (slot_semaphore s))"
proof (cases "first_below (slot_is hp st (string_at hp name)) MAX_SEMAPHORE")
  case None
  then show ?thesis using find_slot_run[OF assms, of 0 MAX_SEMAPHORE] by (simp add: semaphore_named_def)
next
  case (Some j)
  from first_slot_is[OF this] obtain s where "sem_slots st ! j = Some s" by blast
  then show ?thesis using Some find_slot_run[OF assms, of 0 MAX_SEMAPHORE] by (simp add: semaphore_named_def)
qed

lemma slot_is_update:
  assumes "slotno < length (sem_slots st)" "sem_slots st ! slotno = None"
  shows "slot_is hp (st\<lparr>sem_map := b, sem_slots := (sem_slots st)[slotno := Some s]\<rparr>) n i
    \<longleftrightarrow> (if i = slotno then string_at hp (slot_name s) = n else slot_is hp st n i)"
  using assms by (auto simp: slot_is_def nth_update_if nth_list_update)

lemma created:
  fixes q :: nat
  assumes "table_ok st" "live_names hp st" "hp name \<noteq> None" "semaphore_named hp st (string_at hp name) = None"
    "slotno < MAX_SEMAPHORE" "slotno \<notin> bits_of (sem_map st)" "with_bits (sem_map st) b (insert slotno (bits_of (sem_map st)))"
  defines "st' \<equiv> st\<lparr>sem_map := b, sem_slots := (sem_slots st)[slotno := Some \<lparr>slot_semaphore = q, slot_name = name\<rparr>]\<rparr>"
  shows "table_ok st'" "live_names hp st'" "semaphore_named hp st' = (semaphore_named hp st)(string_at hp name \<mapsto> q)"
proof -
  have slotno: "slotno < length (sem_slots st)" "sem_slots st ! slotno = None" using assms(1,5,6) by (auto simp: table_ok_def)
  show "table_ok st'" using assms(1,7) slotno by (auto simp: table_ok_def st'_def nth_list_update with_bits_def)
  show "live_names hp st'"
    using assms(2,3) slotno set_update_subset_insert[of "sem_slots st" slotno] by (fastforce simp: live_names_def st'_def)
  note upd = slot_is_update[OF slotno, where hp = hp and b = b and s = "\<lparr>slot_semaphore = q, slot_name = name\<rparr>", folded st'_def]
  have new: "semaphore_named hp st' (string_at hp name) = Some q"
  proof -
    have "first_below (slot_is hp st' (string_at hp name)) MAX_SEMAPHORE = Some slotno"
      using assms(4,5) upd by (auto simp: first_below_Some semaphore_named_def first_below_None)
    then show ?thesis using slotno by (simp add: semaphore_named_def st'_def)
  qed
  have old: "semaphore_named hp st' n = semaphore_named hp st n" if "n \<noteq> string_at hp name" for n
  proof -
    have "slot_is hp st' n i = slot_is hp st n i" for i using upd that slotno by (auto simp: slot_is_def)
    then have "slot_is hp st' n = slot_is hp st n" by blast
    moreover have "sem_slots st' ! j = sem_slots st ! j" if "first_below (slot_is hp st n) MAX_SEMAPHORE = Some j" for j
      using that slotno by (auto simp: st'_def nth_list_update elim!: first_slot_is)
    ultimately show ?thesis
      by (cases "first_below (slot_is hp st n) MAX_SEMAPHORE") (simp_all add: semaphore_named_def)
  qed
  show "semaphore_named hp st' = (semaphore_named hp st)(string_at hp name \<mapsto> q)" using new old by auto
qed

lemma STable_new_run:
  obtains st where "STable_new = Inr st" "table_ok st" "bits_of (sem_map st) = {}" "live_names hp st"
    "semaphore_named hp st n = None"
proof -
  obtain b where b: "Bitmap_new (int MAX_SEMAPHORE) = Inr b" "bitmap_ok b" "numBits b = MAX_SEMAPHORE" "bits_of b = {}"
    using Bitmap_new_run[of "int MAX_SEMAPHORE"] by (auto simp: MAX_SEMAPHORE_def)
  let ?st = "\<lparr>sem_map = b, sem_slots = replicate MAX_SEMAPHORE None\<rparr>"
  have n: "first_below (slot_is hp ?st n) MAX_SEMAPHORE = None" by (auto simp: first_below_None slot_is_def)
  show ?thesis by (rule that[of ?st])
    (use b n in \<open>simp_all add: STable_new_def table_ok_def live_names_def semaphore_named_def\<close>)
qed

section \<open>Properties\<close>

text \<open>C27: While the strings of all names are live, \<open>Create\<close> and \<open>Wait\<close> implement a finite map from
  names to semaphores: \<open>Create\<close> refuses a name that is in the map, and any name when ten are, and
  otherwise makes a new semaphore of the given value and extends the map with it; \<open>Wait\<close> calls \<open>P\<close>
  of the semaphore the name has in the map, and answers -1 when it has none.\<close>

theorem STable_is_map:
  assumes "table_ok st" "live_names hp st" "hp name \<noteq> None"
  shows "STable_Wait hp name st = (case semaphore_named hp st (string_at hp name) of
        Some q \<Rightarrow> Inr (0, [Sem_P q None]) | None \<Rightarrow> Inr (- 1, []))
    \<and> (if semaphore_named hp st (string_at hp name) \<noteq> None \<or> bits_of (sem_map st) = {..<MAX_SEMAPHORE}
       then STable_Create hp name v st k = Inr (- 1, st, k)
       else \<exists>st'. STable_Create hp name v st k = Inr (0, st', snd (Semaphore_new v k))
         \<and> table_ok st' \<and> live_names hp st'
         \<and> semaphore_named hp st' = (semaphore_named hp st)(string_at hp name \<mapsto> fst (Semaphore_new v k)))"
proof -
  let ?n = "string_at hp name"
  have wait: "STable_Wait hp name st = (case semaphore_named hp st ?n of
        Some q \<Rightarrow> Inr (0, [Sem_P q None]) | None \<Rightarrow> Inr (- 1, []))"
    using find_named[OF assms] by (auto simp: STable_Wait_def)
  have ok: "bitmap_ok (sem_map st)" "numBits (sem_map st) = MAX_SEMAPHORE" using assms(1) by (simp_all add: table_ok_def)
  have create: "if semaphore_named hp st ?n \<noteq> None \<or> bits_of (sem_map st) = {..<MAX_SEMAPHORE}
       then STable_Create hp name v st k = Inr (- 1, st, k)
       else \<exists>st'. STable_Create hp name v st k = Inr (0, st', snd (Semaphore_new v k))
         \<and> table_ok st' \<and> live_names hp st'
         \<and> semaphore_named hp st' = (semaphore_named hp st)(?n \<mapsto> fst (Semaphore_new v k))"
  proof (cases "semaphore_named hp st ?n")
    case (Some q)
    then show ?thesis using find_named[OF assms] by (auto simp: STable_Create_def)
  next
    case None
    then have none: "find_slot True hp name st 0 MAX_SEMAPHORE = Inr None" using find_named[OF assms] by auto
    show ?thesis
      using ok(1)
    proof (cases rule: FindAndSet_cases)
      case full
      then show ?thesis using none ok(2) by (simp add: STable_Create_def FindFreeSlot_def)
    next
      case (found slotno b)
      then have slotno: "slotno < MAX_SEMAPHORE" "slotno < length (sem_slots st)" using ok(2) assms(1) by (simp_all add: table_ok_def)
      have "bits_of (sem_map st) \<noteq> {..<MAX_SEMAPHORE}" using found(3) slotno(1) by blast
      moreover have "STable_Create hp name v st k = Inr (0, st\<lparr>sem_map := b, sem_slots := (sem_slots st)[slotno :=
          Some \<lparr>slot_semaphore = fst (Semaphore_new v k), slot_name = name\<rparr>]\<rparr>, snd (Semaphore_new v k))"
        using none found(1) slotno(2) by (simp add: STable_Create_def FindFreeSlot_def split_beta Let_def)
      ultimately show ?thesis using None created[OF assms None slotno(1) found(3,5), of "fst (Semaphore_new v k)"] by auto
    qed
  qed
  show ?thesis using wait create by blast
qed

theorem STable_is_map_witness:
  "\<exists>st st'. STable_new = Inr st
     \<and> STable_Create (\<lambda>p. if p = 1 then Some [97, 0] else None) 1 3 st (boot_kernel (Proc 0) ()) = Inr (0, st', snd (Semaphore_new 3 (boot_kernel (Proc 0) ())))
     \<and> STable_Wait (\<lambda>p. if p = 1 then Some [97, 0] else None) 1 st' = Inr (0, [Sem_P 0 None])"
proof -
  let ?hp = "\<lambda>p :: nat. if p = 1 then Some [97, 0 :: u8] else None" and ?k = "boot_kernel (Proc 0) ()"
  obtain st where st: "STable_new = Inr st" "table_ok st" "bits_of (sem_map st) = {}" "live_names ?hp st"
    "semaphore_named ?hp st (string_at ?hp 1) = None" by (rule STable_new_run)
  have name: "?hp 1 \<noteq> None" by simp
  have "bits_of (sem_map st) \<noteq> {..<MAX_SEMAPHORE}" unfolding st(3) by (simp add: MAX_SEMAPHORE_def set_eq_iff exI[of _ 0])
  then obtain st' where st': "STable_Create ?hp 1 3 st ?k = Inr (0, st', snd (Semaphore_new 3 ?k))"
    "table_ok st'" "live_names ?hp st'"
    "semaphore_named ?hp st' = (semaphore_named ?hp st)(string_at ?hp 1 \<mapsto> fst (Semaphore_new 3 ?k))"
    using STable_is_map[OF st(2,4) name, of 3 ?k] st(5) by (auto split: if_splits)
  have "STable_Wait ?hp 1 st' = Inr (0, [Sem_P 0 None])"
    using STable_is_map[OF st'(2,3) name, of 3 ?k] st'(4)
    by (simp add: Semaphore_new_def boot_kernel_def)
  then show ?thesis using st(1) st'(1) by blast
qed

text \<open>C29: \<open>Signal\<close> never signals. It looks at the slots whose bit is clear, where there is no
  semaphore: with a free slot in the table it takes the name of a null pointer, and when the table is
  full it answers -1, whatever the names.\<close>

theorem STable_Signal_never_signals:
  assumes "table_ok st"
  shows "STable_Signal hp name st =
    (if bits_of (sem_map st) = {..<MAX_SEMAPHORE} then Inr (- 1, []) else Inl NullPointer)"
proof -
  have full: "find_slot False hp name st i k = Inr None"
    if "i + k \<le> MAX_SEMAPHORE" "\<forall>j<MAX_SEMAPHORE. sem_slots st ! j \<noteq> None" for i k
    using that by (induction k arbitrary: i) (simp_all add: table_ok_bit[OF assms])
  have free: "find_slot False hp name st i k = Inl NullPointer"
    if "i + k \<le> MAX_SEMAPHORE" "\<exists>j. i \<le> j \<and> j < i + k \<and> sem_slots st ! j = None" for i k
    using that
  proof (induction k arbitrary: i)
    case (Suc k)
    then have i: "i < MAX_SEMAPHORE" by simp
    show ?case
    proof (cases "sem_slots st ! i = None")
      case True
      then show ?thesis using table_ok_bit[OF assms i] table_ok_get[OF assms i] by (simp add: get_def)
    next
      case False
      then have "\<exists>j. Suc i \<le> j \<and> j < Suc i + k \<and> sem_slots st ! j = None"
        using Suc.prems(2) by (metis Suc_leI add_Suc_shift le_neq_implies_less)
      with Suc.IH[of "Suc i"] Suc.prems(1) False table_ok_bit[OF assms i] show ?thesis by simp
    qed
  next
    case 0
    then show ?case by (metis add_0_right not_le)
  qed
  have iff: "bits_of (sem_map st) = {..<MAX_SEMAPHORE} \<longleftrightarrow> (\<forall>j<MAX_SEMAPHORE. sem_slots st ! j \<noteq> None)"
    using assms bits_of_less[of _ "sem_map st"] by (auto simp: table_ok_def)
  show ?thesis
    using full[of 0 MAX_SEMAPHORE] free[of 0 MAX_SEMAPHORE] iff by (auto simp: STable_Signal_def)
qed

theorem STable_Signal_never_signals_witness:
  "\<exists>st. STable_new = Inr st \<and> STable_Signal (\<lambda>_. Some [97, 0]) 1 st = Inl NullPointer"
proof -
  obtain st where st: "STable_new = Inr st" "table_ok st" "bits_of (sem_map st) = {}"
    by (rule STable_new_run)
  have "bits_of (sem_map st) \<noteq> {..<MAX_SEMAPHORE}" unfolding st(3) by (simp add: MAX_SEMAPHORE_def set_eq_iff exI[of _ 0])
  then show ?thesis using STable_Signal_never_signals[OF st(2)] st(1) by auto
qed

end
