(* ===== verification/Process_Table.thy ===== *)
theory Process_Table imports Semaphore_Table begin

text \<open>
  threads/pcblock.cc and threads/ptable.cc: process control blocks and the table of processes. The
  identifier of a process is a slot of the table, and the code takes it from \<open>kernel->currentThread->pid\<close>,
  a field that nothing sets; the operations take what they find there as the argument \<open>cur\<close>.
  An operation runs up to its first call of \<open>P\<close>, \<open>V\<close>, \<open>Fork\<close> or \<open>Finish\<close> and returns the calls that
  follow as tasks, with \<open>Continue\<close> for the code between and after them.
\<close>

section \<open>Process control blocks\<close>

text \<open>A pointer the code may not have initialised, may have set to \<open>NULL\<close>, or to a string on the heap.\<close>

datatype pointer = Garbage | Null | At nat

fun string_pointer :: "pointer \<Rightarrow> nat result" where
  "string_pointer Garbage = Inl Uninitialised"
| "string_pointer Null = Inl NullPointer"
| "string_pointer (At p) = Inr p"

text \<open>\<open>None\<close> in \<open>numwait\<close> and \<open>exitCode\<close> is a field that has not been initialised.\<close>

record pcb =
  joinsemaphore :: nat
  exitsemaphore :: nat
  pcb_mutex :: nat
  pcb_pid :: int
  pcb_file :: pointer
  pcb_thread :: pointer
  numwait :: "int option"
  exitCode :: "int option"
  parentID :: "int option"

definition pcb_semaphores :: "'u kernel \<Rightarrow> (nat \<times> nat \<times> nat) \<times> 'u kernel" where
  "pcb_semaphores k =
     (let (j, k) = Semaphore_new 0 k; (e, k) = Semaphore_new 0 k; (m, k) = Semaphore_new 1 k in ((j, e, m), k))"

definition PCB_new :: "'u kernel \<Rightarrow> pcb \<times> 'u kernel" where
  "PCB_new k =
     (let ((j, e, m), k) = pcb_semaphores k in
      (\<lparr>joinsemaphore = j, exitsemaphore = e, pcb_mutex = m, pcb_pid = - 1, pcb_file = Null, pcb_thread = Null,
        numwait = Some 0, exitCode = Some 0, parentID = Some (- 1)\<rparr>, k))"

text \<open>\<open>PCB(int id)\<close> leaves most fields as they are in the memory it gets.\<close>

definition PCB_first :: "int \<Rightarrow> 'u kernel \<Rightarrow> pcb \<times> 'u kernel" where
  "PCB_first cur k =
     (let ((j, e, m), k) = pcb_semaphores k in
      (\<lparr>joinsemaphore = j, exitsemaphore = e, pcb_mutex = m, pcb_pid = cur, pcb_file = Garbage, pcb_thread = Garbage,
        numwait = None, exitCode = None, parentID = None\<rparr>, k))"

section \<open>The process table\<close>

definition MAX_PROCESS :: nat where "MAX_PROCESS = 10"

record ptable =
  blocks :: "pcb option list"
  totalProcesses :: int
  reception :: bitmap
  pt_semaphore :: nat

definition PTable_new :: "int \<Rightarrow> 'u kernel \<Rightarrow> (ptable \<times> 'u kernel) result" where
  "PTable_new cur k =
     bind_result (Bitmap_new (int MAX_PROCESS)) (\<lambda>b.
       let (s, k) = Semaphore_new 1 k; (p, k) = PCB_first cur k in
       Inr (\<lparr>blocks = Some (p\<lparr>parentID := Some (- 1)\<rparr>) # replicate (MAX_PROCESS - 1) None,
             totalProcesses = int MAX_PROCESS, reception = b, pt_semaphore = s\<rparr>, k))"

definition GetFreeSlot :: "ptable \<Rightarrow> (int \<times> ptable) result" where
  "GetFreeSlot pt = bind_result (Bitmap_FindAndSet (reception pt)) (\<lambda>(s, b). Inr (s, pt\<lparr>reception := b\<rparr>))"

definition IsExist :: "int \<Rightarrow> ptable \<Rightarrow> bool result" where
  "IsExist pid pt =
     (if pid < 0 \<or> pid \<ge> int MAX_PROCESS then Inr False
      else bind_result (arr_get (blocks pt) (nat pid)) (\<lambda>p. Inr (p \<noteq> None)))"

text \<open>\<open>blocks[pid]\<close> where the code follows the pointer.\<close>

definition block_at :: "int \<Rightarrow> ptable \<Rightarrow> pcb result" where
  "block_at pid pt = check (0 \<le> pid) OutOfBounds (bind_result (arr_get (blocks pt) (nat pid)) get)"

definition upd_block :: "int \<Rightarrow> (pcb \<Rightarrow> pcb) \<Rightarrow> ptable \<Rightarrow> ptable" where
  "upd_block pid f pt = pt\<lparr>blocks := (blocks pt)[nat pid := map_option f (blocks pt ! nat pid)]\<rparr>"

section \<open>Where the code goes on\<close>

text \<open>The answer of a system call; the parts of \<open>ExecuteUpdate\<close> and of \<open>Exec\<close>; \<open>numwait++\<close>; the parts
  of \<open>JoinUpdate\<close> and of \<open>ExitUpdate\<close>; the code of a new process.\<close>

definition L_Return :: nat where "L_Return = 0"
definition L_ExecuteUpdate :: nat where "L_ExecuteUpdate = 1"
definition L_Exec :: nat where "L_Exec = 2"
definition L_Exec_body :: nat where "L_Exec_body = 3"
definition L_IncNumWait :: nat where "L_IncNumWait = 4"
definition L_JoinWait :: nat where "L_JoinWait = 5"
definition L_ExitRelease :: nat where "L_ExitRelease = 6"
definition L_ExitCode :: nat where "L_ExitCode = 7"
definition L_Remove :: nat where "L_Remove = 8"
definition StartProcess :: nat where "StartProcess = 9"

abbreviation answer :: "int \<Rightarrow> task" where
  "answer r \<equiv> Code (Continue L_Return [r])"

section \<open>Exec\<close>

text \<open>\<open>ExecuteUpdate\<close> after \<open>semaphore->P()\<close>. The strings are on the heap: that of the caller, and the
  one the block of the current process points to.\<close>

definition ExecuteUpdate :: "string_heap \<Rightarrow> int \<Rightarrow> nat \<Rightarrow> ptable \<Rightarrow> 'u kernel \<Rightarrow> (task list \<times> ptable \<times> 'u kernel) result" where
  "ExecuteUpdate hp cur fileName pt k =
     bind_result (block_at cur pt) (\<lambda>p.
     bind_result (string_pointer (pcb_file p)) (\<lambda>q.
     bind_result (strcmp_equal hp q fileName) (\<lambda>same.
       if same then Inr ([Sem_V (pt_semaphore pt), answer (- 1)], pt, k)
       else bind_result (GetFreeSlot pt) (\<lambda>(slotno, pt).
         if slotno = - 1 then Inr ([Sem_V (pt_semaphore pt), answer (- 1)], pt, k)
         else let (p, k) = PCB_new k in
           bind_result (arr_set (blocks pt) (nat slotno) (Some (p\<lparr>parentID := Some cur\<rparr>))) (\<lambda>bs.
           Inr ([Sem_V (pt_semaphore pt), Code (Continue L_Exec [slotno, int fileName])],
                pt\<lparr>blocks := bs, totalProcesses := totalProcesses pt + 1\<rparr>, k))))))"

text \<open>\<open>PCB::Exec\<close>, up to \<open>mutex->P()\<close> and after it. \<open>strcpy\<close> copies the characters and the terminating
  zero into a buffer of \<open>n\<close> bytes.\<close>

definition PCB_Exec :: "int \<Rightarrow> nat \<Rightarrow> ptable \<Rightarrow> task list result" where
  "PCB_Exec slotno fileName pt =
     bind_result (block_at slotno pt) (\<lambda>p. Inr [Sem_P (pcb_mutex p) None, Code (Continue L_Exec_body [slotno, int fileName])])"

definition strcpy_to :: "nat \<Rightarrow> u8 list \<Rightarrow> u8 list result" where
  "strcpy_to n s = check (length (c_string s) + 1 \<le> n) OutOfBounds (Inr (c_string s @ [0]))"

text \<open>\<open>new_buffer\<close> is where the copy of the name is put, \<open>new_thread_at\<close> the thread object.\<close>

definition PCB_Exec_body :: "string_heap \<Rightarrow> int \<Rightarrow> nat \<Rightarrow> nat \<Rightarrow> nat \<Rightarrow> ptable \<Rightarrow> (task list \<times> string_heap \<times> ptable) result" where
  "PCB_Exec_body hp slotno fileName new_buffer new_thread_at pt =
     bind_result (block_at slotno pt) (\<lambda>p.
     case hp fileName of
       None \<Rightarrow> Inl Uninitialised
     | Some s \<Rightarrow>
         bind_result (strcpy_to (length (c_string s)) s) (\<lambda>copy.
         Inr ([Fork (Proc StartProcess), Sem_V (pcb_mutex p), answer slotno], hp(new_buffer \<mapsto> copy),
              upd_block slotno (\<lambda>p. p\<lparr>pcb_pid := slotno, pcb_file := At new_buffer, pcb_thread := At new_thread_at\<rparr>) pt)))"

section \<open>Join\<close>

definition JoinUpdate :: "int \<Rightarrow> int \<Rightarrow> ptable \<Rightarrow> task list result" where
  "JoinUpdate cur pid pt =
     bind_result (IsExist pid pt) (\<lambda>e.
       if \<not> e then Inr [answer (- 1)]
       else if pid = cur then Inr [answer (- 2)]
       else bind_result (block_at pid pt) (\<lambda>p.
         bind_result (case parentID p of None \<Rightarrow> Inl Uninitialised | Some x \<Rightarrow> Inr x) (\<lambda>parent.
         if parent \<noteq> cur then Inr [answer (- 3)]
         else bind_result (block_at cur pt) (\<lambda>c.
           Inr [Sem_P (pcb_mutex c) None, Code (Continue L_IncNumWait [cur]), Sem_V (pcb_mutex c),
                Code (Continue L_JoinWait [pid])]))))"

definition IncNumWait :: "int \<Rightarrow> ptable \<Rightarrow> ptable" where
  "IncNumWait pid pt = upd_block pid (\<lambda>p. p\<lparr>numwait := map_option (\<lambda>n. n + 1) (numwait p)\<rparr>) pt"

text \<open>The parent waits for the child, lets it go, and reads its exit code.\<close>

definition JoinWait :: "int \<Rightarrow> ptable \<Rightarrow> task list result" where
  "JoinWait pid pt = bind_result (block_at pid pt) (\<lambda>p. Inr [Sem_P (joinsemaphore p) None, Code (Continue L_ExitRelease [pid])])"

definition ExitRelease :: "int \<Rightarrow> ptable \<Rightarrow> task list result" where
  "ExitRelease pid pt = bind_result (block_at pid pt) (\<lambda>p. Inr [Sem_V (exitsemaphore p), Code (Continue L_ExitCode [pid])])"

definition GetExitCode :: "int \<Rightarrow> ptable \<Rightarrow> task list result" where
  "GetExitCode pid pt =
     bind_result (block_at pid pt) (\<lambda>p. case exitCode p of None \<Rightarrow> Inl Uninitialised | Some x \<Rightarrow> Inr [answer x])"

section \<open>Exit\<close>

text \<open>The process with identifier 0 frees its address space and halts the machine. Another one sets its
  exit code, lets a parent that joins go on and waits to be released before its block is removed.\<close>

definition ExitUpdate :: "int \<Rightarrow> int \<Rightarrow> ptable \<Rightarrow> (task list \<times> ptable) result" where
  "ExitUpdate cur code pt =
     (if cur = 0 then Inr ([Shutdown], pt)
      else bind_result (IsExist cur pt) (\<lambda>e.
        if \<not> e then Inr ([answer (- 1)], pt)
        else bind_result (block_at cur pt) (\<lambda>p.
          Inr ([Sem_V (joinsemaphore p), Sem_P (exitsemaphore p) None, Code (Continue L_Remove [cur])],
               upd_block cur (\<lambda>p. p\<lparr>exitCode := Some code\<rparr>) pt))))"

text \<open>\<open>Remove\<close> deletes the block; its destructor frees the name and, when the block has a thread, calls
  \<open>Finish\<close>, which does not return: then the slot is not set to \<open>NULL\<close>.\<close>

definition PTable_Remove :: "int \<Rightarrow> string_heap \<Rightarrow> ptable \<Rightarrow> (task list \<times> string_heap \<times> ptable) result" where
  "PTable_Remove pid hp pt =
     bind_result (IsExist pid pt) (\<lambda>e.
       if \<not> e then Inr ([], hp, pt)
       else bind_result (Bitmap_Clear (reception pt) pid) (\<lambda>b.
         bind_result (block_at pid pt) (\<lambda>p.
         let pt = pt\<lparr>totalProcesses := totalProcesses pt - 1, reception := b\<rparr> in
         bind_result (case pcb_file p of Garbage \<Rightarrow> Inl Uninitialised | Null \<Rightarrow> Inr hp | At q \<Rightarrow> Inr (hp(q := None))) (\<lambda>hp.
         case pcb_thread p of
           Garbage \<Rightarrow> Inl Uninitialised
         | At t \<Rightarrow> Inr ([Finish], hp, pt)
         | Null \<Rightarrow> Inr ([], hp, pt\<lparr>blocks := (blocks pt)[nat pid := None]\<rparr>)))))"

section \<open>Properties\<close>

text \<open>A table whose arrays have their size.\<close>

definition ptable_ok :: "ptable \<Rightarrow> bool" where
  "ptable_ok pt \<longleftrightarrow> length (blocks pt) = MAX_PROCESS \<and> bitmap_ok (reception pt) \<and> numBits (reception pt) = MAX_PROCESS"

definition process_at :: "ptable \<Rightarrow> int \<Rightarrow> pcb option" where
  "process_at pt pid = (if 0 \<le> pid \<and> pid < int MAX_PROCESS then blocks pt ! nat pid else None)"

lemma IsExist_run [simp]: "ptable_ok pt \<Longrightarrow> IsExist pid pt = Inr (process_at pt pid \<noteq> None)"
  by (auto simp: IsExist_def process_at_def ptable_ok_def)

lemma block_at_run: "ptable_ok pt \<Longrightarrow> process_at pt pid = Some p \<Longrightarrow> block_at pid pt = Inr p"
  by (auto simp: block_at_def process_at_def ptable_ok_def get_def split: if_splits)

lemma upd_block_simps:
  "ptable_ok pt \<Longrightarrow> ptable_ok (upd_block pid f pt)"
  "ptable_ok pt \<Longrightarrow> process_at pt pid = Some p \<Longrightarrow>
     process_at (upd_block pid f pt) i = (if i = pid then Some (f p) else process_at pt i)"
  by (auto simp: ptable_ok_def upd_block_def process_at_def nth_list_update nat_eq_iff split: if_splits)

lemma PTable_new_run:
  obtains pt k' p where "PTable_new cur k = Inr (pt, k')" "ptable_ok pt" "pcb_file p = Garbage"
    "process_at pt i = (if i = 0 then Some p else None)"
proof -
  obtain b where b: "Bitmap_new (int MAX_PROCESS) = Inr b" "bitmap_ok b" "numBits b = MAX_PROCESS"
    using Bitmap_new_run[of "int MAX_PROCESS"] by (auto simp: MAX_PROCESS_def)
  let ?s = "Semaphore_new 1 k"
  let ?p = "fst (PCB_first cur (snd ?s))"
  let ?pt = "\<lparr>blocks = Some (?p\<lparr>parentID := Some (- 1)\<rparr>) # replicate (MAX_PROCESS - 1) None,
             totalProcesses = int MAX_PROCESS, reception = b, pt_semaphore = fst ?s\<rparr>"
  have "PTable_new cur k = Inr (?pt, snd (PCB_first cur (snd ?s)))"
    using b(1) by (simp add: PTable_new_def split_beta Let_def)
  moreover have "ptable_ok ?pt" using b(2,3) by (simp add: ptable_ok_def MAX_PROCESS_def)
  moreover have "process_at ?pt i = (if i = 0 then Some (?p\<lparr>parentID := Some (- 1)\<rparr>) else None)"
    by (auto simp: process_at_def MAX_PROCESS_def nth_Cons' nat_eq_iff)
  moreover have "pcb_file (?p\<lparr>parentID := Some (- 1)\<rparr>) = Garbage" by (simp add: PCB_first_def split_beta Let_def)
  ultimately show ?thesis using that by blast
qed

text \<open>C28: \<open>Exec\<close> has no defined behaviour. In the table the kernel starts with, every call of
  \<open>ExecuteUpdate\<close> follows a pointer that does not point to anything: the file name of the first process
  is not initialised, and no other process exists. And in any table \<open>PCB::Exec\<close>, once it has its mutex,
  copies a file name into a buffer that is one byte too short for it.\<close>

theorem Exec_undefined:
  assumes "PTable_new cur0 k0 = Inr (pt, k1)"
  shows "(\<exists>e. ExecuteUpdate hp cur fileName pt k = Inl e \<and> (cur = 0 \<longrightarrow> e = Uninitialised))
    \<and> (\<exists>e. PCB_Exec_body hp slotno fileName new_buffer new_thread_at pt' = Inl e
          \<and> (block_at slotno pt' \<noteq> Inl e \<longrightarrow> hp fileName \<noteq> None \<longrightarrow> e = OutOfBounds))"
proof
  obtain pt1 k2 p where n: "PTable_new cur0 k0 = Inr (pt1, k2)" "ptable_ok pt1" "pcb_file p = Garbage"
    "process_at pt1 cur = (if cur = 0 then Some p else None)" by (rule PTable_new_run)
  have "pt1 = pt" using assms n(1) by simp
  note pt = n(2-4)[unfolded this]
  show "\<exists>e. ExecuteUpdate hp cur fileName pt k = Inl e \<and> (cur = 0 \<longrightarrow> e = Uninitialised)"
  proof (cases "cur = 0")
    case True
    then show ?thesis using pt block_at_run[OF pt(1), of 0 p] by (simp add: ExecuteUpdate_def)
  next
    case False
    then have "\<exists>e. block_at cur pt = Inl e"
      using pt(1,3) by (auto simp: block_at_def process_at_def ptable_ok_def check_def arr_get_def get_def split: if_splits)
    then show ?thesis using False by (auto simp: ExecuteUpdate_def)
  qed
  show "\<exists>e. PCB_Exec_body hp slotno fileName new_buffer new_thread_at pt' = Inl e
      \<and> (block_at slotno pt' \<noteq> Inl e \<longrightarrow> hp fileName \<noteq> None \<longrightarrow> e = OutOfBounds)"
    by (cases "block_at slotno pt'"; cases "hp fileName") (auto simp: PCB_Exec_body_def strcpy_to_def)
qed

theorem Exec_undefined_witness:
  "\<exists>pt k. PTable_new 7 (boot_kernel (Proc 0) ()) = Inr (pt, k)
     \<and> ExecuteUpdate (\<lambda>_. Some [97, 0]) 0 1 pt k = Inl Uninitialised"
proof -
  obtain pt k where pt: "PTable_new 7 (boot_kernel (Proc 0) ()) = Inr (pt, k)"
    by (rule PTable_new_run)
  from Exec_undefined[OF this, of "\<lambda>_. Some [97, 0]" 0 1 k] pt show ?thesis by auto
qed



end
