(* ===== verification/Coff2Noff.thy ===== *)
theory Coff2Noff imports Addr_Space begin

text \<open>
  coff2noff/coff2noff.c, beside the directory code: the converter that makes of the COFF file of the cross compiler the executable that
  \<open>AddrSpace::Load\<close> reads. It is built for 32 bits with \<open>RDATA\<close> defined, so a \<open>long\<close> is a 32-bit word; \<open>exit\<close> after an
  error, with the output unlinked, is the left side of the result. The file it writes is never refused by the host.
\<close>

section \<open>COFF files\<close>

datatype exit_error = TooShort | NotMipsel | NotOmagic | BothBss | UnknownSegment

definition MIPSELMAGIC :: u16 where "MIPSELMAGIC = 0x0162"
definition OMAGIC :: u16 where "OMAGIC = 263"
definition sizeof_filehdr :: nat where "sizeof_filehdr = 20"
definition sizeof_aouthdr :: nat where "sizeof_aouthdr = 56"
definition sizeof_scnhdr :: nat where "sizeof_scnhdr = 40"

record scnhdr =
  s_name :: "u8 list"
  s_paddr :: u32
  s_size :: u32
  s_scnptr :: u32

definition short_at :: "u8 list \<Rightarrow> nat \<Rightarrow> u16" where
  "short_at bs p = le_word16 (bs ! p) (bs ! (p + 1))"

definition scnhdr_at :: "u8 list \<Rightarrow> nat \<Rightarrow> scnhdr" where
  "scnhdr_at bs p = \<lparr>s_name = take 8 (drop p bs), s_paddr = int_at bs (p + 8), s_size = int_at bs (p + 16),
     s_scnptr = int_at bs (p + 20)\<rparr>"

text \<open>\<open>.text\<close>, \<open>.data\<close>, \<open>.rdata\<close> and \<open>.bss\<close>.\<close>

definition dot_text :: "u8 list" where "dot_text = [46, 116, 101, 120, 116]"
definition dot_data :: "u8 list" where "dot_data = [46, 100, 97, 116, 97]"
definition dot_rdata :: "u8 list" where "dot_rdata = [46, 114, 100, 97, 116, 97]"
definition dot_bss :: "u8 list" where "dot_bss = [46, 98, 115, 115]"

lemmas segment_names = dot_text_def dot_data_def dot_rdata_def dot_bss_def

section \<open>The conversion\<close>

text \<open>\<open>Read\<close> at the position of the input file. The host answers -1 to a negative count, which is what a count of -1
  is compared with.\<close>

definition Read :: "u8 list \<Rightarrow> nat \<Rightarrow> u32 \<Rightarrow> exit_error + u8 list \<times> nat" where
  "Read coff pos n =
     (if sint n < 0 then if n = - 1 then Inr ([], pos) else Inl TooShort
      else let bs = take (unat n) (drop pos coff)
        in if length bs < unat n then Inl TooShort else Inr (bs, pos + unat n))"

definition seek_to :: "u32 \<Rightarrow> nat \<Rightarrow> nat" where
  "seek_to p pos = (if sint p < 0 then pos else unat p)"

text \<open>The locals of \<open>main\<close>, with the position of the input and what was written behind the header.\<close>

record conversion =
  in_pos :: nat
  noffH :: NoffHeader
  inNoffFile :: u32
  written :: "u8 list"

definition copy_section :: "u8 list \<Rightarrow> scnhdr \<Rightarrow> conversion \<Rightarrow> exit_error + conversion" where
  "copy_section coff s c =
     bind_result (Read coff (seek_to (s_scnptr s) (in_pos c)) (s_size s)) (\<lambda>(bytes, pos).
     Inr (c\<lparr>in_pos := pos, written := written c @ bytes, inNoffFile := inNoffFile c + s_size s\<rparr>))"

definition segment_of :: "scnhdr \<Rightarrow> conversion \<Rightarrow> Segment" where
  "segment_of s c = \<lparr>virtualAddr = s_paddr s, inFileAddr = inNoffFile c, seg_size = s_size s\<rparr>"

definition add_bss :: "scnhdr \<Rightarrow> conversion \<Rightarrow> exit_error + conversion" where
  "add_bss s c =
     (let u = uninitData (noffH c) in
      if seg_size u \<noteq> 0 then
        if s_paddr s = virtualAddr u + seg_size u then Inl BothBss
        else Inr (c\<lparr>noffH := (noffH c)\<lparr>uninitData := u\<lparr>seg_size := seg_size u + s_size s\<rparr>\<rparr>\<rparr>)
      else Inr (c\<lparr>noffH := (noffH c)\<lparr>uninitData := u\<lparr>virtualAddr := s_paddr s, seg_size := s_size s\<rparr>\<rparr>\<rparr>))"

definition convert_section :: "u8 list \<Rightarrow> scnhdr \<Rightarrow> conversion \<Rightarrow> exit_error + conversion" where
  "convert_section coff s c =
     (let name = c_string (s_name s) in
      if s_size s = 0 then Inr c
      else if name = dot_text then copy_section coff s (c\<lparr>noffH := (noffH c)\<lparr>code_seg := segment_of s c\<rparr>\<rparr>)
      else if name = dot_data then copy_section coff s (c\<lparr>noffH := (noffH c)\<lparr>initData := segment_of s c\<rparr>\<rparr>)
      else if name = dot_rdata then copy_section coff s (c\<lparr>noffH := (noffH c)\<lparr>readonlyData := segment_of s c\<rparr>\<rparr>)
      else if name = dot_bss then add_bss s c
      else Inl UnknownSegment)"

fun convert_sections :: "u8 list \<Rightarrow> scnhdr list \<Rightarrow> conversion \<Rightarrow> exit_error + conversion" where
  "convert_sections coff [] c = Inr c"
| "convert_sections coff (s # ss) c = bind_result (convert_section coff s c) (convert_sections coff ss)"

text \<open>The header starts with what the stack held, but for the magic number and the sizes.\<close>

definition NoffHeader_start :: "NoffHeader \<Rightarrow> NoffHeader" where
  "NoffHeader_start g =
     g\<lparr>noffMagic := NOFFMAGIC, code_seg := (code_seg g)\<lparr>seg_size := 0\<rparr>, initData := (initData g)\<lparr>seg_size := 0\<rparr>,
       uninitData := (uninitData g)\<lparr>seg_size := 0\<rparr>, readonlyData := (readonlyData g)\<lparr>seg_size := 0\<rparr>\<rparr>"

definition Segment_bytes :: "Segment \<Rightarrow> u8 list" where
  "Segment_bytes s = word_bytes (virtualAddr s) @ word_bytes (inFileAddr s) @ word_bytes (seg_size s)"

definition NoffHeader_bytes :: "NoffHeader \<Rightarrow> u8 list" where
  "NoffHeader_bytes h = word_bytes (noffMagic h) @ Segment_bytes (code_seg h) @ Segment_bytes (initData h)
     @ Segment_bytes (readonlyData h) @ Segment_bytes (uninitData h)"

text \<open>The headers of the input: the section headers, and the position behind them.\<close>

definition read_sections :: "u8 list \<Rightarrow> exit_error + scnhdr list \<times> nat" where
  "read_sections coff =
     bind_result (Read coff 0 (of_nat sizeof_filehdr)) (\<lambda>(fileh, pos).
     if short_at fileh 0 \<noteq> MIPSELMAGIC then Inl NotMipsel
     else bind_result (Read coff pos (of_nat sizeof_aouthdr)) (\<lambda>(systemh, pos).
     if short_at systemh 0 \<noteq> OMAGIC then Inl NotOmagic
     else let numsections = unat (short_at fileh 2) in
       bind_result (Read coff pos (of_nat (numsections * sizeof_scnhdr))) (\<lambda>(bs, pos).
       Inr (map (\<lambda>i. scnhdr_at bs (sizeof_scnhdr * i)) [0..<numsections], pos))))"

definition coff2noff :: "NoffHeader \<Rightarrow> u8 list \<Rightarrow> exit_error + u8 list" where
  "coff2noff g coff =
     bind_result (read_sections coff) (\<lambda>(sections, pos).
     bind_result (convert_sections coff sections
       \<lparr>in_pos = pos, noffH = NoffHeader_start g, inNoffFile = of_nat sizeof_NoffHeader, written = []\<rparr>) (\<lambda>c.
     Inr (NoffHeader_bytes (SwapHeader (noffH c)) @ written c)))"

section \<open>What is written is what is read\<close>

lemma NoffHeader_bytes_at: "NoffHeader_at (NoffHeader_bytes h @ rest) = Inr h"
  by (cases h) (simp add: NoffHeader_at_def NoffHeader_bytes_def Segment_bytes_def Segment_at_def int_at_def word_bytes_def
      sizeof_NoffHeader_def check_def le_word32_of_bytes[unfolded One_nat_def])

lemma length_NoffHeader_bytes [simp]: "length (NoffHeader_bytes h) = sizeof_NoffHeader"
  by (simp add: NoffHeader_bytes_def Segment_bytes_def sizeof_NoffHeader_def)

lemma SwapHeader_id [simp]: "SwapHeader h = h"
  by (simp add: SwapHeader_def swap_Segment_def WordToHost_def)

text \<open>The sections that count are those of a name that are not empty, and of these the last.\<close>

definition named :: "u8 list \<Rightarrow> scnhdr list \<Rightarrow> scnhdr list" where
  "named name ss = filter (\<lambda>s. c_string (s_name s) = name \<and> s_size s \<noteq> 0) ss"

definition copied_to :: "u8 list \<Rightarrow> u8 list \<Rightarrow> scnhdr list \<Rightarrow> Segment \<Rightarrow> bool" where
  "copied_to coff noff ss seg \<longleftrightarrow>
     (if ss = [] then seg_size seg = 0
      else let s = last ss; n = unat (s_size s) in
        virtualAddr seg = s_paddr s \<and> seg_size seg = s_size s \<and> unat (inFileAddr seg) + n \<le> length noff
        \<and> take n (drop (unat (inFileAddr seg)) noff) = take n (drop (unat (s_scnptr s)) coff))"

lemma copied_to_append: "copied_to coff noff ss seg \<Longrightarrow> copied_to coff (noff @ rest) ss seg"
  by (auto simp: copied_to_def Let_def)

lemma copied_to_new:
  assumes "Read coff (seek_to (s_scnptr s) pos) (s_size s) = Inr (bytes, pos')" "0 \<le> sint (s_size s)" "0 \<le> sint (s_scnptr s)"
    "inNoffFile c = of_nat (length noff)" "length noff < 2 ^ 32"
  shows "copied_to coff (noff @ bytes) (ss @ [s]) (segment_of s c)" "length bytes = unat (s_size s)"
proof -
  have b: "bytes = take (unat (s_size s)) (drop (unat (s_scnptr s)) coff)" "length bytes = unat (s_size s)"
    using assms(1,2,3) by (auto simp: Read_def seek_to_def Let_def split: if_splits)
  have "unat (inNoffFile c) = length noff" using assms(4,5) by (simp add: unat_of_nat take_bit_nat_eq_self)
  then show "copied_to coff (noff @ bytes) (ss @ [s]) (segment_of s c)"
    using b by (simp add: copied_to_def segment_of_def)
  show "length bytes = unat (s_size s)" by (rule b(2))
qed

text \<open>What holds of the conversion after the sections \<open>done\<close>, when the output so far is \<open>noff\<close>.\<close>

definition converted :: "u8 list \<Rightarrow> u8 list \<Rightarrow> scnhdr list \<Rightarrow> conversion \<Rightarrow> bool" where
  "converted coff noff ss c \<longleftrightarrow> inNoffFile c = of_nat (length noff) \<and> noffMagic (noffH c) = NOFFMAGIC
     \<and> copied_to coff noff (named dot_text ss) (code_seg (noffH c))
     \<and> copied_to coff noff (named dot_data ss) (initData (noffH c))
     \<and> copied_to coff noff (named dot_rdata ss) (readonlyData (noffH c))
     \<and> seg_size (uninitData (noffH c)) = sum_list (map s_size (named dot_bss ss))"

lemma names_distinct [simp]:
  "dot_text \<noteq> dot_data" "dot_text \<noteq> dot_rdata" "dot_text \<noteq> dot_bss" "dot_data \<noteq> dot_rdata" "dot_data \<noteq> dot_bss"
  "dot_rdata \<noteq> dot_bss" "dot_data \<noteq> dot_text" "dot_rdata \<noteq> dot_text" "dot_bss \<noteq> dot_text" "dot_rdata \<noteq> dot_data"
  "dot_bss \<noteq> dot_data" "dot_bss \<noteq> dot_rdata"
  by (simp_all add: segment_names)

lemma convert_section_step:
  assumes "convert_section coff s c = Inr c'" "converted coff (pre @ written c) ss c"
    "0 \<le> sint (s_size s)" "0 \<le> sint (s_scnptr s)" "length (pre @ written c) < 2 ^ 32"
  shows "converted coff (pre @ written c') (ss @ [s]) c'" "\<exists>w. written c' = written c @ w"
proof -
  have copied: "converted coff (pre @ written c') (ss @ [s]) c' \<and> (\<exists>w. written c' = written c @ w)"
    if r: "copy_section coff s (c\<lparr>noffH := h\<rparr>) = Inr c'" and n: "s_size s \<noteq> 0" "c_string (s_name s) = name"
      and seg: "name = dot_text \<and> h = (noffH c)\<lparr>code_seg := segment_of s c\<rparr> \<or> name = dot_data \<and> h = (noffH c)\<lparr>initData := segment_of s c\<rparr>
        \<or> name = dot_rdata \<and> h = (noffH c)\<lparr>readonlyData := segment_of s c\<rparr>" for h name
  proof -
    obtain bytes pos where b: "Read coff (seek_to (s_scnptr s) (in_pos c)) (s_size s) = Inr (bytes, pos)"
      "c' = c\<lparr>noffH := h, in_pos := pos, written := written c @ bytes, inNoffFile := inNoffFile c + s_size s\<rparr>"
      using r by (auto simp: copy_section_def outcome_simps)
    have k: "inNoffFile c = of_nat (length (pre @ written c))" using assms(2) by (simp add: converted_def)
    note new = copied_to_new[OF b(1) assms(3,4) k assms(5)]
    have "inNoffFile c' = of_nat (length (pre @ written c'))" using k new(2) by (simp add: b(2))
    then show ?thesis
      using assms(2) seg n new(1) copied_to_append[of coff "pre @ written c" _ _ bytes]
      by (auto simp: converted_def named_def b(2))
  qed
  have "converted coff (pre @ written c') (ss @ [s]) c' \<and> (\<exists>w. written c' = written c @ w)"
  proof -
    consider "s_size s = 0" "c' = c" | (copy) name h where "s_size s \<noteq> 0" "c_string (s_name s) = name"
      "copy_section coff s (c\<lparr>noffH := h\<rparr>) = Inr c'" "name = dot_text \<and> h = (noffH c)\<lparr>code_seg := segment_of s c\<rparr>
        \<or> name = dot_data \<and> h = (noffH c)\<lparr>initData := segment_of s c\<rparr> \<or> name = dot_rdata \<and> h = (noffH c)\<lparr>readonlyData := segment_of s c\<rparr>"
      | (bss) "s_size s \<noteq> 0" "c_string (s_name s) = dot_bss" "add_bss s c = Inr c'"
      using assms(1) unfolding convert_section_def Let_def by (auto split: if_splits)
    then show ?thesis
    proof cases
      case 1
      then show ?thesis using assms(2) by (simp add: converted_def named_def)
    next
      case copy
      then show ?thesis by (intro copied[OF copy(3,1,2,4)])
    next
      case bss
      then have "written c' = written c" "inNoffFile c' = inNoffFile c" "noffMagic (noffH c') = noffMagic (noffH c)"
        "code_seg (noffH c') = code_seg (noffH c)" "initData (noffH c') = initData (noffH c)"
        "readonlyData (noffH c') = readonlyData (noffH c)"
        "seg_size (uninitData (noffH c')) = seg_size (uninitData (noffH c)) + s_size s"
        by (auto simp: add_bss_def Let_def split: if_splits)
      then show ?thesis using assms(2) bss(1,2) by (simp add: converted_def named_def)
    qed
  qed
  then show "converted coff (pre @ written c') (ss @ [s]) c'" "\<exists>w. written c' = written c @ w" by blast+
qed

lemma convert_section_grows: "convert_section coff s c = Inr c' \<Longrightarrow> \<exists>w. written c' = written c @ w"
  by (auto simp: convert_section_def Let_def copy_section_def add_bss_def outcome_simps split: if_splits)

lemma convert_sections_grow: "convert_sections coff ss c = Inr c' \<Longrightarrow> \<exists>w. written c' = written c @ w"
proof (induction ss arbitrary: c)
  case (Cons s ss)
  then obtain c1 where c1: "convert_section coff s c = Inr c1" "convert_sections coff ss c1 = Inr c'"
    by (auto simp: outcome_simps)
  show ?case using convert_section_grows[OF c1(1)] Cons.IH[OF c1(2)] by auto
qed simp

lemma convert_sections_converted:
  assumes "convert_sections coff ss c = Inr c'" "converted coff (pre @ written c) ss0 c"
    "\<forall>s \<in> set ss. 0 \<le> sint (s_size s) \<and> 0 \<le> sint (s_scnptr s)" "length (pre @ written c') < 2 ^ 32"
  shows "converted coff (pre @ written c') (ss0 @ ss) c'"
  using assms
proof (induction ss arbitrary: c ss0)
  case (Cons s ss)
  then obtain c1 where c1: "convert_section coff s c = Inr c1" "convert_sections coff ss c1 = Inr c'"
    by (auto simp: outcome_simps)
  obtain w1 w2 where "written c1 = written c @ w1" "written c' = written c1 @ w2"
    using convert_section_grows[OF c1(1)] convert_sections_grow[OF c1(2)] by blast
  then have "length (pre @ written c) < 2 ^ 32" using Cons.prems(4) by simp
  then have "converted coff (pre @ written c1) (ss0 @ [s]) c1"
    using convert_section_step(1)[OF c1(1) Cons.prems(2)] Cons.prems(3) by simp
  from Cons.IH[OF c1(2) this] show ?case using Cons.prems(3,4) by simp
qed simp

lemma Load_header_reads:
  assumes "names h name = Some node" "nodes h node = NoffHeader_bytes hdr @ body" "noffMagic hdr = NOFFMAGIC"
    "first_below (\<lambda>fd. descriptors h fd = None) (fd_limit h) = Some fd"
  shows "\<exists>f h'. Load_header name h = Inr (Some (f, hdr), h') \<and> file_of f h' = Some (nodes h node)"
proof -
  let ?f = "\<lparr>file_id = int fd, currentOffset = 0\<rparr>"
  let ?h = "h\<lparr>descriptors := (descriptors h)(fd \<mapsto> (node, 0))\<rparr>"
  have o: "FileSystem_Open name h = (Some ?f, ?h)"
    using assms(1,4) by (simp add: FileSystem_Open_def OpenForReadWrite_def new_descriptor_def)
  obtain h' where r: "OpenFile_ReadAt ?f (int sizeof_NoffHeader) 0 ?h =
      ((int (length (NoffHeader_bytes hdr)), NoffHeader_bytes hdr), h')" "file_of ?f h' = Some (nodes h node)"
    by (rule ReadAt_run[of ?f ?h "nodes h node" "int sizeof_NoffHeader" 0]) (simp_all add: file_of_def assms(2))
  have "NoffHeader_at (NoffHeader_bytes hdr) = Inr hdr" using NoffHeader_bytes_at[of hdr "[]"] by simp
  then show ?thesis using o r assms(3) by (auto simp: Load_header_def check_def)
qed

section \<open>Properties\<close>

text \<open>C22: What the converter makes is what the kernel loads. When the conversion of a COFF file succeeds (and no size
  or file address of a section is negative, and the result is shorter than 4 GB), \<open>Load\<close>
  accepts the header of the result. The segments of this header are those of the last nonempty sections of their names:
  they go to the address of the section and the result holds for them the bytes that the COFF file has for the
  section; a segment without a section is empty. The size of the uninitialised data is that of all the \<open>.bss\<close> sections.\<close>

theorem converted_loads:
  assumes "read_sections coff = Inr (sections, pos)" "coff2noff g coff = Inr noff" "length noff < 2 ^ 32"
    "\<forall>s \<in> set sections. 0 \<le> sint (s_size s) \<and> 0 \<le> sint (s_scnptr s)"
  shows "\<exists>hdr. (\<forall>h name node fd. names h name = Some node \<longrightarrow> nodes h node = noff \<longrightarrow>
        first_below (\<lambda>fd. descriptors h fd = None) (fd_limit h) = Some fd \<longrightarrow>
        (\<exists>f h'. Load_header name h = Inr (Some (f, hdr), h') \<and> file_of f h' = Some noff))
    \<and> copied_to coff noff (named dot_text sections) (code_seg hdr) \<and> copied_to coff noff (named dot_data sections) (initData hdr)
    \<and> copied_to coff noff (named dot_rdata sections) (readonlyData hdr)
    \<and> seg_size (uninitData hdr) = sum_list (map s_size (named dot_bss sections))"
proof -
  let ?c = "\<lparr>in_pos = pos, noffH = NoffHeader_start g, inNoffFile = of_nat sizeof_NoffHeader, written = []\<rparr>"
  obtain c where c: "convert_sections coff sections ?c = Inr c" "noff = NoffHeader_bytes (noffH c) @ written c"
    using assms(1,2) by (auto simp: coff2noff_def outcome_simps)
  have "converted coff (NoffHeader_bytes (noffH c) @ written ?c) [] ?c"
    by (simp add: converted_def named_def copied_to_def NoffHeader_start_def)
  from convert_sections_converted[OF c(1) this assms(4)] have k: "converted coff noff sections c"
    using c(2) assms(3) by simp
  have "\<exists>f h'. Load_header name h = Inr (Some (f, noffH c), h') \<and> file_of f h' = Some noff"
    if "names h name = Some node" "nodes h node = noff" "first_below (\<lambda>fd. descriptors h fd = None) (fd_limit h) = Some fd"
    for h name node fd
    using Load_header_reads[OF that(1) _ _ that(3), of "noffH c" "written c"] that(2) c(2) k by (simp add: converted_def)
  then show ?thesis using k unfolding converted_def by blast
qed

text \<open>A COFF file with one section, of four bytes of code.\<close>

definition coff_example :: "u8 list" where
  "coff_example = [0x62, 1, 1, 0] @ replicate 16 0 @ [7, 1] @ replicate 54 0 @ dot_text @ replicate 11 0
     @ [4, 0, 0, 0, 116, 0, 0, 0] @ replicate 16 0 @ [1, 2, 3, 4]"

lemma coff_example_sections:
  "read_sections coff_example = Inr ([\<lparr>s_name = dot_text @ [0, 0, 0], s_paddr = 0, s_size = 4, s_scnptr = 116\<rparr>], 116)"
  by code_simp

lemma coff_example_data: "Read coff_example 116 4 = Inr ([1, 2, 3, 4], 120)"
  by code_simp

theorem converted_loads_witness:
  "\<forall>g. \<exists>noff (hdr :: NoffHeader). coff2noff g coff_example = Inr noff \<and> take 4 (drop (unat (inFileAddr (code_seg hdr))) noff) = [1, 2, 3, 4]
     \<and> seg_size (initData hdr) = 0"
proof
  fix g
  let ?s = "\<lparr>s_name = dot_text @ [0, 0, 0], s_paddr = 0, s_size = 4, s_scnptr = 116\<rparr>"
  have n: "c_string (s_name ?s) = dot_text" by (simp add: c_string_def dot_text_def)
  obtain noff where c: "coff2noff g coff_example = Inr noff" "length noff = 56"
    using coff_example_data n
    by (auto simp: coff2noff_def coff_example_sections convert_section_def copy_section_def seek_to_def Let_def sizeof_NoffHeader_def)
  have named: "named dot_text [?s] = [?s]" "named dot_data [?s] = []" using n by (auto simp: named_def)
  have d: "take 4 (drop 116 coff_example) = [1, 2, 3, 4]" using coff_example_data by (simp add: Read_def Let_def split: if_splits)
  have "\<exists>hdr :: NoffHeader. copied_to coff_example noff [?s] (code_seg hdr) \<and> copied_to coff_example noff [] (initData hdr)"
    using converted_loads[OF coff_example_sections c(1)] c(2) unfolding named by auto
  then show "\<exists>noff (hdr :: NoffHeader). coff2noff g coff_example = Inr noff
      \<and> take 4 (drop (unat (inFileAddr (code_seg hdr))) noff) = [1, 2, 3, 4] \<and> seg_size (initData hdr) = 0"
    using c(1) d by (auto simp: copied_to_def Let_def)
qed

section \<open>Uninitialised data\<close>

text \<open>The comment says that two sections of uninitialised data have to be contiguous. Those that are make the
  conversion fail, others are taken for one segment at the address of the first. A section of the name \<open>.sbss\<close>, which
  the comments mention, is unknown.\<close>

lemma add_bss_contiguous:
  assumes "seg_size (uninitData (noffH c)) \<noteq> 0"
  shows "s_paddr s = virtualAddr (uninitData (noffH c)) + seg_size (uninitData (noffH c)) \<Longrightarrow> add_bss s c = Inl BothBss"
    "s_paddr s \<noteq> virtualAddr (uninitData (noffH c)) + seg_size (uninitData (noffH c)) \<Longrightarrow>
      \<exists>c'. add_bss s c = Inr c' \<and> virtualAddr (uninitData (noffH c')) = virtualAddr (uninitData (noffH c))
        \<and> seg_size (uninitData (noffH c')) = seg_size (uninitData (noffH c)) + s_size s"
  using assms by (simp_all add: add_bss_def Let_def)

lemma sbss_unknown:
  "c_string (s_name s) = [46, 115, 98, 115, 115] \<Longrightarrow> s_size s \<noteq> 0 \<Longrightarrow> convert_section coff s c = Inl UnknownSegment"
  by (simp add: convert_section_def segment_names Let_def)

end
