(* ===== verification/Sector_Files.thy ===== *)
theory Sector_Files imports Bitmap Devices begin

text \<open>
  Files on the simulated disk: filesys/synchdisk.cc as its callers see it, filesys/filehdr.cc,
  filesys/openfile.cc and filesys/pbitmap.cc. The disk is an array of sectors; a file header is a sector
  with the length of a file and the numbers of its data sectors; an open file is a header in memory and a
  position. The build defines \<open>FILESYS_STUB\<close>, which leaves this code out of the kernel in favour of the
  stub of theory Host_Files; it is modelled as it is written.
\<close>

section \<open>Buffers\<close>

text \<open>\<open>bcopy(bytes, &buf[off], n)\<close> and the converse; outside the buffer C++ defines nothing.\<close>

definition blit :: "int \<Rightarrow> u8 list \<Rightarrow> u8 list \<Rightarrow> u8 list result" where
  "blit off bytes buf =
     check (0 \<le> off \<and> off + int (length bytes) \<le> int (length buf)) OutOfBounds
       (Inr (take (nat off) buf @ bytes @ drop (nat off + length bytes) buf))"

definition slice :: "int \<Rightarrow> int \<Rightarrow> u8 list \<Rightarrow> u8 list result" where
  "slice off n buf =
     check (0 \<le> off \<and> 0 \<le> n \<and> off + n \<le> int (length buf)) OutOfBounds (Inr (take (nat n) (drop (nat off) buf)))"

text \<open>A C \<open>int\<close> that a sum may have wrapped, and arrays of them in memory.\<close>

definition c_int :: "int \<Rightarrow> int" where
  "c_int x = sint (of_int x :: u32)"

definition ints_bytes :: "int list \<Rightarrow> u8 list" where
  "ints_bytes xs = concat (map (\<lambda>x. word_bytes (of_int x)) xs)"

definition words_of :: "u8 list \<Rightarrow> u32 list" where
  "words_of bs = map (\<lambda>k. word_at bs (4 * k)) [0..<length bs div 4]"

section \<open>The disk\<close>

type_synonym sectors = "nat \<Rightarrow> u8 list"

text \<open>\<open>SynchDisk\<close>: a request of the disk and the wait for its interrupt, under a lock.\<close>

definition SynchDisk_ReadSector :: "int \<Rightarrow> sectors \<Rightarrow> u8 list result" where
  "SynchDisk_ReadSector n d = c_assert (0 \<le> n \<and> n < NumSectors) (Inr (d (nat n)))"

definition SynchDisk_WriteSector :: "int \<Rightarrow> u8 list \<Rightarrow> sectors \<Rightarrow> sectors result" where
  "SynchDisk_WriteSector n data d = c_assert (0 \<le> n \<and> n < NumSectors) (Inr (d(nat n := data)))"

section \<open>File headers\<close>

definition NumDirect :: nat where "NumDirect = (SectorSize - 2 * 4) div 4"
definition MaxFileSize :: nat where "MaxFileSize = NumDirect * SectorSize"

record FileHeader =
  numBytes :: int
  numSectors :: int
  dataSectors :: "int list"

text \<open>A header in memory is its two counts and the array, as they lie in a sector.\<close>

definition FileHeader_bytes :: "FileHeader \<Rightarrow> u8 list" where
  "FileHeader_bytes hdr = ints_bytes (numBytes hdr # numSectors hdr # dataSectors hdr)"

definition FileHeader_of :: "u8 list \<Rightarrow> FileHeader" where
  "FileHeader_of bs =
     (let xs = map sint (words_of bs)
      in \<lparr>numBytes = xs ! 0, numSectors = xs ! 1, dataSectors = drop 2 xs\<rparr>)"

text \<open>\<open>new FileHeader\<close> initialises nothing: \<open>junk\<close> is what the memory holds.\<close>

definition FileHeader_new :: "(nat \<Rightarrow> u8) \<Rightarrow> FileHeader" where
  "FileHeader_new junk = FileHeader_of (map junk [0..<SectorSize])"

fun Allocate_loop :: "nat \<Rightarrow> nat \<Rightarrow> int list \<Rightarrow> bitmap \<Rightarrow> (int list \<times> bitmap) result" where
  "Allocate_loop i 0 ds b = Inr (ds, b)"
| "Allocate_loop i (Suc k) ds b =
     bind_result (Bitmap_FindAndSet b) (\<lambda>(s, b).
     bind_result (arr_set ds i s) (\<lambda>ds.
     c_assert (s \<ge> 0) (Allocate_loop (Suc i) k ds b)))"

definition FileHeader_Allocate :: "FileHeader \<Rightarrow> bitmap \<Rightarrow> int \<Rightarrow> (bool \<times> FileHeader \<times> bitmap) result" where
  "FileHeader_Allocate hdr freeMap fileSize =
     (let n = c_div fileSize (int SectorSize) + (if c_mod fileSize (int SectorSize) > 0 then 1 else 0);
          hdr = hdr\<lparr>numBytes := fileSize, numSectors := n\<rparr>
      in bind_result (Bitmap_NumClear freeMap) (\<lambda>clear.
         if clear < n then Inr (False, hdr, freeMap)
         else bind_result (Allocate_loop 0 (nat n) (dataSectors hdr) freeMap) (\<lambda>(ds, freeMap).
              Inr (True, hdr\<lparr>dataSectors := ds\<rparr>, freeMap))))"

fun Deallocate_loop :: "nat \<Rightarrow> nat \<Rightarrow> int list \<Rightarrow> bitmap \<Rightarrow> bitmap result" where
  "Deallocate_loop i 0 ds b = Inr b"
| "Deallocate_loop i (Suc k) ds b =
     bind_result (arr_get ds i) (\<lambda>s.
     bind_result (Bitmap_Test b s) (\<lambda>t. c_assert t
    (bind_result (Bitmap_Clear b s) (Deallocate_loop (Suc i) k ds))))"

definition FileHeader_Deallocate :: "FileHeader \<Rightarrow> bitmap \<Rightarrow> bitmap result" where
  "FileHeader_Deallocate hdr freeMap = Deallocate_loop 0 (nat (numSectors hdr)) (dataSectors hdr) freeMap"

definition FileHeader_FetchFrom :: "int \<Rightarrow> sectors \<Rightarrow> FileHeader result" where
  "FileHeader_FetchFrom sector d = bind_result (SynchDisk_ReadSector sector d) (\<lambda>bs. Inr (FileHeader_of bs))"

definition FileHeader_WriteBack :: "FileHeader \<Rightarrow> int \<Rightarrow> sectors \<Rightarrow> sectors result" where
  "FileHeader_WriteBack hdr sector d = SynchDisk_WriteSector sector (FileHeader_bytes hdr) d"

definition ByteToSector :: "FileHeader \<Rightarrow> int \<Rightarrow> int result" where
  "ByteToSector hdr offset =
     (let i = c_div offset (int SectorSize)
      in check (0 \<le> i) OutOfBounds (arr_get (dataSectors hdr) (nat i)))"

definition FileLength :: "FileHeader \<Rightarrow> int" where
  "FileLength hdr = numBytes hdr"

section \<open>Open files\<close>

record sector_file =
  file_hdr :: FileHeader
  seekPosition :: int

definition File_open :: "int \<Rightarrow> sectors \<Rightarrow> sector_file result" where
  "File_open sector d =
     bind_result (FileHeader_FetchFrom sector d) (\<lambda>hdr. Inr \<lparr>file_hdr = hdr, seekPosition = 0\<rparr>)"

definition File_Seek :: "int \<Rightarrow> sector_file \<Rightarrow> sector_file" where
  "File_Seek position f = f\<lparr>seekPosition := position\<rparr>"

text \<open>The loops over the sectors of a request, which are copied to or from a buffer.\<close>

fun read_sectors :: "FileHeader \<Rightarrow> int \<Rightarrow> nat \<Rightarrow> sectors \<Rightarrow> u8 list result" where
  "read_sectors hdr i 0 d = Inr []"
| "read_sectors hdr i (Suc k) d =
     bind_result (ByteToSector hdr (i * int SectorSize)) (\<lambda>s.
     bind_result (SynchDisk_ReadSector s d) (\<lambda>bytes.
     bind_result (read_sectors hdr (i + 1) k d) (\<lambda>rest. Inr (bytes @ rest))))"

fun write_sectors :: "FileHeader \<Rightarrow> int \<Rightarrow> nat \<Rightarrow> u8 list \<Rightarrow> sectors \<Rightarrow> sectors result" where
  "write_sectors hdr i 0 buf d = Inr d"
| "write_sectors hdr i (Suc k) buf d =
     bind_result (ByteToSector hdr (i * int SectorSize)) (\<lambda>s.
     bind_result (SynchDisk_WriteSector s (take SectorSize buf) d) (\<lambda>d.
     write_sectors hdr (i + 1) k (drop SectorSize buf) d))"

definition File_ReadAt :: "sector_file \<Rightarrow> int \<Rightarrow> int \<Rightarrow> sectors \<Rightarrow> (int \<times> u8 list) result" where
  "File_ReadAt f n position d =
     (let fileLength = FileLength (file_hdr f) in
      if n \<le> 0 \<or> position \<ge> fileLength then Inr (0, [])
      else
        let n = (if c_int (position + n) > fileLength then fileLength - position else n);
            firstSector = c_div position (int SectorSize);
            lastSector = c_div (c_int (position + n - 1)) (int SectorSize);
            count = 1 + lastSector - firstSector
        in check (0 \<le> count) OutOfBounds
          (bind_result (read_sectors (file_hdr f) firstSector (nat count) d) (\<lambda>buf.
           bind_result (slice (position - firstSector * int SectorSize) n buf) (\<lambda>bytes. Inr (n, bytes)))))"

text \<open>\<open>WriteAt\<close> reads the first and the last sector when it does not overwrite the whole of them. \<open>from\<close>
  holds at least \<open>n\<close> bytes; \<open>junk\<close> is what the new buffer holds.\<close>

definition File_WriteAt :: "(nat \<Rightarrow> u8) \<Rightarrow> sector_file \<Rightarrow> u8 list \<Rightarrow> int \<Rightarrow> int \<Rightarrow> sectors \<Rightarrow> (int \<times> sectors) result" where
  "File_WriteAt junk f bytes n position d =
     (let fileLength = FileLength (file_hdr f) in
      if n \<le> 0 \<or> position \<ge> fileLength then Inr (0, d)
      else
        let n = (if c_int (position + n) > fileLength then fileLength - position else n);
            firstSector = c_div position (int SectorSize);
            lastSector = c_div (c_int (position + n - 1)) (int SectorSize);
            count = 1 + lastSector - firstSector;
            buf = map junk [0..<nat (count * int SectorSize)];
            firstAligned = (position = firstSector * int SectorSize);
            lastAligned = (position + n = (lastSector + 1) * int SectorSize)
        in check (0 \<le> count) OutOfBounds
          (bind_result
            (if \<not> firstAligned
             then bind_result (File_ReadAt f (int SectorSize) (firstSector * int SectorSize) d) (\<lambda>(_, bs). blit 0 bs buf)
             else Inr buf) (\<lambda>buf.
           bind_result
            (if \<not> lastAligned \<and> (firstSector \<noteq> lastSector \<or> firstAligned)
             then bind_result (File_ReadAt f (int SectorSize) (lastSector * int SectorSize) d)
                    (\<lambda>(_, bs). blit ((lastSector - firstSector) * int SectorSize) bs buf)
             else Inr buf) (\<lambda>buf.
           bind_result (slice 0 n bytes) (\<lambda>bs.
           bind_result (blit (position - firstSector * int SectorSize) bs buf) (\<lambda>buf.
           bind_result (write_sectors (file_hdr f) firstSector (nat count) buf d) (\<lambda>d. Inr (n, d))))))))"

definition File_Read :: "sector_file \<Rightarrow> int \<Rightarrow> sectors \<Rightarrow> (int \<times> u8 list \<times> sector_file) result" where
  "File_Read f n d =
     bind_result (File_ReadAt f n (seekPosition f) d) (\<lambda>(r, bytes).
       Inr (r, bytes, f\<lparr>seekPosition := seekPosition f + r\<rparr>))"

definition File_Write :: "(nat \<Rightarrow> u8) \<Rightarrow> sector_file \<Rightarrow> u8 list \<Rightarrow> int \<Rightarrow> sectors \<Rightarrow> (int \<times> sector_file \<times> sectors) result" where
  "File_Write junk f bytes n d =
     bind_result (File_WriteAt junk f bytes n (seekPosition f) d) (\<lambda>(r, d).
       Inr (r, f\<lparr>seekPosition := seekPosition f + r\<rparr>, d))"

definition File_Length :: "sector_file \<Rightarrow> int" where
  "File_Length f = FileLength (file_hdr f)"

section \<open>Bitmaps in files\<close>

text \<open>The array \<open>map\<close> of a bitmap as bytes; a read may replace fewer of them.\<close>

definition map_bytes :: "bitmap \<Rightarrow> u8 list" where
  "map_bytes b = concat (map word_bytes (words b))"

definition PersistentBitmap_FetchFrom :: "sector_file \<Rightarrow> sectors \<Rightarrow> bitmap \<Rightarrow> bitmap result" where
  "PersistentBitmap_FetchFrom f d b =
     bind_result (File_ReadAt f (int (numWords b * 4)) 0 d) (\<lambda>(_, bytes).
     bind_result (blit 0 bytes (map_bytes b)) (\<lambda>bs. Inr (b\<lparr>words := words_of bs\<rparr>)))"

definition PersistentBitmap_WriteBack :: "(nat \<Rightarrow> u8) \<Rightarrow> sector_file \<Rightarrow> bitmap \<Rightarrow> sectors \<Rightarrow> sectors result" where
  "PersistentBitmap_WriteBack junk f b d =
     bind_result (File_WriteAt junk f (map_bytes b) (int (numWords b * 4)) 0 d) (\<lambda>(_, d). Inr d)"

definition PersistentBitmap_new :: "int \<Rightarrow> bitmap result" where
  "PersistentBitmap_new numItems = Bitmap_new numItems"

definition PersistentBitmap_open :: "sector_file \<Rightarrow> int \<Rightarrow> sectors \<Rightarrow> bitmap result" where
  "PersistentBitmap_open f numItems d = bind_result (Bitmap_new numItems) (PersistentBitmap_FetchFrom f d)"

section \<open>Well-formed headers and the contents of a file\<close>

definition sectors_ok :: "sectors \<Rightarrow> bool" where
  "sectors_ok d \<longleftrightarrow> (\<forall>n < nat NumSectors. length (d n) = SectorSize)"

definition data_of :: "FileHeader \<Rightarrow> nat list" where
  "data_of hdr = map nat (take (nat (numSectors hdr)) (dataSectors hdr))"

definition hdr_ok :: "FileHeader \<Rightarrow> bool" where
  "hdr_ok hdr \<longleftrightarrow> length (dataSectors hdr) = NumDirect \<and> 0 \<le> numBytes hdr \<and> numBytes hdr \<le> int MaxFileSize
     \<and> numSectors hdr = (numBytes hdr + 127) div 128 \<and> distinct (data_of hdr)
     \<and> (\<forall>s \<in> set (take (nat (numSectors hdr)) (dataSectors hdr)). 0 \<le> s \<and> s < NumSectors)
     \<and> (\<forall>s \<in> set (dataSectors hdr). - (2 ^ 31) \<le> s \<and> s < 2 ^ 31)"

text \<open>All bytes of the data sectors, and those of them that belong to the file.\<close>

definition raw_bytes :: "FileHeader \<Rightarrow> sectors \<Rightarrow> u8 list" where
  "raw_bytes hdr d = concat (map d (data_of hdr))"

definition file_bytes :: "FileHeader \<Rightarrow> sectors \<Rightarrow> u8 list" where
  "file_bytes hdr d = take (nat (numBytes hdr)) (raw_bytes hdr d)"

lemma sizes128 [simp]: "SectorSize = 128" "NumSectors = 1024" "NumDirect = 30" "MaxFileSize = 3840"
  by (simp_all add: disk_sizes NumDirect_def MaxFileSize_def)

lemma c_int_id [simp]: "- (2 ^ 31) \<le> x \<Longrightarrow> x < 2 ^ 31 \<Longrightarrow> c_int x = x"
  by (simp add: c_int_def sint_sbintrunc' signed_take_bit_int_eq_self)

lemma hdr_okD:
  assumes "hdr_ok hdr"
  shows "length (dataSectors hdr) = 30" "0 \<le> numBytes hdr" "numBytes hdr \<le> 3840"
    "numSectors hdr = (numBytes hdr + 127) div 128" "0 \<le> numSectors hdr" "numSectors hdr \<le> 30"
    "numBytes hdr \<le> 128 * numSectors hdr" "distinct (data_of hdr)" "length (data_of hdr) = nat (numSectors hdr)"
    "\<And>s. s \<in> set (data_of hdr) \<Longrightarrow> s < 1024"
    "\<And>i. i < nat (numSectors hdr) \<Longrightarrow> dataSectors hdr ! i = int (data_of hdr ! i)"
proof -
  note ok = assms[unfolded hdr_ok_def sizes128 of_nat_numeral]
  show l: "length (dataSectors hdr) = 30" and b: "0 \<le> numBytes hdr" "numBytes hdr \<le> 3840"
    and n: "numSectors hdr = (numBytes hdr + 127) div 128" and "distinct (data_of hdr)"
    using ok by blast+
  define q where "q = (numBytes hdr + 127) div 128"
  have "numBytes hdr + 127 = 128 * q + (numBytes hdr + 127) mod 128" "(numBytes hdr + 127) mod 128 < 128"
    "0 \<le> (numBytes hdr + 127) mod 128"
    unfolding q_def by simp_all
  then show m: "0 \<le> numSectors hdr" "numSectors hdr \<le> 30" "numBytes hdr \<le> 128 * numSectors hdr"
    unfolding n q_def[symmetric] using b by linarith+
  show "length (data_of hdr) = nat (numSectors hdr)" using l m(1,2) by (simp add: data_of_def)
  have r: "\<forall>s \<in> set (take (nat (numSectors hdr)) (dataSectors hdr)). 0 \<le> s \<and> s < 1024"
    using ok by blast
  then show "s < 1024" if "s \<in> set (data_of hdr)" for s
    using that by (fastforce simp: data_of_def)
  show "dataSectors hdr ! i = int (data_of hdr ! i)" if i: "i < nat (numSectors hdr)" for i
  proof -
    have "take (nat (numSectors hdr)) (dataSectors hdr) ! i \<in> set (take (nat (numSectors hdr)) (dataSectors hdr))"
      using i l m(1,2) by (intro nth_mem) simp
    then show ?thesis using r i l m(1,2) by (auto simp: data_of_def)
  qed
qed

lemma c_div_sector [simp]: "c_div (int p) 128 = int (p div 128)" "c_div (int p * 128) 128 = int p"
  by (simp_all add: c_div_nonneg zdiv_int)

lemma ByteToSector_run:
  assumes "hdr_ok hdr" "i < nat (numSectors hdr)"
  shows "ByteToSector hdr (int i * 128) = Inr (int (data_of hdr ! i))"
  using hdr_okD[OF assms(1)] assms(2) by (simp add: ByteToSector_def Let_def)

lemma data_sector:
  assumes "hdr_ok hdr" "i < nat (numSectors hdr)"
  shows "data_of hdr ! i < 1024"
  using hdr_okD(9,10)[OF assms(1)] assms(2) by auto

lemma read_sectors_run:
  assumes "hdr_ok hdr" "i + k \<le> nat (numSectors hdr)"
  shows "read_sectors hdr (int i) k d = Inr (concat (map d (take k (drop i (data_of hdr)))))"
  using assms(2)
proof (induction k arbitrary: i)
  case (Suc k)
  have "drop i (data_of hdr) = data_of hdr ! i # drop (Suc i) (data_of hdr)"
    using Suc.prems hdr_okD(9)[OF assms(1)] by (simp add: Cons_nth_drop_Suc)
  moreover have "int i + 1 = int (Suc i)" by simp
  ultimately show ?case
    using Suc.prems Suc.IH[of "Suc i"] ByteToSector_run[OF assms(1), of i] data_sector[OF assms(1), of i]
    unfolding read_sectors.simps \<open>int i + 1 = int (Suc i)\<close> by (simp add: SynchDisk_ReadSector_def del: of_nat_Suc)
qed simp

text \<open>Blocks of the same length: byte \<open>p\<close> lies in block \<open>p div 128\<close>.\<close>

lemma concat_blocks:
  assumes "\<And>x. x \<in> set xs \<Longrightarrow> length (f x) = w"
  shows "concat (map f (take k xs)) = take (w * k) (concat (map f xs))"
    "concat (map f (drop k xs)) = drop (w * k) (concat (map f xs))"
  using assms
proof (induction xs arbitrary: k)
  case (Cons x xs)
  { case 1 then show ?case using Cons.IH(1) by (cases k) auto }
  { case 2 then show ?case using Cons.IH(2) by (cases k) auto }
qed simp_all

lemma concat_block_nth:
  assumes "\<And>x. x \<in> set xs \<Longrightarrow> length (f x) = w" "p < w * length xs"
  shows "concat (map f xs) ! p = f (xs ! (p div w)) ! (p mod w)"
  using assms
proof (induction xs arbitrary: p)
  case (Cons x xs)
  show ?case
  proof (cases "p < w")
    case False
    moreover have "0 < w" using Cons.prems(2) by (cases w) auto
    ultimately have "(p - w) div w = p div w - 1" "0 < p div w" "(p - w) mod w = p mod w"
      using le_div_geq[of w p] by (simp_all add: le_mod_geq)
    then show ?thesis using Cons.IH[of "p - w"] Cons.prems False by (auto simp: nth_append nth_Cons')
  qed (use Cons.prems in \<open>auto simp: nth_append\<close>)
qed simp

lemma data_block: "hdr_ok hdr \<Longrightarrow> sectors_ok d \<Longrightarrow> s \<in> set (data_of hdr) \<Longrightarrow> length (d s) = 128"
  using hdr_okD(10) by (auto simp: sectors_ok_def)

lemma length_raw [simp]: "hdr_ok hdr \<Longrightarrow> sectors_ok d \<Longrightarrow> length (raw_bytes hdr d) = 128 * nat (numSectors hdr)"
  by (simp add: raw_bytes_def length_concat_const[of _ d 128] data_block hdr_okD(9))

lemma length_file_bytes [simp]: "hdr_ok hdr \<Longrightarrow> sectors_ok d \<Longrightarrow> length (file_bytes hdr d) = nat (numBytes hdr)"
  using hdr_okD(7)[of hdr] by (simp add: file_bytes_def)

lemma raw_nth:
  assumes "hdr_ok hdr" "sectors_ok d" "p < 128 * nat (numSectors hdr)"
  shows "raw_bytes hdr d ! p = d (data_of hdr ! (p div 128)) ! (p mod 128)"
  unfolding raw_bytes_def using assms hdr_okD(9)[OF assms(1)] by (intro concat_block_nth) (auto simp: data_block)

lemma read_buffer:
  assumes "hdr_ok hdr" "sectors_ok d" "i + k \<le> nat (numSectors hdr)"
  shows "read_sectors hdr (int i) k d = Inr (take (128 * k) (drop (128 * i) (raw_bytes hdr d)))"
proof -
  have "concat (map d (take k (drop i (data_of hdr)))) = take (128 * k) (concat (map d (drop i (data_of hdr))))"
    by (rule concat_blocks) (use data_block[OF assms(1,2)] in_set_dropD in fastforce)
  also have "concat (map d (drop i (data_of hdr))) = drop (128 * i) (raw_bytes hdr d)"
    unfolding raw_bytes_def by (rule concat_blocks) (rule data_block[OF assms(1,2)])
  finally show ?thesis using read_sectors_run[OF assms(1,3)] by simp
qed

text \<open>The sectors from that of byte \<open>p\<close> to that of the last of \<open>m\<close> bytes hold them all.\<close>

lemma last_sector:
  fixes p m :: nat
  assumes "0 < m"
  shows "p div 128 + (1 + (p + m - 1) div 128 - p div 128) = Suc ((p + m - 1) div 128)"
    "p mod 128 + m \<le> 128 * (1 + (p + m - 1) div 128 - p div 128)"
    "128 * (1 + (p + m - 1) div 128 - p div 128) < p mod 128 + m + 128"
proof -
  have le: "p div 128 \<le> (p + m - 1) div 128" using assms by (intro div_le_mono) simp
  then show "p div 128 + (1 + (p + m - 1) div 128 - p div 128) = Suc ((p + m - 1) div 128)" by linarith
  define a b r where "a = p div 128" and "b = (p + m - 1) div 128" and "r = (p + m - 1) mod 128"
  have "p = 128 * a + p mod 128" "p + m - 1 = 128 * b + r" "r < 128" by (simp_all add: a_def b_def r_def)
  then have "p mod 128 + m \<le> 128 * (1 + b - a)" "128 * (1 + b - a) < p mod 128 + m + 128"
    using assms le[folded a_def b_def] by linarith+
  then show "p mod 128 + m \<le> 128 * (1 + (p + m - 1) div 128 - p div 128)"
    "128 * (1 + (p + m - 1) div 128 - p div 128) < p mod 128 + m + 128" by (simp_all add: a_def b_def)
qed

lemma sector_ReadAt:
  assumes "hdr_ok (file_hdr f)" "sectors_ok d" "0 \<le> position" "position + n < 2 ^ 31"
  shows "File_ReadAt f n position d =
    (let bs = take (nat n) (drop (nat position) (file_bytes (file_hdr f) d)) in Inr (int (length bs), bs))"
proof (cases "n \<le> 0 \<or> position \<ge> numBytes (file_hdr f)")
  case True
  then show ?thesis using assms(1,2) by (auto simp: File_ReadAt_def FileLength_def Let_def)
next
  case False
  let ?h = "file_hdr f" and ?p = "nat position"
  note h = hdr_okD[OF assms(1)]
  define m where "m = (if position + n > numBytes ?h then nat (numBytes ?h - position) else nat n)"
  define k where "k = 1 + (?p + m - 1) div 128 - ?p div 128"
  have m: "0 < m" "int ?p = position" "?p + m \<le> nat (numBytes ?h)"
    "int m = (if position + n > numBytes ?h then numBytes ?h - position else n)" "?p + m \<le> 3840"
    using False assms(3) h(3) by (auto simp: m_def)
  have last: "(?p + m - 1) div 128 < nat (numSectors ?h)"
    using m(1,3) h(7) by (intro div_less_iff_less_mult[THEN iffD2]) auto
  have k: "?p div 128 + k = Suc ((?p + m - 1) div 128)" "?p mod 128 + m \<le> 128 * k"
    by (rule last_sector(1,2)[OF m(1), of ?p, folded k_def])+
  have buf: "read_sectors ?h (int (?p div 128)) k d = Inr (take (128 * k) (drop (128 * (?p div 128)) (raw_bytes ?h d)))"
    using last k(1) by (intro read_buffer[OF assms(1,2)]) simp
  have len: "length (take (128 * k) (drop (128 * (?p div 128)) (raw_bytes ?h d))) = 128 * k"
  proof -
    have "128 * (?p div 128) + 128 * k \<le> 128 * nat (numSectors ?h)" using last k(1) by linarith
    then show ?thesis by (simp add: length_raw[OF assms(1,2)])
  qed
  have split: "?p = 128 * (?p div 128) + ?p mod 128" by simp
  have part: "take m (drop (?p mod 128) (take (128 * k) (drop (128 * (?p div 128)) (raw_bytes ?h d)))) = take m (drop ?p (raw_bytes ?h d))"
    using k(2) split by (simp add: drop_take add.commute min_def)
  have in_file: "take (nat n) (drop ?p (file_bytes ?h d)) = take m (drop ?p (raw_bytes ?h d))"
  proof -
    have "min (nat n) (nat (numBytes ?h) - ?p) = m" using m(4) False assms(3) by (auto simp: m_def min_def)
    then show ?thesis by (simp add: file_bytes_def drop_take)
  qed
  have w: "c_int (position + n) = position + n" "c_int (position + int m - 1) = position + int m - 1"
    using assms(3,4) m(1,5) False by (auto intro!: c_int_id)
  have "File_ReadAt f n position d = Inr (int m, take m (drop ?p (raw_bytes ?h d)))"
  proof -
    have first: "c_div position 128 = int (?p div 128)" using c_div_sector(1)[of ?p] m(2) by simp
    have final: "c_div (position + int m - 1) 128 = int ((?p + m - 1) div 128)"
      using c_div_sector(1)[of "?p + m - 1"] m(1,2) by (simp add: of_nat_diff)
    have count: "1 + int ((?p + m - 1) div 128) - int (?p div 128) = int k" using k(1) by linarith
    have off: "position - int (?p div 128) * 128 = int (?p mod 128)"
      using m(2) split by linarith
    have n: "(if c_int (position + n) > numBytes ?h then numBytes ?h - position else n) = int m"
      unfolding w m(4) by simp
    have "File_ReadAt f n position d =
        bind_result (read_sectors ?h (int (?p div 128)) k d) (\<lambda>buf.
        bind_result (slice (int (?p mod 128)) (int m) buf) (\<lambda>bytes. Inr (int m, bytes)))"
      unfolding File_ReadAt_def FileLength_def Let_def if_not_P[OF False] n w(2) sizes128 of_nat_numeral first final
        count off nat_int by simp
    then show ?thesis using len k(2) by (simp add: buf slice_def part)
  qed
  moreover have "length (take m (drop ?p (raw_bytes ?h d))) = m"
    using m(1,3) h(7) by (simp add: length_raw[OF assms(1,2)])
  ultimately show ?thesis unfolding in_file by simp
qed

text \<open>Bytes put into a list at a position, as far as they fit.\<close>

definition patch :: "nat \<Rightarrow> 'a list \<Rightarrow> 'a list \<Rightarrow> 'a list" where
  "patch pos bs xs = take pos xs @ take (length xs - pos) bs @ drop (pos + length bs) xs"

lemma length_patch [simp]: "length (patch pos bs xs) = length xs"
  by (auto simp: patch_def min_def)

lemma nth_patch [simp]:
  "q < length xs \<Longrightarrow> patch pos bs xs ! q = (if pos \<le> q \<and> q < pos + length bs then bs ! (q - pos) else xs ! q)"
  by (auto simp: patch_def nth_append min_def)

lemma blit_run: "off + length bs \<le> length buf \<Longrightarrow> blit (int off) bs buf = Inr (patch off bs buf)"
  by (simp add: blit_def patch_def)

lemma patch_all: "length bs = length xs \<Longrightarrow> patch 0 bs xs = bs"
  by (simp add: patch_def)

lemma patch_nil [simp]: "patch pos [] xs = xs"
  by (simp add: patch_def)

lemma patch_outside: "length xs \<le> pos \<Longrightarrow> patch pos bs xs = xs"
  by (simp add: patch_def)

lemma write_sectors_run:
  assumes "hdr_ok hdr" "i + k \<le> nat (numSectors hdr)" "length buf = 128 * k"
  shows "\<exists>d'. write_sectors hdr (int i) k buf d = Inr d'
    \<and> (\<forall>j < k. d' (data_of hdr ! (i + j)) = take 128 (drop (128 * j) buf))
    \<and> (\<forall>s. s \<notin> set (take k (drop i (data_of hdr))) \<longrightarrow> d' s = d s)"
  using assms(2,3)
proof (induction k arbitrary: i buf d)
  case (Suc k)
  let ?D = "data_of hdr"
  have i: "i < length ?D" using Suc.prems(1) hdr_okD(9)[OF assms(1)] by simp
  then have drop: "drop i ?D = ?D ! i # drop (Suc i) ?D" by (simp add: Cons_nth_drop_Suc)
  moreover have "distinct (drop i ?D)" using hdr_okD(8)[OF assms(1)] by simp
  ultimately have fresh: "?D ! i \<notin> set (take k (drop (Suc i) ?D))" by (auto dest: in_set_takeD)
  have next_sector: "int i + 1 = int (Suc i)" by simp
  obtain d' where d': "write_sectors hdr (int (Suc i)) k (drop 128 buf) (d(?D ! i := take 128 buf)) = Inr d'"
    "\<forall>j < k. d' (?D ! (Suc i + j)) = take 128 (drop (128 * j) (drop 128 buf))"
    "\<forall>s. s \<notin> set (take k (drop (Suc i) ?D)) \<longrightarrow> d' s = (d(?D ! i := take 128 buf)) s"
  proof -
    have "Suc i + k \<le> nat (numSectors hdr)" "length (drop 128 buf) = 128 * k" using Suc.prems by simp_all
    from Suc.IH[OF this, of "d(?D ! i := take 128 buf)"] show ?thesis using that by blast
  qed
  have "write_sectors hdr (int i) (Suc k) buf d = Inr d'"
    unfolding write_sectors.simps next_sector
    using Suc.prems d'(1) ByteToSector_run[OF assms(1), of i] data_sector[OF assms(1), of i]
    by (simp add: SynchDisk_WriteSector_def del: of_nat_Suc)
  moreover have "d' (?D ! (i + j)) = take 128 (drop (128 * j) buf)" if "j < Suc k" for j
    using that d'(2)[rule_format, of "j - 1"] d'(3)[rule_format, OF fresh] by (cases j) (simp_all add: add.commute)
  moreover have "d' s = d s" if "s \<notin> set (take (Suc k) (drop i ?D))" for s
    using that d'(3)[rule_format, of s] unfolding drop by auto
  ultimately show ?case by blast
qed simp

lemma write_buffer:
  assumes "hdr_ok hdr" "sectors_ok d" "i + k \<le> nat (numSectors hdr)" "length buf = 128 * k"
  obtains d' where "write_sectors hdr (int i) k buf d = Inr d'" "sectors_ok d'"
    "\<And>s. s \<notin> set (data_of hdr) \<Longrightarrow> d' s = d s"
    "raw_bytes hdr d' = patch (128 * i) buf (raw_bytes hdr d)"
proof -
  let ?D = "data_of hdr"
  from write_sectors_run[OF assms(1,3,4), of d] obtain d' where d': "write_sectors hdr (int i) k buf d = Inr d'"
    and new: "\<And>j. j < k \<Longrightarrow> d' (?D ! (i + j)) = take 128 (drop (128 * j) buf)"
    and old: "\<And>s. s \<notin> set (take k (drop i ?D)) \<Longrightarrow> d' s = d s" by blast
  have outside: "d' s = d s" if "s \<notin> set ?D" for s
    using that by (intro old) (auto dest: in_set_takeD in_set_dropD)
  have sector: "d' (?D ! j) = (if i \<le> j \<and> j < i + k then take 128 (drop (128 * (j - i)) buf) else d (?D ! j))"
    if "j < nat (numSectors hdr)" for j
  proof (cases "i \<le> j \<and> j < i + k")
    case False
    have "?D ! j \<notin> set (take k (drop i ?D))"
    proof
      assume "?D ! j \<in> set (take k (drop i ?D))"
      then obtain l where "l < k" "?D ! j = ?D ! (i + l)" "i + l < length ?D" by (auto simp: in_set_conv_nth)
      then have "j = i + l" using hdr_okD(8,9)[OF assms(1)] that by (simp add: nth_eq_iff_index_eq)
      then show False using False \<open>l < k\<close> by simp
    qed
    then show ?thesis using old False by auto
  next
    case True
    moreover from this have "j - i < k" by linarith
    ultimately show ?thesis using new[of "j - i"] by simp
  qed
  have ok: "sectors_ok d'"
    unfolding sectors_ok_def
  proof (intro allI impI)
    fix s assume "s < nat NumSectors"
    show "length (d' s) = SectorSize"
    proof (cases "s \<in> set (take k (drop i ?D))")
      case True
      then obtain l where "l < k" "s = ?D ! (i + l)" by (auto simp: in_set_conv_nth)
      then show ?thesis using new[of l] assms(4) by simp
    qed (use old assms(2) \<open>s < nat NumSectors\<close> in \<open>simp add: sectors_ok_def\<close>)
  qed
  have "raw_bytes hdr d' = patch (128 * i) buf (raw_bytes hdr d)"
  proof (rule nth_equalityI)
    fix p assume "p < length (raw_bytes hdr d')"
    then have p: "p < 128 * nat (numSectors hdr)" using ok assms(1) by simp
    then have j: "p div 128 < nat (numSectors hdr)" by (simp add: div_less_iff_less_mult mult.commute)
    have "i \<le> p div 128 \<longleftrightarrow> 128 * i \<le> p" "p div 128 < i + k \<longleftrightarrow> p < 128 * i + 128 * k"
      by (simp_all add: less_eq_div_iff_mult_less_eq div_less_iff_less_mult mult.commute)
    moreover have at: "128 * (p div 128 - i) + p mod 128 = p - 128 * i" if "i \<le> p div 128"
      using that by (simp add: diff_mult_distrib2)
    moreover have "128 * (p div 128 - i) \<le> length buf" if "i \<le> p div 128" "p < 128 * i + 128 * k"
      using at[OF that(1)] that(2) assms(4) by linarith
    ultimately show "raw_bytes hdr d' ! p = patch (128 * i) buf (raw_bytes hdr d) ! p"
      using p assms(1,2,4) ok sector[OF j] by (simp add: raw_nth)
  qed (use ok assms(1,2) in simp)
  then show ?thesis using that d' ok outside by blast
qed

lemma take_patch: "take n (patch pos bs xs) = patch pos bs (take n xs)"
  by (rule nth_equalityI) auto

lemma patched_buffer:
  fixes p m a k :: nat
  assumes "length buf = 128 * k" "0 < k" "p = 128 * a + r" "r < 128" "r + m \<le> 128 * k" "128 * k < r + m + 128"
    "length bs = m" "q < length xs" "128 * a \<le> q" "q < 128 * a + 128 * k"
  defines "head \<equiv> take 128 (drop (128 * a) xs)" and "tail \<equiv> take 128 (drop (128 * (a + k - 1)) xs)"
  defines "buf1 \<equiv> (if r \<noteq> 0 then patch 0 head buf else buf)"
  defines "buf2 \<equiv> (if r + m \<noteq> 128 * k \<and> (k \<noteq> 1 \<or> r = 0) then patch (128 * (k - 1)) tail buf1 else buf1)"
  shows "patch r bs buf2 ! (q - 128 * a) = patch p bs xs ! q"
proof -
  define t where "t = q - 128 * a"
  have t: "q = 128 * a + t" "t < 128 * k" using assms(9,10) by (simp_all add: t_def)
  have len: "length buf1 = 128 * k" "length buf2 = 128 * k" using assms(1) by (simp_all add: buf1_def buf2_def)
  have head: "buf1 ! t = xs ! q" if "r \<noteq> 0" "t < 128"
  proof -
    have "t < length head" "head ! t = xs ! q" using that(2) t(1) assms(8) by (simp_all add: head_def)
    then show ?thesis using that(1) t(2) assms(1) by (simp add: buf1_def)
  qed
  have tail: "tail ! (t - 128 * (k - 1)) = xs ! q" "t - 128 * (k - 1) < length tail" if "128 * (k - 1) \<le> t"
  proof -
    have "128 * (a + k - 1) + (t - 128 * (k - 1)) = q" using that t(1) assms(2) by (cases k) (simp_all add: algebra_simps)
    moreover have "t - 128 * (k - 1) < 128" using t(2) assms(2) by (cases k) simp_all
    ultimately show "tail ! (t - 128 * (k - 1)) = xs ! q" "t - 128 * (k - 1) < length tail"
      using assms(8) by (simp_all add: tail_def)
  qed
  have keep: "buf2 ! t = xs ! q" if "t < r \<or> r + m \<le> t"
  proof (cases "r + m \<noteq> 128 * k \<and> (k \<noteq> 1 \<or> r = 0) \<and> 128 * (k - 1) \<le> t")
    case True
    then have "t < 128 * (k - 1) + length tail" using tail(2) by linarith
    then show ?thesis using True tail(1) t(2) len by (simp add: buf2_def)
  next
    case False
    have "buf2 ! t = buf1 ! t" using False t(2) len by (auto simp: buf2_def)
    moreover have "r \<noteq> 0 \<and> t < 128"
      using that False t(2) assms(2,4,5,6) by (cases k) (auto)
    ultimately show ?thesis using head by simp
  qed
  show ?thesis
    unfolding t_def[symmetric] using keep t len assms(3,7,8) by auto
qed

text \<open>The buffer that \<open>WriteAt\<close> writes back: the new bytes, and around them those the file had.\<close>

lemma sector_WriteAt:
  assumes "hdr_ok (file_hdr f)" "sectors_ok d" "0 \<le> position" "position + n < 2 ^ 31" "nat n \<le> length bytes"
  obtains d' where "File_WriteAt junk f bytes n position d =
      Inr (int (length (take (nat n) (drop (nat position) (file_bytes (file_hdr f) d)))), d')"
    "sectors_ok d'" "\<And>s. s \<notin> set (data_of (file_hdr f)) \<Longrightarrow> d' s = d s"
    "file_bytes (file_hdr f) d' = patch (nat position) (take (nat n) bytes) (file_bytes (file_hdr f) d)"
proof (cases "n \<le> 0 \<or> position \<ge> numBytes (file_hdr f)")
  case True
  then have "nat n = 0 \<or> length (file_bytes (file_hdr f) d) \<le> nat position"
    using assms(1-3) by auto
  then show ?thesis using that[of d] True assms(1,2)
    by (auto simp: File_WriteAt_def FileLength_def Let_def patch_outside)
next
  case False
  let ?h = "file_hdr f" and ?p = "nat position"
  note h = hdr_okD[OF assms(1)]
  define m where "m = (if position + n > numBytes ?h then nat (numBytes ?h - position) else nat n)"
  define a where "a = ?p div 128"
  define k where "k = 1 + (?p + m - 1) div 128 - ?p div 128"
  have m: "0 < m" "int ?p = position" "?p + m \<le> nat (numBytes ?h)"
    "int m = (if position + n > numBytes ?h then numBytes ?h - position else n)" "?p + m \<le> 3840"
    using False assms(3) h(3) by (auto simp: m_def)
  have least: "min (nat n) (nat (numBytes ?h) - ?p) = m" using m(4) False assms(3) by (auto simp: m_def min_def)
  have k: "a + k = Suc ((?p + m - 1) div 128)" "?p mod 128 + m \<le> 128 * k" "?p = 128 * a + ?p mod 128"
    using last_sector(1,2)[OF m(1), of ?p, folded k_def] by (simp_all add: a_def)
  have "(?p + m - 1) div 128 < nat (numSectors ?h)"
    using m(1,3) h(7) by (intro div_less_iff_less_mult[THEN iffD2]) auto
  then have last: "a + k \<le> nat (numSectors ?h)" using k(1) by simp
  let ?x = "file_bytes ?h d" and ?r = "?p mod 128" and ?bs = "take m bytes"
  define buf where "buf = map junk [0..<128 * k]"
  define head where "head = take 128 (drop (128 * a) ?x)"
  define tail where "tail = take 128 (drop (128 * (a + k - 1)) ?x)"
  define buf1 where "buf1 = (if ?r \<noteq> 0 then patch 0 head buf else buf)"
  define buf2 where "buf2 = (if ?r + m \<noteq> 128 * k \<and> (k \<noteq> 1 \<or> ?r = 0) then patch (128 * (k - 1)) tail buf1 else buf1)"
  have k0: "0 < k" "128 * k < ?r + m + 128"
    using k(2) m(1) last_sector(3)[OF m(1), of ?p, folded k_def] by (auto intro: gr0I)
  have lens: "length buf = 128 * k" "length buf1 = 128 * k" "length buf2 = 128 * k" "length ?bs = m"
    "length head \<le> 128 * k" "length tail \<le> 128"
    using k0(1) assms(5) m_def by (auto simp: buf_def buf1_def buf2_def head_def tail_def)
  obtain d' where d': "write_sectors ?h (int a) k (patch ?r ?bs buf2) d = Inr d'" "sectors_ok d'"
    "\<And>s. s \<notin> set (data_of ?h) \<Longrightarrow> d' s = d s" "raw_bytes ?h d' = patch (128 * a) (patch ?r ?bs buf2) (raw_bytes ?h d)"
    using write_buffer[OF assms(1,2) last, of "patch ?r ?bs buf2"] lens by auto
  have "file_bytes ?h d' = patch ?p (take (nat n) bytes) ?x"
  proof (rule nth_equalityI)
    fix q assume "q < length (file_bytes ?h d')"
    then have q: "q < nat (numBytes ?h)" "q < length ?x" "q < length (raw_bytes ?h d)"
      using assms(1,2) d'(2) h(7) by simp_all
    have new: "patch ?r ?bs buf2 ! (q - 128 * a) = patch ?p ?bs ?x ! q" if "128 * a \<le> q" "q < 128 * a + 128 * k"
      unfolding buf2_def buf1_def head_def tail_def
      by (rule patched_buffer[OF lens(1) k0(1) k(3) _ k(2) k0(2) lens(4) q(2) that]) simp
    have "file_bytes ?h d' ! q = (if 128 * a \<le> q \<and> q < 128 * a + 128 * k then patch ?p ?bs ?x ! q else ?x ! q)"
    proof -
      have "raw_bytes ?h d ! q = ?x ! q" using q(1) by (simp add: file_bytes_def)
      then show ?thesis unfolding file_bytes_def[of ?h d'] d'(4) nth_take[OF q(1)] nth_patch[OF q(3)]
        using new by (simp only: length_patch lens(3) split: if_split) blast
    qed
    also have "\<dots> = patch ?p ?bs ?x ! q" using q(2) lens(4) k(2,3) by auto
    also have "\<dots> = patch ?p (take (nat n) bytes) ?x ! q"
    proof -
      have "?p \<le> q \<and> q < ?p + m \<longleftrightarrow> ?p \<le> q \<and> q < ?p + nat n"
        using least q(1) m(3) by (cases "nat n \<le> nat (numBytes ?h) - ?p") (auto simp: min_def; linarith)+
      then show ?thesis using q(2) assms(5) lens(4) by (auto simp: min_def)
    qed
    finally show "file_bytes ?h d' ! q = patch ?p (take (nat n) bytes) ?x ! q" .
  qed (use assms(1,2) d'(2) in simp)
  moreover have "File_WriteAt junk f bytes n position d = Inr (int m, d')"
  proof -
    have first: "c_div position 128 = int a" using c_div_sector(1)[of ?p] m(2) by (simp add: a_def)
    have final: "c_div (position + int m - 1) 128 = int (a + k - 1)"
      using c_div_sector(1)[of "?p + m - 1"] m(1,2) k(1) by (simp add: of_nat_diff)
    have w: "c_int (position + n) = position + n" "c_int (position + int m - 1) = position + int m - 1"
      using assms(3,4) m(1,5) False by (auto intro!: c_int_id)
    have n: "(if c_int (position + n) > numBytes ?h then numBytes ?h - position else n) = int m"
      unfolding w m(4) by simp
    have count: "1 + int (a + k - 1) - int a = int k" "int (a + k - 1) - int a = int (k - 1)"
      "(int (a + k - 1) + 1) * 128 = int (128 * a + 128 * k)" "position - int a * 128 = int ?r"
      "(position = int a * 128) = (?r = 0)" "(position + int m = int (128 * a + 128 * k)) = (?r + m = 128 * k)"
      "(int a \<noteq> int (a + k - 1)) = (k \<noteq> 1)"
    proof -
      define r where "r = ?r"
      have ak: "int (a + k - 1) = int a + int k - 1" using k0(1) by linarith
      have "?p = 128 * a + r" using k(3) by (simp only: r_def)
      then have pos: "position = 128 * int a + int r" using m(2) by linarith
      show "1 + int (a + k - 1) - int a = int k" "int (a + k - 1) - int a = int (k - 1)"
        "(int (a + k - 1) + 1) * 128 = int (128 * a + 128 * k)" "(int a \<noteq> int (a + k - 1)) = (k \<noteq> 1)"
        unfolding ak using k0(1) by (auto simp: of_nat_diff)
      show "position - int a * 128 = int ?r" "(position = int a * 128) = (?r = 0)"
        "(position + int m = int (128 * a + 128 * k)) = (?r + m = 128 * k)"
        unfolding r_def[symmetric] using pos by auto
    qed
    have reads: "File_ReadAt f 128 (int a * 128) d = Inr (int (length head), head)"
      "File_ReadAt f 128 (int (a + k - 1) * 128) d = Inr (int (length tail), tail)"
      using sector_ReadAt[OF assms(1,2), of "int a * 128" 128] sector_ReadAt[OF assms(1,2), of "int (a + k - 1) * 128" 128]
        last h(6) by (simp_all add: head_def tail_def Let_def nat_mult_distrib mult.commute)
    have "File_WriteAt junk f bytes n position d =
        bind_result (if \<not> ?r = 0 then bind_result (Inr (int (length head), head)) (\<lambda>(_, bs). blit 0 bs buf) else Inr buf) (\<lambda>buf.
        bind_result (if \<not> ?r + m = 128 * k \<and> (k \<noteq> 1 \<or> ?r = 0)
          then bind_result (Inr (int (length tail), tail)) (\<lambda>(_, bs). blit (int (k - 1) * 128) bs buf) else Inr buf) (\<lambda>buf.
        bind_result (slice 0 (int m) bytes) (\<lambda>bs. bind_result (blit (int ?r) bs buf) (\<lambda>buf.
        bind_result (write_sectors ?h (int a) k buf d) (\<lambda>d. Inr (int m, d))))))"
      unfolding File_WriteAt_def FileLength_def Let_def if_not_P[OF False] n w(2) sizes128 of_nat_numeral first final
        count nat_int reads by (simp add: buf_def nat_mult_distrib mult.commute)
    also have "\<dots> = Inr (int m, d')"
    proof -
      have mult: "int (k - 1) * 128 = int (128 * (k - 1))" by simp
      have "0 + length head \<le> length buf" "128 * (k - 1) + length tail \<le> length buf1" "?r + length ?bs \<le> length buf2"
        using lens k0(1) k(2) by (cases k; simp)+
      from this[THEN blit_run] have blits: "blit 0 head buf = Inr (patch 0 head buf)" "blit (int (k - 1) * 128) tail buf1 = Inr (patch (128 * (k - 1)) tail buf1)"
        "blit (int ?r) ?bs buf2 = Inr (patch ?r ?bs buf2)" unfolding mult by simp_all
      have "slice 0 (int m) bytes = Inr ?bs" using lens(4) by (auto simp: slice_def min_def split: if_splits)
      moreover have "(if \<not> ?r = 0 then bind_result (Inr (int (length head), head)) (\<lambda>(_, bs). blit 0 bs buf) else Inr buf) = Inr buf1"
        by (simp only: bind_result_simps prod.case blits(1) buf1_def if_distrib[of Inr])
      moreover have "(if \<not> ?r + m = 128 * k \<and> (k \<noteq> 1 \<or> ?r = 0)
          then bind_result (Inr (int (length tail), tail)) (\<lambda>(_, bs). blit (int (k - 1) * 128) bs buf1) else Inr buf1) = Inr buf2"
        by (simp only: bind_result_simps prod.case blits(2) buf2_def if_distrib[of Inr])
      ultimately show ?thesis by (simp only: bind_result_simps blits(3) d'(1))
    qed
    finally show ?thesis .
  qed
  moreover have "length (take (nat n) (drop ?p ?x)) = m" using least assms(1,2) by (simp add: min.commute)
  ultimately show ?thesis using that d'(2,3) by metis
qed

section \<open>Headers and bitmaps as bytes\<close>

lemma word_at_word_bytes: "k < length ws \<Longrightarrow> word_at (concat (map word_bytes ws)) (4 * k) = ws ! k"
proof (induction ws arbitrary: k)
  case (Cons w ws)
  have shift: "word_at (word_bytes w @ rest) (4 + j) = word_at rest j" for rest j
    by (simp add: word_at_def word_bytes_def numeral_nat)
  show ?case
  proof (cases k)
    case 0
    then show ?thesis by (simp add: word_at_def word_bytes_def le_word32_of_bytes[unfolded One_nat_def])
  next
    case (Suc j)
    then show ?thesis using Cons shift[of _ "4 * j"] by simp
  qed
qed simp

lemma length_words_bytes [simp]: "length (concat (map word_bytes ws)) = 4 * length ws"
  by (induction ws) simp_all

lemma words_of_bytes [simp]: "words_of (concat (map word_bytes ws)) = ws"
  by (rule nth_equalityI) (simp_all add: words_of_def word_at_word_bytes)

lemma ints_bytes_words: "ints_bytes xs = concat (map word_bytes (map of_int xs))"
  by (simp add: ints_bytes_def comp_def)

lemma length_ints_bytes [simp]: "length (ints_bytes xs) = 4 * length xs"
  unfolding ints_bytes_words length_words_bytes by simp

lemma ints_round_trip: "(\<And>x. x \<in> set xs \<Longrightarrow> - (2 ^ 31) \<le> x \<and> x < 2 ^ 31) \<Longrightarrow> map sint (words_of (ints_bytes xs)) = xs"
  unfolding ints_bytes_words words_of_bytes by (induction xs) (auto simp: c_int_id[unfolded c_int_def])

lemma FileHeader_round_trip:
  assumes "hdr_ok hdr"
  shows "FileHeader_of (FileHeader_bytes hdr) = hdr" "length (FileHeader_bytes hdr) = 128"
proof -
  have "\<forall>s \<in> set (dataSectors hdr). - (2 ^ 31) \<le> s \<and> s < 2 ^ 31" using assms unfolding hdr_ok_def by blast
  then have "map sint (words_of (FileHeader_bytes hdr)) = numBytes hdr # numSectors hdr # dataSectors hdr"
    using hdr_okD(2,3,5,6)[OF assms] unfolding FileHeader_bytes_def by (intro ints_round_trip) auto
  then show "FileHeader_of (FileHeader_bytes hdr) = hdr" by (simp add: FileHeader_of_def)
  show "length (FileHeader_bytes hdr) = 128" using hdr_okD(1)[OF assms] by (simp add: FileHeader_bytes_def)
qed

lemma FileHeader_disk:
  assumes "s < 1024"
  shows "FileHeader_FetchFrom (int s) d = Inr (FileHeader_of (d s))"
    "FileHeader_WriteBack hdr (int s) d = Inr (d(s := FileHeader_bytes hdr))"
    "File_open (int s) d = Inr \<lparr>file_hdr = FileHeader_of (d s), seekPosition = 0\<rparr>"
  using assms by (simp_all add: FileHeader_FetchFrom_def FileHeader_WriteBack_def File_open_def
      SynchDisk_ReadSector_def SynchDisk_WriteSector_def)

section \<open>Allocation\<close>

lemma c_round_up:
  "0 \<le> x \<Longrightarrow> c_div x 128 + (if c_mod x 128 > 0 then 1 else 0) = (x + 127) div 128"
proof -
  assume "0 \<le> x"
  moreover have "x = 128 * (x div 128) + x mod 128" "0 \<le> x mod 128" "x mod 128 < 128" by simp_all
  moreover have "(128 * q + r + 127) div 128 = q + (if r > 0 then 1 else 0)" if "0 \<le> r" "r < 128" for q r :: int
    using that by (auto simp: add.assoc)
  ultimately show ?thesis by (metis c_div_nonneg c_mod_nonneg zero_less_numeral)
qed

lemma Allocate_loop_run:
  assumes "alloc_loop Bitmap_FindAndSet k b = Inr (map int js, b')" "i + k \<le> length ds"
  shows "Allocate_loop i k ds b = Inr (take i ds @ map int js @ drop (i + k) ds, b')"
  using assms
proof (induction k arbitrary: i ds b js)
  case (Suc k)
  then obtain j js' b1 where 1: "js = j # js'" "Bitmap_FindAndSet b = Inr (int j, b1)"
    "alloc_loop Bitmap_FindAndSet k b1 = Inr (map int js', b')"
    by (auto simp: outcome_simps split: prod.splits)
  have "Allocate_loop i (Suc k) ds b = Allocate_loop (Suc i) k (ds[i := int j]) b1"
    using 1 Suc.prems(2) by simp
  also have "\<dots> = Inr (take (Suc i) (ds[i := int j]) @ map int js' @ drop (Suc i + k) (ds[i := int j]), b')"
    using Suc.prems(2) by (intro Suc.IH[OF 1(3)]) simp
  finally show ?case using 1(1) Suc.prems(2) by (simp add: take_Suc_conv_app_nth)
qed simp

lemma Allocate_run:
  assumes "length (dataSectors hdr) = 30" "\<forall>s \<in> set (dataSectors hdr). - (2 ^ 31) \<le> s \<and> s < 2 ^ 31"
    "bitmap_ok b" "numBits b = 1024" "0 \<le> fileSize" "fileSize \<le> 3840"
  shows "if card (bits_of b) + nat ((fileSize + 127) div 128) \<le> 1024
    then \<exists>hdr' b'. FileHeader_Allocate hdr b fileSize = Inr (True, hdr', b') \<and> hdr_ok hdr' \<and> numBytes hdr' = fileSize
      \<and> with_bits b b' (bits_of b \<union> set (data_of hdr')) \<and> set (data_of hdr') \<inter> bits_of b = {}
    else \<exists>hdr'. FileHeader_Allocate hdr b fileSize = Inr (False, hdr', b)"
proof -
  define k where "k = nat ((fileSize + 127) div 128)"
  have n: "c_div fileSize 128 + (if c_mod fileSize 128 > 0 then 1 else 0) = int k" "k \<le> 30"
    using c_round_up[OF assms(5)] assms(5,6) zdiv_mono1[of "fileSize + 127" 3967 128] by (simp_all add: k_def)
  have clear: "Bitmap_NumClear b = Inr (int (1024 - card (bits_of b)))"
    using assms(3,4) by simp
  show ?thesis
  proof (cases "card (bits_of b) + k \<le> 1024")
    case True
    obtain js b' where js: "alloc_loop Bitmap_FindAndSet k b = Inr (map int js, b')" "length js = k" "distinct js"
      "set js \<inter> bits_of b = {}" "set js \<subseteq> {..<numBits b}" "bitmap_ok b'" "numBits b' = numBits b" "bits_of b' = bits_of b \<union> set js"
      using bitmap_slots.alloc_loop_fresh[OF assms(3), of k] True assms(4) by auto
    let ?hdr = "hdr\<lparr>numBytes := fileSize, numSectors := int k, dataSectors := map int js @ drop k (dataSectors hdr)\<rparr>"
    have "FileHeader_Allocate hdr b fileSize = Inr (True, ?hdr, b')"
      using True Allocate_loop_run[OF js(1), of 0 "dataSectors hdr"] n(2) assms(1)
      by (simp add: FileHeader_Allocate_def Let_def n(1) clear)
    moreover have D: "data_of ?hdr = js" using js(2) by (simp add: data_of_def comp_def)
    moreover have "hdr_ok ?hdr"
    proof -
      have "int k = (fileSize + 127) div 128" using assms(5) by (simp add: k_def)
      moreover have "\<forall>s \<in> set (map int js @ drop k (dataSectors hdr)). - (2 ^ 31) \<le> s \<and> s < 2 ^ 31"
        using js(5) assms(2,4) by (auto dest: in_set_dropD)
      moreover have "\<forall>s \<in> set (take k (map int js @ drop k (dataSectors hdr))). 0 \<le> s \<and> s < 1024"
        using js(2,5) assms(4) by auto
      ultimately show ?thesis using js(2,3) D n(2) assms(1,5,6)
        unfolding hdr_ok_def sizes128 of_nat_numeral by simp
    qed
    ultimately show ?thesis using True js(4,6-8) by (auto simp: k_def with_bits_def)
  next
    case False
    moreover have "card (bits_of b) \<le> 1024"
      using card_mono[OF _ bits_of_subset, of b] assms(4) by simp
    ultimately have "int (1024 - card (bits_of b)) < int k" by linarith
    then show ?thesis using False unfolding k_def[symmetric]
      by (simp add: FileHeader_Allocate_def Let_def n(1) clear)
  qed
qed

lemma Deallocate_loop_run:
  assumes "bitmap_ok b" "\<And>j. j < k \<Longrightarrow> ds ! (i + j) = int (js ! j)" "i + k \<le> length ds" "length js = k" "distinct js"
    "set js \<subseteq> bits_of b"
  shows "\<exists>b'. Deallocate_loop i k ds b = Inr b' \<and> with_bits b b' (bits_of b - set js)"
  using assms
proof (induction k arbitrary: i js b)
  case 0
  then show ?case by (simp add: with_bits_def)
next
  case (Suc k)
  then obtain j js' where js: "js = j # js'" by (cases js) auto
  have j: "j \<in> bits_of b" "j < numBits b" "ds ! i = int j"
    using Suc.prems(2)[of 0] Suc.prems(6) js bits_of_less by auto
  from Clear_run[OF Suc.prems(1) j(2)] obtain b1 where b1: "Bitmap_Clear b (int j) = Inr b1" "with_bits b b1 (bits_of b - {j})" .
  have "\<And>l. l < k \<Longrightarrow> ds ! (Suc i + l) = int (js' ! l)" using Suc.prems(2)[of "Suc _"] js by simp
  with Suc.IH[of b1 "Suc i" js'] b1(2) Suc.prems js obtain b' where
    "Deallocate_loop (Suc i) k ds b1 = Inr b'" "with_bits b1 b' (bits_of b1 - set js')"
    by (auto simp: with_bits_def)
  then show ?case using b1 j js Suc.prems(1,3) by (auto simp: with_bits_def)
qed

lemma Deallocate_run:
  assumes "hdr_ok hdr" "bitmap_ok b" "set (data_of hdr) \<subseteq> bits_of b"
  obtains b' where "FileHeader_Deallocate hdr b = Inr b'" "with_bits b b' (bits_of b - set (data_of hdr))"
proof -
  have "\<exists>b'. FileHeader_Deallocate hdr b = Inr b' \<and> with_bits b b' (bits_of b - set (data_of hdr))"
    unfolding FileHeader_Deallocate_def using hdr_okD(1,6,8,9,11)[OF assms(1)] assms(2,3)
    by (intro Deallocate_loop_run) simp_all
  then show ?thesis using that by blast
qed


section \<open>The disk behind the sectors\<close>

text \<open>
  \<open>SynchDisk\<close> hides the disk: a request, then the interrupt that ends it, which lets the waiting thread
  go on. A store of sectors is anything that answers such requests; the sectors above are one, the
  simulated hardware is another, and both answer the same.
\<close>

datatype request = Read_Sector int | Write_Sector int "u8 list"

fun run_requests :: "(int \<Rightarrow> 's \<Rightarrow> (u8 list \<times> 's) result) \<Rightarrow> (int \<Rightarrow> u8 list \<Rightarrow> 's \<Rightarrow> 's result)
    \<Rightarrow> request list \<Rightarrow> 's \<Rightarrow> (u8 list list \<times> 's) result" where
  "run_requests rd wr [] s = Inr ([], s)"
| "run_requests rd wr (Read_Sector n # rs) s =
     bind_result (rd n s) (\<lambda>(bytes, s). bind_result (run_requests rd wr rs s) (\<lambda>(out, s). Inr (bytes # out, s)))"
| "run_requests rd wr (Write_Sector n bytes # rs) s = bind_result (wr n bytes s) (run_requests rd wr rs)"

fun request_ok :: "request \<Rightarrow> bool" where
  "request_ok (Read_Sector n) \<longleftrightarrow> sector_ok n"
| "request_ok (Write_Sector n bytes) \<longleftrightarrow> sector_ok n \<and> length bytes = SectorSize"

definition read_request :: "int \<Rightarrow> 'k hw \<Rightarrow> (u8 list \<times> 'k hw) result" where
  "read_request n s =
     bind_result (ReadRequest n s) (\<lambda>(bytes, s). bind_result (Disk_CallBack (\<lambda>_. Inr) s) (\<lambda>s. Inr (bytes, s)))"

definition write_request :: "int \<Rightarrow> u8 list \<Rightarrow> 'k hw \<Rightarrow> 'k hw result" where
  "write_request n bytes s = bind_result (WriteRequest n bytes s) (Disk_CallBack (\<lambda>_. Inr))"

definition sectors_of :: "'k hw \<Rightarrow> sectors" where
  "sectors_of s = (\<lambda>n. read_platter n s)"

lemma sector_access:
  assumes "sector_ok n"
  shows "SynchDisk_ReadSector n d = Inr (d (nat n))" "SynchDisk_WriteSector n bytes d = Inr (d(nat n := bytes))"
  using assms by (simp_all add: SynchDisk_ReadSector_def SynchDisk_WriteSector_def sector_ok_def)

abbreviation sectors_read :: "int \<Rightarrow> sectors \<Rightarrow> (u8 list \<times> sectors) result" where
  "sectors_read n d \<equiv> bind_result (SynchDisk_ReadSector n d) (\<lambda>bytes. Inr (bytes, d))"

locale sector_store =
  fixes ready :: "'s \<Rightarrow> bool"
    and image :: "'s \<Rightarrow> sectors"
    and rd :: "int \<Rightarrow> 's \<Rightarrow> (u8 list \<times> 's) result"
    and wr :: "int \<Rightarrow> u8 list \<Rightarrow> 's \<Rightarrow> 's result"
  assumes read_store: "ready s \<Longrightarrow> sector_ok n \<Longrightarrow>
      \<exists>s'. rd n s = Inr (image s (nat n), s') \<and> ready s' \<and> image s' = image s"
    and write_store: "ready s \<Longrightarrow> sector_ok n \<Longrightarrow> length bytes = SectorSize \<Longrightarrow>
      \<exists>s'. wr n bytes s = Inr s' \<and> ready s' \<and> image s' = (image s)(nat n := bytes)"
begin

lemma run_on_image:
  assumes "list_all request_ok rs" "ready s"
  shows "\<exists>out s'. run_requests rd wr rs s = Inr (out, s') \<and> ready s'
    \<and> run_requests sectors_read SynchDisk_WriteSector rs (image s) = Inr (out, image s')"
  using assms
proof (induction rs arbitrary: s)
  case (Cons r rs)
  show ?case
  proof (cases r)
    case (Read_Sector n)
    then obtain s1 where s1: "rd n s = Inr (image s (nat n), s1)" "ready s1" "image s1 = image s" "sector_ok n"
      using read_store[OF Cons.prems(2), of n] Cons.prems(1) by auto
    moreover obtain out s' where "run_requests rd wr rs s1 = Inr (out, s')" "ready s'"
      "run_requests sectors_read SynchDisk_WriteSector rs (image s1) = Inr (out, image s')"
      using Cons.IH[OF _ s1(2)] Cons.prems(1) by auto
    ultimately show ?thesis using Read_Sector by (auto simp: sector_access)
  next
    case (Write_Sector n bytes)
    then obtain s1 where s1: "wr n bytes s = Inr s1" "ready s1" "image s1 = (image s)(nat n := bytes)" "sector_ok n"
      using write_store[OF Cons.prems(2), of n bytes] Cons.prems(1) by auto
    moreover obtain out s' where "run_requests rd wr rs s1 = Inr (out, s')" "ready s'"
      "run_requests sectors_read SynchDisk_WriteSector rs (image s1) = Inr (out, image s')"
      using Cons.IH[OF _ s1(2)] Cons.prems(1) by auto
    ultimately show ?thesis using Write_Sector by (auto simp: sector_access)
  qed
qed simp

end

interpretation memory_store: sector_store "\<lambda>_. True" "\<lambda>d. d" sectors_read SynchDisk_WriteSector
  by unfold_locales (simp_all add: sector_access)

interpretation disk_store: sector_store "\<lambda>s. disk_head_ok s \<and> \<not> active (disk (world s))" sectors_of read_request write_request
proof
  have ends: "Disk_CallBack (\<lambda>_. Inr) s = Inr (disk_done s)" for s :: "'k hw"
    by (simp add: Disk_CallBack_def disk_done_def)
  have frame: "disk_head_ok (disk_done s) = disk_head_ok s" "\<not> active (disk (world (disk_done s)))"
    "read_platter n (disk_done s) = read_platter n s" for s :: "'k hw" and n
    by (simp_all add: disk_done_def disk_head_ok_def read_platter_def with_disk_def)
  fix s :: "'k hw" and n
  assume s: "disk_head_ok s \<and> \<not> active (disk (world s))" "sector_ok n"
  show "\<exists>s'. read_request n s = Inr (sectors_of s (nat n), s') \<and> (disk_head_ok s' \<and> \<not> active (disk (world s')))
      \<and> sectors_of s' = sectors_of s"
  proof -
    from ReadRequest_run[of s n] s obtain s1 where s1: "ReadRequest n s = Inr (read_platter (nat n) s, s1)" "disk_head_ok s1"
      "platter (disk (world s1)) = platter (disk (world s))" by auto
    then have "read_platter m s1 = read_platter m s" for m by (simp add: read_platter_def)
    then show ?thesis using s1 by (auto simp: read_request_def ends frame sectors_of_def fun_eq_iff)
  qed
  fix bytes :: "u8 list" assume len: "length bytes = SectorSize"
  show "\<exists>s'. write_request n bytes s = Inr s' \<and> (disk_head_ok s' \<and> \<not> active (disk (world s')))
      \<and> sectors_of s' = (sectors_of s)(nat n := bytes)"
  proof -
    from WriteRequest_run[of s n bytes] s len obtain s1 where s1: "WriteRequest n bytes s = Inr s1" "disk_head_ok s1"
      "platter (disk (world s1)) = platter (disk (world (write_platter (nat n) bytes s)))" by auto
    then have "read_platter m s1 = (if m = nat n then bytes else read_platter m s)" for m
      using read_write_platter[OF len, of m "nat n" s] by (simp add: read_platter_def)
    then show ?thesis using s1 by (auto simp: write_request_def ends frame sectors_of_def fun_eq_iff)
  qed
qed

section \<open>Properties\<close>

text \<open>C15: The sectors that the file system works on are what the simulated disk provides: on an idle disk, every sequence
  of sector reads and writes, each waiting for its interrupt, reads the same data from the hardware as from
  an array of sectors with the contents of the platter, and leaves the platter with the contents of the array.\<close>

theorem disk_is_sectors:
  assumes "list_all request_ok rs" "disk_head_ok s" "\<not> active (disk (world s))"
  shows "\<exists>out s'. run_requests read_request write_request rs s = Inr (out, s')
    \<and> run_requests sectors_read SynchDisk_WriteSector rs (sectors_of s) = Inr (out, sectors_of s')
    \<and> disk_head_ok s' \<and> \<not> active (disk (world s'))"
  using disk_store.run_on_image[OF assms(1), of s] assms(2,3) by blast

theorem disk_is_sectors_witness:
  "\<exists>s'. run_requests read_request write_request [Write_Sector 3 (replicate 128 1), Write_Sector 4 (replicate 128 2), Read_Sector 3]
      (Interrupt_new None (fresh_hardware ()) :: unit hw) = Inr ([replicate 128 1], s')"
proof -
  let ?rs = "[Write_Sector 3 (replicate 128 1), Write_Sector 4 (replicate 128 2), Read_Sector 3]"
  have "list_all request_ok ?rs" "disk_head_ok (Interrupt_new None (fresh_hardware ()) :: unit hw)"
    "\<not> active (disk (world (Interrupt_new None (fresh_hardware ()) :: unit hw)))"
    by (simp_all add: sector_ok_def disk_head_ok_def Interrupt_new_def Statistics_new_def fresh_hardware_def)
  from disk_is_sectors[OF this] show ?thesis by (auto simp: SynchDisk_ReadSector_def SynchDisk_WriteSector_def)
qed

text \<open>C13: An open file on the disk is an array of bytes of fixed length. \<open>WriteAt\<close> puts the given bytes at the
  position as far as the file reaches, whatever the alignment, and reports how many it put; a \<open>ReadAt\<close> of any
  range after it reads the changed array up to its end; no sector outside the file changes.\<close>

theorem file_is_byte_array:
  assumes "hdr_ok (file_hdr f)" "sectors_ok d" "0 \<le> p" "p + n < 2 ^ 31" "nat n \<le> length bytes" "0 \<le> q" "q + m < 2 ^ 31"
  defines "old \<equiv> file_bytes (file_hdr f) d"
  shows "\<exists>d'. File_WriteAt junk f bytes n p d = Inr (int (length (take (nat n) (drop (nat p) old))), d')
    \<and> sectors_ok d' \<and> (\<forall>s. s \<notin> set (data_of (file_hdr f)) \<longrightarrow> d' s = d s)
    \<and> (let bs = take (nat m) (drop (nat q) (patch (nat p) (take (nat n) bytes) old))
       in File_ReadAt f m q d' = Inr (int (length bs), bs))"
proof -
  from sector_WriteAt[OF assms(1-5), of junk] obtain d' where d': "File_WriteAt junk f bytes n p d =
      Inr (int (length (take (nat n) (drop (nat p) old))), d')" "sectors_ok d'"
    "\<And>s. s \<notin> set (data_of (file_hdr f)) \<Longrightarrow> d' s = d s"
    "file_bytes (file_hdr f) d' = patch (nat p) (take (nat n) bytes) old"
    unfolding old_def by blast
  with sector_ReadAt[OF assms(1) d'(2) assms(6,7)] show ?thesis by auto
qed

text \<open>A file of 130 bytes in the sectors 7 and 2.\<close>

definition two_sectors :: sector_file where
  "two_sectors = \<lparr>file_hdr = \<lparr>numBytes = 130, numSectors = 2, dataSectors = [7, 2] @ replicate 28 0\<rparr>, seekPosition = 0\<rparr>"

lemma two_sectors_ok: "hdr_ok (file_hdr two_sectors)" "sectors_ok (\<lambda>_. replicate 128 9)"
  "file_bytes (file_hdr two_sectors) (\<lambda>_. replicate 128 9) = replicate 130 9"
  by (auto simp: two_sectors_def hdr_ok_def data_of_def sectors_ok_def file_bytes_def raw_bytes_def simp flip: replicate_add)

theorem file_is_byte_array_witness:
  "\<exists>d'. File_WriteAt (\<lambda>_. 0) two_sectors [1, 2, 3, 4] 4 127 (\<lambda>_. replicate 128 9) = Inr (3, d')
    \<and> File_ReadAt two_sectors 10 126 d' = Inr (4, [9, 1, 2, 3])"
  using file_is_byte_array[OF two_sectors_ok(1,2), of 127 4 "[1, 2, 3, 4]" 126 10 "\<lambda>_. 0"]
  by (auto simp: two_sectors_ok(3) patch_def Let_def min_def)

end
