(* ===== verification/Directory.thy ===== *)
theory Directory imports Sector_Files begin

text \<open>
  filesys/directory.cc and filesys/directory.h: the directory, a table of names and header sectors that is
  kept in a file. The lemmas read it as a finite map from names and give its image in the file.
\<close>

section \<open>The directory\<close>

definition FileNameMaxLen :: nat where "FileNameMaxLen = 9"
definition sizeof_DirectoryEntry :: nat where "sizeof_DirectoryEntry = 20"

text \<open>An entry as it lies in memory and on the disk: a flag, three bytes of padding, the sector of the header
  of the file, the name, and two bytes of padding.\<close>

record DirectoryEntry =
  inUse :: u8
  entry_sector :: int
  entry_name :: "u8 list"
  padding :: "u8 list"

type_synonym directory = "DirectoryEntry list"

definition entry_bytes :: "DirectoryEntry \<Rightarrow> u8 list" where
  "entry_bytes e = inUse e # take 3 (padding e) @ word_bytes (of_int (entry_sector e)) @ entry_name e @ drop 3 (padding e)"

definition entry_of :: "u8 list \<Rightarrow> DirectoryEntry" where
  "entry_of bs = \<lparr>inUse = bs ! 0, entry_sector = sint (word_at bs 4), entry_name = take 10 (drop 8 bs),
                  padding = take 3 (drop 1 bs) @ take 2 (drop 18 bs)\<rparr>"

definition directory_bytes :: "directory \<Rightarrow> u8 list" where
  "directory_bytes dir = concat (map entry_bytes dir)"

definition directory_of :: "u8 list \<Rightarrow> directory" where
  "directory_of bs = map (\<lambda>i. entry_of (take 20 (drop (20 * i) bs))) [0..<length bs div 20]"

text \<open>The constructor clears the flags; the rest is what the memory holds.\<close>

definition Directory_new :: "(nat \<Rightarrow> u8) \<Rightarrow> nat \<Rightarrow> directory" where
  "Directory_new junk n = map (\<lambda>e. e\<lparr>inUse := 0\<rparr>) (directory_of (map junk [0..<n * sizeof_DirectoryEntry]))"

definition Directory_FetchFrom :: "sector_file \<Rightarrow> sectors \<Rightarrow> directory \<Rightarrow> directory result" where
  "Directory_FetchFrom f d dir =
     bind_result (File_ReadAt f (int (length dir * sizeof_DirectoryEntry)) 0 d) (\<lambda>(_, bytes).
     bind_result (blit 0 bytes (directory_bytes dir)) (\<lambda>bs. Inr (directory_of bs)))"

definition Directory_WriteBack :: "(nat \<Rightarrow> u8) \<Rightarrow> sector_file \<Rightarrow> directory \<Rightarrow> sectors \<Rightarrow> sectors result" where
  "Directory_WriteBack junk f dir d =
     bind_result (File_WriteAt junk f (directory_bytes dir) (int (length dir * sizeof_DirectoryEntry)) 0 d) (\<lambda>(_, d). Inr d)"

text \<open>\<open>strncmp\<close> finds no difference in the first \<open>n\<close> characters; \<open>strncpy\<close> copies at most \<open>n\<close> and
  fills up with zeros.\<close>

definition strncmp_equal :: "nat \<Rightarrow> u8 list \<Rightarrow> u8 list \<Rightarrow> bool" where
  "strncmp_equal n a b \<longleftrightarrow> take n (c_string a) = take n (c_string b)"

definition strncpy :: "nat \<Rightarrow> u8 list \<Rightarrow> u8 list \<Rightarrow> u8 list" where
  "strncpy n src dst = take n (c_string src @ replicate n 0) @ drop n dst"

definition FindIndex :: "u8 list \<Rightarrow> directory \<Rightarrow> int" where
  "FindIndex name dir =
     index_or_minus1 (first_below (\<lambda>i. inUse (dir ! i) \<noteq> 0 \<and> strncmp_equal FileNameMaxLen (entry_name (dir ! i)) name)
       (length dir))"

definition Directory_Find :: "u8 list \<Rightarrow> directory \<Rightarrow> int" where
  "Directory_Find name dir =
     (let i = FindIndex name dir in if i \<noteq> - 1 then entry_sector (dir ! nat i) else - 1)"

definition Directory_Add :: "u8 list \<Rightarrow> int \<Rightarrow> directory \<Rightarrow> bool \<times> directory" where
  "Directory_Add name newSector dir =
     (if FindIndex name dir \<noteq> - 1 then (False, dir)
      else case first_below (\<lambda>i. inUse (dir ! i) = 0) (length dir) of
        Some i \<Rightarrow> (True, dir[i := (dir ! i)\<lparr>inUse := 1,
                            entry_name := strncpy FileNameMaxLen name (entry_name (dir ! i)),
                            entry_sector := newSector\<rparr>])
      | None \<Rightarrow> (False, dir))"

definition Directory_Remove :: "u8 list \<Rightarrow> directory \<Rightarrow> bool \<times> directory" where
  "Directory_Remove name dir =
     (let i = FindIndex name dir in
      if i = - 1 then (False, dir) else (True, dir[nat i := (dir ! nat i)\<lparr>inUse := 0\<rparr>]))"

text \<open>\<open>List\<close> prints each name up to its zero, which nothing puts behind nine characters.\<close>

fun Directory_List :: "directory \<Rightarrow> u8 list list result" where
  "Directory_List [] = Inr []"
| "Directory_List (e # dir) =
     (if inUse e \<noteq> 0
      then check (0 \<in> set (entry_name e)) OutOfBounds
             (bind_result (Directory_List dir) (\<lambda>out. Inr (c_string (entry_name e) # out)))
      else Directory_List dir)"

section \<open>The directory as a map\<close>

text \<open>A name counts up to nine characters.\<close>

definition name_key :: "u8 list \<Rightarrow> u8 list" where
  "name_key name = take FileNameMaxLen (c_string name)"

abbreviation entry_key :: "DirectoryEntry \<Rightarrow> u8 list" where
  "entry_key e \<equiv> name_key (entry_name e)"

definition live :: "directory \<Rightarrow> DirectoryEntry list" where
  "live dir = filter (\<lambda>e. inUse e \<noteq> 0) dir"

definition entry_ok :: "DirectoryEntry \<Rightarrow> bool" where
  "entry_ok e \<longleftrightarrow> length (entry_name e) = 10 \<and> length (padding e) = 5
     \<and> - (2 ^ 31) \<le> entry_sector e \<and> entry_sector e < 2 ^ 31"

definition directory_ok :: "directory \<Rightarrow> bool" where
  "directory_ok dir \<longleftrightarrow> list_all entry_ok dir \<and> distinct (map entry_key (live dir))"

definition directory_map :: "directory \<Rightarrow> u8 list \<Rightarrow> int option" where
  "directory_map dir = map_of (map (\<lambda>e. (entry_key e, entry_sector e)) (live dir))"

lemma strncmp_key: "strncmp_equal FileNameMaxLen a b \<longleftrightarrow> name_key a = name_key b"
  by (simp add: strncmp_equal_def name_key_def)

lemma c_string_append: "c_string (xs @ ys) = (if 0 \<in> set xs then c_string xs else xs @ c_string ys)"
  by (induction xs) (auto simp: c_string_def)

lemma zero_not_in_c_string [simp]: "0 \<notin> set (c_string xs)"
  by (auto simp: c_string_def dest: set_takeWhileD)

lemma key_strncpy: "name_key (strncpy FileNameMaxLen name dst) = name_key name"
proof (cases "length (c_string name) < 9")
  case True
  then have "take 9 (c_string name @ replicate 9 0) = c_string name @ 0 # replicate (8 - length (c_string name)) 0"
    by (simp flip: replicate_Suc)
  then show ?thesis by (simp add: name_key_def strncpy_def FileNameMaxLen_def c_string_append) (simp add: c_string_def)
next
  case False
  moreover have "0 \<notin> set (take 9 (c_string name))" using zero_not_in_c_string by (metis in_set_takeD)
  ultimately show ?thesis by (simp add: name_key_def strncpy_def FileNameMaxLen_def c_string_append)
qed

lemma length_strncpy: "length dst = 10 \<Longrightarrow> length (strncpy FileNameMaxLen src dst) = 10"
  by (simp add: strncpy_def FileNameMaxLen_def)

lemma live_update:
  assumes "i < length dir"
  shows "\<exists>as bs. live dir = as @ (if inUse (dir ! i) \<noteq> 0 then [dir ! i] else []) @ bs
    \<and> (\<forall>e. live (dir[i := e]) = as @ (if inUse e \<noteq> 0 then [e] else []) @ bs)"
proof (intro exI conjI allI)
  have "dir = take i dir @ dir ! i # drop (Suc i) dir" using assms by (rule id_take_nth_drop)
  then have "live dir = live (take i dir @ dir ! i # drop (Suc i) dir)" by simp
  then show "live dir = live (take i dir) @ (if inUse (dir ! i) \<noteq> 0 then [dir ! i] else []) @ live (drop (Suc i) dir)"
    by (simp add: live_def)
  show "live (dir[i := e]) = live (take i dir) @ (if inUse e \<noteq> 0 then [e] else []) @ live (drop (Suc i) dir)" for e
    using assms by (simp add: upd_conv_take_nth_drop live_def)
qed

lemma live_nth: "e \<in> set (live dir) \<longleftrightarrow> (\<exists>i < length dir. dir ! i = e \<and> inUse e \<noteq> 0)"
  by (auto simp: live_def in_set_conv_nth)

lemma directory_map_Some:
  "directory_ok dir \<Longrightarrow> directory_map dir k = Some s \<longleftrightarrow> (\<exists>e \<in> set (live dir). entry_key e = k \<and> entry_sector e = s)"
  by (subst directory_map_def, subst map_of_eq_Some_iff) (auto simp: directory_ok_def comp_def)

lemma directory_map_None: "directory_map dir k = None \<longleftrightarrow> k \<notin> entry_key ` set (live dir)"
  by (auto simp: directory_map_def map_of_eq_None_iff image_image)

lemma FindIndex_run:
  assumes "directory_ok dir"
  shows "case directory_map dir (name_key name) of
      None \<Rightarrow> FindIndex name dir = - 1
    | Some s \<Rightarrow> \<exists>i < length dir. FindIndex name dir = int i \<and> dir ! i \<in> set (live dir)
        \<and> entry_key (dir ! i) = name_key name \<and> entry_sector (dir ! i) = s"
proof -
  let ?P = "\<lambda>i. inUse (dir ! i) \<noteq> 0 \<and> entry_key (dir ! i) = name_key name"
  have F: "FindIndex name dir = index_or_minus1 (first_below ?P (length dir))"
    by (simp add: FindIndex_def strncmp_key)
  show ?thesis
  proof (cases "first_below ?P (length dir)")
    case None
    then have "name_key name \<notin> entry_key ` set (live dir)" by (auto simp: first_below_None live_nth)
    then have "directory_map dir (name_key name) = None" by (simp add: directory_map_None)
    then show ?thesis using None F by simp
  next
    case (Some i)
    then have i: "i < length dir" "dir ! i \<in> set (live dir)" "entry_key (dir ! i) = name_key name"
      by (auto simp: first_below_Some live_nth)
    then have "directory_map dir (name_key name) = Some (entry_sector (dir ! i))"
      using assms by (auto simp: directory_map_Some)
    then show ?thesis using Some F i by auto
  qed
qed

lemma Find_run:
  "directory_ok dir \<Longrightarrow> Directory_Find name dir = (case directory_map dir (name_key name) of None \<Rightarrow> - 1 | Some s \<Rightarrow> s)"
  using FindIndex_run[of dir name] by (auto simp: Directory_Find_def Let_def split: option.splits)

text \<open>Adding a name to a directory with room takes a free entry and changes no other.\<close>

lemma Add_run:
  assumes "directory_ok dir" "- (2 ^ 31) \<le> s" "s < 2 ^ 31" "directory_map dir (name_key name) = None"
  shows "if length (live dir) < length dir
    then \<exists>i as bs e. Directory_Add name s dir = (True, dir[i := e]) \<and> i < length dir \<and> inUse e \<noteq> 0 \<and> entry_ok e
      \<and> entry_key e = name_key name \<and> entry_sector e = s \<and> live dir = as @ bs \<and> live (dir[i := e]) = as @ e # bs
      \<and> directory_ok (dir[i := e])
    else Directory_Add name s dir = (False, dir)"
proof -
  have none: "FindIndex name dir = - 1" using FindIndex_run[OF assms(1), of name] assms(4) by simp
  show ?thesis
  proof (cases "first_below (\<lambda>i. inUse (dir ! i) = 0) (length dir)")
    case None
    then have "live dir = dir" by (auto simp: first_below_None live_def in_set_conv_nth intro!: filter_True)
    then show ?thesis using none None by (simp add: Directory_Add_def)
  next
    case (Some i)
    then have i: "i < length dir" "inUse (dir ! i) = 0" by (auto simp: first_below_Some)
    define e where "e = (dir ! i)\<lparr>inUse := 1, entry_name := strncpy FileNameMaxLen name (entry_name (dir ! i)), entry_sector := s\<rparr>"
    have e: "inUse e \<noteq> 0" "entry_key e = name_key name" "entry_sector e = s" by (simp_all add: e_def key_strncpy)
    have ok: "entry_ok e"
      using assms(1-3) i(1) by (auto simp: e_def entry_ok_def directory_ok_def list_all_length length_strncpy)
    obtain as bs where "live dir = as @ (if inUse (dir ! i) \<noteq> 0 then [dir ! i] else []) @ bs"
    "\<forall>x. live (dir[i := x]) = as @ (if inUse x \<noteq> 0 then [x] else []) @ bs"
      using live_update[OF i(1)] by blast
    then have l: "live dir = as @ bs" "live (dir[i := e]) = as @ e # bs" using i(2) e(1) by simp_all
    have "directory_ok (dir[i := e])"
      using assms(1,4) ok e(2) l unfolding directory_ok_def directory_map_None
      by (auto simp: list_all_length nth_update_if)
    moreover have "length (live dir) < length dir"
      unfolding live_def using i by (intro length_filter_less[of "dir ! i"]) auto
    ultimately show ?thesis using none Some e ok l i(1)
      by (auto simp: Directory_Add_def e_def[symmetric])
  qed
qed

lemma Remove_entry_run:
  assumes "directory_ok dir" "directory_map dir (name_key name) = Some s"
  shows "\<exists>i as bs e. Directory_Remove name dir = (True, dir[i := e\<lparr>inUse := 0\<rparr>]) \<and> i < length dir \<and> dir ! i = e \<and> entry_ok e
    \<and> entry_key e = name_key name \<and> entry_sector e = s \<and> live dir = as @ e # bs \<and> live (dir[i := e\<lparr>inUse := 0\<rparr>]) = as @ bs
    \<and> directory_ok (dir[i := e\<lparr>inUse := 0\<rparr>])"
proof -
  obtain i where i: "i < length dir" "FindIndex name dir = int i" "dir ! i \<in> set (live dir)"
    "entry_key (dir ! i) = name_key name" "entry_sector (dir ! i) = s"
    using FindIndex_run[OF assms(1), of name] assms(2) by auto
  have u: "inUse (dir ! i) \<noteq> 0" using i(3) by (simp add: live_def)
  obtain as bs where "live dir = as @ (if inUse (dir ! i) \<noteq> 0 then [dir ! i] else []) @ bs"
    "\<forall>x. live (dir[i := x]) = as @ (if inUse x \<noteq> 0 then [x] else []) @ bs"
    using live_update[OF i(1)] by blast
  then have l: "live dir = as @ dir ! i # bs" "live (dir[i := (dir ! i)\<lparr>inUse := 0\<rparr>]) = as @ bs" using u by simp_all
  have ok: "entry_ok (dir ! i)" using assms(1) i(1) by (auto simp: directory_ok_def list_all_length)
  have "directory_ok (dir[i := (dir ! i)\<lparr>inUse := 0\<rparr>])"
    using assms(1) l ok unfolding directory_ok_def by (auto simp: list_all_length nth_update_if entry_ok_def)
  then show ?thesis using i l ok by (auto simp: Directory_Remove_def Let_def)
qed

section \<open>The directory in its file\<close>

lemma length_entry_bytes: "entry_ok e \<Longrightarrow> length (entry_bytes e) = 20"
  by (simp add: entry_ok_def entry_bytes_def)

lemma entry_round_trip: "entry_ok e \<Longrightarrow> entry_of (entry_bytes e) = e"
proof (cases e)
  case (fields u s nm pad)
  assume ok: "entry_ok e"
  then have "length pad = 5" "length nm = 10" "c_int s = s" using fields by (simp_all add: entry_ok_def)
  moreover obtain p0 p1 p2 p3 p4 where "pad = [p0, p1, p2, p3, p4]"
    using \<open>length pad = 5\<close> by (auto simp: length_Suc_conv numeral_eq_Suc)
  moreover have "word_at (u # p0 # p1 # p2 # word_bytes (of_int s) @ rest) 4 = of_int s" for rest
    by (simp add: word_at_def word_bytes_def le_word32_of_bytes[unfolded One_nat_def])
  ultimately show ?thesis using fields
    by (simp add: entry_of_def entry_bytes_def c_int_def)
qed

lemma length_directory_bytes: "list_all entry_ok dir \<Longrightarrow> length (directory_bytes dir) = 20 * length dir"
  unfolding directory_bytes_def by (rule length_concat_const) (simp add: list_all_iff length_entry_bytes)

lemma directory_round_trip:
  assumes "list_all entry_ok dir"
  shows "directory_of (directory_bytes dir) = dir"
proof (rule nth_equalityI)
  have e: "length (entry_bytes x) = 20" if "x \<in> set dir" for x
    using that assms by (simp add: list_all_iff length_entry_bytes)
  show len: "length (directory_of (directory_bytes dir)) = length dir"
    using assms by (simp add: directory_of_def length_directory_bytes)
  fix i assume i: "i < length (directory_of (directory_bytes dir))"
  then have "i < length dir" using len by simp
  then have "take 1 (drop i dir) = [dir ! i]" by (simp add: Cons_nth_drop_Suc[symmetric])
  then have "entry_bytes (dir ! i) = concat (map entry_bytes (take 1 (drop i dir)))" by simp
  also have "\<dots> = take (20 * 1) (concat (map entry_bytes (drop i dir)))"
    by (rule concat_blocks(1)) (use e in_set_dropD in fastforce)
  also have "\<dots> = take 20 (drop (20 * i) (directory_bytes dir))"
    unfolding directory_bytes_def by (subst concat_blocks(2)[where w = 20]) (use e in auto)
  finally show "directory_of (directory_bytes dir) ! i = dir ! i"
    using \<open>i < length dir\<close> assms entry_round_trip[of "dir ! i"]
    by (simp add: directory_of_def length_directory_bytes list_all_length)
qed

lemma directory_of_ok: "list_all entry_ok (directory_of bs)"
proof -
  have "20 * i + 20 \<le> length bs" if "i < length bs div 20" for i
    using that by linarith
  moreover have "- (2 ^ 31) \<le> sint (w :: u32) \<and> sint w < 2 ^ 31" for w
    using sint_range_size[of w] by (simp add: word_size)
  ultimately show ?thesis
    by (force simp: directory_of_def list_all_iff entry_ok_def entry_of_def min_def)
qed

lemma length_directory_of [simp]: "length (directory_of bs) = length bs div 20"
  by (simp add: directory_of_def)

lemma Directory_new_run: "list_all entry_ok (Directory_new junk n)" "length (Directory_new junk n) = n" "live (Directory_new junk n) = []"
  using directory_of_ok[of "map junk [0..<n * sizeof_DirectoryEntry]"]
  by (auto simp: Directory_new_def sizeof_DirectoryEntry_def list_all_iff entry_ok_def live_def)

text \<open>The files of the directory and of the free map are read and written whole.\<close>

lemma ReadAt_whole:
  assumes "hdr_ok (file_hdr f)" "sectors_ok d"
  shows "File_ReadAt f (numBytes (file_hdr f)) 0 d = Inr (numBytes (file_hdr f), file_bytes (file_hdr f) d)"
  using sector_ReadAt[OF assms, of 0 "numBytes (file_hdr f)"] hdr_okD(2,3)[OF assms(1)] assms by (simp add: Let_def)

lemma WriteAt_whole:
  assumes "hdr_ok (file_hdr f)" "sectors_ok d" "int (length bytes) = numBytes (file_hdr f)"
  obtains d' where "File_WriteAt junk f bytes (numBytes (file_hdr f)) 0 d = Inr (numBytes (file_hdr f), d')"
    "sectors_ok d'" "\<And>s. s \<notin> set (data_of (file_hdr f)) \<Longrightarrow> d' s = d s" "file_bytes (file_hdr f) d' = bytes"
proof -
  have "patch (nat 0) (take (nat (numBytes (file_hdr f))) bytes) (file_bytes (file_hdr f) d) = bytes"
    using assms by (simp add: patch_all flip: assms(3))
  moreover have pre: "0 \<le> (0 :: int)" "0 + numBytes (file_hdr f) < 2 ^ 31" "nat (numBytes (file_hdr f)) \<le> length bytes"
    using hdr_okD(2,3)[OF assms(1)] assms(3) by simp_all
  obtain d' where d': "File_WriteAt junk f bytes (numBytes (file_hdr f)) 0 d
      = Inr (int (length (take (nat (numBytes (file_hdr f))) (drop (nat 0) (file_bytes (file_hdr f) d)))), d')"
    "sectors_ok d'" "\<And>s. s \<notin> set (data_of (file_hdr f)) \<Longrightarrow> d' s = d s"
    "file_bytes (file_hdr f) d' = patch (nat 0) (take (nat (numBytes (file_hdr f))) bytes) (file_bytes (file_hdr f) d)"
    by (rule sector_WriteAt[where junk = junk, OF assms(1,2) pre]) (rule that)
  moreover have "int (length (take (nat (numBytes (file_hdr f))) (drop (nat 0) (file_bytes (file_hdr f) d)))) = numBytes (file_hdr f)"
    using hdr_okD(2)[OF assms(1)] assms(1,2) by simp
  ultimately show ?thesis using that[of d'] by simp
qed

lemma blit_whole: "length bs = length buf \<Longrightarrow> blit 0 bs buf = Inr bs"
  using blit_run[of 0 bs buf] by (simp add: patch_all)

end
