(* ===== verification/File_System.thy ===== *)
theory File_System imports Directory begin

text \<open>
  filesys/filesys.cc: the file system on the disk, with its free map and its directory in files of their
  own. As in the code, an operation fetches the directory and the free map from their files, works on the
  copies in memory and writes them back when it has succeeded.
\<close>

section \<open>The file system\<close>

definition FreeMapSector :: int where "FreeMapSector = 0"
definition DirectorySector :: int where "DirectorySector = 1"
definition FreeMapFileSize :: int where "FreeMapFileSize = c_div NumSectors (int BitsInByte)"
definition NumDirEntries :: nat where "NumDirEntries = 10"
definition DirectoryFileSize :: int where "DirectoryFileSize = int (sizeof_DirectoryEntry * NumDirEntries)"

record file_system =
  freeMapFile :: sector_file
  directoryFile :: sector_file

text \<open>What the allocations of an operation find in memory, numbered in the order of the code: the tables, the
  headers, the buffers.\<close>

type_synonym heap_junk = "nat \<Rightarrow> nat \<Rightarrow> u8"

definition FileSystem_mount :: "sectors \<Rightarrow> file_system result" where
  "FileSystem_mount d =
     bind_result (File_open FreeMapSector d) (\<lambda>mapFile.
     bind_result (File_open DirectorySector d) (\<lambda>dirFile.
     Inr \<lparr>freeMapFile = mapFile, directoryFile = dirFile\<rparr>))"

definition FileSystem_new :: "heap_junk \<Rightarrow> bool \<Rightarrow> sectors \<Rightarrow> (file_system \<times> sectors) result" where
  "FileSystem_new g format d =
     (if format then
        bind_result (PersistentBitmap_new NumSectors) (\<lambda>freeMap.
        let directory = Directory_new (g 0) NumDirEntries;
            mapHdr = FileHeader_new (g 1); dirHdr = FileHeader_new (g 2)
        in bind_result (Bitmap_Mark freeMap FreeMapSector) (\<lambda>freeMap.
           bind_result (Bitmap_Mark freeMap DirectorySector) (\<lambda>freeMap.
           bind_result (FileHeader_Allocate mapHdr freeMap FreeMapFileSize) (\<lambda>(done1, mapHdr, freeMap).
           c_assert done1 (bind_result (FileHeader_Allocate dirHdr freeMap DirectoryFileSize) (\<lambda>(done2, dirHdr, freeMap).
           c_assert done2 (bind_result (FileHeader_WriteBack mapHdr FreeMapSector d) (\<lambda>d.
           bind_result (FileHeader_WriteBack dirHdr DirectorySector d) (\<lambda>d.
           bind_result (FileSystem_mount d) (\<lambda>fs.
           bind_result (PersistentBitmap_WriteBack (g 3) (freeMapFile fs) freeMap d) (\<lambda>d.
           bind_result (Directory_WriteBack (g 4) (directoryFile fs) directory d) (\<lambda>d.
           Inr (fs, d)))))))))))))
      else bind_result (FileSystem_mount d) (\<lambda>fs. Inr (fs, d)))"

definition FS_Create :: "heap_junk \<Rightarrow> file_system \<Rightarrow> u8 list \<Rightarrow> int \<Rightarrow> sectors \<Rightarrow> (bool \<times> sectors) result" where
  "FS_Create g fs name initialSize d =
     bind_result (Directory_FetchFrom (directoryFile fs) d (Directory_new (g 0) NumDirEntries)) (\<lambda>directory.
     if Directory_Find name directory \<noteq> - 1 then Inr (False, d)
     else bind_result (PersistentBitmap_open (freeMapFile fs) NumSectors d) (\<lambda>freeMap.
          bind_result (Bitmap_FindAndSet freeMap) (\<lambda>(sector, freeMap).
          if sector = - 1 then Inr (False, d)
          else let (added, directory) = Directory_Add name sector directory in
            if \<not> added then Inr (False, d)
            else bind_result (FileHeader_Allocate (FileHeader_new (g 1)) freeMap initialSize) (\<lambda>(success, hdr, freeMap).
              if \<not> success then Inr (False, d)
              else bind_result (FileHeader_WriteBack hdr sector d) (\<lambda>d.
                   bind_result (Directory_WriteBack (g 4) (directoryFile fs) directory d) (\<lambda>d.
                   bind_result (PersistentBitmap_WriteBack (g 3) (freeMapFile fs) freeMap d) (\<lambda>d.
                   Inr (True, d))))))))"

definition FS_Open :: "heap_junk \<Rightarrow> file_system \<Rightarrow> u8 list \<Rightarrow> sectors \<Rightarrow> sector_file option result" where
  "FS_Open g fs name d =
     bind_result (Directory_FetchFrom (directoryFile fs) d (Directory_new (g 0) NumDirEntries)) (\<lambda>directory.
     let sector = Directory_Find name directory in
     if sector \<ge> 0 then bind_result (File_open sector d) (\<lambda>f. Inr (Some f)) else Inr None)"

definition FS_Remove :: "heap_junk \<Rightarrow> file_system \<Rightarrow> u8 list \<Rightarrow> sectors \<Rightarrow> (bool \<times> sectors) result" where
  "FS_Remove g fs name d =
     bind_result (Directory_FetchFrom (directoryFile fs) d (Directory_new (g 0) NumDirEntries)) (\<lambda>directory.
     let sector = Directory_Find name directory in
     if sector = - 1 then Inr (False, d)
     else bind_result (FileHeader_FetchFrom sector d) (\<lambda>fileHdr.
          bind_result (PersistentBitmap_open (freeMapFile fs) NumSectors d) (\<lambda>freeMap.
          bind_result (FileHeader_Deallocate fileHdr freeMap) (\<lambda>freeMap.
          bind_result (Bitmap_Clear freeMap sector) (\<lambda>freeMap.
          let (_, directory) = Directory_Remove name directory in
          bind_result (PersistentBitmap_WriteBack (g 3) (freeMapFile fs) freeMap d) (\<lambda>d.
          bind_result (Directory_WriteBack (g 4) (directoryFile fs) directory d) (\<lambda>d.
          Inr (True, d))))))))"

definition FS_List :: "heap_junk \<Rightarrow> file_system \<Rightarrow> sectors \<Rightarrow> u8 list list result" where
  "FS_List g fs d =
     bind_result (Directory_FetchFrom (directoryFile fs) d (Directory_new (g 0) NumDirEntries)) Directory_List"

section \<open>The free map and the directory on the disk\<close>

definition dir_at :: "file_system \<Rightarrow> sectors \<Rightarrow> directory" where
  "dir_at fs d = directory_of (file_bytes (file_hdr (directoryFile fs)) d)"

definition map_at :: "file_system \<Rightarrow> sectors \<Rightarrow> bitmap" where
  "map_at fs d = \<lparr>numBits = 1024, numWords = 32, words = words_of (file_bytes (file_hdr (freeMapFile fs)) d)\<rparr>"

definition sys_sectors :: "file_system \<Rightarrow> nat list" where
  "sys_sectors fs = [0, 1] @ data_of (file_hdr (freeMapFile fs)) @ data_of (file_hdr (directoryFile fs))"

definition sys_ok :: "file_system \<Rightarrow> sectors \<Rightarrow> bool" where
  "sys_ok fs d \<longleftrightarrow> sectors_ok d \<and> FileSystem_mount d = Inr fs
     \<and> hdr_ok (file_hdr (freeMapFile fs)) \<and> numBytes (file_hdr (freeMapFile fs)) = 128
     \<and> hdr_ok (file_hdr (directoryFile fs)) \<and> numBytes (file_hdr (directoryFile fs)) = 200 \<and> distinct (sys_sectors fs)"

lemma file_sizes [simp]: "FreeMapFileSize = 128" "DirectoryFileSize = 200" "NumDirEntries = 10" "sizeof_DirectoryEntry = 20"
  "FreeMapSector = 0" "DirectorySector = 1"
  by (simp_all add: FreeMapFileSize_def DirectoryFileSize_def NumDirEntries_def sizeof_DirectoryEntry_def BitsInByte_def
      c_div_def FreeMapSector_def DirectorySector_def)

lemma mount_run:
  "FileSystem_mount d = Inr \<lparr>freeMapFile = \<lparr>file_hdr = FileHeader_of (d 0), seekPosition = 0\<rparr>,
     directoryFile = \<lparr>file_hdr = FileHeader_of (d 1), seekPosition = 0\<rparr>\<rparr>"
  using FileHeader_disk(3)[of 0 d] FileHeader_disk(3)[of 1 d] by (simp add: FileSystem_mount_def)

lemma mount_cong: "d' 0 = d 0 \<Longrightarrow> d' 1 = d 1 \<Longrightarrow> FileSystem_mount d' = FileSystem_mount d"
  unfolding mount_run by simp

lemma bitmap_1024: "bitmap_ok b \<Longrightarrow> numBits b = 1024 \<Longrightarrow> numWords b = 32 \<and> length (words b) = 32"
  by (simp add: bitmap_ok_def divRoundUp_def)

lemma fetch_dir:
  assumes "sys_ok fs d"
  shows "Directory_FetchFrom (directoryFile fs) d (Directory_new g NumDirEntries) = Inr (dir_at fs d)"
    "length (dir_at fs d) = 10" "list_all entry_ok (dir_at fs d)"
proof -
  have ok: "hdr_ok (file_hdr (directoryFile fs))" "sectors_ok d" "numBytes (file_hdr (directoryFile fs)) = 200"
    using assms by (simp_all add: sys_ok_def)
  show "Directory_FetchFrom (directoryFile fs) d (Directory_new g NumDirEntries) = Inr (dir_at fs d)"
    using ReadAt_whole[OF ok(1,2)] ok Directory_new_run[of g 10]
    by (simp add: Directory_FetchFrom_def dir_at_def blit_whole length_directory_bytes)
  show "length (dir_at fs d) = 10" using ok by (simp add: dir_at_def)
  show "list_all entry_ok (dir_at fs d)" by (simp add: dir_at_def directory_of_ok)
qed

lemma open_map:
  assumes "sys_ok fs d"
  shows "PersistentBitmap_open (freeMapFile fs) NumSectors d = Inr (map_at fs d)" "bitmap_ok (map_at fs d)" "numBits (map_at fs d) = 1024"
proof -
  have ok: "hdr_ok (file_hdr (freeMapFile fs))" "sectors_ok d" "numBytes (file_hdr (freeMapFile fs)) = 128"
    using assms by (simp_all add: sys_ok_def)
  obtain b where b: "Bitmap_new 1024 = Inr b" "bitmap_ok b" "numBits b = 1024"
    using Bitmap_new_run[of 1024] by auto
  then have n: "numWords b = 32" "length (words b) = 32" by (simp_all add: bitmap_1024)
  then show "PersistentBitmap_open (freeMapFile fs) NumSectors d = Inr (map_at fs d)"
    using ReadAt_whole[OF ok(1,2)] ok b
    by (simp add: PersistentBitmap_open_def PersistentBitmap_FetchFrom_def map_at_def blit_whole map_bytes_def bitmap.defs)
  show "bitmap_ok (map_at fs d)" "numBits (map_at fs d) = 1024"
    using ok by (simp_all add: map_at_def bitmap_ok_def divRoundUp_def words_of_def)
qed

lemma file_bytes_cong: "(\<And>s. s \<in> set (data_of hdr) \<Longrightarrow> d' s = d s) \<Longrightarrow> file_bytes hdr d' = file_bytes hdr d"
  by (simp add: file_bytes_def raw_bytes_def cong: map_cong)

lemma save_dir:
  assumes "sys_ok fs d" "list_all entry_ok dir" "length dir = 10"
  obtains d' where "Directory_WriteBack junk (directoryFile fs) dir d = Inr d'" "sys_ok fs d'" "dir_at fs d' = dir"
    "map_at fs d' = map_at fs d" "\<And>s. s \<notin> set (sys_sectors fs) \<Longrightarrow> d' s = d s"
proof -
  let ?h = "file_hdr (directoryFile fs)"
  have ok: "hdr_ok ?h" "sectors_ok d" "numBytes ?h = 200" "distinct (sys_sectors fs)"
    using assms by (simp_all add: sys_ok_def)
  have "int (length (directory_bytes dir)) = numBytes ?h" using assms(2,3) ok(3) by (simp add: length_directory_bytes)
  from WriteAt_whole[OF ok(1,2) this, of junk] obtain d' where d': "File_WriteAt junk (directoryFile fs) (directory_bytes dir) (numBytes ?h) 0 d
      = Inr (numBytes ?h, d')" "sectors_ok d'" and other: "\<And>s. s \<notin> set (data_of ?h) \<Longrightarrow> d' s = d s"
    and bytes: "file_bytes ?h d' = directory_bytes dir" by metis
  have "d' 0 = d 0" "d' 1 = d 1" by (rule other, use ok(4) in \<open>auto simp: sys_sectors_def\<close>)+
  then have "sys_ok fs d'" using assms(1) d'(2) mount_cong[of d' d] by (auto simp: sys_ok_def)
  moreover have "dir_at fs d' = dir" using assms(2) bytes by (simp add: dir_at_def directory_round_trip)
  moreover have "map_at fs d' = map_at fs d"
    unfolding map_at_def by (subst file_bytes_cong[of _ d' d]) (use other ok(4) in \<open>auto simp: sys_sectors_def\<close>)
  moreover have "d' s = d s" if "s \<notin> set (sys_sectors fs)" for s using that other by (auto simp: sys_sectors_def)
  ultimately show ?thesis using that d'(1) ok(3) assms(3) by (simp add: Directory_WriteBack_def)
qed

lemma save_map:
  assumes "sys_ok fs d" "bitmap_ok b" "numBits b = 1024"
  obtains d' where "PersistentBitmap_WriteBack junk (freeMapFile fs) b d = Inr d'" "sys_ok fs d'" "dir_at fs d' = dir_at fs d"
    "map_at fs d' = b" "\<And>s. s \<notin> set (sys_sectors fs) \<Longrightarrow> d' s = d s"
proof -
  let ?h = "file_hdr (freeMapFile fs)"
  have ok: "hdr_ok ?h" "sectors_ok d" "numBytes ?h = 128" "distinct (sys_sectors fs)"
    using assms by (simp_all add: sys_ok_def)
  note n = bitmap_1024[OF assms(2,3)]
  have "int (length (map_bytes b)) = numBytes ?h" using n ok(3) by (simp add: map_bytes_def)
  from WriteAt_whole[OF ok(1,2) this, of junk] obtain d' where d': "File_WriteAt junk (freeMapFile fs) (map_bytes b) (numBytes ?h) 0 d
      = Inr (numBytes ?h, d')" "sectors_ok d'" and other: "\<And>s. s \<notin> set (data_of ?h) \<Longrightarrow> d' s = d s"
    and bytes: "file_bytes ?h d' = map_bytes b" by metis
  have "d' 0 = d 0" "d' 1 = d 1" by (rule other, use ok(4) in \<open>auto simp: sys_sectors_def\<close>)+
  then have "sys_ok fs d'" using assms(1) d'(2) mount_cong[of d' d] by (auto simp: sys_ok_def)
  moreover have "map_at fs d' = b" using n assms(3) bytes by (simp add: map_at_def map_bytes_def)
  moreover have "dir_at fs d' = dir_at fs d"
    unfolding dir_at_def by (subst file_bytes_cong[of _ d' d]) (use other ok(4) in \<open>auto simp: sys_sectors_def\<close>)
  moreover have "d' s = d s" if "s \<notin> set (sys_sectors fs)" for s using that other by (auto simp: sys_sectors_def)
  ultimately show ?thesis using that d'(1) ok(3) n by (simp add: PersistentBitmap_WriteBack_def)
qed

section \<open>The files of a disk\<close>

definition entry_hdr :: "sectors \<Rightarrow> DirectoryEntry \<Rightarrow> FileHeader" where
  "entry_hdr d e = FileHeader_of (d (nat (entry_sector e)))"

definition owned :: "sectors \<Rightarrow> DirectoryEntry \<Rightarrow> nat list" where
  "owned d e = nat (entry_sector e) # data_of (entry_hdr d e)"

definition used_sectors :: "file_system \<Rightarrow> sectors \<Rightarrow> nat list" where
  "used_sectors fs d = sys_sectors fs @ concat (map (owned d) (live (dir_at fs d)))"

text \<open>The invariant: every sector in use belongs to one file or to the system, and the free map marks them.\<close>

definition fs_ok :: "file_system \<Rightarrow> sectors \<Rightarrow> bool" where
  "fs_ok fs d \<longleftrightarrow> sys_ok fs d \<and> directory_ok (dir_at fs d)
     \<and> (\<forall>e \<in> set (live (dir_at fs d)). 0 \<le> entry_sector e \<and> hdr_ok (entry_hdr d e))
     \<and> distinct (used_sectors fs d) \<and> bits_of (map_at fs d) = set (used_sectors fs d)"

text \<open>What it stands for: the contents of each file by its name.\<close>

definition files :: "file_system \<Rightarrow> sectors \<Rightarrow> u8 list \<Rightarrow> u8 list option" where
  "files fs d = map_of (map (\<lambda>e. (entry_key e, file_bytes (entry_hdr d e) d)) (live (dir_at fs d)))"

lemma map_of_middle:
  "k \<notin> fst ` set as \<Longrightarrow> map_of (as @ (k, v) # bs) = (map_of (as @ bs))(k \<mapsto> v)"
  "k \<notin> fst ` set (as @ bs) \<Longrightarrow> map_of (as @ bs) = (map_of (as @ (k, v) # bs))(k := None)"
proof -
  show "k \<notin> fst ` set as \<Longrightarrow> map_of (as @ (k, v) # bs) = (map_of (as @ bs))(k \<mapsto> v)"
    by (induction as) (auto simp: fun_eq_iff)
  show "k \<notin> fst ` set (as @ bs) \<Longrightarrow> map_of (as @ bs) = (map_of (as @ (k, v) # bs))(k := None)"
    by (induction as) (auto simp: fun_eq_iff map_of_eq_None_iff dest: weak_map_of_SomeI split: if_splits)
qed

lemma owned_cong:
  assumes "\<And>s. s \<in> set (owned d e) \<Longrightarrow> d' s = d s"
  shows "entry_hdr d' e = entry_hdr d e" "owned d' e = owned d e" "file_bytes (entry_hdr d' e) d' = file_bytes (entry_hdr d e) d"
proof -
  show h: "entry_hdr d' e = entry_hdr d e" using assms by (simp add: entry_hdr_def owned_def)
  then show "owned d' e = owned d e" by (simp add: owned_def)
  show "file_bytes (entry_hdr d' e) d' = file_bytes (entry_hdr d e) d"
    unfolding h using assms by (intro file_bytes_cong) (simp add: owned_def)
qed

lemma fs_okD:
  assumes "fs_ok fs d"
  shows "sys_ok fs d" "directory_ok (dir_at fs d)" "distinct (used_sectors fs d)" "bits_of (map_at fs d) = set (used_sectors fs d)"
    "\<And>e. e \<in> set (live (dir_at fs d)) \<Longrightarrow> 0 \<le> entry_sector e \<and> hdr_ok (entry_hdr d e)"
  using assms unfolding fs_ok_def by blast+

lemma FileHeader_new_run:
  "length (dataSectors (FileHeader_new junk)) = 30"
  "\<forall>s \<in> set (dataSectors (FileHeader_new junk)). - (2 ^ 31) \<le> s \<and> s < 2 ^ 31"
proof -
  have "- (2 ^ 31) \<le> sint (w :: u32) \<and> sint w < 2 ^ 31" for w
    using sint_range_size[of w] by (simp add: word_size)
  then show "length (dataSectors (FileHeader_new junk)) = 30"
    "\<forall>s \<in> set (dataSectors (FileHeader_new junk)). - (2 ^ 31) \<le> s \<and> s < 2 ^ 31"
    by (auto simp: FileHeader_new_def FileHeader_of_def Let_def words_of_def dest!: in_set_dropD)
qed

lemma files_dom: "fs_ok fs d \<Longrightarrow> card (dom (files fs d)) = length (live (dir_at fs d))"
  using fs_okD(2)[of fs d]
  by (simp add: files_def dom_map_of_conv_image_fst image_image directory_ok_def)
    (metis distinct_card length_map set_map)

lemma files_iff_directory: "files fs d k = None \<longleftrightarrow> directory_map (dir_at fs d) k = None"
  by (auto simp: files_def directory_map_None map_of_eq_None_iff image_image)

lemma files_Some:
  assumes "fs_ok fs d" "e \<in> set (live (dir_at fs d))"
  shows "files fs d (entry_key e) = Some (file_bytes (entry_hdr d e) d)"
  unfolding files_def using assms fs_okD(2)[OF assms(1)]
  by (intro map_of_is_SomeI) (auto simp: directory_ok_def comp_def)

lemma fs_sector: "fs_ok fs d \<Longrightarrow> s \<in> set (used_sectors fs d) \<Longrightarrow> s < 1024"
  using fs_okD(4) open_map(3)[OF fs_okD(1)] bits_of_less by metis

text \<open>Adding a file: its header and its data are in sectors that were free.\<close>

lemma fs_ok_add:
  assumes old: "fs_ok fs d" and sys: "sys_ok fs d'" and dir: "directory_ok (dir_at fs d')"
    and live: "live (dir_at fs d) = as @ bs" "live (dir_at fs d') = as @ e # bs"
    and e: "0 \<le> entry_sector e" "hdr_ok (entry_hdr d' e)" "distinct (owned d' e)" "set (owned d' e) \<inter> set (used_sectors fs d) = {}"
    and bits: "bits_of (map_at fs d') = bits_of (map_at fs d) \<union> set (owned d' e)"
    and same: "\<And>s. s \<in> set (used_sectors fs d) \<Longrightarrow> s \<notin> set (sys_sectors fs) \<Longrightarrow> d' s = d s"
  shows "fs_ok fs d'" "files fs d' = (files fs d)(entry_key e \<mapsto> file_bytes (entry_hdr d' e) d')"
proof -
  have "set (owned d x) \<inter> set (sys_sectors fs) = {}" if "x \<in> set (as @ bs)" for x
    using fs_okD(3)[OF old] that live(1) by (auto simp: used_sectors_def)
  then have same_owned: "d' s = d s" if "x \<in> set (as @ bs)" "s \<in> set (owned d x)" for x s
    using that same[of s] live(1) by (fastforce simp: used_sectors_def)
  have cong: "entry_hdr d' x = entry_hdr d x" "owned d' x = owned d x"
    "file_bytes (entry_hdr d' x) d' = file_bytes (entry_hdr d x) d" if "x \<in> set (as @ bs)" for x
    by (rule owned_cong, rule same_owned[OF that], assumption)+
  have "concat (map (owned d') as) = concat (map (owned d) as)" "concat (map (owned d') bs) = concat (map (owned d) bs)"
    using cong(2) by (auto cong: map_cong)
  then have used: "used_sectors fs d' = sys_sectors fs @ concat (map (owned d) as) @ owned d' e @ concat (map (owned d) bs)"
    "used_sectors fs d = sys_sectors fs @ concat (map (owned d) as) @ concat (map (owned d) bs)"
    by (simp_all add: used_sectors_def live)
  have "distinct (used_sectors fs d')"
    using fs_okD(3)[OF old] e(3,4) unfolding used by auto
  moreover have "bits_of (map_at fs d') = set (used_sectors fs d')"
    unfolding bits fs_okD(4)[OF old] used by auto
  moreover have "0 \<le> entry_sector x \<and> hdr_ok (entry_hdr d' x)" if "x \<in> set (live (dir_at fs d'))" for x
    using that e(1,2) cong(1)[of x] fs_okD(5)[OF old, of x] live by auto
  ultimately show "fs_ok fs d'" using sys dir by (auto simp: fs_ok_def)
  let ?F = "\<lambda>d e. (entry_key e, file_bytes (entry_hdr d e) d)"
  have F: "map (?F d') as = map (?F d) as" "map (?F d') bs = map (?F d) bs" using cong(3) by auto
  have "entry_key e \<notin> fst ` set (map (?F d) as)" using dir live(2) by (auto simp: directory_ok_def)
  then show "files fs d' = (files fs d)(entry_key e \<mapsto> file_bytes (entry_hdr d' e) d')"
    unfolding files_def live map_append list.map F by (rule map_of_middle(1))
qed

text \<open>Removing a file.\<close>

lemma fs_ok_remove:
  assumes old: "fs_ok fs d" and sys: "sys_ok fs d'" and dir: "directory_ok (dir_at fs d')"
    and live: "live (dir_at fs d) = as @ e # bs" "live (dir_at fs d') = as @ bs"
    and bits: "bits_of (map_at fs d') = bits_of (map_at fs d) - set (owned d e)"
    and same: "\<And>s. s \<notin> set (sys_sectors fs) \<Longrightarrow> d' s = d s"
  shows "fs_ok fs d'" "files fs d' = (files fs d)(entry_key e := None)"
proof -
  have "set (owned d x) \<inter> set (sys_sectors fs) = {}" if "x \<in> set (as @ bs)" for x
    using fs_okD(3)[OF old] that live(1) by (auto simp: used_sectors_def)
  then have same_owned: "d' s = d s" if "x \<in> set (as @ bs)" "s \<in> set (owned d x)" for x s
    using that same[of s] by blast
  have cong: "entry_hdr d' x = entry_hdr d x" "owned d' x = owned d x"
    "file_bytes (entry_hdr d' x) d' = file_bytes (entry_hdr d x) d" if "x \<in> set (as @ bs)" for x
    by (rule owned_cong, rule same_owned[OF that], assumption)+
  have "concat (map (owned d') as) = concat (map (owned d) as)" "concat (map (owned d') bs) = concat (map (owned d) bs)"
    using cong(2) by (auto cong: map_cong)
  then have used: "used_sectors fs d' = sys_sectors fs @ concat (map (owned d) as) @ concat (map (owned d) bs)"
    "used_sectors fs d = sys_sectors fs @ concat (map (owned d) as) @ owned d e @ concat (map (owned d) bs)"
    by (simp_all add: used_sectors_def live)
  have "distinct (used_sectors fs d')"
    using fs_okD(3)[OF old] unfolding used by auto
  moreover have "bits_of (map_at fs d') = set (used_sectors fs d')"
    unfolding bits fs_okD(4)[OF old] used using fs_okD(3)[OF old, unfolded used] by auto
  moreover have "0 \<le> entry_sector x \<and> hdr_ok (entry_hdr d' x)" if "x \<in> set (live (dir_at fs d'))" for x
    using that cong(1)[of x] fs_okD(5)[OF old, of x] live by auto
  ultimately show "fs_ok fs d'" using sys dir by (auto simp: fs_ok_def)
  let ?F = "\<lambda>d e. (entry_key e, file_bytes (entry_hdr d e) d)"
  have F: "map (?F d') as = map (?F d) as" "map (?F d') bs = map (?F d) bs" using cong(3) by auto
  have "entry_key e \<notin> fst ` set (map (?F d) as @ map (?F d) bs)"
    using fs_okD(2)[OF old] live(1) by (auto simp: directory_ok_def)
  then show "files fs d' = (files fs d)(entry_key e := None)"
    unfolding files_def live map_append list.map F by (rule map_of_middle(2))
qed

text \<open>Writing into the data sectors of one file.\<close>

lemma fs_ok_write:
  assumes old: "fs_ok fs d" and e: "e \<in> set (live (dir_at fs d))" and d': "sectors_ok d'"
    and same: "\<And>s. s \<notin> set (data_of (entry_hdr d e)) \<Longrightarrow> d' s = d s"
  shows "fs_ok fs d'" "files fs d' = (files fs d)(entry_key e \<mapsto> file_bytes (entry_hdr d e) d')"
proof -
  obtain as bs where live: "live (dir_at fs d) = as @ e # bs" using split_list[OF e] by blast
  have dist: "distinct (sys_sectors fs @ concat (map (owned d) as) @ owned d e @ concat (map (owned d) bs))"
    using fs_okD(3)[OF old] by (simp add: used_sectors_def live)
  have apart: "set (owned d e) \<inter> set (sys_sectors fs) = {}" "distinct (owned d e)"
    "\<forall>x \<in> set (as @ bs). set (owned d x) \<inter> set (owned d e) = {}"
    using dist by auto
  have off_sys: "d' s = d s" if "s \<in> set (sys_sectors fs)" for s
    using that apart(1) same[of s] by (auto simp: owned_def)
  have sys: "d' 0 = d 0" "d' 1 = d 1" using off_sys by (auto simp: sys_sectors_def)
  have dir: "dir_at fs d' = dir_at fs d"
    unfolding dir_at_def by (subst file_bytes_cong[of _ d' d]) (auto intro: off_sys simp: sys_sectors_def)
  have map: "map_at fs d' = map_at fs d"
    unfolding map_at_def by (subst file_bytes_cong[of _ d' d]) (auto intro: off_sys simp: sys_sectors_def)
  have hdr: "entry_hdr d' e = entry_hdr d e"
    using apart(2) same[of "nat (entry_sector e)"] by (simp add: entry_hdr_def owned_def)
  have same_owned: "d' s = d s" if "x \<in> set (as @ bs)" "s \<in> set (owned d x)" for x s
    using that apart(3) same[of s] unfolding owned_def[of d e] by auto
  have cong: "entry_hdr d' x = entry_hdr d x" "owned d' x = owned d x"
    "file_bytes (entry_hdr d' x) d' = file_bytes (entry_hdr d x) d" if "x \<in> set (as @ bs)" for x
    by (rule owned_cong, rule same_owned[OF that], assumption)+
  have used: "used_sectors fs d' = used_sectors fs d"
  proof -
    have "owned d' x = owned d x" if "x \<in> set (live (dir_at fs d))" for x
      using that cong(2)[of x] hdr live by (auto simp: owned_def)
    then show ?thesis unfolding used_sectors_def dir by (auto cong: map_cong)
  qed
  have hdrs: "\<forall>x \<in> set (live (dir_at fs d)). 0 \<le> entry_sector x \<and> hdr_ok (entry_hdr d' x)"
    using cong(1) hdr fs_okD(5)[OF old] live by auto
  have "sys_ok fs d'" using fs_okD(1)[OF old] d' mount_cong[OF sys] by (auto simp: sys_ok_def)
  then show "fs_ok fs d'" unfolding fs_ok_def dir map used using fs_okD(2-4)[OF old] hdrs by blast
  let ?F = "\<lambda>d e. (entry_key e, file_bytes (entry_hdr d e) d)"
  have F: "map (?F d') as = map (?F d) as" "map (?F d') bs = map (?F d) bs" using cong(3) by auto
  have "entry_key e \<notin> fst ` set (map (?F d) as)"
    using fs_okD(2)[OF old] live(1) by (auto simp: directory_ok_def)
  then have "map_of (map (?F d) as @ (entry_key e, x) # map (?F d) bs) = (map_of (map (?F d) as @ map (?F d) bs))(entry_key e \<mapsto> x)" for x
    by (rule map_of_middle(1))
  then show "files fs d' = (files fs d)(entry_key e \<mapsto> file_bytes (entry_hdr d e) d')"
    unfolding files_def dir live map_append list.map F hdr by simp
qed

section \<open>Create, Open and Remove\<close>

lemma Open_run:
  assumes "fs_ok fs d"
  shows "case files fs d (name_key name) of
      None \<Rightarrow> FS_Open g fs name d = Inr None
    | Some bs \<Rightarrow> \<exists>e \<in> set (live (dir_at fs d)). entry_key e = name_key name \<and> bs = file_bytes (entry_hdr d e) d
        \<and> FS_Open g fs name d = Inr (Some \<lparr>file_hdr = entry_hdr d e, seekPosition = 0\<rparr>)"
proof (cases "directory_map (dir_at fs d) (name_key name)")
  case None
  then have "files fs d (name_key name) = None" by (simp add: files_iff_directory)
  then show ?thesis using None fetch_dir(1)[OF fs_okD(1)[OF assms], of "g 0"] Find_run[OF fs_okD(2)[OF assms], of name]
    by (simp add: FS_Open_def Let_def)
next
  case (Some s)
  then obtain e where e: "e \<in> set (live (dir_at fs d))" "entry_key e = name_key name" "entry_sector e = s"
    using directory_map_Some[OF fs_okD(2)[OF assms]] by blast
  have s: "0 \<le> s" "nat s < 1024"
    using fs_okD(5)[OF assms e(1)] e(3) fs_sector[OF assms, of "nat s"] e(1) by (auto simp: used_sectors_def owned_def)
  then have "File_open s d = Inr \<lparr>file_hdr = entry_hdr d e, seekPosition = 0\<rparr>"
    using FileHeader_disk(3)[of "nat s" d] e(3) by (simp add: entry_hdr_def)
  then have "FS_Open g fs name d = Inr (Some \<lparr>file_hdr = entry_hdr d e, seekPosition = 0\<rparr>)"
    using fetch_dir(1)[OF fs_okD(1)[OF assms], of "g 0"] Find_run[OF fs_okD(2)[OF assms], of name] Some s(1)
    by (simp add: FS_Open_def Let_def)
  then show ?thesis using files_Some[OF assms e(1)] e by auto
qed

definition room_for :: "file_system \<Rightarrow> sectors \<Rightarrow> int \<Rightarrow> bool" where
  "room_for fs d n \<longleftrightarrow> length (live (dir_at fs d)) < 10 \<and> card (bits_of (map_at fs d)) + 1 + nat ((n + 127) div 128) \<le> 1024"

lemma Create_refused:
  assumes "fs_ok fs d" "0 \<le> n" "n \<le> 3840" "\<not> (files fs d (name_key name) = None \<and> room_for fs d n)"
  shows "FS_Create g fs name n d = Inr (False, d)"
proof -
  note ok = fs_okD[OF assms(1)]
  note fetch = fetch_dir(1)[OF ok(1), of "g 0"] fetch_dir(2,3)[OF ok(1)] and map = open_map[OF ok(1)]
  show ?thesis
  proof (cases "directory_map (dir_at fs d) (name_key name)")
    case (Some s)
    then have "0 \<le> s" using ok(5) unfolding directory_map_Some[OF ok(2)] by auto
    then show ?thesis using fetch Find_run[OF ok(2), of name] Some by (simp add: FS_Create_def)
  next
    case None
    then have full: "\<not> room_for fs d n" using assms(4) by (simp add: files_iff_directory)
    from map(2) show ?thesis
    proof (cases rule: FindAndSet_cases)
      case full
      then show ?thesis using fetch(1) map(1) Find_run[OF ok(2), of name] None by (simp add: FS_Create_def)
    next
      case (found j b)
      then have j: "j < 1024" "bitmap_ok b" "numBits b = 1024" "card (bits_of b) = Suc (card (bits_of (map_at fs d)))"
        using map(3) by (auto simp: with_bits_def)
      have "Directory_Add name (int j) (dir_at fs d) = (False, dir_at fs d) \<or>
          \<not> card (bits_of b) + nat ((n + 127) div 128) \<le> 1024"
        using Add_run[OF ok(2) _ _ None, of "int j"] full j(1,4) fetch(2) by (auto simp: room_for_def)
      then show ?thesis
      proof
        assume "Directory_Add name (int j) (dir_at fs d) = (False, dir_at fs d)"
        then show ?thesis using fetch(1) map(1) Find_run[OF ok(2), of name] None found(1) by (simp add: FS_Create_def)
      next
        assume "\<not> card (bits_of b) + nat ((n + 127) div 128) \<le> 1024"
        then obtain hdr where "FileHeader_Allocate (FileHeader_new (g 1)) b n = Inr (False, hdr, b)"
          using Allocate_run[OF FileHeader_new_run(1,2)[of "g 1"] j(2,3) assms(2,3)] by auto
        then show ?thesis using fetch(1) map(1) Find_run[OF ok(2), of name] None found(1)
          by (simp add: FS_Create_def split: prod.split)
      qed
    qed
  qed
qed

lemma Create_run:
  assumes "fs_ok fs d" "0 \<le> n" "n \<le> 3840" "files fs d (name_key name) = None" "room_for fs d n"
  obtains d' bs where "FS_Create g fs name n d = Inr (True, d')" "fs_ok fs d'" "length bs = nat n"
    "files fs d' = (files fs d)(name_key name \<mapsto> bs)"
proof -
  note ok = fs_okD[OF assms(1)]
  note fetch = fetch_dir(1)[OF ok(1), of "g 0"] fetch_dir(2,3)[OF ok(1)] and map = open_map[OF ok(1)]
  let ?dir = "dir_at fs d" and ?b = "map_at fs d"
  have none: "directory_map ?dir (name_key name) = None" using assms(4) by (simp add: files_iff_directory)
  obtain j b where j: "Bitmap_FindAndSet ?b = Inr (int j, b)" "j < 1024" "j \<notin> bits_of ?b" "with_bits ?b b (insert j (bits_of ?b))"
  proof -
    have "bits_of ?b \<noteq> {..<numBits ?b}"
    proof
      assume "bits_of ?b = {..<numBits ?b}"
      then have "card (bits_of ?b) = 1024" using map(3) by simp
      then show False using assms(5) by (simp add: room_for_def)
    qed
    with map(2) show ?thesis using that map(3) by (cases rule: FindAndSet_cases) auto
  qed
  then have b: "bitmap_ok b" "numBits b = 1024" "card (bits_of b) = Suc (card (bits_of ?b))" "bits_of b = insert j (bits_of ?b)"
    using map(3) by (auto simp: with_bits_def)
  obtain i as bs e where e: "Directory_Add name (int j) ?dir = (True, ?dir[i := e])" "inUse e \<noteq> 0" "entry_key e = name_key name"
    "entry_sector e = int j" "live ?dir = as @ bs" "live (?dir[i := e]) = as @ e # bs" "directory_ok (?dir[i := e])"
    using Add_run[OF ok(2) _ _ none, of "int j"] j(2) fetch(2) assms(5) by (auto simp: room_for_def)
  obtain hdr b' where hdr: "FileHeader_Allocate (FileHeader_new (g 1)) b n = Inr (True, hdr, b')" "hdr_ok hdr" "numBytes hdr = n"
    "with_bits b b' (bits_of b \<union> set (data_of hdr))" "set (data_of hdr) \<inter> bits_of b = {}"
    using Allocate_run[OF FileHeader_new_run(1,2)[of "g 1"] b(1,2) assms(2,3)] b(3) assms(5) by (auto simp: room_for_def)
  define d1 where "d1 = d(j := FileHeader_bytes hdr)"
  have sys1: "s \<in> set (sys_sectors fs) \<Longrightarrow> d1 s = d s" for s
    using j(3) ok(4) by (auto simp: d1_def used_sectors_def)
  have "FileSystem_mount d1 = FileSystem_mount d" by (rule mount_cong; rule sys1; simp add: sys_sectors_def)
  moreover have "sectors_ok d1" using ok(1) FileHeader_round_trip(2)[OF hdr(2)]
    by (auto simp: sys_ok_def sectors_ok_def d1_def)
  ultimately have "sys_ok fs d1" using ok(1) by (simp add: sys_ok_def)
  moreover have "list_all entry_ok (?dir[i := e])" "length (?dir[i := e]) = 10"
    using e(7) fetch(2) by (simp_all add: directory_ok_def)
  ultimately obtain d2 where d2: "Directory_WriteBack (g 4) (directoryFile fs) (?dir[i := e]) d1 = Inr d2" "sys_ok fs d2"
    "dir_at fs d2 = ?dir[i := e]" "\<And>s. s \<notin> set (sys_sectors fs) \<Longrightarrow> d2 s = d1 s"
    by (rule save_dir[where junk = "g 4"]) (rule that)
  have "bitmap_ok b'" "numBits b' = 1024" using hdr(4) b(2) by (auto simp: with_bits_def)
  with d2(2) obtain d3 where d3: "PersistentBitmap_WriteBack (g 3) (freeMapFile fs) b' d2 = Inr d3" "sys_ok fs d3"
    "dir_at fs d3 = dir_at fs d2" "map_at fs d3 = b'" "\<And>s. s \<notin> set (sys_sectors fs) \<Longrightarrow> d3 s = d2 s"
    by (rule save_map[where junk = "g 3"]) (rule that)
  have "j \<notin> set (sys_sectors fs)" using j(3) ok(4) by (auto simp: used_sectors_def)
  then have new: "entry_hdr d3 e = hdr"
    using d3(5) d2(4) e(4) FileHeader_round_trip(1)[OF hdr(2)] by (simp add: entry_hdr_def d1_def)
  then have own: "owned d3 e = j # data_of hdr" using e(4) by (simp add: owned_def)
  have a: "directory_ok (dir_at fs d3)" "live (dir_at fs d3) = as @ e # bs" "0 \<le> entry_sector e" "hdr_ok (entry_hdr d3 e)"
    using e d3(3) d2(3) new hdr(2) by simp_all
  have dist: "distinct (owned d3 e)" using hdr(5) b(4) hdr_okD(8)[OF hdr(2)] by (auto simp: own)
  have free: "set (owned d3 e) \<inter> set (used_sectors fs d) = {}" using hdr(5) b(4) j(3) ok(4) by (auto simp: own)
  have bits: "bits_of (map_at fs d3) = bits_of ?b \<union> set (owned d3 e)"
    using hdr(4) b(4) d3(4) by (auto simp: own with_bits_def)
  have same: "d3 s = d s" if "s \<in> set (used_sectors fs d)" "s \<notin> set (sys_sectors fs)" for s
    using that d3(5) d2(4) j(3) ok(4) by (auto simp: d1_def)
  note added = fs_ok_add[OF assms(1) d3(2) a(1) e(5) a(2-4) dist free bits same]
  have "sectors_ok d3" using d3(2) by (simp add: sys_ok_def)
  then have "length (file_bytes (entry_hdr d3 e) d3) = nat n" using new hdr(2,3) by simp
  moreover have "FS_Create g fs name n d = Inr (True, d3)"
    using fetch(1) map(1) Find_run[OF ok(2), of name] none j(1) e(1) hdr(1) FileHeader_disk(2)[OF j(2), of hdr d] d2(1) d3(1)
    by (simp add: FS_Create_def d1_def)
  ultimately show ?thesis using that added e(3) by metis
qed

lemma Remove_absent: "fs_ok fs d \<Longrightarrow> files fs d (name_key name) = None \<Longrightarrow> FS_Remove g fs name d = Inr (False, d)"
  using fetch_dir(1)[OF fs_okD(1), of fs d "g 0"] Find_run[OF fs_okD(2), of fs d name]
  by (simp add: FS_Remove_def files_iff_directory)

lemma FS_Remove_run:
  assumes "fs_ok fs d" "files fs d (name_key name) \<noteq> None"
  obtains d' where "FS_Remove g fs name d = Inr (True, d')" "fs_ok fs d'" "files fs d' = (files fs d)(name_key name := None)"
proof -
  note ok = fs_okD[OF assms(1)]
  note fetch = fetch_dir(1)[OF ok(1), of "g 0"] fetch_dir(2,3)[OF ok(1)] and map = open_map[OF ok(1)]
  let ?dir = "dir_at fs d" and ?b = "map_at fs d"
  obtain s where s: "directory_map ?dir (name_key name) = Some s" using assms(2) by (auto simp: files_iff_directory)
  obtain i as bs e where e: "Directory_Remove name ?dir = (True, ?dir[i := e\<lparr>inUse := 0\<rparr>])" "entry_key e = name_key name"
    "entry_sector e = s" "live ?dir = as @ e # bs" "live (?dir[i := e\<lparr>inUse := 0\<rparr>]) = as @ bs" "directory_ok (?dir[i := e\<lparr>inUse := 0\<rparr>])"
    using Remove_entry_run[OF ok(2) s] by blast
  have e_live: "e \<in> set (live ?dir)" using e(4) by simp
  have own: "set (owned d e) \<subseteq> bits_of ?b" "distinct (owned d e)"
    using ok(3,4) e(4) by (auto simp: used_sectors_def)
  have hdr: "hdr_ok (entry_hdr d e)" "0 \<le> s" using ok(5)[OF e_live] e(3) by simp_all
  have j: "nat s < 1024" using own(1) bits_of_less[of "nat s" ?b] map(3) e(3) by (auto simp: owned_def)
  obtain b where b: "FileHeader_Deallocate (entry_hdr d e) ?b = Inr b" "with_bits ?b b (bits_of ?b - set (data_of (entry_hdr d e)))"
    using Deallocate_run[OF hdr(1) map(2)] own(1) by (auto simp: owned_def)
  obtain b' where b': "Bitmap_Clear b s = Inr b'" "with_bits b b' (bits_of b - {nat s})"
    using Clear_run[of b "nat s"] b(2) j map(3) hdr(2) by (auto simp: with_bits_def)
  have "bitmap_ok b'" "numBits b' = 1024" using b(2) b'(2) map(3) by (auto simp: with_bits_def)
  with ok(1) obtain d1 where d1: "PersistentBitmap_WriteBack (g 3) (freeMapFile fs) b' d = Inr d1" "sys_ok fs d1"
    "dir_at fs d1 = dir_at fs d" "map_at fs d1 = b'" "\<And>s. s \<notin> set (sys_sectors fs) \<Longrightarrow> d1 s = d s"
    by (rule save_map[where junk = "g 3"]) (rule that)
  have "list_all entry_ok (?dir[i := e\<lparr>inUse := 0\<rparr>])" "length (?dir[i := e\<lparr>inUse := 0\<rparr>]) = 10"
    using e(6) fetch(2) by (simp_all add: directory_ok_def)
  with d1(2) obtain d2 where d2: "Directory_WriteBack (g 4) (directoryFile fs) (?dir[i := e\<lparr>inUse := 0\<rparr>]) d1 = Inr d2" "sys_ok fs d2"
    "dir_at fs d2 = ?dir[i := e\<lparr>inUse := 0\<rparr>]" "map_at fs d2 = map_at fs d1" "\<And>s. s \<notin> set (sys_sectors fs) \<Longrightarrow> d2 s = d1 s"
    by (rule save_dir[where junk = "g 4"]) (rule that)
  have r: "directory_ok (dir_at fs d2)" "live (dir_at fs d2) = as @ bs" using e d2(3) by simp_all
  have bits: "bits_of (map_at fs d2) = bits_of ?b - set (owned d e)"
    using b(2) b'(2) d2(4) d1(4) e(3) by (auto simp: with_bits_def owned_def)
  have same: "d2 s = d s" if "s \<notin> set (sys_sectors fs)" for s using that d2(5) d1(5) by simp
  note removed = fs_ok_remove[OF assms(1) d2(2) r(1) e(4) r(2) bits same]
  have "FileHeader_FetchFrom s d = Inr (entry_hdr d e)"
    using FileHeader_disk(1)[OF j, of d] hdr(2) e(3) by (simp add: entry_hdr_def)
  then have "FS_Remove g fs name d = Inr (True, d2)"
    using fetch(1) map(1) Find_run[OF ok(2), of name] s hdr(2) e(1) b(1) b'(1) d1(1) d2(1)
    by (simp add: FS_Remove_def)
  then show ?thesis using that removed e(2) by metis
qed

section \<open>Formatting\<close>

lemma bitmap_with_system:
  obtains b1 b2 where "Bitmap_new NumSectors = Inr b1" "bitmap_ok b1" "numBits b1 = 1024" "bits_of b1 = {}"
    "bind_result (Bitmap_Mark b1 FreeMapSector) (\<lambda>b. Bitmap_Mark b DirectorySector) = Inr b2"
    "bitmap_ok b2" "numBits b2 = 1024" "bits_of b2 = {0, 1}"
proof -
  obtain b where b: "Bitmap_new 1024 = Inr b" "bitmap_ok b" "numBits b = 1024" "bits_of b = {}"
    using Bitmap_new_run[of 1024] by auto
  obtain c where c: "Bitmap_Mark b (int 0) = Inr c" "with_bits b c {0}"
    using Mark_run[OF b(2), of 0] b by auto
  obtain e where e: "Bitmap_Mark c (int 1) = Inr e" "with_bits c e {1, 0}"
    using Mark_run[of c 1] b(3) c(2) by (auto simp: with_bits_def)
  then show ?thesis using that[of b e] b c by (auto simp: with_bits_def)
qed

lemma format_run:
  assumes "sectors_ok d"
  obtains fs d' where "FileSystem_new g True d = Inr (fs, d')" "fs_ok fs d'" "files fs d' = Map.empty"
    "card (bits_of (map_at fs d')) \<le> 5"
proof -
  from bitmap_with_system obtain b b2 where b: "Bitmap_new NumSectors = Inr b" "bitmap_ok b" "numBits b = 1024" "bits_of b = {}"
    "bind_result (Bitmap_Mark b FreeMapSector) (\<lambda>b. Bitmap_Mark b DirectorySector) = Inr b2"
    "bitmap_ok b2" "numBits b2 = 1024" "bits_of b2 = {0, 1}" .
  obtain mh b3 where m: "FileHeader_Allocate (FileHeader_new (g 1)) b2 128 = Inr (True, mh, b3)" "hdr_ok mh" "numBytes mh = 128"
    "with_bits b2 b3 (bits_of b2 \<union> set (data_of mh))" "set (data_of mh) \<inter> bits_of b2 = {}"
    using Allocate_run[OF FileHeader_new_run(1,2)[of "g 1"] b(6,7), of 128] b(8) by auto
  have "length (data_of mh) = 1" using hdr_okD(4,9)[OF m(2)] m(3) by simp
  then have "card (bits_of b3) \<le> 3"
    using m(4) b(8) card_length[of "data_of mh"] card_Un_le[of "{0, 1}" "set (data_of mh)"] by (auto simp: with_bits_def)
  then obtain dh b4 where h: "FileHeader_Allocate (FileHeader_new (g 2)) b3 200 = Inr (True, dh, b4)" "hdr_ok dh" "numBytes dh = 200"
    "with_bits b3 b4 (bits_of b3 \<union> set (data_of dh))" "set (data_of dh) \<inter> bits_of b3 = {}"
    using Allocate_run[OF FileHeader_new_run(1,2)[of "g 2"], of b3 200] b(7) m(4) by (auto simp: with_bits_def)
  define d1 where "d1 = d(0 := FileHeader_bytes mh, 1 := FileHeader_bytes dh)"
  define fs where "fs = \<lparr>freeMapFile = \<lparr>file_hdr = mh, seekPosition = 0\<rparr>, directoryFile = \<lparr>file_hdr = dh, seekPosition = 0\<rparr>\<rparr>"
  have mount: "FileSystem_mount d1 = Inr fs"
    by (simp add: mount_run d1_def fs_def FileHeader_round_trip[OF m(2)] FileHeader_round_trip[OF h(2)])
  have sectors: "sectors_ok d1" using assms by (simp add: sectors_ok_def d1_def FileHeader_round_trip(2) m(2) h(2))
  have sys: "sys_sectors fs = [0, 1] @ data_of mh @ data_of dh" by (simp add: sys_sectors_def fs_def)
  have "distinct (sys_sectors fs)"
    using m(4,5) h(5) b(8) hdr_okD(8)[OF m(2)] hdr_okD(8)[OF h(2)] by (auto simp: sys with_bits_def)
  then have sys_d1: "sys_ok fs d1" using mount sectors m(2,3) h(2,3) by (simp add: sys_ok_def fs_def)
  have b4: "bitmap_ok b4" "numBits b4 = 1024" "bits_of b4 = set (sys_sectors fs)"
    using h(4) m(4) b(7,8) by (auto simp: with_bits_def sys)
  from sys_d1 b4(1,2) obtain d2 where d2: "PersistentBitmap_WriteBack (g 3) (freeMapFile fs) b4 d1 = Inr d2" "sys_ok fs d2"
    "dir_at fs d2 = dir_at fs d1" "map_at fs d2 = b4" "\<And>s. s \<notin> set (sys_sectors fs) \<Longrightarrow> d2 s = d1 s"
    by (rule save_map[where junk = "g 3"]) (rule that)
  note dir = Directory_new_run[of "g 0" 10]
  from d2(2) dir(1,2) obtain d3 where d3: "Directory_WriteBack (g 4) (directoryFile fs) (Directory_new (g 0) 10) d2 = Inr d3" "sys_ok fs d3"
    "dir_at fs d3 = Directory_new (g 0) 10" "map_at fs d3 = map_at fs d2" "\<And>s. s \<notin> set (sys_sectors fs) \<Longrightarrow> d3 s = d2 s"
    by (rule save_dir[where junk = "g 4"]) (rule that)
  have "fs_ok fs d3" using d3(2-4) d2(4) b4(3) dir \<open>distinct (sys_sectors fs)\<close>
    by (simp add: fs_ok_def directory_ok_def used_sectors_def)
  moreover have "files fs d3 = Map.empty" using d3(3) dir(3) by (simp add: files_def)
  moreover have "card (bits_of (map_at fs d3)) \<le> 5"
    using card_length[of "sys_sectors fs"] \<open>length (data_of mh) = 1\<close> hdr_okD(4,9)[OF h(2)] h(3) d3(4) d2(4) b4(3)
    by (simp add: sys)
  moreover have "FileSystem_new g True d = Inr (fs, d3)"
  proof -
    obtain b1 where b1: "Bitmap_Mark b 0 = Inr b1" "Bitmap_Mark b1 1 = Inr b2" using b(5) by (auto simp: outcome_simps)
    have "FileHeader_WriteBack mh 0 d = Inr (d(0 := FileHeader_bytes mh))"
      "FileHeader_WriteBack dh 1 (d(0 := FileHeader_bytes mh)) = Inr d1"
      using FileHeader_disk(2)[of 0 mh d] FileHeader_disk(2)[of 1 dh "d(0 := FileHeader_bytes mh)"] by (simp_all add: d1_def)
    then show ?thesis using b(1) b1 m(1) h(1) mount d2(1) d3(1)
      by (simp add: FileSystem_new_def PersistentBitmap_new_def Let_def)
  qed
  ultimately show ?thesis using that by blast
qed

lemma Allocate_loop_overrun:
  assumes "bitmap_ok b" "card (bits_of b) + k \<le> numBits b" "length ds < i + k" "i \<le> length ds"
  shows "Allocate_loop i k ds b = Inl OutOfBounds"
  using assms
proof (induction k arbitrary: i ds b)
  case (Suc k)
  then have "card (bits_of b) < numBits b" by simp
  then obtain j b1 where j: "Bitmap_FindAndSet b = Inr (int j, b1)" "j \<notin> bits_of b" "bitmap_ok b1" "numBits b1 = numBits b"
    "bits_of b1 = insert j (bits_of b)"
    using bitmap_slots.fas_free[OF Suc.prems(1)] by blast
  then show ?case using Suc.prems Suc.IH[of b1 "ds[i := int j]" "Suc i"]
    by (cases "i < length ds") (simp_all add: arr_set_def)
qed simp

lemma Create_overrun:
  assumes "fs_ok fs d" "3840 < n" "files fs d (name_key name) = None" "room_for fs d n"
  shows "FS_Create g fs name n d = Inl OutOfBounds"
proof -
  note ok = fs_okD[OF assms(1)]
  note fetch = fetch_dir(1)[OF ok(1), of "g 0"] fetch_dir(2,3)[OF ok(1)] and map = open_map[OF ok(1)]
  let ?dir = "dir_at fs d" and ?b = "map_at fs d"
  have none: "directory_map ?dir (name_key name) = None" using assms(3) by (simp add: files_iff_directory)
  have "card (bits_of ?b) < numBits ?b" using assms(4) map(3) by (simp add: room_for_def)
  then obtain j b where j: "Bitmap_FindAndSet ?b = Inr (int j, b)" "j \<notin> bits_of ?b" "j < numBits ?b" "bitmap_ok b"
    "numBits b = numBits ?b" "bits_of b = insert j (bits_of ?b)"
    using bitmap_slots.fas_free[OF map(2)] by blast
  obtain dir' where e: "Directory_Add name (int j) ?dir = (True, dir')"
    using Add_run[OF ok(2) _ _ none, of "int j"] j(3) map(3) fetch(2) assms(4) by (auto simp: room_for_def)
  define k where "k = nat ((n + 127) div 128)"
  have k: "c_div n 128 + (if c_mod n 128 > 0 then 1 else 0) = int k" "30 < k"
    using c_round_up[of n] assms(2) zdiv_mono1[of 3968 "n + 127" 128] by (simp_all add: k_def)
  have room: "card (bits_of b) + k \<le> numBits b" using assms(4) j(2,5,6) map(3) by (simp add: room_for_def k_def)
  have "Allocate_loop 0 k (dataSectors (FileHeader_new (g 1))) b = Inl OutOfBounds"
    using k(2) FileHeader_new_run(1)[of "g 1"] by (intro Allocate_loop_overrun[OF j(4) room]) simp_all
  moreover have "\<not> int (numBits b - card (bits_of b)) < int k" using room by linarith
  ultimately have "FileHeader_Allocate (FileHeader_new (g 1)) b n = Inl OutOfBounds"
    using NumClear_run[OF j(4)] by (simp add: FileHeader_Allocate_def Let_def k(1))
  then show ?thesis using fetch(1) map(1) Find_run[OF ok(2), of name] none j(1) e by (simp add: FS_Create_def)
qed

section \<open>Properties\<close>

text \<open>C11: The file system is a map from names, of which nine characters count, to the contents of files. On
  a consistent disk, for a file that fits a header, \<open>Create\<close> succeeds exactly when the name is free,
  the directory has an entry and the disk has the sectors left, and then adds a file of that length; otherwise it
  leaves the disk as it was. \<open>Remove\<close> removes the file, if there is one, and \<open>Open\<close> finds its contents.
  The disk stays consistent: every used sector belongs to one file, and the free map marks just these.\<close>

theorem file_system_is_map:
  fixes name :: "u8 list"
  assumes "fs_ok fs d" "0 \<le> n" "n \<le> int MaxFileSize"
  defines "key \<equiv> name_key name"
  shows "(if files fs d key = None \<and> card (dom (files fs d)) < NumDirEntries
        \<and> card (bits_of (map_at fs d)) + 1 + nat ((n + 127) div 128) \<le> nat NumSectors
      then \<exists>d' bs. FS_Create g fs name n d = Inr (True, d') \<and> fs_ok fs d' \<and> length bs = nat n
        \<and> files fs d' = (files fs d)(key \<mapsto> bs)
      else FS_Create g fs name n d = Inr (False, d))
    \<and> (if files fs d key = None then FS_Remove g fs name d = Inr (False, d)
      else \<exists>d'. FS_Remove g fs name d = Inr (True, d') \<and> fs_ok fs d' \<and> files fs d' = (files fs d)(key := None))
    \<and> (\<exists>r. FS_Open g fs name d = Inr r
      \<and> map_option (\<lambda>f. (seekPosition f, file_bytes (file_hdr f) d)) r = map_option (Pair 0) (files fs d key))"
proof (intro conjI)
  have n: "n \<le> 3840" using assms(3) by simp
  show "if files fs d key = None \<and> card (dom (files fs d)) < NumDirEntries
        \<and> card (bits_of (map_at fs d)) + 1 + nat ((n + 127) div 128) \<le> nat NumSectors
      then \<exists>d' bs. FS_Create g fs name n d = Inr (True, d') \<and> fs_ok fs d' \<and> length bs = nat n
        \<and> files fs d' = (files fs d)(key \<mapsto> bs)
      else FS_Create g fs name n d = Inr (False, d)"
    using Create_run[OF assms(1,2) n, of name g] Create_refused[OF assms(1,2) n, of name g]
    unfolding key_def room_for_def files_dom[OF assms(1)] by (simp split: if_split) blast
  show "if files fs d key = None then FS_Remove g fs name d = Inr (False, d)
      else \<exists>d'. FS_Remove g fs name d = Inr (True, d') \<and> fs_ok fs d' \<and> files fs d' = (files fs d)(key := None)"
    using FS_Remove_run[OF assms(1), of name g] Remove_absent[OF assms(1), of name g] unfolding key_def by auto
  show "\<exists>r. FS_Open g fs name d = Inr r
      \<and> map_option (\<lambda>f. (seekPosition f, file_bytes (file_hdr f) d)) r = map_option (Pair 0) (files fs d key)"
    using Open_run[OF assms(1), where name = name and g = g] unfolding key_def by (auto split: option.splits)
qed

theorem file_system_is_map_witness:
  "\<exists>fs d d' bs. fs_ok fs d \<and> FS_Create (\<lambda>_ _. 0) fs [97, 98, 0] 200 d = Inr (True, d') \<and> fs_ok fs d' \<and> length bs = 200
    \<and> files fs d' = [[97, 98] \<mapsto> bs]"
proof -
  have "sectors_ok (\<lambda>_. replicate 128 0)" by (simp add: sectors_ok_def)
  then obtain fs d where d: "fs_ok fs d" "files fs d = Map.empty" "card (bits_of (map_at fs d)) \<le> 5"
    by (rule format_run[where g = "\<lambda>_ _. 0"])
  have key: "name_key [97, 98, 0] = [97, 98]" by (simp add: name_key_def c_string_def FileNameMaxLen_def)
  show ?thesis using file_system_is_map[OF d(1), of 200 "[97, 98, 0]" "\<lambda>_ _. 0"] d by (auto simp: key)
qed

text \<open>C14: Formatting any disk gives a consistent empty file system, whatever the memory and the disk held before;
  and a later start that does not format finds the file system that is on the disk.\<close>

theorem format_then_mount:
  assumes "sectors_ok d"
  shows "\<exists>fs d'. FileSystem_new g True d = Inr (fs, d') \<and> fs_ok fs d' \<and> files fs d' = Map.empty
    \<and> (\<forall>d1 h. fs_ok fs d1 \<longrightarrow> FileSystem_new h False d1 = Inr (fs, d1))"
proof -
  obtain fs d' where "FileSystem_new g True d = Inr (fs, d')" "fs_ok fs d'" "files fs d' = Map.empty"
    by (rule format_run[OF assms, where g = g]) (rule that)
  moreover have "FileSystem_new h False d1 = Inr (fs, d1)" if "fs_ok fs d1" for d1 h
    using that by (simp add: FileSystem_new_def fs_ok_def sys_ok_def)
  ultimately show ?thesis by blast
qed

theorem format_then_mount_witness:
  "\<exists>fs d. FileSystem_new (\<lambda>i _. of_nat i) True (\<lambda>_. replicate 128 255) = Inr (fs, d) \<and> files fs d = Map.empty
    \<and> FileSystem_new (\<lambda>_ _. 7) False d = Inr (fs, d)"
proof -
  have "sectors_ok (\<lambda>_. replicate 128 255)" by (simp add: sectors_ok_def)
  from format_then_mount[OF this, of "\<lambda>i _. of_nat i"] show ?thesis by blast
qed

text \<open>C12: Writing to an open file changes that file and no other: the disk stays consistent, the file has the
  new bytes where it reached before, and every other name has the contents it had.\<close>

theorem writes_stay_in_file:
  assumes "fs_ok fs d" "FS_Open g fs name d = Inr (Some f)" "0 \<le> p" "p + n < 2 ^ 31" "nat n \<le> length bytes"
  shows "\<exists>r d' old. File_WriteAt junk f bytes n p d = Inr (r, d') \<and> fs_ok fs d'
    \<and> files fs d (name_key name) = Some old \<and> r = int (length (take (nat n) (drop (nat p) old)))
    \<and> files fs d' = (files fs d)(name_key name \<mapsto> patch (nat p) (take (nat n) bytes) old)"
proof -
  obtain e where e: "e \<in> set (live (dir_at fs d))" "entry_key e = name_key name" "f = \<lparr>file_hdr = entry_hdr d e, seekPosition = 0\<rparr>"
    using Open_run[OF assms(1), where name = name and g = g] assms(2) by (auto split: option.splits)
  have ok: "hdr_ok (file_hdr f)" "sectors_ok d"
    using fs_okD(5)[OF assms(1) e(1)] fs_okD(1)[OF assms(1)] e(3) by (simp_all add: sys_ok_def)
  obtain d' where d': "File_WriteAt junk f bytes n p d = Inr (int (length (take (nat n) (drop (nat p) (file_bytes (file_hdr f) d)))), d')"
    "sectors_ok d'" "\<And>s. s \<notin> set (data_of (file_hdr f)) \<Longrightarrow> d' s = d s"
    "file_bytes (file_hdr f) d' = patch (nat p) (take (nat n) bytes) (file_bytes (file_hdr f) d)"
    by (rule sector_WriteAt[where junk = junk, OF ok assms(3-5)]) (rule that)
  have same: "s \<notin> set (data_of (entry_hdr d e)) \<Longrightarrow> d' s = d s" for s using d'(3) e(3) by simp
  show ?thesis
    using fs_ok_write[OF assms(1) e(1) d'(2) same] files_Some[OF assms(1) e(1)] d'(1,4) e(2,3) by auto
qed

theorem writes_stay_in_file_witness:
  "\<exists>fs d f d' old. FS_Open (\<lambda>_ _. 0) fs [97, 0] d = Inr (Some f) \<and> File_WriteAt (\<lambda>_. 0) f [1, 2, 3] 3 126 d = Inr (3, d')
    \<and> length old = 200 \<and> files fs d' = [[97] \<mapsto> patch 126 [1, 2, 3] old]"
proof -
  let ?g = "\<lambda>_ _. 0 :: u8"
  have "sectors_ok (\<lambda>_. replicate 128 0)" by (simp add: sectors_ok_def)
  then obtain fs d where d: "fs_ok fs d" "files fs d = Map.empty" "card (bits_of (map_at fs d)) \<le> 5"
    by (rule format_run[where g = ?g])
  have key: "name_key [97, 0] = [97]" by (simp add: name_key_def c_string_def FileNameMaxLen_def)
  have room: "files fs d (name_key [97, 0]) = None" "room_for fs d 200"
    using d files_dom[OF d(1)] by (simp_all add: room_for_def)
  obtain d1 old where d1: "fs_ok fs d1" "length old = 200" "files fs d1 = [[97] \<mapsto> old]"
  proof (rule Create_run[where g = ?g, OF d(1) _ _ room])
    fix d' bs assume "fs_ok fs d'" "length bs = nat 200" "files fs d' = (files fs d)(name_key [97, 0] \<mapsto> bs)"
    then show thesis using that d(2) key by simp
  qed simp_all
  then obtain f where f: "FS_Open ?g fs [97, 0] d1 = Inr (Some f)"
    using Open_run[OF d1(1), where name = "[97, 0]" and g = ?g] key by auto
  from writes_stay_in_file[OF d1(1) f, of 126 3 "[1, 2, 3]" "\<lambda>_. 0"] d1 key obtain d' where
    "File_WriteAt (\<lambda>_. 0) f [1, 2, 3] 3 126 d1 = Inr (3, d')" "files fs d' = [[97] \<mapsto> patch 126 [1, 2, 3] old]"
    by (auto simp: min_def)
  then show ?thesis using f d1(2) by blast
qed

text \<open>Nothing checks that a file fits its header: when there is room on the disk, creating a file of more than
  \<open>MaxFileSize\<close> bytes writes sector numbers behind the end of the array \<open>dataSectors\<close>.\<close>

theorem Create_oversized:
  assumes "fs_ok fs d" "int MaxFileSize < n" "files fs d (name_key name) = None" "card (dom (files fs d)) < NumDirEntries"
    "card (bits_of (map_at fs d)) + 1 + nat ((n + 127) div 128) \<le> nat NumSectors"
  shows "FS_Create g fs name n d = Inl OutOfBounds"
  using Create_overrun[OF assms(1) _ assms(3), of n g] assms(2,4,5) files_dom[OF assms(1)] by (simp add: room_for_def)

theorem Create_oversized_witness:
  "\<exists>fs d. fs_ok fs d \<and> FS_Create (\<lambda>_ _. 0) fs [97, 0] 4000 d = Inl OutOfBounds"
proof -
  have "sectors_ok (\<lambda>_. replicate 128 0)" by (simp add: sectors_ok_def)
  then obtain fs d where d: "fs_ok fs d" "files fs d = Map.empty" "card (bits_of (map_at fs d)) \<le> 5"
    by (rule format_run[where g = "\<lambda>_ _. 0"])
  then show ?thesis using Create_oversized[OF d(1), of 4000 "[97, 0]" "\<lambda>_ _. 0"] by auto
qed

end
