(* ===== verification/File_Table.thy ===== *)
theory File_Table imports Process_Table Host_Files begin

text \<open>
  userprog/FileManager.h: the open files of user programs. A \<open>File\<close> is a file of the stub file system or a
  socket, the \<open>Table\<close> has twenty of them, and a program knows an open file by the number
  \<open>type * 100 + descriptor\<close>. The socket calls of the host are the argument \<open>net\<close>: what each call answers.
\<close>

section \<open>Files\<close>

definition STANDARD_MODE :: int where "STANDARD_MODE = 0"
definition READONLY_MODE :: int where "READONLY_MODE = 1"
definition SOCKET_MODE :: int where "SOCKET_MODE = 2"

lemmas file_modes = STANDARD_MODE_def READONLY_MODE_def SOCKET_MODE_def

text \<open>The answers of the host: \<open>socket()\<close>, \<open>connect\<close> of a descriptor to an address and a port,
  \<open>setsockopt\<close>, \<open>send\<close> and \<open>recv\<close>.\<close>

record net =
  socket_answer :: int
  connect_answer :: "int \<Rightarrow> u8 list \<Rightarrow> int \<Rightarrow> int"
  setsockopt_answer :: "int \<Rightarrow> int"
  send_answer :: "int \<Rightarrow> u8 list \<Rightarrow> int \<Rightarrow> int"
  recv_answer :: "int \<Rightarrow> int \<Rightarrow> int \<times> u8 list"

text \<open>The constructor initialises neither the socket nor the name.\<close>

record file_object =
  socketID :: "int option"
  file_name :: pointer
  FilePointer :: "open_file option"
  file_offset :: int
  ident :: int
  file_type :: int

definition File_new :: file_object where
  "File_new = \<lparr>socketID = None, file_name = Garbage, FilePointer = None, file_offset = - 1, ident = - 1, file_type = - 1\<rparr>"

definition getSocketID :: "file_object \<Rightarrow> int result" where
  "getSocketID f = (case socketID f of None \<Rightarrow> Inl Uninitialised | Some s \<Rightarrow> Inr s)"

text \<open>\<open>openFile\<close> follows the pointer that \<open>Open\<close> returns before it compares it with \<open>NULL\<close>, and keeps the
  pointer to the name.\<close>

definition openFile :: "string_heap \<Rightarrow> nat \<Rightarrow> int \<Rightarrow> host \<Rightarrow> file_object \<Rightarrow> (int \<times> host \<times> file_object) result" where
  "openFile hp name type h f =
     (case hp name of
        None \<Rightarrow> Inl Uninitialised
      | Some s \<Rightarrow>
          (case FileSystem_Open (c_string s) h of
             (None, h) \<Rightarrow> Inl NullPointer
           | (Some p, h) \<Rightarrow>
               let i = type * 100 + file_id p in
               Inr (i, h, f\<lparr>FilePointer := Some p, file_name := At name, file_type := type, ident := i, file_offset := 0\<rparr>)))"

definition openSocket :: "net \<Rightarrow> file_object \<Rightarrow> int \<times> file_object" where
  "openSocket net f =
     (let s = socket_answer net in
      if s < 0 then (- 1, f)
      else (s, f\<lparr>socketID := Some s, file_type := SOCKET_MODE, ident := SOCKET_MODE * 100 + s\<rparr>))"

definition connectSocket :: "net \<Rightarrow> u8 list \<Rightarrow> int \<Rightarrow> host \<Rightarrow> file_object \<Rightarrow> (int \<times> host) result" where
  "connectSocket net ip port h f =
     bind_result (getSocketID f) (\<lambda>s.
       if connect_answer net s ip port < 0 then Inr (- 1, Close s h) else Inr (s, h))"

definition socket_send :: "net \<Rightarrow> u8 list \<Rightarrow> int \<Rightarrow> int \<Rightarrow> int" where
  "socket_send net bytes charCount s = (if setsockopt_answer net s < 0 then - 1 else send_answer net s bytes charCount)"

definition socket_receive :: "net \<Rightarrow> int \<Rightarrow> int \<Rightarrow> int \<times> u8 list" where
  "socket_receive net n s = (if setsockopt_answer net s < 0 then (- 1, []) else recv_answer net s n)"

text \<open>Reading gives the result, and the bytes that were put into the buffer; fewer than asked for count as an error.\<close>

definition ReadFile :: "net \<Rightarrow> int \<Rightarrow> host \<Rightarrow> file_object \<Rightarrow> (int \<times> u8 list \<times> host \<times> file_object) result" where
  "ReadFile net charCount h f =
     (if file_type f = SOCKET_MODE then
        bind_result (getSocketID f) (\<lambda>s. let (r, bytes) = socket_receive net charCount s in Inr (r, bytes, h, f))
      else case FilePointer f of
        None \<Rightarrow> Inr (- 1, [], h, f)
      | Some p \<Rightarrow>
          let ((r, bytes), p, h) = OpenFile_Read p charCount h
          in Inr (if r < charCount then - 2 else r, bytes, h, f\<lparr>FilePointer := Some p\<rparr>))"

text \<open>Writing goes to the end of the file, wherever the file was sought to. The host refuses a negative number
  of bytes, which \<open>WriteAt\<close> returns all the same.\<close>

definition WriteFile_object :: "net \<Rightarrow> u8 list \<Rightarrow> int \<Rightarrow> host \<Rightarrow> file_object \<Rightarrow> (int \<times> host) result" where
  "WriteFile_object net buffer charCount h f =
     check (charCount \<le> int (length buffer)) OutOfBounds
      (if file_type f = SOCKET_MODE
       then bind_result (getSocketID f) (\<lambda>s. Inr (socket_send net (take (nat charCount) buffer) charCount s, h))
       else case FilePointer f of
         None \<Rightarrow> Inr (- 1, h)
       | Some p \<Rightarrow>
           if file_type f = READONLY_MODE then Inr (- 1, h)
           else let (len, h) = OpenFile_Length p h;
                    (r, h) = (if charCount < 0 then (charCount, Lseek_set (file_id p) (len + 1) h)
                              else OpenFile_WriteAt p (take (nat charCount) buffer) (len + 1) h)
             in Inr (if r \<noteq> charCount then - 2 else r, h))"

definition seekFile :: "int \<Rightarrow> host \<Rightarrow> file_object \<Rightarrow> (int \<times> host \<times> file_object) result" where
  "seekFile position h f =
     (if file_type f = SOCKET_MODE then Inr (- 1, h, f)
      else bind_result (get (FilePointer f)) (\<lambda>p.
        let (len, h) = OpenFile_Length p h in
        if position \<ge> len then Inr (- 1, h, f)
        else if position = - 1 then
          let (len, h) = OpenFile_Length p h; (r, p) = OpenFile_Seek len p in Inr (r, h, f\<lparr>FilePointer := Some p\<rparr>)
        else let (r, p) = OpenFile_Seek position p in Inr (r, h, f\<lparr>FilePointer := Some p\<rparr>)))"

text \<open>\<open>CloseFile\<close>; its callers do not use what it returns, which is nothing on most paths.\<close>

definition CloseFile :: "host \<Rightarrow> file_object \<Rightarrow> (host \<times> file_object) result" where
  "CloseFile h f =
     (if file_type f = - 1 then Inr (h, f)
      else if file_type f = SOCKET_MODE then
        bind_result (getSocketID f) (\<lambda>s. Inr (if s > - 1 then Close s h else h, f\<lparr>socketID := Some (- 1)\<rparr>))
      else case FilePointer f of
        None \<Rightarrow> Inr (h, f)
      | Some p \<Rightarrow> Inr (Close (file_id p) h, f\<lparr>FilePointer := None, file_type := - 1, ident := - 1\<rparr>))"

section \<open>The table\<close>

definition MaxSize :: nat where "MaxSize = 20"

record file_table =
  currentSize :: int
  open_files :: "file_object list"

definition Table_new :: file_table where
  "Table_new = \<lparr>currentSize = 0, open_files = replicate 20 File_new\<rparr>"

definition find_ident :: "int \<Rightarrow> file_table \<Rightarrow> nat option" where
  "find_ident i tb = first_below (\<lambda>k. ident (open_files tb ! k) = i) MaxSize"

text \<open>\<open>isOpened\<close> returns the number it was given, and \<open>getFile\<close> a pointer into the table.\<close>

definition isOpened :: "int \<Rightarrow> file_table \<Rightarrow> int" where
  "isOpened i tb = (case find_ident i tb of Some k \<Rightarrow> ident (open_files tb ! k) | None \<Rightarrow> - 1)"

definition getFile :: "int \<Rightarrow> file_table \<Rightarrow> nat option" where
  "getFile i tb = find_ident i tb"

text \<open>\<open>isOpened\<close> by name and type compares the strings that the names in the table point to.\<close>

fun isOpened_name :: "string_heap \<Rightarrow> nat \<Rightarrow> int \<Rightarrow> file_object list \<Rightarrow> int result" where
  "isOpened_name hp name type [] = Inr (- 1)"
| "isOpened_name hp name type (f # fs) =
     (case file_name f of
        Garbage \<Rightarrow> Inl Uninitialised
      | Null \<Rightarrow> isOpened_name hp name type fs
      | At q \<Rightarrow> bind_result (strcmp_equal hp name q) (\<lambda>same.
          if same \<and> file_type f = type then Inr (ident f) else isOpened_name hp name type fs))"

text \<open>\<open>closeFile\<close> takes the number of the file for its index in the table.\<close>

definition closeFile :: "int \<Rightarrow> host \<Rightarrow> file_table \<Rightarrow> (int \<times> host \<times> file_table) result" where
  "closeFile i h tb =
     (let k = isOpened i tb in
      if k < 0 then Inr (- 1, h, tb)
      else bind_result (arr_get (open_files tb) (nat k)) (\<lambda>f.
        if file_type f \<noteq> SOCKET_MODE then
          bind_result (CloseFile h f) (\<lambda>(h, f).
            Inr (0, h, tb\<lparr>open_files := (open_files tb)[nat k := f], currentSize := currentSize tb - 1\<rparr>))
        else bind_result (getSocketID f) (\<lambda>s. Inr (0, Close s h, tb))))"

definition Table_open :: "net \<Rightarrow> string_heap \<Rightarrow> nat \<Rightarrow> int \<Rightarrow> host \<Rightarrow> file_table \<Rightarrow> (int \<times> host \<times> file_table) result" where
  "Table_open net hp name type h tb =
     (if currentSize tb = int MaxSize then Inr (- 1, h, tb)
      else case find_ident (- 1) tb of
        None \<Rightarrow> Inr (- 1, h, tb)
      | Some k \<Rightarrow>
          bind_result
            (if type \<noteq> SOCKET_MODE
             then bind_result (openFile hp name type h (open_files tb ! k)) (\<lambda>(_, h, f). Inr (h, f))
             else Inr (h, snd (openSocket net (open_files tb ! k)))) (\<lambda>(h, f).
          let tb = tb\<lparr>open_files := (open_files tb)[k := f]\<rparr>
          in if ident f \<noteq> - 1 then Inr (ident f, h, tb\<lparr>currentSize := currentSize tb + 1\<rparr>) else Inr (- 1, h, tb)))"

definition isEmpty :: "file_table \<Rightarrow> bool" where
  "isEmpty tb \<longleftrightarrow> currentSize tb = 0"

end
