(* ===== verification/Kernel_Code.thy ===== *)
theory Kernel_Code imports File_Table Addr_Space Kernel_Theorems Mips_Exec begin

text \<open>
  The state of the kernel above threads and devices, and how kernel code is written here. The kernel's
  objects that user programs reach (open files, semaphore and process tables, mail boxes, the C strings
  on the heap) are the record \<open>os\<close>, the memory the threads of theory Threads share. A piece of code is an
  operation on the whole system that may fail; \<open>bind_op\<close> is the sequencing of statements. Below are the
  statements the code is made of: registers, memory of the user program, the heap of strings, and the
  value a call returns to the code of its thread.
\<close>

section \<open>Mail\<close>

record MailHeader =
  mail_to :: u32
  mail_from :: u32
  mail_length :: u32

definition sizeof_MailHeader :: nat where "sizeof_MailHeader = 12"
definition MaxMailSize :: nat where "MaxMailSize = MaxPacketSize - sizeof_MailHeader"

definition mail_header_bytes :: "MailHeader \<Rightarrow> u8 list" where
  "mail_header_bytes h = word_bytes (mail_to h) @ word_bytes (mail_from h) @ word_bytes (mail_length h)"

definition mail_header_of :: "u8 list \<Rightarrow> MailHeader" where
  "mail_header_of bs = \<lparr>mail_to = Devices.word_at bs 0, mail_from = Devices.word_at bs 4, mail_length = Devices.word_at bs 8\<rparr>"

record mail =
  pktHdr :: PacketHeader
  mailHdr :: MailHeader
  mail_data :: "u8 list"

text \<open>The constructor copies as many bytes as the header says.\<close>

definition Mail_new :: "PacketHeader \<Rightarrow> MailHeader \<Rightarrow> u8 list \<Rightarrow> mail result" where
  "Mail_new pktH mailH msgData =
     c_assert (unat (mail_length mailH) \<le> MaxMailSize)
       (check (unat (mail_length mailH) \<le> length msgData) OutOfBounds
         (Inr \<lparr>pktHdr = pktH, mailHdr = mailH, mail_data = take (unat (mail_length mailH)) msgData\<rparr>))"

section \<open>The state\<close>

text \<open>\<open>pids\<close> is what the field \<open>pid\<close> of each thread object holds, which nothing sets. \<open>executable\<close> and
  \<open>loading_space\<close> are locals of \<open>Load\<close>, \<open>returned\<close>, \<open>outgoing\<close> and \<open>letter\<close> locals of the code of each
  thread, and \<open>delivery_buffer\<close> the buffer of the postal worker.\<close>

record os =
  os_host :: host
  strings :: string_heap
  next_string :: nat
  opened :: file_table
  sockets :: net
  sTable :: sem_table
  pTable :: ptable
  pids :: "nat \<Rightarrow> int"
  physPageBitMap :: bitmap
  addrLock :: nat
  userProgName :: nat
  executable :: "(open_file \<times> NoffHeader) option"
  loading_space :: address_space
  boxes :: "mail list list"
  delivery_buffer :: "u8 list"
  returned :: "nat \<Rightarrow> int"
  outgoing :: "nat \<Rightarrow> (PacketHeader \<times> u8 list) option"
  letter :: "nat \<Rightarrow> mail option"

section \<open>Operations\<close>

type_synonym 'a op = "os system \<Rightarrow> ('a \<times> os system) result"

definition give :: "'a \<Rightarrow> 'a op" where "give x s = Inr (x, s)"

definition bind_op :: "'a op \<Rightarrow> ('a \<Rightarrow> 'b op) \<Rightarrow> 'b op" where
  "bind_op f g s = bind_result (f s) (\<lambda>(x, s). g x s)"

definition attempt :: "'a result \<Rightarrow> 'a op" where
  "attempt r s = bind_result r (\<lambda>x. Inr (x, s))"

definition ask :: "(os system \<Rightarrow> 'a) \<Rightarrow> 'a op" where "ask f s = Inr (f s, s)"

definition upd_os :: "(os \<Rightarrow> os) \<Rightarrow> unit op" where
  "upd_os f s = Inr ((), upd_kernel (\<lambda>k. k\<lparr>shared := f (shared k)\<rparr>) s)"

abbreviation the_os :: "os system \<Rightarrow> os" where "the_os s \<equiv> shared (kern s)"
abbreviation in_os :: "(os \<Rightarrow> 'a) \<Rightarrow> 'a op" where "in_os f \<equiv> ask (\<lambda>s. f (the_os s))"
abbreviation this_thread :: "nat op" where "this_thread \<equiv> ask (\<lambda>s. currentThread (kern s))"

text \<open>What an operation of a table does to the kernel's semaphores.\<close>

definition upd_kern :: "(os kernel \<Rightarrow> ('a \<times> os kernel) result) \<Rightarrow> 'a op" where
  "upd_kern f s = bind_result (f (kern s)) (\<lambda>(x, k). Inr (x, upd_kernel (\<lambda>_. k) s))"

lemma bind_op_simps:
  "bind_op (give x) g = g x" "bind_op h give = h"
  "bind_op (attempt (Inr x)) g = g x" "bind_op (ask q) g s = g (q s) s"
  "bind_op (bind_op f1 g1) g2 = bind_op f1 (\<lambda>x. bind_op (g1 x) g2)"
proof -
  show "bind_op (bind_op f1 g1) g2 = bind_op f1 (\<lambda>x. bind_op (g1 x) g2)"
    by (rule ext) (simp add: bind_op_def bind_result_def split: sum.split prod.split)
qed (auto simp: bind_op_def give_def attempt_def ask_def bind_result_def fun_eq_iff split: sum.split prod.split)

section \<open>The machine\<close>

definition machine_op :: "(machine \<Rightarrow> ('a \<times> machine) result) \<Rightarrow> 'a op" where
  "machine_op f s =
     bind_result (get (cpu s)) (\<lambda>m. bind_result (f m) (\<lambda>(x, m). Inr (x, s\<lparr>cpu := Some m\<rparr>)))"

definition read_register :: "nat \<Rightarrow> u32 op" where
  "read_register i = machine_op (\<lambda>m. bind_result (ReadRegister (int i) m) (\<lambda>v. Inr (v, m)))"

definition write_register :: "nat \<Rightarrow> u32 \<Rightarrow> unit op" where
  "write_register i v = machine_op (\<lambda>m. bind_result (WriteRegister (int i) v m) (\<lambda>m. Inr ((), m)))"

text \<open>\<open>ReadMem\<close> and \<open>WriteMem\<close> called by the kernel: an access that fails raises the exception inside the
  handler, which prints a message and returns; then the call answers false, and the simulator is in user mode.\<close>

definition mem_op :: "(machine \<Rightarrow> ('a \<times> machine) outcome) \<Rightarrow> 'a option op" where
  "mem_op f s =
     bind_result (get (cpu s)) (\<lambda>m. case f m of
       Fault e \<Rightarrow> Inl e
     | Done (v, m) \<Rightarrow> Inr (Some v, s\<lparr>cpu := Some m\<rparr>)
     | Trap exception m \<Rightarrow> Inr (None, s\<lparr>cpu := Some m, status := UserMode\<rparr>))"

definition read_byte :: "u32 \<Rightarrow> u32 option op" where
  "read_byte addr = mem_op (ReadMem addr 1)"

definition write_byte :: "u32 \<Rightarrow> u32 \<Rightarrow> unit option op" where
  "write_byte addr v = mem_op (\<lambda>m. bind_outcome (WriteMem addr 1 v m) (\<lambda>m. Done ((), m)))"

definition IncPC :: "unit op" where
  "IncPC =
     bind_op (read_register PCReg) (\<lambda>pc.
     bind_op (write_register PrevPCReg pc) (\<lambda>_.
     bind_op (read_register NextPCReg) (\<lambda>n.
     bind_op (write_register PCReg n) (\<lambda>_.
     bind_op (read_register NextPCReg) (\<lambda>n.
     write_register NextPCReg (n + 4))))))"

section \<open>Copying between the user program and the kernel\<close>

text \<open>The loop of \<open>User2System\<close>, with the last value of \<open>oneChar\<close>, which is not set when a read fails.\<close>

fun copy_in :: "nat \<Rightarrow> u32 \<Rightarrow> u32 option \<Rightarrow> u8 list op" where
  "copy_in 0 virtAddr oneChar = give []"
| "copy_in (Suc n) virtAddr oneChar =
     bind_op (read_byte virtAddr) (\<lambda>r.
       case (if r = None then oneChar else r) of
         None \<Rightarrow> attempt (Inl Uninitialised)
       | Some v \<Rightarrow>
           if v = 0 then give [0]
           else bind_op (copy_in n (virtAddr + 1) (Some v)) (\<lambda>bs. give (ucast v # bs)))"

definition User2System :: "u32 \<Rightarrow> int \<Rightarrow> u8 list op" where
  "User2System virtAddr limit =
     bind_op (attempt (check (- 1 \<le> limit) OutOfBounds (Inr ()))) (\<lambda>_.
     bind_op (copy_in (nat limit) virtAddr None) (\<lambda>bs.
     give (bs @ replicate (nat (limit + 1) - length bs) 0)))"

text \<open>The loop of \<open>System2User\<close> stops after it has copied a zero.\<close>

fun copy_out :: "nat \<Rightarrow> u32 \<Rightarrow> u8 list \<Rightarrow> int op" where
  "copy_out 0 virtAddr buffer = give 0"
| "copy_out (Suc n) virtAddr [] = attempt (Inl OutOfBounds)"
| "copy_out (Suc n) virtAddr (b # buffer) =
     bind_op (write_byte virtAddr (scast b)) (\<lambda>_.
       if b = 0 then give 1 else bind_op (copy_out n (virtAddr + 1) buffer) (\<lambda>i. give (i + 1)))"

definition System2User :: "u32 \<Rightarrow> int \<Rightarrow> u8 list \<Rightarrow> int op" where
  "System2User virtAddr len buffer =
     (if len < 0 then give (- 1) else if len = 0 then give len else copy_out (nat len) virtAddr buffer)"

text \<open>\<open>copyStringFromMachine\<close> reads every character as an integer, four bytes, into the buffer at \<open>i\<close>.\<close>

fun copy_string :: "nat \<Rightarrow> u32 \<Rightarrow> nat \<Rightarrow> u8 list \<Rightarrow> u8 list op" where
  "copy_string 0 from i to = attempt (arr_set to (i - 1) 0)"
| "copy_string (Suc n) from i to =
     bind_op (read_byte (from + of_nat i)) (\<lambda>r. case r of
       None \<Rightarrow> attempt (arr_set to i 0)
     | Some v \<Rightarrow>
         bind_op (attempt (check (i + 4 \<le> length to) OutOfBounds (Inr ()))) (\<lambda>_.
         let to = take i to @ word_bytes v @ drop (i + 4) to
         in if to ! i = 0 then give to else copy_string n from (i + 1) to))"

definition copyStringFromMachine :: "u32 \<Rightarrow> u8 list \<Rightarrow> nat \<Rightarrow> u8 list op" where
  "copyStringFromMachine from to n = copy_string n from 0 to"

section \<open>The heap of strings\<close>

definition new_string :: "u8 list \<Rightarrow> nat op" where
  "new_string bs =
     bind_op (in_os next_string) (\<lambda>p.
     bind_op (upd_os (\<lambda>u. u\<lparr>strings := (strings u)(p \<mapsto> bs), next_string := p + 1\<rparr>)) (\<lambda>_. give p))"

definition delete_string :: "nat \<Rightarrow> unit op" where
  "delete_string p = upd_os (\<lambda>u. u\<lparr>strings := (strings u)(p := None)\<rparr>)"

definition string_of :: "nat \<Rightarrow> u8 list op" where
  "string_of p = bind_op (in_os (\<lambda>u. strings u p)) (\<lambda>r. attempt (case r of None \<Rightarrow> Inl Uninitialised | Some bs \<Rightarrow> Inr bs))"

section \<open>Calls and returns\<close>

text \<open>What the current thread's call returned.\<close>

definition return_value :: "int \<Rightarrow> unit op" where
  "return_value r = bind_op this_thread (\<lambda>t. upd_os (\<lambda>u. u\<lparr>returned := (returned u)(t := r)\<rparr>))"

definition the_result :: "int op" where
  "the_result = bind_op this_thread (\<lambda>t. in_os (\<lambda>u. returned u t))"

end
