(* ===== verification/Kernel_Calls.thy ===== *)
theory Kernel_Calls imports Kernel_Code begin

text \<open>
  The calls of the kernel that block on a device: userprog/synchconsole.cc, network/post.cc with
  threads/synchlist.cc, and what \<open>main\<close> of threads/main.cc does after the kernel is set up: loading the
  user program and running it. A call gives the tasks the thread does next; the code between two
  blocking calls is the task \<open>Continue\<close> with a label, and \<open>answer\<close> the return of a value.
\<close>

section \<open>Where the code goes on\<close>

definition L_GetChar :: nat where "L_GetChar = 10"
definition L_GetString :: nat where "L_GetString = 11"
definition L_PutChar :: nat where "L_PutChar = 12"
definition L_PutString :: nat where "L_PutString = 13"
definition L_Send :: nat where "L_Send = 14"
definition L_RemoveFront :: nat where "L_RemoveFront = 15"
definition L_Received :: nat where "L_Received = 16"
definition L_Deliver :: nat where "L_Deliver = 17"
definition L_Append :: nat where "L_Append = 18"
definition L_LoadPages :: nat where "L_LoadPages = 19"
definition L_Loaded :: nat where "L_Loaded = 20"
definition L_Run :: nat where "L_Run = 21"

abbreviation goto :: "nat \<Rightarrow> int list \<Rightarrow> task" where
  "goto l args \<equiv> Code (Continue l args)"

text \<open>Waiting for the semaphore that a device signals.\<close>

definition await :: "client \<Rightarrow> task op" where
  "await c = ask (\<lambda>s. Sem_P (client_semaphore (kern s) c) None)"

definition device_op :: "(os system \<Rightarrow> os system result) \<Rightarrow> unit op" where
  "device_op f s = bind_result (f s) (\<lambda>s. Inr ((), s))"

section \<open>Console\<close>

definition SynchConsoleInput_GetChar :: "task list op" where
  "SynchConsoleInput_GetChar =
     bind_op (await CharAvailClient) (\<lambda>p. give [Acquire ConsoleInLock, p, goto L_GetChar []])"

definition SynchConsoleInput_got :: "task list op" where
  "SynchConsoleInput_got =
     bind_op ConsoleInput_GetChar (\<lambda>ch. give [Release ConsoleInLock, answer (sint ch)])"

text \<open>\<open>GetString\<close> up to the call in its loop, and the rest of the round: \<open>EOF\<close> is -1.\<close>

definition GetString_loop :: "nat \<Rightarrow> nat \<Rightarrow> int \<Rightarrow> task list op" where
  "GetString_loop buffer i len =
     (if int i < len
      then bind_op SynchConsoleInput_GetChar (\<lambda>ts. give (ts @ [goto L_GetString [int buffer, int i, len]]))
      else give [answer len])"

definition GetString_got :: "nat \<Rightarrow> nat \<Rightarrow> int \<Rightarrow> task list op" where
  "GetString_got buffer i len =
     bind_op the_result (\<lambda>ch.
     bind_op (string_of buffer) (\<lambda>bs.
     bind_op (attempt (arr_set bs i (if ch = - 1 then 0 else of_int ch))) (\<lambda>bs.
     bind_op (upd_os (\<lambda>u. u\<lparr>strings := (strings u)(buffer \<mapsto> bs)\<rparr>)) (\<lambda>_.
     if ch = - 1 then give [answer (- 2)] else GetString_loop buffer (i + 1) len))))"

definition SynchConsoleInput_GetString :: "nat \<Rightarrow> int \<Rightarrow> task list op" where
  "SynchConsoleInput_GetString buffer len = GetString_loop buffer 0 len"

definition SynchConsoleOutput_PutChar :: "u8 \<Rightarrow> task list op" where
  "SynchConsoleOutput_PutChar ch =
     bind_op (await CharDoneClient) (\<lambda>p.
     give [Acquire ConsoleOutLock, goto L_PutChar [uint ch], p, Release ConsoleOutLock])"

definition SynchConsoleOutput_put :: "int \<Rightarrow> task list op" where
  "SynchConsoleOutput_put ch = bind_op (device_op (ConsoleOutput_PutChar (of_int ch))) (\<lambda>_. give [])"

definition PutString_loop :: "nat \<Rightarrow> nat \<Rightarrow> int \<Rightarrow> task list op" where
  "PutString_loop buffer i len =
     (if int i < len
      then bind_op (string_of buffer) (\<lambda>bs.
           bind_op (attempt (arr_get bs i)) (\<lambda>ch.
           bind_op (SynchConsoleOutput_PutChar ch) (\<lambda>ts. give (ts @ [goto L_PutString [int buffer, int i + 1, len]]))))
      else give [answer len])"

definition SynchConsoleOutput_PutString :: "nat \<Rightarrow> int \<Rightarrow> task list op" where
  "SynchConsoleOutput_PutString buffer len = PutString_loop buffer 0 len"

section \<open>Post office\<close>

text \<open>The lock and the condition of the list of mail box \<open>b\<close> are \<open>BoxLock b\<close> and \<open>b\<close>.\<close>

definition SynchList_Append :: "nat \<Rightarrow> task list" where
  "SynchList_Append b = [Acquire (BoxLock b), goto L_Append [int b], Signal b (BoxLock b), Release (BoxLock b)]"

definition SynchList_RemoveFront :: "nat \<Rightarrow> task list" where
  "SynchList_RemoveFront b = [Acquire (BoxLock b), goto L_RemoveFront [int b]]"

definition the_letter :: "mail op" where
  "the_letter =
     bind_op this_thread (\<lambda>t. bind_op (in_os (\<lambda>u. letter u t)) (\<lambda>m. attempt (get m)))"

definition set_letter :: "mail \<Rightarrow> unit op" where
  "set_letter m = bind_op this_thread (\<lambda>t. upd_os (\<lambda>u. u\<lparr>letter := (letter u)(t \<mapsto> m)\<rparr>))"

text \<open>\<open>list->Append\<close> of a letter that was just allocated.\<close>

definition append_letter :: "nat \<Rightarrow> task list op" where
  "append_letter b =
     bind_op the_letter (\<lambda>m.
     bind_op (in_os boxes) (\<lambda>bs.
     bind_op (attempt (arr_get bs b)) (\<lambda>ms.
     bind_op (upd_os (\<lambda>u. u\<lparr>boxes := bs[b := ms @ [m]]\<rparr>)) (\<lambda>_. give []))))"

text \<open>The loop of \<open>RemoveFront\<close>, and the rest of \<open>MailBox::Get\<close> and \<open>PostOfficeInput::Receive\<close>.\<close>

definition remove_letter :: "nat \<Rightarrow> task list op" where
  "remove_letter b =
     bind_op (in_os boxes) (\<lambda>bs.
     bind_op (attempt (arr_get bs b)) (\<lambda>ms. case ms of
       [] \<Rightarrow> give [Wait b (BoxLock b), goto L_RemoveFront [int b]]
     | m # ms \<Rightarrow>
         bind_op (upd_os (\<lambda>u. u\<lparr>boxes := bs[b := ms]\<rparr>)) (\<lambda>_.
         bind_op (set_letter m) (\<lambda>_. give [Release (BoxLock b), goto L_Received []]))))"

definition letter_received :: "task list op" where
  "letter_received =
     bind_op the_letter (\<lambda>m. attempt (c_assert (unat (mail_length (mailHdr m)) \<le> MaxMailSize) (Inr [])))"

definition PostOffice_Receive :: "int \<Rightarrow> task list op" where
  "PostOffice_Receive box =
     bind_op (in_os (\<lambda>u. length (boxes u))) (\<lambda>n.
     attempt (c_assert (0 \<le> box \<and> box < int n) (Inr (SynchList_RemoveFront (nat box)))))"

text \<open>One round of the postal worker: the letter of a packet goes to the box it names.\<close>

definition PostalDelivery :: "task list op" where
  "PostalDelivery = bind_op (await PacketAvailClient) (\<lambda>p. give [p, goto L_Deliver []])"

definition letter_of_packet :: "PacketHeader \<Rightarrow> u8 list \<Rightarrow> nat \<Rightarrow> (nat \<times> mail) result" where
  "letter_of_packet hdr buffer numBoxes =
     (let h = mail_header_of buffer in
      c_assert (0 \<le> sint (mail_to h) \<and> sint (mail_to h) < int numBoxes)
        (c_assert (unat (mail_length h) \<le> MaxMailSize)
          (bind_result (Mail_new hdr h (drop sizeof_MailHeader buffer)) (\<lambda>m. Inr (unat (mail_to h), m)))))"

definition deliver_letter :: "task list op" where
  "deliver_letter =
     bind_op (\<lambda>s. Inr (NetworkInput_Receive s)) (\<lambda>(hdr, bytes).
     bind_op (in_os (\<lambda>u. bytes @ drop (length bytes) (delivery_buffer u))) (\<lambda>buffer.
     bind_op (upd_os (\<lambda>u. u\<lparr>delivery_buffer := buffer\<rparr>)) (\<lambda>_.
     bind_op (in_os (\<lambda>u. length (boxes u))) (\<lambda>n.
     bind_op (attempt (letter_of_packet hdr buffer n)) (\<lambda>(b, m).
     bind_op (set_letter m) (\<lambda>_.
     bind_op PostalDelivery (\<lambda>ts. give (SynchList_Append b @ ts))))))))"

text \<open>\<open>Send\<close> up to \<open>sendLock->Acquire()\<close>: the packet it will send; the rest of the buffer is not initialised.\<close>

definition packet_of_letter :: "u32 \<Rightarrow> PacketHeader \<Rightarrow> MailHeader \<Rightarrow> u8 list \<Rightarrow> (nat \<Rightarrow> u8) \<Rightarrow> (PacketHeader \<times> u8 list) result" where
  "packet_of_letter host pktH mailH data fresh_memory =
     c_assert (unat (mail_length mailH) \<le> MaxMailSize)
       (c_assert (0 \<le> sint (mail_to mailH))
         (check (unat (mail_length mailH) \<le> length data) OutOfBounds
           (let used = mail_header_bytes mailH @ take (unat (mail_length mailH)) data
            in Inr (pktH\<lparr>hdr_from := host, hdr_length := mail_length mailH + of_nat sizeof_MailHeader\<rparr>,
                    used @ map fresh_memory [length used..<MaxPacketSize]))))"

definition PostOffice_Send :: "PacketHeader \<Rightarrow> MailHeader \<Rightarrow> u8 list \<Rightarrow> task list op" where
  "PostOffice_Send pktH mailH data =
     bind_op (ask (\<lambda>s. (hostName (network (world s)), garbage (world s)))) (\<lambda>(host, g).
     bind_op (attempt (packet_of_letter host pktH mailH data g)) (\<lambda>packet.
     bind_op this_thread (\<lambda>t.
     bind_op (upd_os (\<lambda>u. u\<lparr>outgoing := (outgoing u)(t \<mapsto> packet)\<rparr>)) (\<lambda>_.
     bind_op (await PacketSentClient) (\<lambda>p. give [Acquire SendLock, goto L_Send [], p, Release SendLock])))))"

definition send_packet :: "task list op" where
  "send_packet =
     bind_op this_thread (\<lambda>t.
     bind_op (in_os (\<lambda>u. outgoing u t)) (\<lambda>r.
     bind_op (attempt (get r)) (\<lambda>(hdr, buffer).
     bind_op (device_op (NetworkOutput_Send hdr buffer)) (\<lambda>_. give []))))"

section \<open>Running a user program\<close>

text \<open>\<open>Load\<close> up to \<open>addrLock->P()\<close>, from there to \<open>addrLock->V()\<close>, and what \<open>main\<close> does with the answer.\<close>

definition Load :: "path \<Rightarrow> task list op" where
  "Load name =
     bind_op (in_os os_host) (\<lambda>h.
     bind_op (attempt (Load_header name h)) (\<lambda>(r, h).
     bind_op (upd_os (\<lambda>u. u\<lparr>os_host := h, executable := r\<rparr>)) (\<lambda>_.
     case r of
       None \<Rightarrow> give [goto L_Loaded [0]]
     | Some _ \<Rightarrow> bind_op (in_os addrLock) (\<lambda>i. give [Sem_P i None, goto L_LoadPages []]))))"

definition Load_body :: "task list op" where
  "Load_body =
     bind_op (in_os (\<lambda>u. (executable u, physPageBitMap u, os_host u, addrLock u))) (\<lambda>(e, b, h, i).
     bind_op (attempt (get e)) (\<lambda>(f, noffH).
     bind_op (machine_op (\<lambda>m.
        bind_result (Load_pages f noffH b (mainMemory m) h) (\<lambda>(ok, sp, b, mem, h).
        Inr ((ok, sp, b, h), m\<lparr>mainMemory := mem\<rparr>)))) (\<lambda>(ok, sp, b, h).
     bind_op (upd_os (\<lambda>u. u\<lparr>physPageBitMap := b, os_host := h, loading_space := sp\<rparr>)) (\<lambda>_.
     give [Sem_V i, goto L_Loaded [if ok then 1 else 0]]))))"

definition set_space :: "address_space \<Rightarrow> unit op" where
  "set_space sp s = Inr ((), upd_kernel (\<lambda>k. upd_thread (currentThread k) (\<lambda>th. th\<lparr>space := Some sp\<rparr>) k) s)"

definition set_status :: "MachineStatus \<Rightarrow> unit op" where
  "set_status st s = Inr ((), s\<lparr>status := st\<rparr>)"

definition run_program :: "int \<Rightarrow> task list op" where
  "run_program ok =
     (if ok = 0 then give []
      else bind_op (in_os loading_space) (\<lambda>sp.
        bind_op (set_space sp) (\<lambda>_.
        bind_op (machine_op (\<lambda>m. bind_result (Execute sp m) (\<lambda>m. Inr ((), m)))) (\<lambda>_.
        bind_op (set_status UserMode) (\<lambda>_. give [goto L_Run []])))))"

definition main_program :: "task list op" where
  "main_program =
     bind_op (in_os userProgName) (\<lambda>p. bind_op (string_of p) (\<lambda>bs. Load (c_string bs)))"

text \<open>One round of \<open>Machine::Run\<close>: an instruction, the exception handler if it traps, and a tick of the clock.\<close>

definition Run_round :: "task list op" where
  "Run_round s =
     bind_result (get (cpu s)) (\<lambda>m. case OneInstruction False m of
       Fault e \<Rightarrow> Inl e
     | Done m \<Rightarrow> Inr ([Tick, goto L_Run []], s\<lparr>cpu := Some m\<rparr>)
     | Trap exception m \<Rightarrow>
         Inr ([Code (Handler exception), Restore_Status UserMode, Tick, goto L_Run []],
              s\<lparr>cpu := Some m, status := SystemMode\<rparr>))"

end
