(* ===== verification/Syscalls.thy ===== *)
theory Syscalls imports Kernel_Calls begin

text \<open>
  The system calls: userprog/ksyscall.h does the work of each, userprog/exception\_part1.h and
  exception\_part2.h fetch the arguments from the registers and the memory of the user program and store
  the result, and userprog/exception.cc dispatches. A handler that blocks ends with the tasks its thread
  does next. \<open>nachos\<close> is all of this code together, as the program the threads of theory Threads run.
\<close>

section \<open>System call numbers\<close>

definition SC_Halt :: int where "SC_Halt = 0"
definition SC_Exit :: int where "SC_Exit = 1"
definition SC_Exec :: int where "SC_Exec = 2"
definition SC_Join :: int where "SC_Join = 3"
definition SC_Create :: int where "SC_Create = 4"
definition SC_Remove :: int where "SC_Remove = 5"
definition SC_Open :: int where "SC_Open = 6"
definition SC_Read :: int where "SC_Read = 7"
definition SC_Write :: int where "SC_Write = 8"
definition SC_Seek :: int where "SC_Seek = 9"
definition SC_Close :: int where "SC_Close = 10"
definition SC_CreateSemaphore :: int where "SC_CreateSemaphore = 16"
definition SC_Wait :: int where "SC_Wait = 17"
definition SC_Signal :: int where "SC_Signal = 18"
definition SC_Add :: int where "SC_Add = 42"
definition SC_SocketTCP :: int where "SC_SocketTCP = 43"
definition SC_Connect :: int where "SC_Connect = 44"
definition SC_Send :: int where "SC_Send = 47"
definition SC_Receive :: int where "SC_Receive = 48"

lemmas syscall_numbers = SC_Halt_def SC_Exit_def SC_Exec_def SC_Join_def SC_Create_def SC_Remove_def SC_Open_def
  SC_Read_def SC_Write_def SC_Seek_def SC_Close_def SC_CreateSemaphore_def SC_Wait_def SC_Signal_def SC_Add_def
  SC_SocketTCP_def SC_Connect_def SC_Send_def SC_Receive_def

definition L_CopyBack :: nat where "L_CopyBack = 22"

definition L_Result :: nat where "L_Result = 24"
definition L_NamedResult :: nat where "L_NamedResult = 25"
definition L_Exited :: nat where "L_Exited = 26"

definition MaxFileNameLength :: int where "MaxFileNameLength = 32"
definition MAX_STRING_SIZE :: nat where "MAX_STRING_SIZE = 256"

section \<open>Files\<close>

text \<open>The parts of the state the file calls work on.\<close>

definition file_op :: "(net \<Rightarrow> host \<Rightarrow> file_table \<Rightarrow> ('a \<times> host \<times> file_table) result) \<Rightarrow> 'a op" where
  "file_op f =
     bind_op (in_os (\<lambda>u. (sockets u, os_host u, opened u))) (\<lambda>(net, h, tb).
     bind_op (attempt (f net h tb)) (\<lambda>(r, h, tb).
     bind_op (upd_os (\<lambda>u. u\<lparr>os_host := h, opened := tb\<rparr>)) (\<lambda>_. give r)))"

text \<open>An operation on the file \<open>getFile\<close> points to.\<close>

definition on_file :: "nat \<Rightarrow> (net \<Rightarrow> host \<Rightarrow> file_object \<Rightarrow> ('a \<times> host \<times> file_object) result) \<Rightarrow> 'a op" where
  "on_file k f = file_op (\<lambda>net h tb.
     bind_result (arr_get (open_files tb) k) (\<lambda>x.
     bind_result (f net h x) (\<lambda>(r, h, x). Inr (r, h, tb\<lparr>open_files := (open_files tb)[k := x]\<rparr>))))"

definition SysOpen :: "nat \<Rightarrow> int \<Rightarrow> int op" where
  "SysOpen fileName type =
     (if type \<noteq> 0 \<and> type \<noteq> 1 then give (- 1)
      else bind_op (in_os strings) (\<lambda>hp. file_op (\<lambda>net. Table_open net hp fileName type)))"

text \<open>The buffers of \<open>SysRead\<close> and \<open>SysWrite\<close> are strings of the kernel's heap. What is read goes to the
  beginning of the buffer.\<close>

definition SysRead :: "nat \<Rightarrow> int \<Rightarrow> int \<Rightarrow> task list op" where
  "SysRead buffer charCount fileId =
     (if fileId < 0 then give [answer (- 1)]
      else if fileId = 0 then SynchConsoleInput_GetString buffer charCount
      else bind_op (in_os (\<lambda>u. getFile fileId (opened u))) (\<lambda>r. case r of
          None \<Rightarrow> give [answer (- 1)]
        | Some k \<Rightarrow>
            bind_op (on_file k (\<lambda>net h f. bind_result (ReadFile net charCount h f) (\<lambda>(r, bytes, h, f). Inr ((r, bytes), h, f))))
              (\<lambda>(r, bytes).
            bind_op (string_of buffer) (\<lambda>bs.
            bind_op (attempt (check (length bytes \<le> length bs) OutOfBounds (Inr (bytes @ drop (length bytes) bs)))) (\<lambda>bs.
            bind_op (upd_os (\<lambda>u. u\<lparr>strings := (strings u)(buffer \<mapsto> bs)\<rparr>)) (\<lambda>_.
            give [answer r]))))))"

definition SysWrite :: "nat \<Rightarrow> int \<Rightarrow> int \<Rightarrow> task list op" where
  "SysWrite buffer charCount fileId =
     (if fileId = 1 then SynchConsoleOutput_PutString buffer charCount
      else bind_op (in_os (\<lambda>u. getFile fileId (opened u))) (\<lambda>r. case r of
          None \<Rightarrow> give [answer (- 1)]
        | Some k \<Rightarrow>
            if c_div fileId 100 \<noteq> READONLY_MODE then
              bind_op (string_of buffer) (\<lambda>bs.
              bind_op (on_file k (\<lambda>net h f. bind_result (WriteFile_object net bs charCount h f) (\<lambda>(r, h). Inr (r, h, f)))) (\<lambda>r.
              give [answer r]))
            else give [answer (- 1)]))"

definition SysClose :: "int \<Rightarrow> int op" where
  "SysClose fid = file_op (\<lambda>net h tb. if isEmpty tb then Inr (- 1, h, tb) else closeFile fid h tb)"

text \<open>\<open>SysSeek\<close> returns the offset the file object keeps, not the one the open file was sought to.\<close>

definition SysSeek :: "int \<Rightarrow> int \<Rightarrow> int op" where
  "SysSeek position fid =
     (if fid = 0 \<or> fid = 1 then give (- 1)
      else bind_op (in_os (\<lambda>u. getFile fid (opened u))) (\<lambda>r. case r of
          None \<Rightarrow> give (- 1)
        | Some k \<Rightarrow> on_file k (\<lambda>net h f. bind_result (seekFile position h f) (\<lambda>(r, h, f). Inr (file_offset f, h, f)))))"

definition SysCreate :: "nat \<Rightarrow> int op" where
  "SysCreate filename =
     bind_op (string_of filename) (\<lambda>bs.
       if length (c_string bs) = 0 then give (- 1)
       else file_op (\<lambda>net h tb. let (ok, h) = FileSystem_Create (c_string bs) h in Inr (if ok then 1 else - 1, h, tb)))"

text \<open>\<open>SysRemove\<close> closes the file in either mode before it removes it.\<close>

definition close_by_name :: "nat \<Rightarrow> int \<Rightarrow> unit op" where
  "close_by_name name type =
     bind_op (in_os strings) (\<lambda>hp.
     file_op (\<lambda>net h tb.
       bind_result (isOpened_name hp name type (open_files tb)) (\<lambda>i.
         if i > - 1 then bind_result (closeFile i h tb) (\<lambda>(r, h, tb). Inr ((), h, tb)) else Inr ((), h, tb))))"

definition SysRemove :: "nat \<Rightarrow> int op" where
  "SysRemove name =
     bind_op (close_by_name name 0) (\<lambda>_.
     bind_op (close_by_name name 1) (\<lambda>_.
     bind_op (string_of name) (\<lambda>bs.
     file_op (\<lambda>net h tb. let (ok, h) = FileSystem_Remove (c_string bs) h in Inr (if ok then 0 else - 1, h, tb)))))"

section \<open>Sockets\<close>

definition SysSocketTCP :: "int op" where
  "SysSocketTCP = bind_op (in_os strings) (\<lambda>hp. file_op (\<lambda>net. Table_open net hp 0 SOCKET_MODE))"

definition SysConnect :: "int \<Rightarrow> u8 list \<Rightarrow> int \<Rightarrow> int op" where
  "SysConnect socketid ip port =
     bind_op (in_os (\<lambda>u. getFile socketid (opened u))) (\<lambda>r.
     bind_op (attempt (get r)) (\<lambda>k.
     bind_op (on_file k (\<lambda>net h f. bind_result (connectSocket net ip port h f) (\<lambda>(r, h). Inr (r, h, f)))) (\<lambda>r.
     give (if r < 0 then - 1 else socketid))))"

definition SysGetIdSocket :: "int \<Rightarrow> int op" where
  "SysGetIdSocket fid =
     bind_op (in_os (\<lambda>u. getFile fid (opened u))) (\<lambda>r.
     bind_op (attempt (get r)) (\<lambda>k.
     on_file k (\<lambda>net h f. bind_result (getSocketID f) (\<lambda>i. Inr (i, h, f)))))"

text \<open>The functions for the calls \<open>Send\<close> and \<open>Receive\<close>; the latter also advances the program counter.\<close>

definition SocketSend :: "u8 list \<Rightarrow> int \<Rightarrow> int \<Rightarrow> int op" where
  "SocketSend buffer charCount fileId =
     bind_op (in_os sockets) (\<lambda>net.
     attempt (check (charCount \<le> int (length buffer)) OutOfBounds
       (Inr (socket_send net (take (nat charCount) buffer) charCount fileId))))"

definition SocketReceive :: "u8 list \<Rightarrow> int \<Rightarrow> int \<Rightarrow> (int \<times> u8 list) op" where
  "SocketReceive buffer charCount fileId =
     bind_op (in_os sockets) (\<lambda>net.
       if setsockopt_answer net fileId < 0 then give (- 1, buffer)
       else let (r, bytes) = recv_answer net fileId charCount in
         bind_op (attempt (check (length bytes \<le> length buffer) OutOfBounds (Inr ()))) (\<lambda>_.
         bind_op IncPC (\<lambda>_. give (r, bytes @ drop (length bytes) buffer))))"

definition SysAdd :: "u32 \<Rightarrow> u32 \<Rightarrow> u32" where
  "SysAdd op1 op2 = op1 + op2"

section \<open>Handlers\<close>

text \<open>The last statements of a handler that returns a result.\<close>

definition result_and_IncPC :: "int \<Rightarrow> task list op" where
  "result_and_IncPC r = bind_op (write_register 2 (of_int r)) (\<lambda>_. bind_op IncPC (\<lambda>_. give []))"

definition read_int :: "nat \<Rightarrow> int op" where
  "read_int i = bind_op (read_register i) (\<lambda>v. give (sint v))"

text \<open>A string that is fetched from the user program onto the heap.\<close>

definition fetch_string :: "u32 \<Rightarrow> int \<Rightarrow> nat op" where
  "fetch_string virtAddr limit = bind_op (User2System virtAddr limit) new_string"

definition HandleAdd :: "task list op" where
  "HandleAdd =
     bind_op (read_register 4) (\<lambda>op1.
     bind_op (read_register 5) (\<lambda>op2.
     bind_op (write_register 2 (SysAdd op1 op2)) (\<lambda>_. bind_op IncPC (\<lambda>_. give []))))"

definition HandleCreate :: "task list op" where
  "HandleCreate =
     bind_op (read_register 4) (\<lambda>virtAddr.
     bind_op (fetch_string virtAddr (MaxFileNameLength + 1)) (\<lambda>filename.
     bind_op (SysCreate filename) (\<lambda>r.
     bind_op (write_register 2 (if r \<noteq> 0 then 0 else - 1)) (\<lambda>_.
     bind_op (delete_string filename) (\<lambda>_.
     bind_op IncPC (\<lambda>_. give []))))))"

definition HandleDelete :: "task list op" where
  "HandleDelete =
     bind_op (read_register 4) (\<lambda>virtAddr.
     bind_op (fetch_string virtAddr MaxFileNameLength) (\<lambda>filename.
     bind_op (SysRemove filename) result_and_IncPC))"

definition HandleOpen :: "task list op" where
  "HandleOpen =
     bind_op (read_register 4) (\<lambda>virtAddr.
     bind_op (read_int 5) (\<lambda>type.
     bind_op (fetch_string virtAddr MaxFileNameLength) (\<lambda>filename.
     bind_op (SysOpen filename type) (\<lambda>r.
     bind_op (write_register 2 (of_int r)) (\<lambda>_.
     bind_op (delete_string filename) (\<lambda>_.
     bind_op IncPC (\<lambda>_. give [])))))))"

definition HandleClose :: "task list op" where
  "HandleClose = bind_op (read_int 4) (\<lambda>fid. bind_op (SysClose fid) result_and_IncPC)"

text \<open>\<open>HandleRead\<close> and \<open>HandleWrite\<close> up to the call that may block, and after it.\<close>

definition HandleRead :: "task list op" where
  "HandleRead =
     bind_op (read_register 4) (\<lambda>virtAddr.
     bind_op (read_int 5) (\<lambda>charCount.
     bind_op (fetch_string virtAddr charCount) (\<lambda>buffer.
     bind_op (read_int 6) (\<lambda>fileId.
     bind_op (SysRead buffer charCount fileId) (\<lambda>ts.
     give (ts @ [goto L_CopyBack [sint virtAddr, charCount, int buffer]]))))))"

definition HandleWrite :: "task list op" where
  "HandleWrite =
     bind_op (read_register 4) (\<lambda>virtAddr.
     bind_op (read_int 5) (\<lambda>charCount.
     bind_op (fetch_string virtAddr charCount) (\<lambda>buffer.
     bind_op (read_int 6) (\<lambda>fileId.
     bind_op (SysWrite buffer charCount fileId) (\<lambda>ts.
     give (ts @ [goto L_CopyBack [sint virtAddr, charCount, int buffer]]))))))"

definition copy_back :: "int \<Rightarrow> int \<Rightarrow> nat \<Rightarrow> task list op" where
  "copy_back virtAddr charCount buffer =
     bind_op the_result (\<lambda>r.
     bind_op (write_register 2 (of_int r)) (\<lambda>_.
     bind_op (string_of buffer) (\<lambda>bs.
     bind_op (System2User (of_int virtAddr) charCount bs) (\<lambda>_.
     bind_op (delete_string buffer) (\<lambda>_.
     bind_op IncPC (\<lambda>_. give []))))))"

definition HandleSeek :: "task list op" where
  "HandleSeek =
     bind_op (read_int 4) (\<lambda>seekPos. bind_op (read_int 5) (\<lambda>fileId. bind_op (SysSeek seekPos fileId) result_and_IncPC))"

definition HandleConnect :: "task list op" where
  "HandleConnect =
     bind_op (read_int 4) (\<lambda>arg1.
     bind_op (read_register 5) (\<lambda>arg2.
     bind_op (read_int 6) (\<lambda>arg3.
     bind_op (ask (\<lambda>s. map (garbage (world s)) [0..<MAX_STRING_SIZE])) (\<lambda>kernelIP.
     bind_op (copyStringFromMachine arg2 kernelIP MAX_STRING_SIZE) (\<lambda>kernelIP.
     bind_op (SysConnect arg1 (c_string kernelIP) arg3) result_and_IncPC)))))"

definition HandleSocketTCP :: "task list op" where
  "HandleSocketTCP = bind_op SysSocketTCP result_and_IncPC"

text \<open>The cases \<open>SC_Send\<close> and \<open>SC_Receive\<close> of the dispatch, which leave register 2 as it is.\<close>

definition HandleSend :: "task list op" where
  "HandleSend =
     bind_op (read_register 4) (\<lambda>idbuffer.
     bind_op (read_int 5) (\<lambda>len.
     bind_op (read_int 6) (\<lambda>addrSocketid.
     bind_op (SysGetIdSocket addrSocketid) (\<lambda>socketid.
     bind_op (attempt (check (0 \<le> len) OutOfBounds (Inr ()))) (\<lambda>_.
     bind_op (User2System idbuffer len) (\<lambda>buffer.
     bind_op (SocketSend buffer len socketid) (\<lambda>_.
     bind_op IncPC (\<lambda>_. give []))))))))"

definition HandleReceive :: "task list op" where
  "HandleReceive =
     bind_op (read_register 4) (\<lambda>idbuffer.
     bind_op (read_int 5) (\<lambda>len.
     bind_op (read_int 6) (\<lambda>addrSocketid.
     bind_op (SysGetIdSocket addrSocketid) (\<lambda>socketid.
     bind_op (attempt (check (0 \<le> len) OutOfBounds (Inr ()))) (\<lambda>_.
     bind_op (ask (\<lambda>s. map (garbage (world s)) [0..<nat len])) (\<lambda>buffer.
     bind_op (SocketReceive buffer len socketid) (\<lambda>(r, buffer).
     bind_op (System2User idbuffer len buffer) (\<lambda>_.
     bind_op IncPC (\<lambda>_. give [])))))))))"

section \<open>Processes and semaphores\<close>

definition GetCurrentThreadId :: "int op" where
  "GetCurrentThreadId = bind_op this_thread (\<lambda>t. in_os (\<lambda>u. pids u t))"

definition HandleExec :: "task list op" where
  "HandleExec =
     bind_op (read_register 4) (\<lambda>addr.
     bind_op (fetch_string addr 255) (\<lambda>fileName.
     bind_op (in_os (\<lambda>u. pt_semaphore (pTable u))) (\<lambda>i.
     give [Sem_P i None, goto L_ExecuteUpdate [int fileName], goto L_NamedResult [int fileName]])))"

text \<open>\<open>result\<close> and \<open>delete\<close> of the handlers whose argument is a name.\<close>

definition named_result :: "nat \<Rightarrow> task list op" where
  "named_result name = bind_op the_result (\<lambda>r. bind_op (delete_string name) (\<lambda>_. result_and_IncPC r))"

definition do_ExecuteUpdate :: "nat \<Rightarrow> task list op" where
  "do_ExecuteUpdate fileName =
     bind_op GetCurrentThreadId (\<lambda>cur.
     bind_op (in_os (\<lambda>u. (strings u, pTable u))) (\<lambda>(hp, pt).
     bind_op (upd_kern (\<lambda>k. bind_result (ExecuteUpdate hp cur fileName pt k) (\<lambda>(ts, pt, k). Inr ((ts, pt), k)))) (\<lambda>(ts, pt).
     bind_op (upd_os (\<lambda>u. u\<lparr>pTable := pt\<rparr>)) (\<lambda>_. give ts))))"

definition do_Exec_body :: "int \<Rightarrow> nat \<Rightarrow> task list op" where
  "do_Exec_body slotno fileName =
     bind_op (ask (\<lambda>s. (strings (the_os s), next_string (the_os s), next_thread (kern s), pTable (the_os s)))) (\<lambda>(hp, p, t, pt).
     bind_op (attempt (PCB_Exec_body hp slotno fileName p t pt)) (\<lambda>(ts, hp, pt).
     bind_op (upd_os (\<lambda>u. u\<lparr>strings := hp, next_string := p + 1, pTable := pt\<rparr>)) (\<lambda>_. give ts)))"

text \<open>A part of an operation of the process table that only looks at it.\<close>

definition process_op :: "(ptable \<Rightarrow> task list result) \<Rightarrow> task list op" where
  "process_op f = bind_op (in_os pTable) (\<lambda>pt. attempt (f pt))"

definition HandleJoin :: "task list op" where
  "HandleJoin =
     bind_op (read_int 4) (\<lambda>pid.
     bind_op GetCurrentThreadId (\<lambda>cur.
     bind_op (process_op (JoinUpdate cur pid)) (\<lambda>ts. give (ts @ [goto L_Result []]))))"

definition do_IncNumWait :: "int \<Rightarrow> task list op" where
  "do_IncNumWait pid = bind_op (upd_os (\<lambda>u. u\<lparr>pTable := IncNumWait pid (pTable u)\<rparr>)) (\<lambda>_. give [])"

text \<open>\<open>FreeSpace\<close> of the thread that exits, which gives its frames back.\<close>

definition FreeSpace :: "unit op" where
  "FreeSpace =
     bind_op (ask (\<lambda>s. threads (kern s) (currentThread (kern s)))) (\<lambda>r.
     bind_op (attempt (get r)) (\<lambda>th. case space th of
       None \<Rightarrow> give ()
     | Some sp \<Rightarrow>
         bind_op (in_os physPageBitMap) (\<lambda>b.
         bind_op (attempt (AddrSpace_delete sp b)) (\<lambda>b. upd_os (\<lambda>u. u\<lparr>physPageBitMap := b\<rparr>)))))"

definition HandleExit :: "task list op" where
  "HandleExit =
     bind_op (read_int 4) (\<lambda>exitCode.
     bind_op GetCurrentThreadId (\<lambda>cur.
     bind_op (if cur = 0 then FreeSpace else give ()) (\<lambda>_.
     bind_op (in_os pTable) (\<lambda>pt.
     bind_op (attempt (ExitUpdate cur exitCode pt)) (\<lambda>(ts, pt).
     bind_op (upd_os (\<lambda>u. u\<lparr>pTable := pt\<rparr>)) (\<lambda>_. give (ts @ [goto L_Exited []])))))))"

definition do_Remove :: "int \<Rightarrow> task list op" where
  "do_Remove pid =
     bind_op (in_os (\<lambda>u. (strings u, pTable u))) (\<lambda>(hp, pt).
     bind_op (attempt (PTable_Remove pid hp pt)) (\<lambda>(ts, hp, pt).
     bind_op (upd_os (\<lambda>u. u\<lparr>strings := hp, pTable := pt\<rparr>)) (\<lambda>_. give ts)))"

definition HandleCreateSemaphore :: "task list op" where
  "HandleCreateSemaphore =
     bind_op (read_register 4) (\<lambda>virtAddr.
     bind_op (read_int 5) (\<lambda>semVal.
     bind_op (fetch_string virtAddr MaxFileNameLength) (\<lambda>name.
     bind_op (in_os (\<lambda>u. (strings u, sTable u))) (\<lambda>(hp, st).
     bind_op (upd_kern (\<lambda>k. bind_result (STable_Create hp name semVal st k) (\<lambda>(r, st, k). Inr ((r, st), k)))) (\<lambda>(res, st).
     bind_op (upd_os (\<lambda>u. u\<lparr>sTable := st\<rparr>)) (\<lambda>_.
     bind_op (delete_string name) (\<lambda>_. result_and_IncPC res)))))))"

text \<open>\<open>HandleWait\<close> and \<open>HandleSignal\<close>.\<close>

definition HandleNamed :: "(string_heap \<Rightarrow> nat \<Rightarrow> sem_table \<Rightarrow> (int \<times> task list) result) \<Rightarrow> task list op" where
  "HandleNamed f =
     bind_op (read_register 4) (\<lambda>virtAddr.
     bind_op (fetch_string virtAddr (MaxFileNameLength + 1)) (\<lambda>name.
     bind_op (in_os (\<lambda>u. (strings u, sTable u))) (\<lambda>(hp, st).
     bind_op (attempt (f hp name st)) (\<lambda>(res, ts).
     give (ts @ [answer res, goto L_NamedResult [int name]])))))"

definition HandleWait :: "task list op" where "HandleWait = HandleNamed STable_Wait"
definition HandleSignal :: "task list op" where "HandleSignal = HandleNamed STable_Signal"

section \<open>Dispatch\<close>

text \<open>The case \<open>SC_Add\<close>, with the assertion after it.\<close>

definition AddCase :: "task list op" where
  "AddCase = bind_op HandleAdd (\<lambda>_. attempt (Inl AssertFailure))"

definition syscall :: "int \<Rightarrow> task list op" where
  "syscall type =
     (if type = SC_Halt then give [Shutdown]
      else if type = SC_Add then AddCase
      else if type = SC_Create then HandleCreate
      else if type = SC_Remove then HandleDelete
      else if type = SC_Open then HandleOpen
      else if type = SC_Read then HandleRead
      else if type = SC_Write then HandleWrite
      else if type = SC_Seek then HandleSeek
      else if type = SC_Close then HandleClose
      else if type = SC_Connect then HandleConnect
      else if type = SC_SocketTCP then HandleSocketTCP
      else if type = SC_Send then HandleSend
      else if type = SC_Receive then HandleReceive
      else if type = SC_Exec then HandleExec
      else if type = SC_Join then HandleJoin
      else if type = SC_Exit then HandleExit
      else if type = SC_CreateSemaphore then HandleCreateSemaphore
      else if type = SC_Wait then HandleWait
      else if type = SC_Signal then HandleSignal
      else give [])"

definition ExceptionHandler :: "ExceptionType \<Rightarrow> task list op" where
  "ExceptionHandler which =
     bind_op (read_int 2) (\<lambda>type. if which = SyscallException then syscall type else give [])"

section \<open>The code of the kernel\<close>

text \<open>The rest of a piece of code after a call, by its label and its local variables.\<close>

fun resume :: "nat \<Rightarrow> int list \<Rightarrow> task list op" where
  "resume l [] =
     (if l = L_GetChar then SynchConsoleInput_got
      else if l = L_Send then send_packet
      else if l = L_Received then letter_received
      else if l = L_Deliver then deliver_letter
      else if l = L_LoadPages then Load_body
      else if l = L_Run then Run_round
      else if l = L_Result then bind_op the_result result_and_IncPC
      else if l = L_Exited then bind_op IncPC (\<lambda>_. give [])
      else attempt (Inl Uninitialised))"
| "resume l [a] =
     (if l = L_Return then bind_op (return_value a) (\<lambda>_. give [])
      else if l = L_ExecuteUpdate then do_ExecuteUpdate (nat a)
      else if l = L_IncNumWait then do_IncNumWait a
      else if l = L_JoinWait then process_op (JoinWait a)
      else if l = L_ExitRelease then process_op (ExitRelease a)
      else if l = L_ExitCode then process_op (GetExitCode a)
      else if l = L_Remove then do_Remove a
      else if l = L_PutChar then SynchConsoleOutput_put a
      else if l = L_RemoveFront then remove_letter (nat a)
      else if l = L_Append then append_letter (nat a)
      else if l = L_Loaded then run_program a
      else if l = L_NamedResult then named_result (nat a)
      else attempt (Inl Uninitialised))"
| "resume l [a, b] =
     (if l = L_Exec then process_op (PCB_Exec a (nat b))
      else if l = L_Exec_body then do_Exec_body a (nat b)
      else attempt (Inl Uninitialised))"
| "resume l [a, b, c] =
     (if l = L_GetString then GetString_got (nat a) (nat b) c
      else if l = L_PutString then PutString_loop (nat a) (nat b) c
      else if l = L_CopyBack then copy_back a b (nat c)
      else attempt (Inl Uninitialised))"
| "resume l _ = attempt (Inl Uninitialised)"

definition MainProgram :: nat where "MainProgram = 0"
definition PostalWorker :: nat where "PostalWorker = 1"

text \<open>A new process starts by copying its name to a pointer that has not been set.\<close>

definition start_process :: "task list op" where
  "start_process = attempt (Inl Uninitialised)"

fun code_of :: "code \<Rightarrow> task list op" where
  "code_of (Proc p) =
     (if p = MainProgram then main_program
      else if p = PostalWorker then PostalDelivery
      else if p = StartProcess then start_process
      else attempt (Inl Uninitialised))"
| "code_of (Handler which) = ExceptionHandler which"
| "code_of (Continue l args) = resume l args"

definition nachos :: "os program" where
  "nachos c s = bind_result (code_of c s) (\<lambda>(ts, s). Inr (s, ts))"

end
