(* ===== verification/Kernel_Program.thy ===== *)
theory Kernel_Program imports Syscalls begin

text \<open>
  The code of theories Kernel\_Calls and Syscalls keeps to what theory Kernel\_Steps asks of the code
  around threads and synch, so the properties of theory Kernel\_Theorems hold of the whole kernel: it
  changes only its own data, the machine and the devices it drives, and calls P, V, locks, conditions,
  \<open>Fork\<close> and \<open>Finish\<close> for the rest. One system call does not: a semaphore that is created with a negative
  value breaks the invariant, so the runs considered are those in which no program asks for one.
\<close>

section \<open>Executing an instruction keeps the load register in range\<close>

definition lands :: "('a \<Rightarrow> bool) \<Rightarrow> 'a outcome \<Rightarrow> bool" where
  "lands P r = (case r of Fault e \<Rightarrow> True | Trap exc m \<Rightarrow> unat (registers m LoadReg) < NumGPRegs | Done x \<Rightarrow> P x)"

lemma lands_simps [simp]:
  "lands P (Fault e)" "lands P (Trap exc m) = (unat (registers m LoadReg) < NumGPRegs)" "lands P (Done x) = P x"
  by (simp_all add: lands_def)

lemma lands_bind: "lands P r \<Longrightarrow> (\<And>x. P x \<Longrightarrow> lands Q (f x)) \<Longrightarrow> lands Q (bind_outcome r f)"
  by (cases r) auto

lemma lands_lift: "lands P (lift_result r) \<longleftrightarrow> (\<forall>x. r = Inr x \<longrightarrow> P x)"
  by (cases r) simp_all

lemma lands_if: "(c \<Longrightarrow> lands P x) \<Longrightarrow> (\<not> c \<Longrightarrow> lands P y) \<Longrightarrow> lands P (if c then x else y)"
  by simp

lemma DelayedLoad_load_register:
  "unat nextReg < NumGPRegs \<Longrightarrow> DelayedLoad nextReg v m = Inr m' \<Longrightarrow> unat (registers m' LoadReg) < NumGPRegs"
  by (auto simp: DelayedLoad_def Let_def outcome_simps)

lemma lands_RaiseException: "lands P (RaiseException exc bad m)"
  unfolding RaiseException_def
  by (rule lands_bind[where P = "\<lambda>m. unat (registers m LoadReg) < NumGPRegs"])
    (auto simp: lands_lift dest: DelayedLoad_load_register[rotated])

lemma Translate_registers:
  "Translate a sz w m = Inr (Inr (pa, m')) \<Longrightarrow> registers m' = registers m"
proof -
  assume "Translate a sz w m = Inr (Inr (pa, m'))"
  then obtain loc e where "m' = store_entry loc e m" by (auto simp: Translate_found)
  then show ?thesis by (cases loc) simp_all
qed

lemma lands_ReadMem: "lands (\<lambda>(v, m'). registers m' = registers m) (ReadMem a sz m)"
proof (cases "Translate a sz False m")
  case (Inl e)
  then show ?thesis by (simp add: ReadMem_def)
next
  case t: (Inr r)
  show ?thesis
  proof (cases r)
    case (Inl exc)
    then show ?thesis using t by (simp add: ReadMem_def lands_RaiseException)
  next
    case (Inr x)
    then have "registers (snd x) = registers m" using t Translate_registers[of a sz False m "fst x" "snd x"] by simp
    then show ?thesis using t Inr
      by (cases x; cases "memory_load sz (fst x) (mainMemory (snd x))") (simp_all add: ReadMem_def)
  qed
qed

lemma lands_WriteMem: "lands (\<lambda>m'. registers m' = registers m) (WriteMem a sz v m)"
proof (cases "Translate a sz True m")
  case (Inl e)
  then show ?thesis by (simp add: WriteMem_def)
next
  case t: (Inr r)
  show ?thesis
  proof (cases r)
    case (Inl exc)
    then show ?thesis using t by (simp add: WriteMem_def lands_RaiseException)
  next
    case (Inr x)
    then have "registers (snd x) = registers m" using t Translate_registers[of a sz True m "fst x" "snd x"] by simp
    then show ?thesis using t Inr
      by (cases x; cases "memory_store sz (fst x) v (mainMemory (snd x))") (simp_all add: WriteMem_def)
  qed
qed

text \<open>Inside an instruction: the two load registers are in range.\<close>

definition loads_ok :: "step \<Rightarrow> bool" where
  "loads_ok s \<longleftrightarrow> unat (reg s LoadReg) < NumGPRegs \<and> unat (nextLoadReg s) < NumGPRegs"

lemma lands_trap: "lands P (trap exc bad s)"
  by (simp add: trap_def lands_RaiseException)

lemma lands_read_mem:
  assumes "loads_ok s" "\<And>v s'. loads_ok s' \<Longrightarrow> lands loads_ok (k v s')"
  shows "lands loads_ok (read_mem a sz s k)"
  unfolding read_mem_def
  by (rule lands_bind[OF lands_ReadMem]) (use assms in \<open>auto simp: loads_ok_def reg_def\<close>)

lemma lands_write_mem: "loads_ok s \<Longrightarrow> lands loads_ok (write_mem a sz v s)"
  unfolding write_mem_def
  by (rule lands_bind[OF lands_WriteMem]) (auto simp: loads_ok_def reg_def)

lemma loads_ok_simps:
  "loads_ok s \<Longrightarrow> n \<noteq> LoadReg \<Longrightarrow> loads_ok (put n v s)"
  "loads_ok s \<Longrightarrow> rt < NumGPRegs \<Longrightarrow> loads_ok (load rt v s)"
  "loads_ok s \<Longrightarrow> loads_ok (s\<lparr>pcAfter := pc\<rparr>)" "loads_ok s \<Longrightarrow> loads_ok (branch_if c i s)"
  by (simp_all add: loads_ok_def put_def load_def reg_def branch_if_def unat_of_nat)

lemmas land_rules = loads_ok_simps lands_read_mem lands_write_mem lands_trap

lemma lands_switch:
  assumes "loads_ok s" "instruction_ok i"
  shows "lands loads_ok (exec_add_branch i s)"
proof -
  have i: "i_rs i < NumGPRegs" "i_rt i < NumGPRegs" "i_rd i < NumGPRegs"
    using assms(2) by (simp_all add: instruction_ok_def)
  have 1: "lands loads_ok (exec_syscall_xor i s)"
    using assms(1) i unfolding exec_syscall_xor_def by (cases "opCode i") (simp_all add: land_rules)
  have 2: "lands loads_ok (exec_store_unaligned i s)"
    using assms(1) i 1 unfolding exec_store_unaligned_def Let_def by (cases "opCode i") (simp_all add: land_rules)
  have 3: "lands loads_ok (exec_store_shift_sub i s)"
    using assms(1) i 2 unfolding exec_store_shift_sub_def Let_def by (cases "opCode i") (simp_all add: land_rules)
  have 4: "lands loads_ok (exec_move_mult_or i s)"
    using assms(1) i 3 unfolding exec_move_mult_or_def Let_def
    by (cases "opCode i") (simp_all add: land_rules split: prod.split)
  have 5: "lands loads_ok (exec_load_unaligned i s)"
    using assms(1) i 4 unfolding exec_load_unaligned_def Let_def by (cases "opCode i") (simp_all add: land_rules)
  have 6: "lands loads_ok (exec_load i s)"
    using assms(1) i 5 unfolding exec_load_def exec_load_byte_def exec_load_half_def Let_def
    by (cases "opCode i") (simp_all add: land_rules)
  have 7: "lands loads_ok (exec_divide_jump i s)"
    using assms(1) i 6 unfolding exec_divide_jump_def Let_def c_divide_def check_def
    by (cases "opCode i") (simp_all add: land_rules split: if_split)
  show ?thesis
    using assms(1) i 7 unfolding exec_add_branch_def Let_def by (cases "opCode i") (simp_all add: land_rules)
qed


lemma OneInstruction_load_register:
  assumes "unat (registers m LoadReg) < NumGPRegs"
  shows "lands (\<lambda>m'. unat (registers m' LoadReg) < NumGPRegs) (OneInstruction dbg m)"
proof -
  have finish: "lands (\<lambda>m'. unat (registers m' LoadReg) < NumGPRegs) (finish_instruction s)" if "loads_ok s" for s
    using that DelayedLoad_load_register[of "nextLoadReg s" "nextLoadValue s" "mach s"]
    by (cases "DelayedLoad (nextLoadReg s) (nextLoadValue s) (mach s)")
      (simp_all add: finish_instruction_def loads_ok_def Let_def)
  have body: "lands (\<lambda>m'. unat (registers m' LoadReg) < NumGPRegs) (bind_outcome (exec_add_branch i
      \<lparr>mach = m', pcAfter = pc, nextLoadReg = 0, nextLoadValue = 0\<rparr>) finish_instruction)"
    if "registers m' = registers m" "instruction_ok i" for m' i pc
    by (rule lands_bind[OF lands_switch finish]) (use that assms in \<open>simp_all add: loads_ok_def reg_def\<close>)
  have dbg: "(if dbg then bind_result (debug_line i) (\<lambda>_. Inr ()) else Inr ()) = Inr ()" if "instruction_ok i" for i
    using debug_line_total[OF that] by auto
  show ?thesis
    unfolding OneInstruction_def by (rule lands_bind[OF lands_ReadMem]) (auto simp: Let_def dbg intro!: body)
qed

section \<open>Operations that keep to the frame\<close>

definition frame_start :: "'u kernel \<Rightarrow> bool" where
  "frame_start k \<longleftrightarrow> threads k (currentThread k) \<noteq> None \<and> (\<forall>c. semaphores k (client_semaphore k c) \<noteq> None)"

lemma frame_start_inv: "kernel_inv k \<Longrightarrow> frame_start k"
  unfolding frame_start_def by (metis kernel_inv_current kernel_inv_def option.distinct(1))

lemma frame_start_frame: "kernel_frame k k' \<Longrightarrow> frame_start k'"
  unfolding kernel_frame_def frame_start_def by (elim conjE exE) simp

lemma kernel_frame_same:
  assumes "frame_start k" "threads k' = threads k" "readyList k' = readyList k" "currentThread k' = currentThread k"
    "toBeDestroyed k' = toBeDestroyed k" "next_thread k' = next_thread k" "client_semaphore k' = client_semaphore k"
    "semaphores k' = semaphores k" "next_semaphore k' = next_semaphore k" "locks k' = locks k" "conditions k' = conditions k"
  shows "kernel_frame k k'"
proof -
  obtain th where th: "threads k (currentThread k) = Some th" using assms(1) by (auto simp: frame_start_def)
  then have "threads k = (threads k)(currentThread k \<mapsto> th\<lparr>space := space th\<rparr>)" by (simp add: fun_upd_idem)
  then have "\<exists>sp. threads k' = (threads k)(currentThread k \<mapsto> th\<lparr>space := sp\<rparr>)" using assms(2) by metis
  then show ?thesis using th assms by (simp add: kernel_frame_def frame_start_def)
qed

lemma kernel_frame_trans:
  assumes "kernel_frame k k'" "kernel_frame k' k''"
  shows "kernel_frame k k''"
proof -
  obtain th sp where t: "threads k (currentThread k) = Some th" "threads k' = (threads k)(currentThread k \<mapsto> th\<lparr>space := sp\<rparr>)"
    using assms(1) unfolding kernel_frame_def by blast
  obtain th' sp' where t': "threads k' (currentThread k') = Some th'"
    "threads k'' = (threads k')(currentThread k' \<mapsto> th'\<lparr>space := sp'\<rparr>)"
    using assms(2) unfolding kernel_frame_def by blast
  have c: "currentThread k' = currentThread k" "client_semaphore k' = client_semaphore k"
    "next_semaphore k \<le> next_semaphore k'" "next_semaphore k' \<le> next_semaphore k''"
    using assms unfolding kernel_frame_def by blast+
  have "th'\<lparr>space := sp'\<rparr> = th\<lparr>space := sp'\<rparr>" using t t' c(1) by auto
  then have "threads k'' = (threads k)(currentThread k \<mapsto> th\<lparr>space := sp'\<rparr>)" using t t' c(1) by simp
  moreover have "semaphores k i = Some sem \<or> next_semaphore k \<le> i \<and> i < next_semaphore k'' \<and> 0 \<le> value sem \<and> waiters sem = []"
    if "semaphores k'' i = Some sem" for i sem
    using that assms c(3,4) unfolding kernel_frame_def by (meson order.trans order.strict_trans2)
  moreover have "locks k l = Some lk \<or> lockHolder lk = None \<and> next_semaphore k \<le> lock_semaphore lk"
    if "locks k'' l = Some lk" for l lk
    using that assms c(3) unfolding kernel_frame_def by (meson order.trans)
  moreover have "conditions k d = Some ws \<or> ws = []" if "conditions k'' d = Some ws" for d ws
    using that assms unfolding kernel_frame_def by blast
  moreover have "readyList k'' = readyList k" "toBeDestroyed k'' = toBeDestroyed k" "next_thread k'' = next_thread k"
    "client_semaphore k'' = client_semaphore k" "currentThread k'' = currentThread k"
    "\<forall>d. semaphores k'' (client_semaphore k d) \<noteq> None"
    using assms c(2) unfolding kernel_frame_def by metis+
  ultimately show ?thesis using t(1) c(3,4) unfolding kernel_frame_def by (intro conjI) (blast | linarith)+
qed

definition tame :: "'a op \<Rightarrow> bool" where
  "tame f \<longleftrightarrow> (\<forall>s x s'. base_ok s \<longrightarrow> frame_start (kern s) \<longrightarrow> f s = Inr (x, s') \<longrightarrow> code_frame s s')"

text \<open>The same of a piece of code, whose result are tasks.\<close>

definition runs :: "task list op \<Rightarrow> bool" where
  "runs f \<longleftrightarrow> tame f \<and> (\<forall>s x s'. f s = Inr (x, s') \<longrightarrow> list_all client_task x)"

lemma runs_tame: "runs f \<Longrightarrow> tame f"
  by (simp add: runs_def)

lemma code_frame_trans: "code_frame s s' \<Longrightarrow> code_frame s' s'' \<Longrightarrow> code_frame s s''"
  unfolding code_frame_def using kernel_frame_trans by metis

lemma code_frame_same:
  "base_ok s' \<Longrightarrow> level s' = level s \<Longrightarrow> frame_start (kern s) \<Longrightarrow> kern s' = kern s \<Longrightarrow> code_frame s s'"
  unfolding code_frame_def by (auto intro: kernel_frame_same)

lemma code_frame_start: "code_frame s s' \<Longrightarrow> base_ok s' \<and> frame_start (kern s')"
  unfolding code_frame_def using frame_start_frame by blast

lemma tame_bind:
  assumes "tame f" "\<And>x. tame (g x)"
  shows "tame (bind_op f g)"
  unfolding tame_def
proof (intro allI impI)
  fix s y s'' assume s: "base_ok s" "frame_start (kern s)" and "bind_op f g s = Inr (y, s'')"
  then obtain x s' where r: "f s = Inr (x, s')" "g x s' = Inr (y, s'')" by (auto simp: bind_op_def outcome_simps)
  have f: "code_frame s s'" using assms(1) s r(1) unfolding tame_def by blast
  moreover have "code_frame s' s''" using assms(2)[of x] code_frame_start[OF f] r(2) unfolding tame_def by blast
  ultimately show "code_frame s s''" by (rule code_frame_trans)
qed

lemma tame_give [intro]: "tame (give x)"
  by (auto simp: tame_def give_def intro: code_frame_same)

lemma tame_ask [intro]: "tame (ask f)"
  by (auto simp: tame_def ask_def intro: code_frame_same)

lemma tame_attempt [intro]: "tame (attempt r)"
  by (auto simp: tame_def attempt_def outcome_simps intro: code_frame_same)

lemma tame_upd_os [intro]: "tame (upd_os f)"
  by (auto simp: tame_def upd_os_def code_frame_def intro!: kernel_frame_same)

lemma tame_set_status [intro]: "tame (set_status st)"
  by (auto simp: tame_def set_status_def intro!: code_frame_same)

lemma tame_set_space [intro]: "tame (set_space sp)"
proof -
  have "kernel_frame k (upd_thread (currentThread k) (\<lambda>th. th\<lparr>space := Some sp\<rparr>) k)" if "frame_start k" for k :: "os kernel"
    using that by (auto simp: kernel_frame_def frame_start_def upd_thread_def)
  then show ?thesis by (auto simp: tame_def set_space_def code_frame_def)
qed

definition load_ok :: "machine \<Rightarrow> bool" where
  "load_ok m \<longleftrightarrow> unat (registers m LoadReg) < NumGPRegs"

lemma base_ok_machine: "base_ok s \<Longrightarrow> cpu s = Some m \<Longrightarrow> load_ok m"
  "base_ok s \<Longrightarrow> load_ok m \<Longrightarrow> base_ok (s\<lparr>cpu := Some m\<rparr>)"
  by (auto simp: base_ok_def cpu_ok_def clock_ok_def load_ok_def)

lemma get_Inr [outcome_simps]: "get x = Inr y \<longleftrightarrow> x = Some y"
  by (cases x) (simp_all add: get_def)

lemma tame_machine_op:
  "(\<And>m x m'. load_ok m \<Longrightarrow> f m = Inr (x, m') \<Longrightarrow> load_ok m') \<Longrightarrow> tame (machine_op f)"
  unfolding tame_def machine_op_def outcome_simps
  by (auto simp: outcome_simps split: prod.splits intro!: code_frame_same base_ok_machine(2)) (metis base_ok_machine(1))

lemma tame_read_register [intro]: "tame (read_register i)"
  unfolding read_register_def by (rule tame_machine_op) (auto simp: outcome_simps)

lemma tame_write_register [intro]: "i \<noteq> LoadReg \<Longrightarrow> tame (write_register i v)"
  unfolding write_register_def
  by (rule tame_machine_op) (auto simp: outcome_simps WriteRegister_def check_def load_ok_def split: if_splits)

lemma tame_mem_op:
  assumes "\<And>m. load_ok m \<Longrightarrow> lands (\<lambda>(v, m'). load_ok m') (f m)"
  shows "tame (mem_op f)"
proof -
  have "code_frame s s'" if s: "base_ok s" "frame_start (kern s)" and r: "mem_op f s = Inr (x, s')" for s x s'
  proof -
    obtain m where m: "cpu s = Some m" using r by (auto simp: mem_op_def outcome_simps)
    have l: "lands (\<lambda>(v, m'). load_ok m') (f m)" using assms base_ok_machine(1)[OF s(1) m] .
    show ?thesis
    proof (cases "f m")
      case (Fault e)
      then show ?thesis using r m by (simp add: mem_op_def get_def)
    next
      case (Trap exc m')
      then have "s' = s\<lparr>cpu := Some m', status := UserMode\<rparr>" "load_ok m'"
        using r m l by (simp_all add: mem_op_def get_def load_ok_def)
      then show ?thesis using s base_ok_machine(2)[OF s(1), of m'] by (auto intro!: code_frame_same)
    next
      case (Done y)
      then have "s' = s\<lparr>cpu := Some (snd y)\<rparr>" "load_ok (snd y)"
        using r m l by (cases y; simp add: mem_op_def get_def)+
      then show ?thesis using s base_ok_machine(2)[OF s(1), of "snd y"] by (auto intro!: code_frame_same)
    qed
  qed
  then show ?thesis unfolding tame_def by blast
qed

lemma tame_read_byte [intro]: "tame (read_byte a)"
proof -
  have "lands (\<lambda>(v, m'). load_ok m') (ReadMem a 1 m)" if "load_ok m" for m
    using lands_ReadMem[of m a 1] that by (cases "ReadMem a 1 m") (auto simp: load_ok_def)
  then show ?thesis unfolding read_byte_def by (rule tame_mem_op)
qed

lemma tame_write_byte [intro]: "tame (write_byte a v)"
proof -
  have "lands (\<lambda>(v, m'). load_ok m') (bind_outcome (WriteMem a 1 v m) (\<lambda>m. Done ((), m)))" if "load_ok m" for m
    using lands_WriteMem[of m a 1 v] that by (cases "WriteMem a 1 v m") (auto simp: load_ok_def)
  then show ?thesis unfolding write_byte_def by (rule tame_mem_op)
qed

section \<open>Composing pieces of code\<close>

lemma tame_if: "(c \<Longrightarrow> tame f) \<Longrightarrow> (\<not> c \<Longrightarrow> tame g) \<Longrightarrow> tame (if c then f else g)"
  by simp

lemma tame_prod: "(\<And>a b. tame (g a b)) \<Longrightarrow> tame (case x of (a, b) \<Rightarrow> g a b)"
  by (cases x) simp

lemma tame_option: "tame f \<Longrightarrow> (\<And>a. tame (g a)) \<Longrightarrow> tame (case r of None \<Rightarrow> f | Some a \<Rightarrow> g a)"
  by (cases r) simp_all

lemmas tame_rules = tame_bind tame_give tame_ask tame_attempt tame_upd_os tame_if tame_prod tame_option
  tame_read_register tame_write_register tame_read_byte tame_write_byte tame_set_space tame_set_status

lemma tame_copy_in [intro]: "tame (copy_in n a c)"
  by (induction n arbitrary: a c) (auto intro!: tame_rules)

lemma tame_copy_out [intro]: "tame (copy_out n a bs)"
  by (induction n a bs rule: copy_out.induct) (auto intro!: tame_rules)

lemma tame_copy_string [intro]: "tame (copy_string n a i bs)"
  by (induction n a i bs rule: copy_string.induct) (auto simp: Let_def intro!: tame_rules)

lemma tame_basic [intro]:
  "tame IncPC" "tame (User2System a l)" "tame (System2User a l bs)" "tame (copyStringFromMachine a bs n)"
  "tame (new_string bs)" "tame (delete_string p)" "tame (string_of p)" "tame (return_value r)" "tame the_result"
  "tame the_letter" "tame (set_letter m)" "tame (read_int i)" "tame (fetch_string a l)"
  "tame GetCurrentThreadId" "tame FreeSpace"
  unfolding IncPC_def User2System_def System2User_def copyStringFromMachine_def new_string_def delete_string_def
    string_of_def return_value_def the_result_def the_letter_def set_letter_def read_int_def fetch_string_def
    GetCurrentThreadId_def FreeSpace_def
  by (auto intro!: tame_rules split: option.split)

lemma tame_file_op [intro]: "tame (file_op f)"
  unfolding file_op_def by (auto intro!: tame_rules)

lemma tame_calls [intro]:
  "tame (on_file k f)" "tame (SysOpen p t)" "tame (SysClose i)" "tame (SysSeek n i)" "tame (SysCreate p)"
  "tame (close_by_name p t)" "tame (SysRemove p)" "tame SysSocketTCP" "tame (SysConnect i ip port)"
  "tame (SysGetIdSocket i)" "tame (SocketSend bs n i)" "tame (SocketReceive bs n i)"
  unfolding on_file_def SysOpen_def SysClose_def SysSeek_def SysCreate_def close_by_name_def SysRemove_def
    SysSocketTCP_def SysConnect_def SysGetIdSocket_def SocketSend_def SocketReceive_def
  by (auto intro!: tame_rules split: option.split prod.split)

text \<open>The devices that code drives.\<close>

lemma code_frame_Schedule:
  assumes "base_ok s" "frame_start (kern s)" "Schedule d n k s1 = Inr s'" "hw_ok (world s1) (pending s')"
    "kern s1 = kern s" "stats s1 = stats s" "pending s1 = pending s" "cpu s1 = cpu s" "inHandler s1 = inHandler s"
    "level s1 = level s"
  shows "code_frame s s'"
proof -
  have "0 < n" "s' = s1\<lparr>pending := insert_by PendingCompare \<lparr>callOnInterrupt = d, when = totalTicks (stats s1) + n, int_type = k\<rparr> (pending s1)\<rparr>"
    using assms(3) by (auto simp: Schedule_def check_def Let_def split: if_splits)
  moreover have "clock_ok s'"
    using assms(1,6,7) calculation by (auto simp: base_ok_def clock_ok_def intro!: sorted_when_insert)
  ultimately show ?thesis using assms
    by (intro code_frame_same) (auto simp: base_ok_def)
qed

lemma Schedule_shape:
  "Schedule d n k s = Inr s' \<Longrightarrow>
     s' = s\<lparr>pending := insert_by PendingCompare \<lparr>callOnInterrupt = d, when = totalTicks (stats s) + n, int_type = k\<rparr> (pending s)\<rparr>"
  by (auto simp: Schedule_def check_def Let_def split: if_splits)

lemma tame_GetChar [intro]: "tame ConsoleInput_GetChar"
proof -
  have "code_frame s s'" if s: "base_ok s" "frame_start (kern s)" and r: "ConsoleInput_GetChar s = Inr (x, s')" for s :: "os system" and x s'
  proof (cases "incoming (console (world s)) = EOF_char")
    case True
    then have "s' = with_console (\<lambda>c. c\<lparr>incoming := EOF_char\<rparr>) s" using r by (simp add: ConsoleInput_GetChar_def)
    then show ?thesis using s by (intro code_frame_same) (auto simp: base_ok_def clock_ok_def hw_ok_def with_defs)
  next
    case False
    then obtain s1 where s1: "Schedule ConsoleInDev ConsoleTime ConsoleReadInt s = Inr s1"
      "s' = with_console (\<lambda>c. c\<lparr>incoming := EOF_char\<rparr>) s1"
      using r by (auto simp: ConsoleInput_GetChar_def outcome_simps)
    have w: "waiting ConsoleInDev (pending s) = 0" using False s(1) by (auto simp: base_ok_def hw_ok_def)
    have r2: "Schedule ConsoleInDev ConsoleTime ConsoleReadInt (with_console (\<lambda>c. c\<lparr>incoming := EOF_char\<rparr>) s) = Inr s'"
      using s1 by (auto simp: Schedule_def with_defs Let_def outcome_simps ConsoleTime_def)
    show ?thesis using s w s1(2) Schedule_shape[OF s1(1)]
      by (intro code_frame_Schedule[OF s r2]) (auto simp: with_defs base_ok_def hw_ok_def)
  qed
  then show ?thesis unfolding tame_def by blast
qed

lemma tame_device_op:
  assumes "\<And>s s'. base_ok s \<Longrightarrow> frame_start (kern s) \<Longrightarrow> f s = Inr s' \<Longrightarrow> code_frame s s'"
  shows "tame (device_op f)"
  using assms by (auto simp: tame_def device_op_def outcome_simps)

lemma tame_PutChar [intro]: "tame (device_op (ConsoleOutput_PutChar ch))"
proof (rule tame_device_op)
  fix s s' :: "os system" assume s: "base_ok s" "frame_start (kern s)" and r: "ConsoleOutput_PutChar ch s = Inr s'"
  have b: "\<not> putBusy (console (world s))"
    and r: "Schedule ConsoleOutDev ConsoleTime ConsoleWriteInt
      (with_console (\<lambda>c. c\<lparr>display := display c @ [ch], putBusy := True\<rparr>) s) = Inr s'"
    using r by (auto simp: ConsoleOutput_PutChar_def check_def split: if_splits)
  show "code_frame s s'" using s b Schedule_shape[OF r]
    by (intro code_frame_Schedule[OF s r]) (auto simp: with_defs base_ok_def hw_ok_def)
qed

lemma tame_Receive [intro]: "tame (\<lambda>s. Inr (NetworkInput_Receive s))"
  unfolding tame_def NetworkInput_Receive_def
  by (auto simp: Let_def intro!: code_frame_same) (auto simp: base_ok_def clock_ok_def hw_ok_def with_defs)

lemma tame_Send [intro]: "tame (device_op (NetworkOutput_Send hdr data))"
proof (rule tame_device_op)
  fix s s' :: "os system" assume s: "base_ok s" "frame_start (kern s)" and r: "NetworkOutput_Send hdr data s = Inr s'"
  have b: "\<not> sendBusy (network (world s))" using r by (simp add: NetworkOutput_Send_def check_def split: if_splits)
  obtain s1 where s1: "Schedule NetOutDev NetworkTime NetworkSendInt s = Inr s1"
    using r by (auto simp: NetworkOutput_Send_def check_def outcome_simps split: if_splits)
  then have s': "s' = snd (RandomNumber s1) \<or> (\<exists>w. s' = with_network (\<lambda>n. n\<lparr>wire_out := wire_out n @ w\<rparr>) (snd (RandomNumber s1)))"
    using r by (auto simp: NetworkOutput_Send_def check_def Let_def RandomNumber_def split: if_splits)
  have f: "code_frame s s1" using s b Schedule_shape[OF s1]
    by (intro code_frame_Schedule[OF s s1]) (auto simp: base_ok_def hw_ok_def)
  have s2: "base_ok (snd (RandomNumber s1))" "level (snd (RandomNumber s1)) = level s1" "kern (snd (RandomNumber s1)) = kern s1"
    using code_frame_start[OF f] by (auto simp: base_ok_def hw_ok_def clock_ok_def RandomNumber_def)
  have "base_ok (with_network (\<lambda>n. n\<lparr>wire_out := wire_out n @ w\<rparr>) t)" if "base_ok t" for w and t :: "os system"
    using that unfolding base_ok_def clock_ok_def hw_ok_def by (simp add: with_network_def)
  then have "code_frame s1 s'" using s' s2 code_frame_start[OF f]
    by (intro code_frame_same) (auto simp: with_network_def)
  then show "code_frame s s'" by (rule code_frame_trans[OF f])
qed

text \<open>Operations of the tables create semaphores.\<close>

lemma kernel_frame_Semaphore:
  "frame_start k \<Longrightarrow> 0 \<le> v \<Longrightarrow> kernel_frame k (snd (Semaphore_new v k))"
proof -
  assume a: "frame_start k" "0 \<le> v"
  obtain th where th: "threads k (currentThread k) = Some th" using a(1) by (auto simp: frame_start_def)
  then have "threads k = (threads k)(currentThread k \<mapsto> th\<lparr>space := space th\<rparr>)" by (simp add: fun_upd_idem)
  then have "\<exists>sp. threads k = (threads k)(currentThread k \<mapsto> th\<lparr>space := sp\<rparr>)" by blast
  then show ?thesis using th a by (auto simp: kernel_frame_def frame_start_def Semaphore_new_def Let_def)
qed

lemma kernel_frame_PCB: "frame_start k \<Longrightarrow> kernel_frame k (snd (PCB_new k))"
proof -
  assume k: "frame_start k"
  define k1 k2 k3 where "k1 = snd (Semaphore_new 0 k)" and "k2 = snd (Semaphore_new 0 k1)" and "k3 = snd (Semaphore_new 1 k2)"
  have 1: "kernel_frame k k1" unfolding k1_def using k by (intro kernel_frame_Semaphore) simp_all
  have 2: "kernel_frame k1 k2" unfolding k2_def using frame_start_frame[OF 1] by (intro kernel_frame_Semaphore) simp_all
  have 3: "kernel_frame k2 k3" unfolding k3_def using frame_start_frame[OF 2] by (intro kernel_frame_Semaphore) simp_all
  have "snd (PCB_new k) = k3"
    by (simp add: PCB_new_def pcb_semaphores_def k1_def k2_def k3_def split: prod.split)
  then show ?thesis using kernel_frame_trans[OF kernel_frame_trans[OF 1 2] 3] by simp
qed

lemma kernel_frame_same_kernel: "frame_start k \<Longrightarrow> kernel_frame k k"
  by (rule kernel_frame_same) simp_all

lemma tame_upd_kern:
  assumes "\<And>k x k'. frame_start k \<Longrightarrow> f k = Inr (x, k') \<Longrightarrow> kernel_frame k k'"
  shows "tame (upd_kern f)"
  using assms by (auto simp: tame_def upd_kern_def outcome_simps code_frame_def split: prod.splits)

lemma ExecuteUpdate_frame:
  assumes "ExecuteUpdate hp cur p pt k = Inr (ts, pt', k')" "frame_start k"
  shows "kernel_frame k k' \<and> list_all client_task ts"
proof -
  have "k' = k \<or> k' = snd (PCB_new k)" "list_all client_task ts"
    using assms(1) by (cases "PCB_new k"; auto simp: ExecuteUpdate_def outcome_simps split: if_splits)+
  then show ?thesis using assms(2) kernel_frame_PCB kernel_frame_same_kernel by blast
qed

lemma STable_Create_frame:
  assumes "STable_Create hp p v st k = Inr (r, st', k')" "frame_start k" "0 \<le> v"
  shows "kernel_frame k k'"
proof -
  have "k' = k \<or> k' = snd (Semaphore_new v k)"
    using assms(1) by (cases "Semaphore_new v k") (auto simp: STable_Create_def outcome_simps split: if_splits option.splits)
  then show ?thesis using assms(2,3) kernel_frame_Semaphore kernel_frame_same_kernel by blast
qed

section \<open>The pieces of code\<close>

lemma runs_give: "list_all client_task ts \<Longrightarrow> runs (give ts)"
  by (auto simp: runs_def give_def intro: tame_give[unfolded give_def])

lemma runs_bind: "tame f \<Longrightarrow> (\<And>x. runs (g x)) \<Longrightarrow> runs (bind_op f g)"
  unfolding runs_def by (auto intro!: tame_bind simp: bind_op_def outcome_simps)

lemma runs_bind_tasks:
  assumes "runs f" "\<And>ts. list_all client_task ts \<Longrightarrow> runs (g ts)"
  shows "runs (bind_op f g)"
proof -
  have "code_frame s s'' \<and> list_all client_task x"
    if s: "base_ok s" "frame_start (kern s)" and r: "f s = Inr (ts, s')" "g ts s' = Inr (x, s'')" for s ts s' x s''
  proof -
    have f: "code_frame s s'" "list_all client_task ts" using assms(1) s r(1) unfolding runs_def tame_def by blast+
    then have "base_ok s'" "frame_start (kern s')" using frame_start_frame by (auto simp: code_frame_def)
    then have "code_frame s' s''" "list_all client_task x"
      using assms(2)[OF f(2)] r(2) unfolding runs_def tame_def by blast+
    then show ?thesis using code_frame_trans[OF f(1)] by blast
  qed
  moreover have "list_all client_task x" if r: "f s = Inr (ts, s')" "g ts s' = Inr (x, s'')" for s ts s' x s''
    using assms r unfolding runs_def by blast
  ultimately show ?thesis unfolding runs_def tame_def by (auto simp: bind_op_def outcome_simps)
qed

lemma runs_bind_await: "(\<And>i. runs (g (Sem_P i None))) \<Longrightarrow> runs (bind_op (await c) g)"
  unfolding await_def runs_def tame_def by (auto simp: bind_op_def ask_def)

lemma runs_attempt: "(\<And>ts. r = Inr ts \<Longrightarrow> list_all client_task ts) \<Longrightarrow> runs (attempt r)"
  by (auto simp: runs_def attempt_def outcome_simps intro: tame_attempt[unfolded attempt_def])

lemma runs_bind_attempt: "(\<And>x. r = Inr x \<Longrightarrow> runs (g x)) \<Longrightarrow> runs (bind_op (attempt r) g)"
  unfolding runs_def tame_def bind_op_def attempt_def by (cases r) simp_all

lemma runs_if: "(c \<Longrightarrow> runs f) \<Longrightarrow> (\<not> c \<Longrightarrow> runs g) \<Longrightarrow> runs (if c then f else g)"
  by simp

lemma runs_prod: "(\<And>a b. x = (a, b) \<Longrightarrow> runs (g a b)) \<Longrightarrow> runs (case x of (a, b) \<Rightarrow> g a b)"
  by (cases x) simp

lemma runs_option: "runs f \<Longrightarrow> (\<And>a. runs (g a)) \<Longrightarrow> runs (case r of None \<Rightarrow> f | Some a \<Rightarrow> g a)"
  by (cases r) simp_all

lemma runs_list: "runs f \<Longrightarrow> (\<And>a as. runs (g a as)) \<Longrightarrow> runs (case r of [] \<Rightarrow> f | a # as \<Rightarrow> g a as)"
  by (cases r) simp_all

lemmas runs_rules = runs_bind_await runs_bind_attempt runs_bind_tasks runs_bind runs_give runs_attempt runs_if runs_prod
  runs_option runs_list

lemma runs_console:
  "runs SynchConsoleInput_GetChar" "runs SynchConsoleInput_got" "runs (SynchConsoleOutput_PutChar ch)"
  "runs (SynchConsoleOutput_put c)"
  unfolding SynchConsoleInput_GetChar_def SynchConsoleInput_got_def SynchConsoleOutput_PutChar_def SynchConsoleOutput_put_def
  by (intro runs_rules tame_GetChar tame_PutChar; simp)+

lemma runs_GetString_loop: "runs (GetString_loop p i n)"
  unfolding GetString_loop_def by (intro runs_if runs_bind_tasks[OF runs_console(1)] runs_give) simp_all

lemma runs_strings: "runs (GetString_got p i n)" "runs (SynchConsoleInput_GetString p n)" "runs (PutString_loop p i n)"
  "runs (SynchConsoleOutput_PutString p n)"
proof -
  show "runs (GetString_got p i n)" unfolding GetString_got_def
    by (intro runs_bind runs_if runs_give runs_GetString_loop tame_basic tame_attempt tame_upd_os) simp
  show "runs (SynchConsoleInput_GetString p n)" unfolding SynchConsoleInput_GetString_def by (rule runs_GetString_loop)
  show *: "runs (PutString_loop p i n)" for p i n unfolding PutString_loop_def
    by (intro runs_if runs_bind_attempt runs_bind_tasks[OF runs_console(3)] runs_bind runs_give tame_basic) simp_all
  show "runs (SynchConsoleOutput_PutString p n)" unfolding SynchConsoleOutput_PutString_def by (rule *)
qed

lemma tame_match [intro]: "tame (machine_op (\<lambda>m. bind_result (Execute sp m) (\<lambda>m. Inr ((), m))))"
proof (rule tame_machine_op)
  fix m x m' assume a: "bind_result (Execute sp m) (\<lambda>m. Inr ((), m)) = Inr (x, m')"
  have "load_ok m'" if "clear_registers i k m = Inr m'" "i \<le> LoadReg" "LoadReg < i + k" for i k m m'
    using that
  proof (induction i k m rule: clear_registers.induct)
    case (2 i k m)
    have keep: "registers m2 LoadReg = registers m1 LoadReg" if "clear_registers j n m1 = Inr m2" "LoadReg < j" for j n m1 m2
      using that by (induction j n m1 rule: clear_registers.induct) (auto simp: outcome_simps WriteRegister_def check_def split: if_splits)
    show ?case
    proof (cases "i = LoadReg")
      case True
      then obtain m1 where "WriteRegister (int i) 0 m = Inr m1" "clear_registers (Suc i) k m1 = Inr m'"
        using 2(2) by (auto simp: outcome_simps)
      then show ?thesis using keep[of "Suc i" k m1 m'] True
        by (auto simp: WriteRegister_def check_def load_ok_def split: if_splits)
    next
      case False
      then show ?thesis using 2 by (auto simp: outcome_simps)
    qed
  qed simp
  then have "load_ok m1" if "clear_registers 0 NumTotalRegs m = Inr m1" for m1 using that by simp
  then show "load_ok m'" using a
    by (auto simp: Execute_def InitRegisters_def outcome_simps WriteRegister_def check_def RestoreState_def load_ok_def split: if_splits)
qed

lemma tame_Load_pages [intro]:
  "tame (machine_op (\<lambda>m. bind_result (Load_pages f noffH b (mainMemory m) h) (\<lambda>(ok, sp, b, mem, h).
     Inr ((ok, sp, b, h), m\<lparr>mainMemory := mem\<rparr>))))"
  by (rule tame_machine_op) (auto simp: outcome_simps load_ok_def split: prod.splits)

lemma runs_Run_round: "runs Run_round"
proof -
  have "code_frame s s' \<and> list_all client_task ts"
    if s: "base_ok s" "frame_start (kern s)" and r: "Run_round s = Inr (ts, s')" for s ts s'
  proof -
    obtain m where m: "cpu s = Some m" using r by (auto simp: Run_round_def outcome_simps)
    have l: "lands load_ok (OneInstruction False m)"
      using OneInstruction_load_register[of m False] base_ok_machine(1)[OF s(1) m] by (simp add: load_ok_def[abs_def])
    show ?thesis using r m l s
      by (cases "OneInstruction False m")
        (auto simp: Run_round_def get_def load_ok_def[symmetric] intro!: code_frame_same dest: base_ok_machine(2))
  qed
  moreover have "list_all client_task ts" if r: "Run_round s = Inr (ts, s')" for s ts s'
  proof -
    obtain m where "cpu s = Some m" using r by (auto simp: Run_round_def outcome_simps)
    then show ?thesis using r by (cases "OneInstruction False m") (auto simp: Run_round_def get_def)
  qed
  ultimately show ?thesis unfolding runs_def tame_def by blast
qed

lemma runs_post:
  "runs PostalDelivery" "runs deliver_letter" "runs (append_letter b)" "runs (remove_letter b)" "runs letter_received"
  "runs (PostOffice_Send h m d)" "runs (PostOffice_Receive box)" "runs send_packet"
proof -
  show *: "runs PostalDelivery" unfolding PostalDelivery_def by (intro runs_rules) simp
  show "runs deliver_letter" unfolding deliver_letter_def
    by (intro runs_bind[OF tame_Receive] runs_prod runs_bind_tasks[OF *] runs_bind_attempt runs_bind runs_give
        tame_ask tame_upd_os tame_basic) (simp add: SynchList_Append_def)
  show "runs (append_letter b)" "runs (remove_letter b)" "runs letter_received" "runs (PostOffice_Receive box)" "runs send_packet"
    unfolding append_letter_def remove_letter_def letter_received_def PostOffice_Receive_def send_packet_def
    by (intro runs_bind_attempt runs_bind runs_give runs_attempt runs_list runs_prod tame_ask tame_upd_os tame_basic tame_Send;
        auto simp: check_def SynchList_RemoveFront_def split: if_splits)+
  show "runs (PostOffice_Send h m d)" unfolding PostOffice_Send_def
    by (intro runs_bind_await runs_bind_attempt runs_bind runs_give runs_prod tame_ask tame_upd_os) simp
qed

lemma runs_loading: "runs main_program" "runs Load_body" "runs (run_program ok)"
  unfolding main_program_def Load_def Load_body_def run_program_def
  by (intro runs_bind_attempt runs_bind runs_give runs_prod runs_option runs_if tame_ask tame_upd_os tame_basic tame_Load_pages
      tame_match tame_set_space tame_set_status; simp)+

lemma runs_result: "runs (result_and_IncPC r)"
  unfolding result_and_IncPC_def by (intro runs_bind runs_give tame_write_register tame_basic) simp_all

lemma runs_SysRead: "runs (SysRead p n i)"
  unfolding SysRead_def
  by (intro runs_if runs_bind_attempt runs_bind runs_give runs_option runs_prod runs_strings tame_ask tame_upd_os tame_basic tame_calls) simp_all

lemma runs_SysWrite: "runs (SysWrite p n i)"
  unfolding SysWrite_def
  by (intro runs_if runs_bind runs_give runs_option runs_strings tame_ask tame_basic tame_calls) simp_all

lemma runs_files:
  "runs HandleAdd" "runs HandleCreate" "runs HandleDelete" "runs HandleOpen" "runs HandleClose" "runs HandleSeek"
  "runs HandleConnect" "runs HandleSocketTCP" "runs HandleSend" "runs HandleReceive" "runs (copy_back a n p)"
  unfolding HandleAdd_def HandleCreate_def HandleDelete_def HandleOpen_def HandleClose_def HandleSeek_def
    HandleConnect_def HandleSocketTCP_def HandleSend_def HandleReceive_def copy_back_def
  by (intro runs_bind_attempt runs_bind runs_give runs_prod runs_result tame_ask tame_read_register tame_write_register tame_basic
      tame_calls; simp)+

lemma runs_transfers: "runs HandleRead" "runs HandleWrite"
  unfolding HandleRead_def HandleWrite_def
  by (intro runs_bind_tasks[OF runs_SysRead] runs_bind_tasks[OF runs_SysWrite] runs_bind runs_give tame_read_register tame_basic; simp)+

text \<open>The tasks of the process and semaphore tables.\<close>

lemma process_tasks:
  "JoinUpdate cur i pt = Inr ts \<Longrightarrow> list_all client_task ts" "ExitUpdate cur c pt = Inr (ts, pt') \<Longrightarrow> list_all client_task ts"
  "PCB_Exec i p pt = Inr ts \<Longrightarrow> list_all client_task ts" "JoinWait i pt = Inr ts \<Longrightarrow> list_all client_task ts"
  "ExitRelease i pt = Inr ts \<Longrightarrow> list_all client_task ts" "GetExitCode i pt = Inr ts \<Longrightarrow> list_all client_task ts"
  "PCB_Exec_body hp i p q t pt = Inr (ts, hp', pt') \<Longrightarrow> list_all client_task ts"
  by (auto simp: JoinUpdate_def ExitUpdate_def PCB_Exec_def JoinWait_def ExitRelease_def GetExitCode_def
      PCB_Exec_body_def outcome_simps split: if_splits option.splits)

lemma Remove_tasks: "PTable_Remove i hp pt = Inr (ts, hp', pt') \<Longrightarrow> list_all client_task ts"
proof -
  assume a: "PTable_Remove i hp pt = Inr (ts, hp', pt')"
  show ?thesis
  proof (cases "IsExist i pt = Inr True")
    case True
    then obtain b p where "Bitmap_Clear (reception pt) i = Inr b" "block_at i pt = Inr p"
      using a by (auto simp: PTable_Remove_def outcome_simps)
    then show ?thesis using a True
      by (cases "pcb_thread p"; cases "pcb_file p") (auto simp: PTable_Remove_def Let_def)
  next
    case False
    then show ?thesis using a by (auto simp: PTable_Remove_def outcome_simps split: if_splits)
  qed
qed

lemma semaphore_tasks:
  "STable_Wait hp p st = Inr (r, ts) \<Longrightarrow> list_all client_task ts" "STable_Signal hp p st = Inr (r, ts) \<Longrightarrow> list_all client_task ts"
  by (auto simp: STable_Wait_def STable_Signal_def outcome_simps split: option.splits)

lemma runs_process_op: "(\<And>pt ts. f pt = Inr ts \<Longrightarrow> list_all client_task ts) \<Longrightarrow> runs (process_op f)"
  unfolding process_op_def by (intro runs_bind runs_attempt tame_ask) blast

lemma runs_Exec: "runs HandleExec" "runs (named_result p)" "runs (do_Exec_body i p)" "runs HandleJoin" "runs (do_IncNumWait i)"
  "runs HandleExit" "runs (do_Remove i)"
proof -
  show "runs HandleExec" "runs (named_result p)" "runs (do_IncNumWait i)"
    unfolding HandleExec_def named_result_def do_IncNumWait_def
    by (intro runs_bind runs_give runs_result tame_ask tame_upd_os tame_read_register tame_basic; simp)+
  show "runs HandleJoin" unfolding HandleJoin_def
    by (intro runs_bind_tasks[OF runs_process_op] runs_bind runs_give tame_basic) (simp_all add: process_tasks(1))
  show "runs HandleExit" unfolding HandleExit_def
    by (intro runs_bind_attempt runs_bind runs_prod runs_give tame_basic tame_ask tame_upd_os tame_if tame_give)
      (auto dest: process_tasks(2))
  show "runs (do_Exec_body i p)" "runs (do_Remove i)" unfolding do_Exec_body_def do_Remove_def
    by (intro runs_bind_attempt runs_bind runs_prod runs_give tame_ask tame_upd_os; auto dest: process_tasks(7) Remove_tasks)+
qed

lemma runs_ExecuteUpdate: "runs (do_ExecuteUpdate p)"
proof -
  have "runs (bind_op (upd_kern (\<lambda>k. bind_result (ExecuteUpdate hp cur p pt k) (\<lambda>(ts, pt, k). Inr ((ts, pt), k))))
      (\<lambda>(ts, pt). bind_op (upd_os (\<lambda>u. u\<lparr>pTable := pt\<rparr>)) (\<lambda>_. give ts)))" (is "runs ?f") for hp cur pt
  proof -
    have "tame ?f"
      by (intro tame_bind tame_upd_kern tame_prod tame_upd_os tame_give) (auto simp: outcome_simps dest: ExecuteUpdate_frame)
    moreover have "list_all client_task ts" if r: "?f s = Inr (ts, s')" for s ts s'
    proof -
      obtain pt' k' where e: "ExecuteUpdate hp cur p pt (kern s) = Inr (ts, pt', k')"
        using r by (auto simp: bind_op_def upd_kern_def upd_os_def give_def outcome_simps split: prod.splits)
      show ?thesis using e by (cases "PCB_new (kern s)") (auto simp: ExecuteUpdate_def outcome_simps split: if_splits)
    qed
    ultimately show ?thesis unfolding runs_def by blast
  qed
  note body = this
  have "tame GetCurrentThreadId" by (rule tame_basic)
  then show ?thesis unfolding do_ExecuteUpdate_def
    by (rule runs_bind) (rule runs_bind[OF tame_ask], rule runs_prod, rule body)
qed

lemma runs_named: "runs HandleWait" "runs HandleSignal"
  unfolding HandleWait_def HandleSignal_def HandleNamed_def
  by (intro runs_bind_attempt runs_bind runs_prod runs_give tame_read_register tame_basic tame_ask; auto dest: semaphore_tasks)+

section \<open>The kernel with this code\<close>

text \<open>The code of the kernel asks for a semaphore with a negative value.\<close>

definition negative_semaphore :: "code \<Rightarrow> os system \<Rightarrow> bool" where
  "negative_semaphore c s \<longleftrightarrow> c = Handler SyscallException \<and>
     (case cpu s of Some m \<Rightarrow> sint (registers m 2) = SC_CreateSemaphore \<and> sint (registers m 5) < 0 | None \<Rightarrow> False)"

text \<open>The runs in which no program does: such a call stops them.\<close>

definition nachos_runs :: "os program" where
  "nachos_runs c s = (if negative_semaphore c s then Inl AssertFailure else nachos c s)"

lemma runs_CreateSemaphore:
  assumes "0 \<le> v"
  shows "runs (bind_op (fetch_string a MaxFileNameLength) (\<lambda>name.
     bind_op (in_os (\<lambda>u. (strings u, sTable u))) (\<lambda>(hp, st).
     bind_op (upd_kern (\<lambda>k. bind_result (STable_Create hp name v st k) (\<lambda>(r, st, k). Inr ((r, st), k)))) (\<lambda>(res, st).
     bind_op (upd_os (\<lambda>u. u\<lparr>sTable := st\<rparr>)) (\<lambda>_.
     bind_op (delete_string name) (\<lambda>_. result_and_IncPC res))))))"
proof -
  have "tame (upd_kern (\<lambda>k. bind_result (STable_Create hp name v st k) (\<lambda>(r, st, k). Inr ((r, st), k))))" for hp name st
    by (rule tame_upd_kern) (auto simp: outcome_simps intro: STable_Create_frame[OF _ _ assms])
  then show ?thesis by (intro runs_bind runs_prod runs_result tame_basic tame_ask tame_upd_os)
qed

lemma read_register_run:
  "read_register i s = Inr (v, s') \<longleftrightarrow> (\<exists>m. cpu s = Some m \<and> i < NumTotalRegs \<and> v = registers m i \<and> s' = s)"
  by (auto simp: read_register_def machine_op_def outcome_simps ReadRegister_def check_def get_def split: if_splits option.splits)

lemma read_int_run:
  "read_int i s = Inr (v, s') \<longleftrightarrow> (\<exists>m. cpu s = Some m \<and> i < NumTotalRegs \<and> v = sint (registers m i) \<and> s' = s)"
  by (auto simp: read_int_def bind_op_def give_def outcome_simps read_register_run)

lemma runs_fault: "runs (attempt (Inl e))"
  by (rule runs_attempt) simp

lemma runs_returns: "runs (bind_op (return_value r) (\<lambda>_. give []))" "runs (bind_op the_result result_and_IncPC)"
  "runs (bind_op IncPC (\<lambda>_. give []))"
  by (intro runs_bind runs_give runs_result tame_basic; simp)+

lemma runs_process:
  "runs (process_op (JoinWait a))" "runs (process_op (ExitRelease a))" "runs (process_op (GetExitCode a))"
  "runs (process_op (PCB_Exec a p))"
  by (rule runs_process_op; erule process_tasks)+

lemmas runs_pieces = runs_console runs_post runs_loading runs_Run_round runs_strings runs_files runs_transfers runs_Exec
  runs_ExecuteUpdate runs_process runs_fault runs_returns runs_named

lemma runs_resume: "runs (resume l args)"
proof -
  consider "args = []" | a where "args = [a]" | a b where "args = [a, b]" | a b c where "args = [a, b, c]"
    | a b c d ds where "args = a # b # c # d # ds"
    by (metis list.exhaust)
  then show ?thesis
    by cases (simp only: resume.simps, intro runs_if runs_pieces)+
qed

lemma runs_syscall:
  assumes "type \<noteq> SC_CreateSemaphore"
  shows "runs (syscall type)"
proof -
  have "runs AddCase" unfolding AddCase_def by (intro runs_bind_tasks[OF runs_files(1)] runs_fault)
  moreover have "runs (give [])" "runs (give [Shutdown])" by (rule runs_give; simp)+
  ultimately show ?thesis unfolding syscall_def using assms
    by (intro runs_if runs_pieces) blast+
qed

lemma ExceptionHandler_run:
  "cpu s = Some m \<Longrightarrow> ExceptionHandler which s =
     (if which = SyscallException then syscall (sint (registers m 2)) s else Inr ([], s))"
  by (simp add: ExceptionHandler_def bind_op_def[of "read_int 2"] read_int_run[THEN iffD2] give_def)

lemma CreateSemaphore_run:
  assumes "cpu s = Some m"
  shows "HandleCreateSemaphore s = bind_op (fetch_string (registers m 4) MaxFileNameLength) (\<lambda>name.
     bind_op (in_os (\<lambda>u. (strings u, sTable u))) (\<lambda>(hp, st).
     bind_op (upd_kern (\<lambda>k. bind_result (STable_Create hp name (sint (registers m 5)) st k) (\<lambda>(r, st, k). Inr ((r, st), k)))) (\<lambda>(res, st).
     bind_op (upd_os (\<lambda>u. u\<lparr>sTable := st\<rparr>)) (\<lambda>_.
     bind_op (delete_string name) (\<lambda>_. result_and_IncPC res))))) s"
proof -
  have "read_register 4 s = Inr (registers m 4, s)" "read_int 5 s = Inr (sint (registers m 5), s)"
    using assms by (simp_all add: read_register_run read_int_run)
  then show ?thesis
    by (simp add: HandleCreateSemaphore_def bind_op_def[of "read_register 4"] bind_op_def[of "read_int 5"])
qed

lemma runs_ExceptionHandler:
  assumes "base_ok s" "frame_start (kern s)" "\<not> negative_semaphore (Handler which) s" "ExceptionHandler which s = Inr (ts, s')"
  shows "code_frame s s' \<and> list_all client_task ts"
proof -
  obtain m where m: "cpu s = Some m" using assms(4) by (auto simp: ExceptionHandler_def bind_op_def outcome_simps read_int_run)
  consider "which \<noteq> SyscallException" | "which = SyscallException" "sint (registers m 2) \<noteq> SC_CreateSemaphore"
    | "which = SyscallException" "sint (registers m 2) = SC_CreateSemaphore" by blast
  then show ?thesis
  proof cases
    case 1
    then show ?thesis using assms m by (auto simp: ExceptionHandler_run intro!: code_frame_same)
  next
    case 2
    then have "syscall (sint (registers m 2)) s = Inr (ts, s')" using assms(4) by (simp add: ExceptionHandler_run[OF m])
    then show ?thesis using runs_syscall[OF 2(2)] assms(1,2) unfolding runs_def tame_def by blast
  next
    case 3
    then have v: "0 \<le> sint (registers m 5)" using assms(3) m by (simp add: negative_semaphore_def)
    have "HandleCreateSemaphore s = Inr (ts, s')"
      using assms(4) 3 unfolding ExceptionHandler_run[OF m] by (simp add: syscall_def syscall_numbers)
    then show ?thesis using runs_CreateSemaphore[OF v] assms(1,2) unfolding CreateSemaphore_run[OF m] runs_def tame_def by blast
  qed
qed

lemma nachos_runs_ok: "program_ok nachos_runs"
  unfolding program_ok_def
proof (intro allI impI)
  fix c and s s' :: "os system" and ts
  assume s: "base_ok s" "kernel_inv (kern s)" and r: "nachos_runs c s = Inr (s', ts)"
  have k: "frame_start (kern s)" using s(2) by (rule frame_start_inv)
  have r: "code_of c s = Inr (ts, s')" "\<not> negative_semaphore c s"
    using r by (auto simp: nachos_runs_def nachos_def outcome_simps split: if_splits)
  have proc: "runs (code_of (Proc p))" for p
    unfolding code_of.simps start_process_def by (intro runs_if runs_pieces)
  have "code_frame s s' \<and> list_all client_task ts"
  proof (cases c)
    case (Proc p)
    then show ?thesis using proc[of p] r(1) s(1) k unfolding runs_def tame_def by blast
  next
    case (Handler which)
    then show ?thesis using runs_ExceptionHandler[OF s(1) k] r by simp
  next
    case (Continue l args)
    then have "resume l args s = Inr (ts, s')" using r(1) by simp
    then show ?thesis using runs_resume[of l args] s(1) k unfolding runs_def tame_def by blast
  qed
  then show "list_all client_task ts \<and> code_frame s s'" by blast
qed

end
