(* ===== verification/Nachos_Kernel.thy ===== *)
theory Nachos_Kernel imports Kernel_Program begin

text \<open>
  The kernel as it is started by \<open>main\<close>, with the main program that loads and runs a user program, the
  postal worker, and the system calls of the user program: the properties of theory Kernel\_Theorems hold
  of every run in which no program creates a semaphore with a negative value, and that call is not refused.
\<close>

section \<open>A start of the kernel\<close>

text \<open>An empty host, no sockets, and the tables as their constructors leave them.\<close>

definition start_os :: os where
  "start_os =
     \<lparr>os_host = \<lparr>nodes = (\<lambda>_. []), next_node = 0, names = Map.empty, descriptors = (\<lambda>_. None), fd_limit = 16\<rparr>,
      strings = [0 \<mapsto> [104, 97, 108, 116, 0]], next_string = 1, opened = Table_new,
      sockets = \<lparr>socket_answer = - 1, connect_answer = (\<lambda>_ _ _. - 1), setsockopt_answer = (\<lambda>_. - 1),
        send_answer = (\<lambda>_ _ _. - 1), recv_answer = (\<lambda>_ _. (- 1, []))\<rparr>,
      sTable = projr STable_new, pTable = fst (projr (PTable_new 0 (boot_kernel (Proc MainProgram) ()))), pids = (\<lambda>_. 0),
      physPageBitMap = projr (Bitmap_new (int NumPhysPages)), addrLock = 4, userProgName = 0, executable = None,
      loading_space = AddrSpace_new, boxes = replicate 10 [], delivery_buffer = replicate MaxPacketSize 0,
      returned = (\<lambda>_. 0), outgoing = Map.empty, letter = Map.empty\<rparr>"

definition start_world :: "os kernel hardware" where
  "start_world = fresh_hardware (boot_kernel (Proc MainProgram) start_os)"

definition start_system :: "os system" where
  "start_system = Interrupt_new (Some (Machine_new False)) start_world"

lemma start_system_simps [simp]:
  "cpu start_system = Some (Machine_new False)" "the_os start_system = start_os"
  "kern start_system = boot_kernel (Proc MainProgram) start_os"
  by (simp_all add: start_system_def Interrupt_new_def start_world_def fresh_hardware_def boot_kernel_def)

lemma start_world_ok: "disk_file_ok None" "outside_ok start_world"
  by (simp_all add: disk_file_ok_def outside_ok_def start_world_def fresh_hardware_def)

text \<open>A first step of this kernel.\<close>

lemma nachos_start:
  obtains s0 s1 where "Kernel_Initialize False 1 None (Proc MainProgram) (Proc PostalWorker) start_world = Inr s0"
    "kernel_step nachos_runs s0 = Inr (Running s1)" "reachable nachos_runs s0 s1"
proof -
  obtain s0 where s0: "Kernel_Initialize False 1 None (Proc MainProgram) (Proc PostalWorker) start_world = Inr s0"
    using Kernel_Initialize_run[OF start_world_ok] by blast
  note ok = initial_ok[OF start_world_ok s0]
  have th: "threads (kern s0) (currentThread (kern s0)) = Some \<lparr>thread_status = RUNNING,
      continuation = [Restore_Level IntOn, Code (Proc MainProgram), Shutdown, Finish], userRegisters = (\<lambda>_. 0), space = None\<rparr>"
    using ok(4) by (simp add: run_state_def)
  obtain t ts x where a: "at_task t ts x s0" "goes_well (may_fail nachos_runs t ts x s0) (kernel_step nachos_runs s0)"
    by (rule kernel_step_goes_well[OF ok(1) nachos_runs_ok])
  have t: "t = Restore_Level IntOn" using at_task_basic(3,4)[OF a(1)] th by auto
  have k: "kernel_step nachos_runs s0 = exec nachos_runs t (upd_kernel (set_cont ts) s0)"
    by (rule kernel_step_run[OF at_task_basic(3,4)[OF a(1)]])
  obtain s1 where s1: "kernel_step nachos_runs s0 = Inr (Running s1)"
    using a(2) k t by (cases "set_level IntOn (upd_kernel (set_cont ts) s0)") (auto simp: may_fail_def)
  show ?thesis by (rule that[OF s0 s1 reachable.step[OF reachable.start s1]])
qed

section \<open>The whole kernel\<close>



text \<open>The call that is left out: the table takes a negative value, and the semaphore lets every thread through.\<close>

lemma negative_semaphore_accepted:
  assumes "STable_Create hp p v st k = Inr (0, st', k')" "v < 0"
  shows "\<exists>i. semaphores k' i = Some \<lparr>value = v, waiters = []\<rparr>"
  using assms(1)
  by (cases "Semaphore_new v k")
    (auto simp: STable_Create_def outcome_simps Semaphore_new_def Let_def split: if_splits option.splits)

lemma negative_semaphore_never_blocks:
  assumes "semaphores (kern s) i = Some \<lparr>value = v, waiters = []\<rparr>" "v < 0"
  shows "\<exists>s'. Semaphore_P_loop i l None s = Inr s' \<and> semaphores (kern s') i = Some \<lparr>value = v - 1, waiters = []\<rparr>"
  using assms by (auto simp: Semaphore_P_loop_def get_def upd_semaphore_def push_def upd_thread_def)

end
