(* ===== verification/Syscall_Theorems.thy ===== *)
theory Syscall_Theorems imports Nachos_Kernel begin

text \<open>
  What every system call does to the program counter: each operation of theories Kernel\_Code to Syscalls
  leaves its registers or advances them by one instruction, and a system call advances them once before it is
  finished, with the exceptions stated below.
\<close>

section \<open>The program counter\<close>

text \<open>The machine an operation leaves has the registers of the program counter as they were, \<open>keeps_pc\<close>, or
  advanced by one instruction, \<open>advances_pc\<close>.\<close>

definition pc_regs :: "machine \<Rightarrow> u32 \<times> u32 \<times> u32" where
  "pc_regs m = (registers m PrevPCReg, registers m PCReg, registers m NextPCReg)"

definition next_pc :: "u32 \<times> u32 \<times> u32 \<Rightarrow> u32 \<times> u32 \<times> u32" where
  "next_pc r = (case r of (prev, pc, n) \<Rightarrow> (pc, n, n + 4))"

definition moves_pc :: "(u32 \<times> u32 \<times> u32 \<Rightarrow> u32 \<times> u32 \<times> u32) \<Rightarrow> 'a op \<Rightarrow> bool" where
  "moves_pc g f \<longleftrightarrow> (\<forall>s x s' m. cpu s = Some m \<longrightarrow> load_ok m \<longrightarrow> f s = Inr (x, s') \<longrightarrow>
     (\<exists>m'. cpu s' = Some m' \<and> load_ok m' \<and> pc_regs m' = g (pc_regs m)))"

abbreviation keeps_pc :: "'a op \<Rightarrow> bool" where "keeps_pc \<equiv> moves_pc (\<lambda>r. r)"

lemma moves_bind: "moves_pc g f \<Longrightarrow> (\<And>x. moves_pc h (k x)) \<Longrightarrow> moves_pc (h \<circ> g) (bind_op f k)"
  unfolding moves_pc_def bind_op_def outcome_simps by (auto split: prod.splits) metis

lemma keeps_bind: "keeps_pc f \<Longrightarrow> (\<And>x. moves_pc h (k x)) \<Longrightarrow> moves_pc h (bind_op f k)"
  using moves_bind[of "\<lambda>r. r" f h k] by (simp add: comp_def)

lemma moves_then: "moves_pc g f \<Longrightarrow> (\<And>x. keeps_pc (k x)) \<Longrightarrow> moves_pc g (bind_op f k)"
  using moves_bind[of g f "\<lambda>r. r" k] by (simp add: comp_def)

lemma moves_if: "(c \<Longrightarrow> moves_pc g f) \<Longrightarrow> (\<not> c \<Longrightarrow> moves_pc g h) \<Longrightarrow> moves_pc g (if c then f else h)"
  by simp

lemma moves_prod: "(\<And>a b. moves_pc g (k a b)) \<Longrightarrow> moves_pc g (case x of (a, b) \<Rightarrow> k a b)"
  by (cases x) simp

lemma moves_option: "moves_pc g f \<Longrightarrow> (\<And>a. moves_pc g (k a)) \<Longrightarrow> moves_pc g (case r of None \<Rightarrow> f | Some a \<Rightarrow> k a)"
  by (cases r) simp_all

lemma keeps_simple [intro]:
  "keeps_pc (give x)" "keeps_pc (attempt r)" "keeps_pc (ask q)" "keeps_pc (upd_os u)" "keeps_pc (upd_kern k)"
  by (auto simp: moves_pc_def give_def attempt_def ask_def upd_os_def upd_kern_def outcome_simps split: prod.splits)

lemma moves_fault: "moves_pc g (attempt (Inl e))"
  by (simp add: moves_pc_def attempt_def)

lemma moves_machine_op:
  "(\<And>m x m'. load_ok m \<Longrightarrow> f m = Inr (x, m') \<Longrightarrow> load_ok m' \<and> pc_regs m' = g (pc_regs m)) \<Longrightarrow> moves_pc g (machine_op f)"
  unfolding moves_pc_def machine_op_def outcome_simps by (auto simp: outcome_simps split: prod.splits)

lemma keeps_read_register [intro]: "keeps_pc (read_register i)"
  unfolding read_register_def by (rule moves_machine_op) (auto simp: outcome_simps)

lemma keeps_write_register [intro]: "i < PCReg \<Longrightarrow> keeps_pc (write_register i v)"
  unfolding write_register_def
  by (rule moves_machine_op) (auto simp: outcome_simps WriteRegister_def check_def load_ok_def pc_regs_def split: if_splits)

lemma IncPC_advances: "moves_pc next_pc IncPC"
  unfolding moves_pc_def
proof (intro allI impI)
  fix s s' :: "os system" and x m
  assume m: "cpu s = Some m" "load_ok m" and r: "IncPC s = Inr (x, s')"
  have "s' = s\<lparr>cpu := Some (m\<lparr>registers := (registers m)(PrevPCReg := registers m PCReg, PCReg := registers m NextPCReg,
      NextPCReg := registers m NextPCReg + 4)\<rparr>)\<rparr>"
    using r m(1)
    by (simp add: IncPC_def read_register_def write_register_def bind_op_def machine_op_def get_def ReadRegister_def
        WriteRegister_def check_def)
  then show "\<exists>m'. cpu s' = Some m' \<and> load_ok m' \<and> pc_regs m' = next_pc (pc_regs m)"
    using m(2) by (simp add: load_ok_def pc_regs_def next_pc_def)
qed

text \<open>An access that fails commits a pending load, to a general register.\<close>

lemma DelayedLoad_pc:
  assumes "load_ok m" "DelayedLoad n v m = Inr m'"
  shows "pc_regs m' = pc_regs m"
  using assms by (auto simp: DelayedLoad_def Let_def outcome_simps pc_regs_def load_ok_def)

lemma RaiseException_pc:
  assumes "load_ok m" "RaiseException exc bad m = Trap exc' m'"
  shows "pc_regs m' = pc_regs m"
proof -
  have "load_ok (m\<lparr>registers := (registers m)(BadVAddrReg := bad)\<rparr>)" "pc_regs (m\<lparr>registers := (registers m)(BadVAddrReg := bad)\<rparr>) = pc_regs m"
    using assms(1) by (simp_all add: load_ok_def pc_regs_def)
  then show ?thesis using assms(2) DelayedLoad_pc by (auto simp: RaiseException_def outcome_simps)
qed

lemma access_pc:
  assumes "load_ok m"
  shows "ReadMem a sz m = Trap exc m' \<Longrightarrow> pc_regs m' = pc_regs m" "WriteMem a sz v m = Trap exc m' \<Longrightarrow> pc_regs m' = pc_regs m"
proof -
  have sum: "pc_regs m' = pc_regs m" if "(case r of Inl e \<Rightarrow> RaiseException e a m | Inr (p, m2) \<Rightarrow> bind_outcome (lift_result (f p m2)) (g p m2)) = Trap exc m'"
    "\<And>p m2 x. g p m2 x \<noteq> Trap exc m'" for r and f :: "nat \<Rightarrow> machine \<Rightarrow> 'b result" and g :: "nat \<Rightarrow> machine \<Rightarrow> 'b \<Rightarrow> 'c outcome"
    using that RaiseException_pc[OF assms] by (cases r) (auto simp: outcome_simps split: prod.splits)
  show "ReadMem a sz m = Trap exc m' \<Longrightarrow> pc_regs m' = pc_regs m"
    unfolding ReadMem_def by (auto simp: outcome_simps dest!: sum)
  show "WriteMem a sz v m = Trap exc m' \<Longrightarrow> pc_regs m' = pc_regs m"
    unfolding WriteMem_def by (auto simp: outcome_simps dest!: sum)
qed

lemma moves_mem_op:
  assumes "\<And>m. load_ok m \<Longrightarrow> lands (\<lambda>(v, m'). registers m' = registers m) (f m)"
    "\<And>m exc m'. load_ok m \<Longrightarrow> f m = Trap exc m' \<Longrightarrow> pc_regs m' = pc_regs m"
  shows "keeps_pc (mem_op f)"
  unfolding moves_pc_def
proof (intro allI impI)
  fix s s' :: "os system" and x m assume m: "cpu s = Some m" "load_ok m" and r: "mem_op f s = Inr (x, s')"
  show "\<exists>m'. cpu s' = Some m' \<and> load_ok m' \<and> pc_regs m' = pc_regs m"
    using r m assms(1)[OF m(2)] assms(2)[OF m(2)]
    by (cases "f m") (auto simp: mem_op_def get_def load_ok_def pc_regs_def split: prod.splits)
qed

lemma keeps_bytes [intro]: "keeps_pc (read_byte a)" "keeps_pc (write_byte a v)"
proof -
  show "keeps_pc (read_byte a)" unfolding read_byte_def
    by (rule moves_mem_op) (auto simp: lands_ReadMem access_pc)
  have "lands (\<lambda>(u, m'). registers m' = registers m) (bind_outcome (WriteMem a 1 v m) (\<lambda>m. Done ((), m)))" for m
    using lands_WriteMem[of m a 1 v] by (cases "WriteMem a 1 v m") auto
  then show "keeps_pc (write_byte a v)" unfolding write_byte_def
    by (intro moves_mem_op) (auto simp: outcome_simps access_pc)
qed

lemmas keeps_rules = keeps_bind moves_if moves_prod moves_option keeps_simple keeps_read_register keeps_bytes

lemma keeps_copy_in [intro]: "keeps_pc (copy_in n a c)"
  by (induction n arbitrary: a c) (auto intro!: keeps_rules)

lemma keeps_copy_out [intro]: "keeps_pc (copy_out n a bs)"
  by (induction n a bs rule: copy_out.induct) (auto intro!: keeps_rules)

lemma keeps_copy_string [intro]: "keeps_pc (copy_string n a i bs)"
  by (induction n a i bs rule: copy_string.induct) (auto simp: Let_def intro!: keeps_rules)

lemma keeps_basic [intro]:
  "keeps_pc (User2System a l)" "keeps_pc (System2User a l bs)" "keeps_pc (copyStringFromMachine a bs n)"
  "keeps_pc (new_string bs)" "keeps_pc (delete_string p)" "keeps_pc (string_of p)" "keeps_pc the_result"
  "keeps_pc (read_int i)" "keeps_pc (fetch_string a l)"
  unfolding User2System_def System2User_def copyStringFromMachine_def new_string_def delete_string_def string_of_def
    the_result_def read_int_def fetch_string_def
  by (auto intro!: keeps_rules)

lemma keeps_file_op [intro]: "keeps_pc (file_op f)" "keeps_pc (on_file k q)"
  unfolding file_op_def on_file_def by (auto intro!: keeps_rules)

lemma keeps_calls [intro]:
  "keeps_pc (SysOpen p t)" "keeps_pc (SysClose i)" "keeps_pc (SysSeek n i)" "keeps_pc (SysCreate p)"
  "keeps_pc (close_by_name p t)" "keeps_pc (SysRemove p)" "keeps_pc SysSocketTCP" "keeps_pc (SysConnect i ip port)"
  "keeps_pc (SysGetIdSocket i)" "keeps_pc (SocketSend bs n i)"
  unfolding SysOpen_def SysClose_def SysSeek_def SysCreate_def close_by_name_def SysRemove_def SysSocketTCP_def
    SysConnect_def SysGetIdSocket_def SocketSend_def
  by (auto intro!: keeps_rules split: option.split prod.split)

lemma result_advances: "moves_pc next_pc (result_and_IncPC r)"
  unfolding result_and_IncPC_def by (intro keeps_bind moves_then[OF IncPC_advances] keeps_simple keeps_write_register) simp

section \<open>System calls and the program counter\<close>

lemmas label_defs = L_Return_def L_ExecuteUpdate_def L_Exec_def L_Exec_body_def L_IncNumWait_def L_JoinWait_def
  L_ExitRelease_def L_ExitCode_def L_Remove_def L_GetChar_def L_GetString_def L_PutChar_def L_PutString_def L_Send_def
  L_RemoveFront_def L_Received_def L_Deliver_def L_Append_def L_LoadPages_def L_Loaded_def L_Run_def L_CopyBack_def
  L_NamedResult_def L_Result_def L_Exited_def

definition yields :: "('a \<Rightarrow> bool) \<Rightarrow> 'a op \<Rightarrow> bool" where
  "yields P f \<longleftrightarrow> (\<forall>s x s'. f s = Inr (x, s') \<longrightarrow> P x)"

lemma yields_bind: "(\<And>x. yields P (k x)) \<Longrightarrow> yields P (bind_op f k)"
  unfolding yields_def bind_op_def outcome_simps by (auto split: prod.splits)

lemma yields_give: "P x \<Longrightarrow> yields P (give x)"
  by (simp add: yields_def give_def)

lemma yields_prod: "(\<And>a b. yields P (k a b)) \<Longrightarrow> yields P (case x of (a, b) \<Rightarrow> k a b)"
  by (cases x) simp

text \<open>A handler that blocks ends with the code that finishes the call.\<close>

definition ends_call :: "task list \<Rightarrow> bool" where
  "ends_call ts \<longleftrightarrow> ts \<noteq> [] \<and> (\<exists>l args. last ts = goto l args \<and> l \<in> {L_CopyBack, L_NamedResult, L_Result, L_Exited})"

lemma ends_call_snoc [simp]:
  "ends_call (ts @ [goto L_CopyBack as])" "ends_call (ts @ [goto L_NamedResult as])" "ends_call (ts @ [goto L_Result as])"
  "ends_call (ts @ [goto L_Exited as])" "ends_call (ts @ [t, goto L_NamedResult as])" "ends_call [t, u, goto L_NamedResult as]"
  by (auto simp: ends_call_def)

lemmas yields_rules = yields_bind yields_give yields_prod

lemma blocking_ends:
  "yields ends_call HandleRead" "yields ends_call HandleWrite" "yields ends_call HandleExec" "yields ends_call HandleJoin"
  "yields ends_call HandleExit" "yields ends_call (HandleNamed f)"
  unfolding HandleRead_def HandleWrite_def HandleExec_def HandleJoin_def HandleExit_def HandleNamed_def
  by (intro yields_rules; simp)+

lemma keeps_console [intro]: "keeps_pc (GetString_loop p i n)" "keeps_pc (PutString_loop p i n)"
  unfolding GetString_loop_def PutString_loop_def SynchConsoleInput_GetChar_def SynchConsoleOutput_PutChar_def await_def
  by (auto intro!: keeps_rules keeps_basic)

lemma keeps_transfers [intro]: "keeps_pc (SysRead p n i)" "keeps_pc (SysWrite p n i)"
  unfolding SysRead_def SysWrite_def SynchConsoleInput_GetString_def SynchConsoleOutput_PutString_def
  by (auto intro!: keeps_rules keeps_basic keeps_console)

lemma blocking_keeps:
  "keeps_pc HandleRead" "keeps_pc HandleWrite" "keeps_pc HandleExec" "keeps_pc HandleJoin" "keeps_pc HandleExit"
  "keeps_pc (HandleNamed f)"
  unfolding HandleRead_def HandleWrite_def HandleExec_def HandleJoin_def HandleExit_def HandleNamed_def process_op_def
    GetCurrentThreadId_def FreeSpace_def
  by (auto intro!: keeps_rules keeps_basic)

lemma plain_advance:
  "moves_pc next_pc HandleCreate" "moves_pc next_pc HandleDelete" "moves_pc next_pc HandleOpen" "moves_pc next_pc HandleSeek"
  "moves_pc next_pc HandleClose" "moves_pc next_pc HandleConnect" "moves_pc next_pc HandleSocketTCP"
  "moves_pc next_pc HandleSend" "moves_pc next_pc HandleCreateSemaphore"
  "moves_pc next_pc (copy_back a n p)" "moves_pc next_pc (named_result p)" "moves_pc next_pc (bind_op the_result result_and_IncPC)"
  "moves_pc next_pc (bind_op IncPC (\<lambda>_. give []))"
  unfolding HandleCreate_def HandleDelete_def HandleOpen_def HandleSeek_def HandleClose_def HandleConnect_def
    HandleSocketTCP_def HandleSend_def HandleCreateSemaphore_def copy_back_def named_result_def
  by (intro keeps_bind moves_prod moves_then[OF IncPC_advances] result_advances keeps_simple keeps_read_register keeps_basic
      keeps_calls keeps_write_register; simp)+

lemma yields_result: "yields (\<lambda>ts. ts = []) (result_and_IncPC r)"
  unfolding result_and_IncPC_def by (intro yields_rules) simp

lemma plain_ends:
  "yields (\<lambda>ts. ts = []) HandleCreate" "yields (\<lambda>ts. ts = []) HandleDelete" "yields (\<lambda>ts. ts = []) HandleOpen"
  "yields (\<lambda>ts. ts = []) HandleSeek" "yields (\<lambda>ts. ts = []) HandleClose" "yields (\<lambda>ts. ts = []) HandleConnect"
  "yields (\<lambda>ts. ts = []) HandleSocketTCP" "yields (\<lambda>ts. ts = []) HandleSend" "yields (\<lambda>ts. ts = []) HandleCreateSemaphore"
  "yields (\<lambda>ts. ts = []) (copy_back a n p)" "yields (\<lambda>ts. ts = []) (named_result p)"
  "yields (\<lambda>ts. ts = []) (bind_op the_result result_and_IncPC)" "yields (\<lambda>ts. ts = []) (bind_op IncPC (\<lambda>_. give []))"
  unfolding HandleCreate_def HandleDelete_def HandleOpen_def HandleSeek_def HandleClose_def HandleConnect_def
    HandleSocketTCP_def HandleSend_def HandleCreateSemaphore_def copy_back_def named_result_def
  by (intro yields_bind yields_prod yields_result yields_give; simp)+

definition pc_of :: "os system \<Rightarrow> (u32 \<times> u32 \<times> u32) option" where
  "pc_of s = map_option pc_regs (cpu s)"

lemma moves_pc_of:
  "moves_pc g f \<Longrightarrow> cpu s = Some m \<Longrightarrow> load_ok m \<Longrightarrow> f s = Inr (x, s') \<Longrightarrow> pc_of s' = map_option g (pc_of s)"
  unfolding moves_pc_def pc_of_def by fastforce

text \<open>The receiving call, whose helper has advanced the program counter already.\<close>

lemma GetIdSocket_frame:
  "SysGetIdSocket i s = Inr (k, s') \<Longrightarrow> cpu s' = cpu s \<and> sockets (the_os s') = sockets (the_os s)"
  by (auto simp: SysGetIdSocket_def on_file_def file_op_def bind_op_def ask_def attempt_def upd_os_def give_def outcome_simps
      split: prod.splits)

lemma Receive_advances_twice:
  assumes m: "cpu s = Some m" "load_ok m" and r: "HandleReceive s = Inr (ts, s')"
    and n: "\<And>i. 0 \<le> setsockopt_answer (sockets (the_os s)) i"
  shows "ts = [] \<and> pc_of s' = map_option (next_pc \<circ> next_pc) (pc_of s)"
proof -
  define rest :: "int \<Rightarrow> task list op" where "rest i = bind_op (attempt (check (0 \<le> sint (registers m 5)) OutOfBounds (Inr ()))) (\<lambda>_.
     bind_op (ask (\<lambda>s. map (garbage (world s)) [0..<nat (sint (registers m 5))])) (\<lambda>buffer.
     bind_op (SocketReceive buffer (sint (registers m 5)) i) (\<lambda>(r, buffer).
     bind_op (System2User (registers m 4) (sint (registers m 5)) buffer) (\<lambda>_.
     bind_op IncPC (\<lambda>_. give [])))))" for i
  have "read_register 4 s = Inr (registers m 4, s)" "read_int 5 s = Inr (sint (registers m 5), s)"
    "read_int 6 s = Inr (sint (registers m 6), s)"
    using m(1) by (simp_all add: read_register_run read_int_run)
  then obtain i s1 where s1: "SysGetIdSocket (sint (registers m 6)) s = Inr (i, s1)" "rest i s1 = Inr (ts, s')"
    using r by (auto simp: HandleReceive_def rest_def bind_op_def[of "read_register 4"] bind_op_def[of "read_int 5"]
        bind_op_def[of "read_int 6"] bind_op_def[of "SysGetIdSocket _"] outcome_simps)
  note frame = GetIdSocket_frame[OF s1(1)]
  have receive: "\<exists>m2. cpu s2 = Some m2 \<and> load_ok m2 \<and> pc_regs m2 = next_pc (pc_regs m1)"
    if "SocketReceive buf k i s1 = Inr (x, s2)" "cpu s1 = Some m1" "load_ok m1" for buf k x s2 m1
  proof -
    have "\<not> setsockopt_answer (sockets (the_os s1)) i < 0" using n[of i] frame by simp
    let ?bytes = "recv_answer (sockets (the_os s1)) i k"
    let ?f = "bind_op (attempt (check (length (snd ?bytes) \<le> length buf) OutOfBounds (Inr ()))) (\<lambda>_.
         bind_op IncPC (\<lambda>_. give (fst ?bytes, snd ?bytes @ drop (length (snd ?bytes)) buf)))"
    have "?f s1 = Inr (x, s2)" using \<open>\<not> _ < 0\<close> that(1)
      by (simp add: SocketReceive_def bind_op_def[of "ask _"] ask_def case_prod_unfold Let_def)
    moreover have "moves_pc next_pc ?f" by (intro keeps_bind moves_then[OF IncPC_advances] keeps_simple)
    ultimately show ?thesis using that(2,3) unfolding moves_pc_def by blast
  qed
  obtain buf k x s2 where s2: "SocketReceive buf k i s1 = Inr (x, s2)"
    "bind_op (System2User (registers m 4) k (snd x)) (\<lambda>_. bind_op IncPC (\<lambda>_. give [])) s2 = Inr (ts, s')"
    using s1(2) by (auto simp: rest_def bind_op_def[of "attempt _"] bind_op_def[of "ask _"] attempt_def ask_def
        bind_op_def[of "SocketReceive _ _ _"] outcome_simps split: prod.splits)
  obtain m2 where m2: "cpu s2 = Some m2" "load_ok m2" "pc_regs m2 = next_pc (pc_regs m)"
    using receive[OF s2(1) _ m(2)] frame m(1) by auto
  have "moves_pc next_pc (bind_op (System2User (registers m 4) k (snd x)) (\<lambda>_. bind_op IncPC (\<lambda>_. give [])))"
    by (intro keeps_bind moves_then[OF IncPC_advances] keeps_simple keeps_basic)
  from moves_pc_of[OF this m2(1,2) s2(2)] m2 m(1) have "pc_of s' = map_option (next_pc \<circ> next_pc) (pc_of s)"
    by (simp add: pc_of_def)
  moreover have "yields (\<lambda>ts. ts = []) (bind_op (System2User (registers m 4) k (snd x)) (\<lambda>_. bind_op IncPC (\<lambda>_. give [])))"
    by (intro yields_rules) simp
  ultimately show ?thesis using s2(2) unfolding yields_def by blast
qed


lemma syscall_cases:
  "syscall SC_Create = HandleCreate" "syscall SC_Remove = HandleDelete" "syscall SC_Open = HandleOpen"
  "syscall SC_Seek = HandleSeek" "syscall SC_Close = HandleClose" "syscall SC_Connect = HandleConnect"
  "syscall SC_SocketTCP = HandleSocketTCP" "syscall SC_Send = HandleSend" "syscall SC_CreateSemaphore = HandleCreateSemaphore"
  "syscall SC_Read = HandleRead" "syscall SC_Write = HandleWrite" "syscall SC_Exec = HandleExec" "syscall SC_Join = HandleJoin"
  "syscall SC_Exit = HandleExit" "syscall SC_Wait = HandleNamed STable_Wait" "syscall SC_Signal = HandleNamed STable_Signal"
  "syscall SC_Receive = HandleReceive"
  by (simp_all add: syscall_def syscall_numbers HandleWait_def HandleSignal_def)

lemma resume_cases:
  "resume L_CopyBack args = (case args of [a, b, c] \<Rightarrow> copy_back a b (nat c) | _ \<Rightarrow> attempt (Inl Uninitialised))"
  "resume L_NamedResult args = (case args of [a] \<Rightarrow> named_result (nat a) | _ \<Rightarrow> attempt (Inl Uninitialised))"
  "resume L_Result args = (case args of [] \<Rightarrow> bind_op the_result result_and_IncPC | _ \<Rightarrow> attempt (Inl Uninitialised))"
  "resume L_Exited args = (case args of [] \<Rightarrow> bind_op IncPC (\<lambda>_. give []) | _ \<Rightarrow> attempt (Inl Uninitialised))"
proof -
  consider "args = []" | a where "args = [a]" | a b where "args = [a, b]" | a b c where "args = [a, b, c]"
    | a b c d ds where "args = a # b # c # d # ds"
    by (metis list.exhaust)
  then show "resume L_CopyBack args = (case args of [a, b, c] \<Rightarrow> copy_back a b (nat c) | _ \<Rightarrow> attempt (Inl Uninitialised))"
    and "resume L_NamedResult args = (case args of [a] \<Rightarrow> named_result (nat a) | _ \<Rightarrow> attempt (Inl Uninitialised))"
    and "resume L_Result args = (case args of [] \<Rightarrow> bind_op the_result result_and_IncPC | _ \<Rightarrow> attempt (Inl Uninitialised))"
    and "resume L_Exited args = (case args of [] \<Rightarrow> bind_op IncPC (\<lambda>_. give []) | _ \<Rightarrow> attempt (Inl Uninitialised))"
    by (cases; simp add: label_defs)+
qed

lemma yields_fault: "yields P (attempt (Inl e))"
  by (simp add: yields_def attempt_def)

lemma finishing:
  assumes "l \<in> {L_CopyBack, L_NamedResult, L_Result, L_Exited}"
  shows "moves_pc next_pc (resume l args)" "yields (\<lambda>ts. ts = []) (resume l args)"
  using assms
  by (elim insertE emptyE; simp only: resume_cases; auto intro: plain_advance plain_ends moves_fault yields_fault split: list.split)+

text \<open>C16: A system call that returns to the user program advances the program counter exactly once. The
  calls that do not block do it at once, and need nothing more; of the others, which leave the program
  counter as it was, the code that finishes them does. \<open>Receive\<close> advances it twice, so that the program
  loses the instruction after the call, and a number that is no system call is tried again for ever.\<close>

theorem syscalls_advance_once:
  assumes "cpu s = Some m" "unat (registers m LoadReg) < NumGPRegs"
  shows "(type \<in> {SC_Create, SC_Remove, SC_Open, SC_Seek, SC_Close, SC_Connect, SC_SocketTCP, SC_Send, SC_CreateSemaphore} \<longrightarrow>
       syscall type s = Inr (ts, s') \<longrightarrow> ts = [] \<and> pc_of s' = map_option next_pc (pc_of s))
   \<and> (type \<in> {SC_Read, SC_Write, SC_Exec, SC_Join, SC_Exit, SC_Wait, SC_Signal} \<longrightarrow>
       syscall type s = Inr (ts, s') \<longrightarrow> ends_call ts \<and> pc_of s' = pc_of s)
   \<and> (l \<in> {L_CopyBack, L_NamedResult, L_Result, L_Exited} \<longrightarrow>
       resume l args s = Inr (ts, s') \<longrightarrow> ts = [] \<and> pc_of s' = map_option next_pc (pc_of s))
   \<and> ((\<forall>i. 0 \<le> setsockopt_answer (sockets (the_os s)) i) \<longrightarrow>
       syscall SC_Receive s = Inr (ts, s') \<longrightarrow> ts = [] \<and> pc_of s' = map_option (next_pc \<circ> next_pc) (pc_of s))
   \<and> (type \<notin> {0, 1, 2, 3, 4, 5, 6, 7, 8, 9, 10, 16, 17, 18, 42, 43, 44, 47, 48} \<longrightarrow> syscall type s = Inr ([], s))"
proof (intro conjI impI)
  have m: "load_ok m" using assms(2) by (simp add: load_ok_def)
  { assume t: "type \<in> {SC_Create, SC_Remove, SC_Open, SC_Seek, SC_Close, SC_Connect, SC_SocketTCP, SC_Send, SC_CreateSemaphore}"
      and r: "syscall type s = Inr (ts, s')"
    have "moves_pc next_pc (syscall type) \<and> yields (\<lambda>ts. ts = []) (syscall type)"
      using t by (elim insertE emptyE) (simp_all only: syscall_cases plain_advance plain_ends simp_thms)
    then have a: "moves_pc next_pc (syscall type)" and y: "yields (\<lambda>ts. ts = []) (syscall type)" by simp_all
    show "ts = []" using y r unfolding yields_def by blast
    show "pc_of s' = map_option next_pc (pc_of s)" by (rule moves_pc_of[OF a assms(1) m r]) }
  { assume t: "type \<in> {SC_Read, SC_Write, SC_Exec, SC_Join, SC_Exit, SC_Wait, SC_Signal}" and r: "syscall type s = Inr (ts, s')"
    have "keeps_pc (syscall type) \<and> yields ends_call (syscall type)"
      using t by (elim insertE emptyE) (simp_all only: syscall_cases blocking_keeps blocking_ends simp_thms)
    then have a: "keeps_pc (syscall type)" and y: "yields ends_call (syscall type)" by simp_all
    show "ends_call ts" using y r unfolding yields_def by blast
    show "pc_of s' = pc_of s" using moves_pc_of[OF a assms(1) m r] by (simp add: option.map_ident) }
  { assume t: "l \<in> {L_CopyBack, L_NamedResult, L_Result, L_Exited}" and r: "resume l args s = Inr (ts, s')"
    show "ts = []" using finishing(2)[OF t] r unfolding yields_def by blast
    show "pc_of s' = map_option next_pc (pc_of s)" by (rule moves_pc_of[OF finishing(1)[OF t] assms(1) m r]) }
  { assume "\<forall>i. 0 \<le> setsockopt_answer (sockets (the_os s)) i" "syscall SC_Receive s = Inr (ts, s')"
    then show "ts = []" "pc_of s' = map_option (next_pc \<circ> next_pc) (pc_of s)"
      using Receive_advances_twice[OF assms(1) m, of ts s'] by (simp_all add: syscall_cases) }
qed (simp add: syscall_def syscall_numbers give_def)

text \<open>A machine that has just been switched on, with the kernel of theory Nachos\_Kernel.\<close>

theorem syscalls_advance_once_witness:
  "\<exists>s'. syscall SC_Seek start_system = Inr ([], s') \<and> pc_of s' = Some (0, 0, 4)"
proof -
  have "syscall SC_Seek start_system = HandleSeek start_system" by (simp add: syscall_cases)
  then obtain s' where s': "syscall SC_Seek start_system = Inr ([], s')"
    by (auto simp: HandleSeek_def SysSeek_def read_int_def read_register_def write_register_def result_and_IncPC_def IncPC_def
        bind_op_def machine_op_def get_def ReadRegister_def WriteRegister_def check_def give_def Machine_new_def)
  moreover have "pc_of s' = map_option next_pc (pc_of start_system)"
    using syscalls_advance_once[of start_system "Machine_new False" SC_Seek "[]" s' 0 "[]"] s'
    by (simp add: Machine_new_def syscall_numbers)
  ultimately show ?thesis by (simp add: pc_of_def pc_regs_def next_pc_def Machine_new_def)
qed

end
