(* ===== verification/Mail_Theorems.thy ===== *)
theory Mail_Theorems imports Nachos_Kernel begin

text \<open>
  A letter from the \<open>Send\<close> of one kernel to the mail box of another: the headers and the data of the
  packet are laid out and read back alike, over the network of theory Devices.
\<close>

lemma mail_header_round_trip: "mail_header_of (mail_header_bytes h @ rest) = h"
  by (cases h) (simp add: mail_header_of_def mail_header_bytes_def Devices.word_at_def word_bytes_def
      le_word32_of_bytes[unfolded One_nat_def])

lemma length_mail_header [simp]: "length (mail_header_bytes h) = sizeof_MailHeader"
  by (simp add: mail_header_bytes_def sizeof_MailHeader_def)

text \<open>A packet that was made for a letter is read back as this letter, whatever the buffer held before.\<close>

lemma letter_of_packet_of_letter:
  assumes "packet_of_letter host pktH mailH data g = Inr (hdr, packet)" "unat (mail_to mailH) < n"
  shows "hdr = pktH\<lparr>hdr_from := host, hdr_length := mail_length mailH + 12\<rparr>"
    "unat (hdr_length hdr) = unat (mail_length mailH) + 12" "unat (hdr_length hdr) \<le> MaxPacketSize"
    "length packet = MaxPacketSize"
    "letter_of_packet hdr (take (unat (hdr_length hdr)) packet @ rest) n
       = Inr (unat (mail_to mailH), \<lparr>pktHdr = hdr, mailHdr = mailH, mail_data = take (unat (mail_length mailH)) data\<rparr>)"
proof -
  let ?l = "unat (mail_length mailH)"
  have a: "?l \<le> MaxMailSize" "0 \<le> sint (mail_to mailH)" "?l \<le> length data"
    "hdr = pktH\<lparr>hdr_from := host, hdr_length := mail_length mailH + 12\<rparr>"
    "packet = (mail_header_bytes mailH @ take ?l data) @ map g [sizeof_MailHeader + ?l..<MaxPacketSize]"
    using assms(1) by (auto simp: packet_of_letter_def Let_def outcome_simps sizeof_MailHeader_def split: if_splits)
  note sizes = MaxMailSize_def MaxPacketSize_def MaxWireSize_def sizeof_PacketHeader_def sizeof_MailHeader_def
  have l: "unat (mail_length mailH + 12) = ?l + 12"
    using a(1) by (subst unat_plus_if') (simp add: sizes)
  show "hdr = pktH\<lparr>hdr_from := host, hdr_length := mail_length mailH + 12\<rparr>" by (rule a(4))
  show len: "unat (hdr_length hdr) = ?l + 12" using a(4) l by simp
  then show "unat (hdr_length hdr) \<le> MaxPacketSize" using a(1) by (simp add: sizes)
  show "length packet = MaxPacketSize" using a by (simp add: sizes)
  have used: "take (unat (hdr_length hdr)) packet = mail_header_bytes mailH @ take ?l data"
    unfolding len a(5) using a(3) by (simp add: sizes)
  have to: "sint (mail_to mailH) < int n" using sint_nonneg[OF a(2)] assms(2) by linarith
  show "letter_of_packet hdr (take (unat (hdr_length hdr)) packet @ rest) n
       = Inr (unat (mail_to mailH), \<lparr>pktHdr = hdr, mailHdr = mailH, mail_data = take ?l data\<rparr>)"
    using a(1,2,3) to
    by (simp add: letter_of_packet_def used append_assoc mail_header_round_trip Mail_new_def outcome_simps)
qed

section \<open>From mail box to mail box\<close>

text \<open>What the worker of the receiving kernel does with a letter.\<close>

lemma deliver_letter_run:
  assumes "fst (NetworkInput_Receive r) = (hdr, bytes)"
    "letter_of_packet hdr (bytes @ drop (length bytes) (delivery_buffer (the_os r))) (length (boxes (the_os r))) = Inr (b, m)"
  obtains p r' where "deliver_letter r = Inr (SynchList_Append b @ [p, goto L_Deliver []], r')"
    "letter (the_os r') (currentThread (kern r)) = Some m" "boxes (the_os r') = boxes (the_os r)"
    "currentThread (kern r') = currentThread (kern r)"
proof -
  obtain r1 where r1: "NetworkInput_Receive r = ((hdr, bytes), r1)" "kern r1 = kern r"
    using assms(1) by (cases "NetworkInput_Receive r") (auto simp: NetworkInput_Receive_def Let_def with_network_def)
  let ?r = "upd_kernel (\<lambda>k. k\<lparr>shared := (shared k)\<lparr>delivery_buffer := bytes @ drop (length bytes) (delivery_buffer (the_os r)),
      letter := (letter (the_os r))(currentThread (kern r) \<mapsto> m)\<rparr>\<rparr>) r1"
  have "deliver_letter r = Inr (SynchList_Append b @ [Sem_P (client_semaphore (kern r) PacketAvailClient) None, goto L_Deliver []], ?r)"
    using r1 assms(2)
    by (cases "client_semaphore (kern r) PacketAvailClient")
      (simp_all add: deliver_letter_def bind_op_def ask_def upd_os_def attempt_def set_letter_def give_def
        PostalDelivery_def await_def outcome_simps upd_kernel_def)
  then show thesis by (rule that) (simp_all add: upd_kernel_def r1(2))
qed

text \<open>The worker puts the letter at the end of the box, where the next \<open>Receive\<close> of an empty box finds it.\<close>

lemma append_letter_run:
  assumes "letter (the_os r) (currentThread (kern r)) = Some m" "b < length (boxes (the_os r))"
  obtains r' where "append_letter b r = Inr ([], r')"
    "boxes (the_os r') = (boxes (the_os r))[b := boxes (the_os r) ! b @ [m]]"
  using assms
  by (auto simp: append_letter_def the_letter_def bind_op_def ask_def upd_os_def attempt_def give_def outcome_simps
      get_def arr_get_def upd_kernel_def)

lemma remove_letter_run:
  assumes "boxes (the_os r) ! b = m # ms" "b < length (boxes (the_os r))"
  obtains r' where "remove_letter b r = Inr ([Release (BoxLock b), goto L_Received []], r')"
    "letter (the_os r') (currentThread (kern r)) = Some m" "boxes (the_os r') = (boxes (the_os r))[b := ms]"
  using assms
  by (auto simp: remove_letter_def set_letter_def bind_op_def ask_def upd_os_def attempt_def give_def outcome_simps
      get_def arr_get_def upd_kernel_def)

lemma PostOffice_Send_run:
  assumes "PostOffice_Send pktH mailH data s = Inr (ts, s1)"
  obtains hdr packet where
    "packet_of_letter (hostName (network (world s))) pktH mailH data (garbage (world s)) = Inr (hdr, packet)"
    "outgoing (the_os s1) (currentThread (kern s)) = Some (hdr, packet)"
  using assms
  by (cases "packet_of_letter (hostName (network (world s))) pktH mailH data (garbage (world s))")
    (auto simp: PostOffice_Send_def bind_op_def ask_def upd_os_def attempt_def give_def outcome_simps await_def upd_kernel_def)

lemma PostOffice_Send_total:
  assumes "packet_of_letter (hostName (network (world s))) pktH mailH data (garbage (world s)) = Inr p"
  obtains ts s1 where "PostOffice_Send pktH mailH data s = Inr (ts, s1)" "currentThread (kern s1) = currentThread (kern s)"
    "network (world s1) = network (world s)" "rand_stream (world s1) = rand_stream (world s)"
  using assms
  by (auto simp: PostOffice_Send_def bind_op_def ask_def upd_os_def attempt_def give_def outcome_simps await_def upd_kernel_def
      set_kernel_def)

text \<open>C18: A letter that the network does not lose arrives as it was sent. \<open>PostOfficeOutput::Send\<close> makes a packet of it,
  which its thread sends once it has the lock, in a state of the same host where this thread's packet is
  still the one it made. The network puts one datagram on the wire, for the host that the packet header names. When
  that host finds the datagram in its socket, its postal worker makes of it a letter with the headers that were
  sent and the bytes of the data, as many as the mail header says, for the box that the mail header names,
  and appends it to this box.\<close>

theorem mail_arrives:
  assumes "PostOffice_Send pktH mailH data s = Inr (ts, s1)"
    "currentThread (kern s2) = currentThread (kern s)"
    "outgoing (the_os s2) (currentThread (kern s)) = outgoing (the_os s1) (currentThread (kern s))"
    "hostName (network (world s2)) = hostName (network (world s))" "\<not> sendBusy (network (world s2))"
    "real_of_int (uint (rand_stream (world s2) (rand_pos (world s2)) mod 100)) < chanceToWork (network (world s2)) * 100"
  shows "\<exists>s3 b. send_packet s2 = Inr ([], s3)
    \<and> wire_out (network (world s3)) = wire_out (network (world s2)) @ [(hdr_to pktH, b)]
    \<and> (\<forall>r es. hostName (network (world r)) = hdr_to pktH \<longrightarrow> hdr_length (inHdr (network (world r))) = 0 \<longrightarrow>
         wire_in (network (world r)) = Some b # es \<longrightarrow> unat (mail_to mailH) < length (boxes (the_os r)) \<longrightarrow>
         (\<exists>r1 p r2 r3. NetworkInput_CallBack (\<lambda>c s. Inr s) r = Inr r1
           \<and> deliver_letter r1 = Inr (SynchList_Append (unat (mail_to mailH)) @ [p, goto L_Deliver []], r2)
           \<and> append_letter (unat (mail_to mailH)) r2 = Inr ([], r3)
           \<and> boxes (the_os r3) = (boxes (the_os r))[unat (mail_to mailH) := boxes (the_os r) ! unat (mail_to mailH) @
               [\<lparr>pktHdr = pktH\<lparr>hdr_from := hostName (network (world s)), hdr_length := mail_length mailH + 12\<rparr>,
                 mailHdr = mailH, mail_data = take (unat (mail_length mailH)) data\<rparr>]]))"
proof -
  obtain hdr packet where p:
    "packet_of_letter (hostName (network (world s))) pktH mailH data (garbage (world s)) = Inr (hdr, packet)"
    "outgoing (the_os s1) (currentThread (kern s)) = Some (hdr, packet)"
    by (rule PostOffice_Send_run[OF assms(1)])
  note l = letter_of_packet_of_letter[OF p(1), of "Suc (unat (mail_to mailH))", simplified]
  have "0 < hdr_length hdr" using l(2) by (simp add: word_greater_zero_iff flip: unat_gt_0)
  moreover have "hdr_from hdr = hostName (network (world s2))" using l(1) assms(4) by simp
  ultimately obtain s3 b where b: "NetworkOutput_Send hdr packet s2 = Inr s3" "length b = MaxWireSize" "header_of b = hdr"
    "take (unat (hdr_length hdr)) (drop sizeof_PacketHeader b) = take (unat (hdr_length hdr)) packet"
    "wire_out (network (world s3)) = wire_out (network (world s2)) @ [(hdr_to hdr, b)]"
    using Send_run[OF assms(5) _ l(3) _ _ assms(6), of packet] l(3,4) by auto
  have send: "send_packet s2 = Inr ([], s3)"
    using assms(3) p(2) b(1) by (simp add: send_packet_def bind_op_def ask_def attempt_def give_def device_op_def outcome_simps
        get_def assms(2))
  have arrives: "\<exists>r1 p r2 r3. NetworkInput_CallBack (\<lambda>c s. Inr s) r = Inr r1
      \<and> deliver_letter r1 = Inr (SynchList_Append (unat (mail_to mailH)) @ [p, goto L_Deliver []], r2)
      \<and> append_letter (unat (mail_to mailH)) r2 = Inr ([], r3)
      \<and> boxes (the_os r3) = (boxes (the_os r))[unat (mail_to mailH) := boxes (the_os r) ! unat (mail_to mailH) @
            [\<lparr>pktHdr = hdr, mailHdr = mailH, mail_data = take (unat (mail_length mailH)) data\<rparr>]]"
    if r: "hostName (network (world r)) = hdr_to pktH" "hdr_length (inHdr (network (world r))) = 0"
      "wire_in (network (world r)) = Some b # es" "unat (mail_to mailH) < length (boxes (the_os r))" for r :: "os system" and es
  proof -
    have n: "length (take (unat (hdr_length hdr)) packet) = unat (hdr_length hdr)" using l(3,4) by simp
    have to: "hdr_to hdr = hdr_to pktH" "0 < hdr_length hdr" using l(1) \<open>0 < hdr_length hdr\<close> by simp_all
    obtain r1 where r1: "NetworkInput_CallBack (\<lambda>c s. Inr s) r = Inr r1"
      "fst (NetworkInput_Receive r1) = (hdr, take (unat (hdr_length hdr)) packet)" "kern r1 = kern r"
      by (rule receive_run[OF r(1)[folded to(1)] r(2,3) to(2) l(3) b(2,3,4) n])
    have d: "letter_of_packet hdr (take (unat (hdr_length hdr)) packet @ rest) (length (boxes (the_os r1)))
       = Inr (unat (mail_to mailH), \<lparr>pktHdr = hdr, mailHdr = mailH, mail_data = take (unat (mail_length mailH)) data\<rparr>)" for rest
      using letter_of_packet_of_letter(5)[OF p(1)] r(4) r1(3) by simp
    obtain q r2 where r2: "deliver_letter r1 = Inr (SynchList_Append (unat (mail_to mailH)) @ [q, goto L_Deliver []], r2)"
      "letter (the_os r2) (currentThread (kern r1)) = Some \<lparr>pktHdr = hdr, mailHdr = mailH, mail_data = take (unat (mail_length mailH)) data\<rparr>"
      "boxes (the_os r2) = boxes (the_os r1)" "currentThread (kern r2) = currentThread (kern r1)"
      by (rule deliver_letter_run[OF r1(2) d])
    obtain r3 where "append_letter (unat (mail_to mailH)) r2 = Inr ([], r3)"
      "boxes (the_os r3) = (boxes (the_os r2))[unat (mail_to mailH) := boxes (the_os r2) ! unat (mail_to mailH) @
            [\<lparr>pktHdr = hdr, mailHdr = mailH, mail_data = take (unat (mail_length mailH)) data\<rparr>]]"
      using append_letter_run[OF r2(2)[folded r2(4)], of "unat (mail_to mailH)"] r(4) r1(3) r2(3) by auto
    then show ?thesis using r1 r2 by auto
  qed
  have hdr: "hdr = pktH\<lparr>hdr_from := hostName (network (world s)), hdr_length := mail_length mailH + 12\<rparr>" "hdr_to hdr = hdr_to pktH"
    using l(1) by simp_all
  show ?thesis
    using send b(5) arrives unfolding hdr(1)[symmetric] hdr(2) by blast
qed

theorem mail_arrives_witness:
  "\<exists>ts s1 s2. PostOffice_Send \<lparr>hdr_to = 1, hdr_from = 0, hdr_length = 0\<rparr> \<lparr>mail_to = 3, mail_from = 1, mail_length = 2\<rparr>
       [72, 105, 33] start_system = Inr (ts, s1) \<and> send_packet s1 = Inr ([], s2)"
proof -
  obtain p where p: "packet_of_letter 0 \<lparr>hdr_to = 1, hdr_from = 0, hdr_length = 0\<rparr>
      \<lparr>mail_to = 3, mail_from = 1, mail_length = 2\<rparr> [72, 105, 33] (\<lambda>_. 0) = Inr p"
    by (simp add: packet_of_letter_def sizeof_MailHeader_def MaxMailSize_def MaxPacketSize_def MaxWireSize_def
        sizeof_PacketHeader_def)
  have w: "network (world start_system) = network start_world" "rand_stream (world start_system) = (\<lambda>_. 0)"
    "garbage (world start_system) = (\<lambda>_. 0)" "hostName (network start_world) = 0" "\<not> sendBusy (network start_world)"
    "chanceToWork (network start_world) = 1"
    by (simp_all add: start_system_def start_world_def Interrupt_new_def fresh_hardware_def)
  obtain ts s1 where s1: "PostOffice_Send \<lparr>hdr_to = 1, hdr_from = 0, hdr_length = 0\<rparr>
      \<lparr>mail_to = 3, mail_from = 1, mail_length = 2\<rparr> [72, 105, 33] start_system = Inr (ts, s1)"
    "currentThread (kern s1) = currentThread (kern start_system)" "network (world s1) = network (world start_system)"
    "rand_stream (world s1) = rand_stream (world start_system)"
    by (rule PostOffice_Send_total[of start_system]) (use p w in simp_all)
  then show ?thesis using mail_arrives[OF s1(1,2)] w by auto
qed

end
