(* ===== verification/User_Memory.thy ===== *)
theory User_Memory imports Nachos_Kernel begin

text \<open>
  The memory of the user program as the kernel sees it when it copies strings and buffers (userprog/exception\_utils.h:
  \<open>User2System\<close> and \<open>System2User\<close>), for a linear page table whose valid pages are in different frames.
\<close>

section \<open>Accesses of one byte\<close>

definition can_access :: "bool \<Rightarrow> machine \<Rightarrow> u32 \<Rightarrow> bool" where
  "can_access w m a \<longleftrightarrow> (\<exists>pt. linear m pt \<and> access_check pt (unat (pageTableSize m)) a 1 w = NoException)"

definition place :: "machine \<Rightarrow> u32 \<Rightarrow> nat" where
  "place m a = physical_address (the (pageTable m)) a"

text \<open>The page table but for the bits that record accesses.\<close>

definition mapping :: "machine \<Rightarrow> bool \<times> u32 \<times> (u32 \<times> bool \<times> bool) list option" where
  "mapping m = (tlb m = None, pageTableSize m, map_option (map (\<lambda>e. (physicalPage e, valid e, readOnly e))) (pageTable m))"

lemma mapping_memory [simp]: "mapping (m\<lparr>mainMemory := mem\<rparr>) = mapping m"
  by (simp add: mapping_def)

lemma map_touched: "(\<And>x. f (g x) = f x) \<Longrightarrow> map f (xs[i := g (xs ! i)]) = map f xs"
  by (cases "i < length xs") (auto simp: map_update list_update_same_conv list_update_beyond)

lemma mapping_touch [simp]: "mapping (touch_page w a m) = mapping m"
  by (cases "pageTable m") (simp_all add: mapping_def touch_page_def Let_def map_touched)

lemma mapping_access:
  assumes "mapping m' = mapping m"
  shows "can_access w m' a = can_access w m a" "can_access w m a \<Longrightarrow> place m' a = place m a"
proof -
  have one: "can_access w m' a \<and> place m' a = place m a" if acc: "can_access w m a" and eq: "mapping m' = mapping m" for m m'
  proof -
    obtain pt where pt: "linear m pt" "access_check pt (unat (pageTableSize m)) a 1 w = NoException"
      using acc unfolding can_access_def by blast
    obtain pt' where pt': "pageTable m' = Some pt'" "tlb m' = None" "pageTableSize m' = pageTableSize m"
      "map (\<lambda>e. (physicalPage e, valid e, readOnly e)) pt' = map (\<lambda>e. (physicalPage e, valid e, readOnly e)) pt"
      using eq pt(1) unfolding mapping_def linear_def by auto
    have n: "length pt' = length pt" by (rule map_eq_imp_length_eq[OF pt'(4)])
    have l: "linear m' pt'" using pt' pt(1) n by (simp add: linear_def)
    have v: "unat a div PageSize < length pt"
      using pt by (auto simp: access_check_def Let_def linear_def split: if_splits)
    have "(\<lambda>e. (physicalPage e, valid e, readOnly e)) (pt' ! (unat a div PageSize)) = (\<lambda>e. (physicalPage e, valid e, readOnly e)) (pt ! (unat a div PageSize))"
      using arg_cong[OF pt'(4), of "\<lambda>xs. xs ! (unat a div PageSize)"] v n by simp
    then have "access_check pt' (unat (pageTableSize m')) a 1 w = access_check pt (unat (pageTableSize m)) a 1 w"
      "physical_address pt' a = physical_address pt a"
      using pt'(3) by (simp_all add: access_check_def Let_def physical_address_def)
    then show ?thesis using pt pt'(1) l by (auto simp: can_access_def place_def linear_def)
  qed
  show "can_access w m' a = can_access w m a" using one[of m m'] one[of m' m] assms by metis
  show "can_access w m a \<Longrightarrow> place m' a = place m a" using one[of m m'] assms by blast
qed

lemma write_accessible:
  assumes "can_access True m a"
  obtains m' where "WriteMem a 1 v m = Done m'" "mapping m' = mapping m" "mainMemory m' = (mainMemory m)(place m a := word_byte 0 v)"
proof -
  obtain pt where pt: "linear m pt" "access_check pt (unat (pageTableSize m)) a 1 True = NoException"
    using assms unfolding can_access_def by blast
  have pa: "place m a = physical_address pt a" using pt(1) by (simp add: place_def linear_def)
  obtain mem where mem: "memory_store 1 (physical_address pt a) v (mainMemory m) = Inr mem"
    "WriteMem a 1 v m = Done ((touch_page True a m)\<lparr>mainMemory := mem\<rparr>)"
    using access_linear(1)[OF pt(1) _ pt(2) TrueI, of v] by blast
  have "mem = (mainMemory m)(place m a := word_byte 0 v)" using mem(1) unfolding memory_store_def pa by simp
  with that[OF mem(2)] show thesis by simp
qed

lemma read_accessible:
  assumes "can_access False m a"
  obtains m' where "ReadMem a 1 m = Done (scast (mainMemory m (place m a)), m')" "mapping m' = mapping m" "mainMemory m' = mainMemory m"
proof -
  obtain pt where pt: "linear m pt" "access_check pt (unat (pageTableSize m)) a 1 False = NoException"
    using assms unfolding can_access_def by blast
  have pa: "place m a = physical_address pt a" using pt(1) by (simp add: place_def linear_def)
  obtain x where x: "memory_load 1 (physical_address pt a) (mainMemory m) = Inr x" "ReadMem a 1 m = Done (x, touch_page False a m)"
    using access_linear(2)[OF pt(1) _ pt(2)] by blast
  have "x = scast (mainMemory m (place m a))" using x(1) unfolding memory_load_def pa by simp
  with that[of "touch_page False a m"] x(2) show thesis by simp
qed

section \<open>Copying\<close>

text \<open>The addresses of a range that can be written and read, in different places of the memory.\<close>

definition user_range :: "machine \<Rightarrow> u32 \<Rightarrow> nat \<Rightarrow> bool" where
  "user_range m a n \<longleftrightarrow> (\<forall>i < n. can_access True m (a + of_nat i)) \<and> inj_on (\<lambda>i. place m (a + of_nat i)) {..<n}"

lemma user_range_mapping:
  assumes "mapping m' = mapping m"
  shows "user_range m' a n = user_range m a n"
  unfolding user_range_def
proof (rule conj_cong)
  show "(\<forall>i < n. can_access True m' (a + of_nat i)) = (\<forall>i < n. can_access True m (a + of_nat i))"
    by (simp add: mapping_access(1)[OF assms])
next
  assume acc: "\<forall>i < n. can_access True m (a + of_nat i)"
  show "inj_on (\<lambda>i. place m' (a + of_nat i)) {..<n} = inj_on (\<lambda>i. place m (a + of_nat i)) {..<n}"
    by (rule inj_on_cong) (use mapping_access(2)[OF assms] acc in blast)
qed

lemma can_write_read: "can_access True m a \<Longrightarrow> can_access False m a"
  by (auto simp: can_access_def access_check_def Let_def split: if_splits)

lemma user_range_Suc:
  assumes "user_range m a (Suc n)"
  shows "can_access True m a" "user_range m (a + 1) n" "\<And>i. i < n \<Longrightarrow> place m (a + 1 + of_nat i) \<noteq> place m a"
proof -
  have eq: "a + 1 + of_nat i = a + of_nat (Suc i)" for i by (simp add: algebra_simps)
  have acc: "can_access True m (a + of_nat i)" if "i < Suc n" for i using assms that by (simp add: user_range_def del: of_nat_Suc)
  have inj: "i = j" if "i < Suc n" "j < Suc n" "place m (a + of_nat i) = place m (a + of_nat j)" for i j
    using assms that unfolding user_range_def inj_on_def by blast
  show "can_access True m a" using acc[of 0] by simp
  show "user_range m (a + 1) n"
    unfolding user_range_def eq
  proof (intro conjI allI impI inj_onI)
    fix i j assume ij: "i \<in> {..<n}" "j \<in> {..<n}" "place m (a + of_nat (Suc i)) = place m (a + of_nat (Suc j))"
    have "Suc i = Suc j" by (rule inj[OF _ _ ij(3)]) (use ij(1,2) in simp_all)
    then show "i = j" by simp
  qed (use acc in blast)
  show "place m (a + 1 + of_nat i) \<noteq> place m a" if "i < n" for i
  proof
    assume "place m (a + 1 + of_nat i) = place m a"
    then have "place m (a + of_nat (Suc i)) = place m (a + of_nat 0)" by (simp add: eq del: of_nat_Suc)
    then show False using inj[of "Suc i" 0] that by blast
  qed
qed

text \<open>What is copied of a buffer: up to and with the first zero byte.\<close>

definition copied :: "nat \<Rightarrow> u8 list \<Rightarrow> nat" where
  "copied n buffer = min n (Suc (length (takeWhile (\<lambda>b. b \<noteq> 0) (take n buffer))))"

lemma byte_of_scast: "word_byte 0 (scast (b :: u8) :: u32) = b"
  by (rule bit_word_eqI) (auto simp: bit_word_byte bit_signed_iff)

lemma same_cpu: "cpu s = Some m \<Longrightarrow> s\<lparr>cpu := Some m\<rparr> = s"
  by (cases s) simp

lemma copy_out_run:
  assumes "cpu s = Some m" "user_range m a n" "n \<le> length buffer"
  shows "\<exists>m'. copy_out n a buffer s = Inr (int (copied n buffer), s\<lparr>cpu := Some m'\<rparr>) \<and> mapping m' = mapping m
    \<and> (\<forall>i < copied n buffer. mainMemory m' (place m (a + of_nat i)) = buffer ! i)
    \<and> (\<forall>p. p \<notin> (\<lambda>i. place m (a + of_nat i)) ` {..<copied n buffer} \<longrightarrow> mainMemory m' p = mainMemory m p)"
  using assms
proof (induction n arbitrary: a buffer s m)
  case 0
  then show ?case by (intro exI[of _ m]) (simp add: copied_def give_def same_cpu)
next
  case (Suc n)
  obtain b bs where buffer: "buffer = b # bs" "n \<le> length bs" using Suc.prems(3) by (cases buffer) auto
  note u = user_range_Suc[OF Suc.prems(2)]
  obtain m1 where m1: "WriteMem a 1 (scast b) m = Done m1" "mapping m1 = mapping m"
    "mainMemory m1 = (mainMemory m)(place m a := b)"
    by (rule write_accessible[OF u(1), of "scast b", unfolded byte_of_scast])
  have w: "write_byte a (scast b) s = Inr (Some (), s\<lparr>cpu := Some m1\<rparr>)"
    using Suc.prems(1) m1(1) by (simp add: write_byte_def mem_op_def get_def)
  show ?case
  proof (cases "b = 0")
    case True
    then have "copied (Suc n) buffer = 1" by (simp add: copied_def buffer)
    then show ?thesis using True w m1 by (intro exI[of _ m1]) (simp add: buffer bind_op_def give_def lessThan_Suc)
  next
    case False
    then have c: "copied (Suc n) buffer = Suc (copied n bs)" by (simp add: copied_def buffer)
    obtain m2 where m2: "copy_out n (a + 1) bs (s\<lparr>cpu := Some m1\<rparr>) = Inr (int (copied n bs), s\<lparr>cpu := Some m2\<rparr>)"
      "mapping m2 = mapping m1" "\<forall>i < copied n bs. mainMemory m2 (place m1 (a + 1 + of_nat i)) = bs ! i"
      "\<forall>p. p \<notin> (\<lambda>i. place m1 (a + 1 + of_nat i)) ` {..<copied n bs} \<longrightarrow> mainMemory m2 p = mainMemory m1 p"
      using Suc.IH[of "s\<lparr>cpu := Some m1\<rparr>" m1 "a + 1" bs] u(2) buffer(2) user_range_mapping[OF m1(2)] by auto
    have le: "copied n bs \<le> n" by (simp add: copied_def)
    have same: "place m1 (a + 1 + of_nat i) = place m (a + of_nat (Suc i))" if "i < n" for i
    proof -
      have "place m1 (a + 1 + of_nat i) = place m (a + 1 + of_nat i)"
        using mapping_access(2)[OF m1(2)] u(2) that unfolding user_range_def by blast
      then show ?thesis by (simp add: algebra_simps)
    qed
    have image: "(\<lambda>i. place m (a + of_nat i)) ` {..<Suc (copied n bs)}
        = insert (place m a) ((\<lambda>i. place m1 (a + 1 + of_nat i)) ` {..<copied n bs})"
      unfolding lessThan_Suc_eq_insert_0 image_insert image_image using same le by (auto simp del: of_nat_Suc)
    have other: "place m a \<notin> (\<lambda>i. place m1 (a + 1 + of_nat i)) ` {..<copied n bs}"
    proof
      assume "place m a \<in> (\<lambda>i. place m1 (a + 1 + of_nat i)) ` {..<copied n bs}"
      then obtain i where "i < copied n bs" "place m a = place m1 (a + 1 + of_nat i)" by blast
      then have i: "i < n" "place m a = place m1 (a + 1 + of_nat i)" using le by simp_all
      have "place m1 (a + 1 + of_nat i) = place m (a + 1 + of_nat i)" using same[OF i(1)] by (simp add: algebra_simps)
      then show False using u(3)[OF i(1)] i(2) by simp
    qed
    have "copy_out (Suc n) a buffer s = Inr (int (copied (Suc n) buffer), s\<lparr>cpu := Some m2\<rparr>)"
      using w m2(1) False c[unfolded buffer(1)] by (simp add: buffer(1) bind_op_def give_def)
    moreover have "mainMemory m2 (place m (a + of_nat i)) = buffer ! i" if "i < Suc (copied n bs)" for i
    proof (cases i)
      case 0
      then show ?thesis using m2(4) other m1(3) buffer(1) by simp
    next
      case (Suc j)
      have j: "j < copied n bs" "j < n" using that Suc le by simp_all
      then show ?thesis using m2(3)[rule_format, OF j(1)] same[OF j(2)] buffer(1) Suc by (simp del: of_nat_Suc)
    qed
    moreover have "mainMemory m2 p = mainMemory m p" if "p \<notin> insert (place m a) ((\<lambda>i. place m1 (a + 1 + of_nat i)) ` {..<copied n bs})" for p
      using m2(4) m1(3) that by simp
    ultimately show ?thesis unfolding c image using m2(2) m1(2) by (intro exI[of _ m2]) (simp del: of_nat_Suc)
  qed
qed

text \<open>Reading back.\<close>

lemma copy_in_run:
  assumes "cpu s = Some m" "\<forall>i < n. can_access False m (a + of_nat i)"
  shows "\<exists>m'. copy_in n a c s =
      Inr (let t = takeWhile (\<lambda>b. b \<noteq> 0) (map (\<lambda>i. mainMemory m (place m (a + of_nat i))) [0..<n])
        in t @ (if length t < n then [0] else []), s\<lparr>cpu := Some m'\<rparr>)
    \<and> mapping m' = mapping m \<and> mainMemory m' = mainMemory m"
  using assms
proof (induction n arbitrary: a c s m)
  case 0
  then show ?case by (intro exI[of _ m]) (simp add: give_def same_cpu)
next
  case (Suc n)
  let ?b = "mainMemory m (place m a)"
  have a: "can_access False m a" using Suc.prems(2)[rule_format, of 0] by simp
  have as: "can_access False m (a + 1 + of_nat i)" if "i < n" for i
    using Suc.prems(2)[rule_format, of "Suc i"] that by (simp add: algebra_simps)
  obtain m1 where m1: "ReadMem a 1 m = Done (scast ?b, m1)" "mapping m1 = mapping m" "mainMemory m1 = mainMemory m"
    by (rule read_accessible[OF a])
  have r: "read_byte a s = Inr (Some (scast ?b), s\<lparr>cpu := Some m1\<rparr>)"
    using Suc.prems(1) m1(1) by (simp add: read_byte_def mem_op_def get_def)
  have z: "scast ?b = (0 :: u32) \<longleftrightarrow> ?b = 0" by (metis byte_of_scast signed_0)
  have u: "ucast (scast ?b :: u32) = ?b" using byte_of_scast[of ?b] by (simp add: word_byte_def)
  have m': "place m1 (a + 1 + of_nat i) = place m (a + 1 + of_nat i)" if "i < n" for i
    using mapping_access(2)[OF m1(2) as[OF that]] by simp
  have "\<forall>i < n. can_access False m1 (a + 1 + of_nat i)" using as mapping_access(1)[OF m1(2)] by simp
  then obtain m2 where m2: "copy_in n (a + 1) (Some (scast ?b)) (s\<lparr>cpu := Some m1\<rparr>) =
      Inr (let t = takeWhile (\<lambda>b. b \<noteq> 0) (map (\<lambda>i. mainMemory m1 (place m1 (a + 1 + of_nat i))) [0..<n])
        in t @ (if length t < n then [0] else []), s\<lparr>cpu := Some m2\<rparr>)" "mapping m2 = mapping m1" "mainMemory m2 = mainMemory m1"
    using Suc.IH[of "s\<lparr>cpu := Some m1\<rparr>" m1 "a + 1" "Some (scast ?b)"] by auto
  have tail: "map (\<lambda>i. mainMemory m1 (place m1 (a + 1 + of_nat i))) [0..<n] = map (\<lambda>i. mainMemory m (place m (a + of_nat i))) [Suc 0..<Suc n]"
    unfolding map_Suc_upt[symmetric] map_map comp_def using m' m1(3) by (simp add: algebra_simps)
  have "map (\<lambda>i. mainMemory m (place m (a + of_nat i))) [0..<Suc n] = ?b # map (\<lambda>i. mainMemory m (place m (a + of_nat i))) [Suc 0..<Suc n]"
    by (simp add: upt_conv_Cons del: upt_Suc)
  then have "copy_in (Suc n) a c s =
      Inr (let t = takeWhile (\<lambda>b. b \<noteq> 0) (map (\<lambda>i. mainMemory m (place m (a + of_nat i))) [0..<Suc n])
        in t @ (if length t < Suc n then [0] else []), s\<lparr>cpu := Some (if ?b = 0 then m1 else m2)\<rparr>)"
    using r m2 m1(3) z u tail by (cases "?b = 0") (simp_all add: bind_op_def give_def Let_def del: upt_Suc)
  then show ?case using m1(2,3) m2(2,3) by (intro exI[of _ "if ?b = 0 then m1 else m2"]) simp
qed

lemma takeWhile_prefix:
  assumes "length xs = n" "n \<le> length buffer" "\<forall>i < copied n buffer. xs ! i = buffer ! i"
  shows "takeWhile (\<lambda>b. b \<noteq> 0) xs = takeWhile (\<lambda>b. b \<noteq> 0) (take n buffer)"
proof -
  let ?t = "takeWhile (\<lambda>b. b \<noteq> 0) (take n buffer)"
  have k: "take (copied n buffer) xs = take (copied n buffer) buffer"
    by (rule nth_equalityI) (use assms in \<open>auto simp: copied_def\<close>)
  show ?thesis
  proof (cases "length ?t < n")
    case True
    have c: "copied n buffer = Suc (length ?t)" using True by (simp add: copied_def)
    have l: "length ?t < length (take n buffer)" using True assms(2) by simp
    have "take (Suc (length ?t)) (take n buffer) = ?t @ [0]"
      unfolding take_Suc_conv_app_nth[OF l] using nth_length_takeWhile[OF l] takeWhile_eq_take[of "\<lambda>b. b \<noteq> 0" "take n buffer"] by simp
    then have "take (Suc (length ?t)) xs = ?t @ [0]" using k[unfolded c] True by (simp add: min_absorb1 Suc_leI)
    then have xs: "xs = (?t @ [0]) @ drop (Suc (length ?t)) xs" using append_take_drop_id[of "Suc (length ?t)" xs] by simp
    have "takeWhile (\<lambda>b. b \<noteq> 0) ((?t @ [0]) @ r) = ?t" for r
      unfolding append_assoc by (subst takeWhile_append2) (auto dest: set_takeWhileD)
    from trans[OF arg_cong[where f = "takeWhile (\<lambda>b. b \<noteq> 0)", OF xs] this] show ?thesis .
  next
    case False
    then have "copied n buffer = n" by (simp add: copied_def)
    then show ?thesis using k assms(1) by simp
  qed
qed

text \<open>C17: What the kernel copies to the user program it can copy back. When the pages of a buffer of the program are
  valid, writable and in different frames, \<open>System2User\<close> copies the bytes up to and with the first zero and
  returns how many these are, it changes no other byte of the memory, and
  \<open>User2System\<close> then returns the bytes before that zero, filled up with zeros to one more than the size of the
  buffer.\<close>

theorem buffers_round_trip:
  assumes "cpu s = Some m" "user_range m a n" "n \<le> length buffer"
  shows "\<exists>m1 m2. System2User a (int n) buffer s = Inr (int (copied n buffer), s\<lparr>cpu := Some m1\<rparr>)
    \<and> (\<forall>p. p \<notin> (\<lambda>i. place m (a + of_nat i)) ` {..<copied n buffer} \<longrightarrow> mainMemory m1 p = mainMemory m p)
    \<and> User2System a (int n) (s\<lparr>cpu := Some m1\<rparr>)
        = Inr (let t = takeWhile (\<lambda>b. b \<noteq> 0) (take n buffer) in t @ replicate (Suc n - length t) 0, s\<lparr>cpu := Some m2\<rparr>)"
proof -
  obtain m1 where m1: "copy_out n a buffer s = Inr (int (copied n buffer), s\<lparr>cpu := Some m1\<rparr>)" "mapping m1 = mapping m"
    "\<forall>i < copied n buffer. mainMemory m1 (place m (a + of_nat i)) = buffer ! i"
    "\<forall>p. p \<notin> (\<lambda>i. place m (a + of_nat i)) ` {..<copied n buffer} \<longrightarrow> mainMemory m1 p = mainMemory m p"
    using copy_out_run[OF assms] by blast
  have acc: "can_access False m (a + of_nat i)" if "i < n" for i
    using assms(2) can_write_read that unfolding user_range_def by blast
  let ?xs = "map (\<lambda>i. mainMemory m1 (place m1 (a + of_nat i))) [0..<n]"
  obtain m2 where m2: "copy_in n a None (s\<lparr>cpu := Some m1\<rparr>) =
      Inr (let t = takeWhile (\<lambda>b. b \<noteq> 0) ?xs in t @ (if length t < n then [0] else []), s\<lparr>cpu := Some m1, cpu := Some m2\<rparr>)"
    using copy_in_run[of "s\<lparr>cpu := Some m1\<rparr>" m1 n a None] acc mapping_access(1)[OF m1(2)] by auto
  have "?xs ! i = buffer ! i" if "i < copied n buffer" for i
  proof -
    have "i < n" using that by (simp add: copied_def)
    then show ?thesis using m1(3) that mapping_access(2)[OF m1(2) acc] by simp
  qed
  then have t: "takeWhile (\<lambda>b. b \<noteq> 0) ?xs = takeWhile (\<lambda>b. b \<noteq> 0) (take n buffer)"
    by (intro takeWhile_prefix assms(3)) simp_all
  have len: "length (takeWhile (\<lambda>b. b \<noteq> 0) (take n buffer)) \<le> n"
    by (metis length_takeWhile_le length_take le_trans min.cobounded2)
  have "System2User a (int n) buffer s = Inr (int (copied n buffer), s\<lparr>cpu := Some m1\<rparr>)"
    using m1(1) by (cases "n = 0") (simp_all add: System2User_def give_def)
  moreover have "User2System a (int n) (s\<lparr>cpu := Some m1\<rparr>)
        = Inr (let t = takeWhile (\<lambda>b. b \<noteq> 0) (take n buffer) in t @ replicate (Suc n - length t) 0, s\<lparr>cpu := Some m2\<rparr>)"
    using m2 len unfolding t
    by (auto simp: User2System_def bind_op_def attempt_def give_def Let_def nat_int_add Suc_diff_le nat_add_distrib
        simp flip: replicate_Suc replicate_app_Cons_same)
  ultimately show ?thesis using m1(4) by blast
qed

theorem buffers_round_trip_witness:
  "let s = start_system\<lparr>cpu := Some (with_table (one_page 3 False) 1 (Machine_new False))\<rparr>
   in \<exists>s1 s2. System2User 8 3 [72, 105, 0, 33] s = Inr (3, s1) \<and> User2System 8 3 s1 = Inr ([72, 105, 0, 0], s2)"
proof -
  let ?m = "with_table (one_page 3 False) 1 (Machine_new False)"
  have n: "{..<3 :: nat} = {0, 1, 2}" by auto
  have "access_check (one_page 3 False) (unat (1 :: u32)) a 1 True = NoException" if "a \<in> {8, 9, 10}" for a
    using that by (auto simp: access_check_def one_page_def Let_def machine_sizes)
  then have "can_access True ?m a" if "a \<in> {8, 9, 10}" for a
    unfolding can_access_def one_page_machine(3) using one_page_machine(1) that by blast
  then have "can_access True ?m (8 + of_nat i)" if "i < 3" for i
  proof -
    have "i = 0 \<or> i = 1 \<or> i = 2" using that by linarith
    then have "8 + of_nat i \<in> {8, 9, 10 :: u32}" by (elim disjE) simp_all
    then show ?thesis by (rule \<open>\<And>a. a \<in> {8, 9, 10} \<Longrightarrow> can_access True ?m a\<close>)
  qed
  moreover have "inj_on (\<lambda>i. place ?m (8 + of_nat i)) {..<3}"
    unfolding n by (auto simp: inj_on_def place_def physical_address_def with_table_def one_page_def machine_sizes)
  ultimately have "user_range ?m 8 3" by (simp add: user_range_def)
  moreover have tk: "takeWhile (\<lambda>b. b \<noteq> 0) (take 3 [72, 105, 0, 33]) = [72, 105 :: u8]" by simp
  moreover have "copied 3 [72, 105, 0, 33] = 3" unfolding copied_def tk by simp
  ultimately show ?thesis
    using buffers_round_trip[of "start_system\<lparr>cpu := Some ?m\<rparr>" ?m 8 3 "[72, 105, 0, 33]"]
    by (auto simp: Let_def numeral_2_eq_2)
qed

end
