(* ===== verification/File_Theorems.thy ===== *)
theory File_Theorems imports Nachos_Kernel begin

text \<open>
  The files of user programs (userprog/FileManager.h): a file that is open in standard mode is a log that is read
  from an offset and written at its end, and closing a file takes its number for a place in the table.
\<close>

section \<open>A file as its user sees it\<close>

text \<open>The contents and the offset. A read that finds fewer bytes than asked for answers -2, and a seek to
  the last byte of the file or past it is refused.\<close>

definition log_read :: "nat \<Rightarrow> u8 list \<times> nat \<Rightarrow> int \<times> u8 list \<times> (u8 list \<times> nat)" where
  "log_read n f = (case f of (c, offset) \<Rightarrow>
     let bytes = take n (drop offset c) in (if length bytes < n then - 2 else int n, bytes, c, offset + length bytes))"

definition log_write :: "u8 list \<Rightarrow> u8 list \<times> nat \<Rightarrow> u8 list \<times> nat" where
  "log_write bytes f = (case f of (c, offset) \<Rightarrow> (c @ bytes, offset))"

definition log_seek :: "int \<Rightarrow> u8 list \<times> nat \<Rightarrow> int \<times> u8 list \<times> nat" where
  "log_seek p f = (case f of (c, offset) \<Rightarrow>
     if p \<ge> int (length c) - 1 then (- 1, c, offset)
     else if p = - 1 then (int (length c) - 1, c, length c - 1)
     else (p, c, nat p))"

definition shows_log :: "host \<Rightarrow> file_object \<Rightarrow> u8 list \<times> nat \<Rightarrow> bool" where
  "shows_log h f v \<longleftrightarrow> file_type f = STANDARD_MODE \<and> (case FilePointer f of
     None \<Rightarrow> False | Some p \<Rightarrow> file_of p h = Some (fst v) \<and> currentOffset p = int (snd v))"

lemma file_of_id: "file_id p = file_id q \<Longrightarrow> file_of p h = file_of q h"
  by (simp add: file_of_def)

text \<open>C19: A file that a program opened in standard mode is a log. A read returns the bytes at the offset and moves the
  offset past them, and its answer is the number asked for or -2 when the file ends before that; a write puts its
  bytes at the end of the file, wherever the offset is, and leaves the offset; and a seek sets the offset
  to a position before the last byte, or with -1 to the last byte, and is refused otherwise.\<close>

theorem file_is_a_log:
  assumes "shows_log h f (c, offset)"
  shows "(\<exists>h' f'. ReadFile net (int n) h f = Inr (fst (log_read n (c, offset)), fst (snd (log_read n (c, offset))), h', f')
      \<and> shows_log h' f' (snd (snd (log_read n (c, offset)))))
    \<and> (\<exists>h'. WriteFile_object net (bytes @ rest) (int (length bytes)) h f = Inr (int (length bytes), h')
      \<and> shows_log h' f (log_write bytes (c, offset)))
    \<and> (- 1 \<le> position \<longrightarrow> (\<exists>h' f'. seekFile position h f = Inr (fst (log_seek position (c, offset)), h', f')
      \<and> shows_log h' f' (snd (log_seek position (c, offset)))))"
proof -
  obtain p where p: "file_type f = STANDARD_MODE" "FilePointer f = Some p" "file_of p h = Some c" "currentOffset p = int offset"
    using assms by (auto simp: shows_log_def split: option.splits)
  have types: "file_type f \<noteq> SOCKET_MODE" "file_type f \<noteq> READONLY_MODE" using p(1) by (simp_all add: file_modes)
  let ?bytes = "take n (drop offset c)"
  obtain h1 where h1: "OpenFile_ReadAt p (int n) (int offset) h = ((int (length ?bytes), ?bytes), h1)" "file_of p h1 = Some c"
    by (rule ReadAt_run[OF p(3), of "int n" "int offset"]) simp_all
  have rd: "ReadFile net (int n) h f = Inr (if length ?bytes < n then - 2 else int n, ?bytes, h1,
      f\<lparr>FilePointer := Some (p\<lparr>currentOffset := int (offset + length ?bytes)\<rparr>)\<rparr>)"
    using h1(1) p types(1) by (auto simp: ReadFile_def OpenFile_Read_def)
  obtain h2 where h2: "OpenFile_Length p h = (int (length c) - 1, h2)" "file_of p h2 = Some c" by (rule Length_run[OF p(3)])
  obtain h3 where h3: "OpenFile_WriteAt p bytes (int (length c)) h2 = (int (length bytes), h3)" "file_of p h3 = Some (c @ bytes)"
    by (rule WriteAt_run[OF h2(2), of "int (length c)" bytes]) (simp_all add: overwrite_end)
  have wr: "WriteFile_object net (bytes @ rest) (int (length bytes)) h f = Inr (int (length bytes), h3)"
    using h2(1) h3(1) p(2) types by (simp add: WriteFile_object_def)
  have sk: "\<exists>h' f'. seekFile position h f = Inr (fst (log_seek position (c, offset)), h', f')
      \<and> shows_log h' f' (snd (log_seek position (c, offset)))" if "- 1 \<le> position"
  proof -
    obtain h4 where h4: "OpenFile_Length p h2 = (int (length c) - 1, h4)" "file_of p h4 = Some c" by (rule Length_run[OF h2(2)])
    have f: "file_of (p\<lparr>currentOffset := q\<rparr>) h = file_of p h" for q h by (rule file_of_id) simp
    show ?thesis
      using that p types(1) h2 h4 f
      by (auto simp: seekFile_def log_seek_def shows_log_def get_def OpenFile_Seek_def Suc_le_eq)
  qed
  show ?thesis
    using rd wr sk h1(2) h3(2) p file_of_id[of "p\<lparr>currentOffset := int (offset + length ?bytes)\<rparr>" p]
    by (auto simp: log_read_def log_write_def shows_log_def Let_def)
qed

text \<open>A file that was just opened shows its contents from the beginning.\<close>

lemma openFile_shows_log:
  assumes "openFile hp name STANDARD_MODE h f = Inr (i, h', f')" "hp name = Some s" "names h (c_string s) = Some node"
  shows "shows_log h' f' (nodes h node, 0)"
  using assms
  by (auto simp: openFile_def FileSystem_Open_def OpenForReadWrite_def new_descriptor_def shows_log_def file_of_def Let_def
      split: option.splits if_splits prod.splits)

theorem file_is_a_log_witness:
  "\<exists>h f. shows_log h f ([104, 105], 0) \<and> (\<exists>h' f'. ReadFile (sockets start_os) 2 h f = Inr (2, [104, 105], h', f')
      \<and> shows_log h' f' ([104, 105], 2)) \<and> (\<exists>h' f'. seekFile 1 h f = Inr (- 1, h', f'))"
proof -
  let ?h = "\<lparr>nodes = (\<lambda>_. [104, 105]), next_node = 1, names = [[97] \<mapsto> 0], descriptors = [3 \<mapsto> (0, 0)], fd_limit = 16\<rparr>"
  let ?f = "File_new\<lparr>FilePointer := Some \<lparr>file_id = 3, currentOffset = 0\<rparr>, file_type := STANDARD_MODE\<rparr>"
  have s: "shows_log ?h ?f ([104, 105], 0)" by (simp add: shows_log_def file_of_def)
  note t = file_is_a_log[OF s, of "sockets start_os" 2 "[]" "[]" 1]
  have r: "log_read 2 ([104, 105 :: u8], 0) = (2, [104, 105], [104, 105], 2)" "fst (log_seek 1 ([104, 105 :: u8], 0)) = - 1"
    by (simp_all add: log_read_def log_seek_def)
  have "\<exists>h' f'. ReadFile (sockets start_os) 2 ?h ?f = Inr (2, [104, 105], h', f') \<and> shows_log h' f' ([104, 105], 2)"
    using t[THEN conjunct1] r(1) by simp
  moreover have "\<exists>h' f'. seekFile 1 ?h ?f = Inr (- 1, h', f')"
    using t[THEN conjunct2, THEN conjunct2] r(2) by simp blast
  ultimately show ?thesis using s by blast
qed

section \<open>Closing a file\<close>

text \<open>The number of an open file is taken for its place in the table: from 20 on this is outside of the table,
  and below it another place is closed, so that the call succeeds and the file stays open.\<close>

lemma closeFile_takes_number_for_place:
  assumes "find_ident i tb = Some k" "0 \<le> i" "length (open_files tb) = MaxSize"
  shows "int MaxSize \<le> i \<Longrightarrow> closeFile i h tb = Inl OutOfBounds"
    "i < int MaxSize \<Longrightarrow> nat i \<noteq> k \<Longrightarrow> file_type (open_files tb ! nat i) = - 1 \<Longrightarrow>
      \<exists>tb'. closeFile i h tb = Inr (0, h, tb') \<and> open_files tb' ! k = open_files tb ! k \<and> ident (open_files tb' ! k) = i"
proof -
  have k: "ident (open_files tb ! k) = i" "k < MaxSize" using assms(1) by (auto simp: find_ident_def first_below_Some)
  have i: "isOpened i tb = i" using assms(1) k by (simp add: isOpened_def)
  show "closeFile i h tb = Inl OutOfBounds" if "int MaxSize \<le> i"
  proof -
    have "\<not> nat i < MaxSize" using that by linarith
    then show ?thesis using i assms(2,3) by (simp add: closeFile_def arr_get_def check_def)
  qed
  show "i < int MaxSize \<Longrightarrow> nat i \<noteq> k \<Longrightarrow> file_type (open_files tb ! nat i) = - 1 \<Longrightarrow>
      \<exists>tb'. closeFile i h tb = Inr (0, h, tb') \<and> open_files tb' ! k = open_files tb ! k \<and> ident (open_files tb' ! k) = i"
    using i k assms(2,3) by (auto simp: closeFile_def arr_get_def check_def CloseFile_def file_modes nat_less_iff)
qed

section \<open>Removing a file\<close>

text \<open>Looking for a name compares it with what every place of the table points to: a place where no file
  was opened holds an uninitialised pointer, and one where a file was opened the name that \<open>HandleOpen\<close> has deleted.\<close>

lemma name_search_undefined:
  assumes "file_name f = Garbage \<or> (\<exists>q. file_name f = At q \<and> hp q = None)"
  shows "isOpened_name hp name type (f # fs) = Inl Uninitialised"
  using assms by (auto simp: strcmp_equal_def split: option.split)

lemma SysRemove_undefined:
  assumes "open_files (opened (the_os s)) = f # fs"
    "file_name f = Garbage \<or> (\<exists>q. file_name f = At q \<and> strings (the_os s) q = None)"
  shows "SysRemove name s = Inl Uninitialised"
  using name_search_undefined[OF assms(2)] assms(1)
  by (simp add: SysRemove_def close_by_name_def file_op_def bind_op_def ask_def attempt_def)

lemma SysRemove_at_start: "opened (the_os s) = Table_new \<Longrightarrow> SysRemove name s = Inl Uninitialised"
  by (rule SysRemove_undefined[of _ File_new "replicate 19 File_new"])
    (simp_all add: Table_new_def File_new_def numeral_eq_Suc)

end
